(* ===== verification/Prelude.thy ===== *)
theory Prelude
  imports Main "HOL-Library.Word"
begin

text \<open>
  Shared vocabulary of the development: error codes, C integer arithmetic, byte
  buffers and byte-addressed stores.

  Unsigned C integers that hold sizes, offsets and counts are natural numbers.  Where
  the source can wrap around, the wrap-around is written out with \<open>add64\<close>, \<open>sub64\<close>
  and \<open>mul64\<close>; elsewhere the operands are bounded by a check in the code itself, and
  plain arithmetic is used.  Flag words keep their width as \<open>32 word\<close> or \<open>64 word\<close>.
\<close>

named_theorems wrap_simps
  \<comment> \<open>removal of 64-bit wrap-around under its side condition\<close>
named_theorems buf_simps
  \<comment> \<open>byte buffers and byte-addressed stores\<close>

type_synonym byte = "8 word"
type_synonym u64 = nat
type_synonym u32 = nat

text \<open>
  The \<open>errno\<close> values the modelled code returns.  \<open>EOTHER\<close> stands for any further
  value a system call may deliver.
\<close>

datatype errno =
    EINVAL | EIO | ENOENT | ENOMEM | EFBIG | EROFS | ENOTSUP | EOPNOTSUPP | EACCES
  | ENAMETOOLONG | ELOOP | E2BIG | EBUSY | EOVERFLOW | ENXIO | EEXIST | ESRCH | EOTHER nat

type_synonym 'a res = "errno + 'a"

abbreviation (input) UINT64_MAX :: nat where "UINT64_MAX \<equiv> 18446744073709551615"
abbreviation (input) UINT32_MAX :: nat where "UINT32_MAX \<equiv> 4294967295"
abbreviation (input) SIZE_MAX :: nat where "SIZE_MAX \<equiv> 18446744073709551615"
abbreviation (input) INT64_MAX :: nat where "INT64_MAX \<equiv> 9223372036854775807"

subsection \<open>64-bit unsigned arithmetic on natural numbers\<close>

definition add64 :: "u64 \<Rightarrow> u64 \<Rightarrow> u64" where
  "add64 a b = (a + b) mod 18446744073709551616"

definition sub64 :: "u64 \<Rightarrow> u64 \<Rightarrow> u64" where
  "sub64 a b = (if b \<le> a then a - b else (a + 18446744073709551616 - b) mod 18446744073709551616)"

definition mul64 :: "u64 \<Rightarrow> u64 \<Rightarrow> u64" where
  "mul64 a b = (a * b) mod 18446744073709551616"

lemma add64_exact [wrap_simps]: "a + b \<le> UINT64_MAX \<Longrightarrow> add64 a b = a + b"
  by (simp add: add64_def)

lemma sub64_exact [wrap_simps]: "b \<le> a \<Longrightarrow> sub64 a b = a - b"
  by (simp add: sub64_def)

lemma mul64_exact [wrap_simps]: "a * b \<le> UINT64_MAX \<Longrightarrow> mul64 a b = a * b"
  by (simp add: mul64_def)

lemma add64_le [simp]: "add64 a b \<le> UINT64_MAX"
  using mod_less_divisor [of 18446744073709551616 "a + b"] by (simp add: add64_def)

lemma mul64_le [simp]: "mul64 a b \<le> UINT64_MAX"
  using mod_less_divisor [of 18446744073709551616 "a * b"] by (simp add: mul64_def)

lemma sub64_wraps: "a < b \<Longrightarrow> b \<le> UINT64_MAX \<Longrightarrow> sub64 a b = 18446744073709551616 - (b - a)"
  by (simp add: sub64_def)

subsection \<open>Results of fallible calls\<close>

definition is_ok :: "'a res \<Rightarrow> bool" where
  "is_ok r = (case r of Inl _ \<Rightarrow> False | Inr _ \<Rightarrow> True)"

lemma is_ok_simps [simp]: "is_ok (Inr x)" "\<not> is_ok (Inl e)"
  by (simp_all add: is_ok_def)

lemma is_ok_iff: "is_ok r \<longleftrightarrow> (\<exists>x. r = Inr x)"
  by (cases r) auto

text \<open>
  Sequencing with the early return of the C code: a call that fails ends the caller with
  its error code, and the state it left behind stays.
\<close>

definition and_then :: "'s \<times> 'a res \<Rightarrow> ('s \<Rightarrow> 'a \<Rightarrow> 's \<times> 'b res) \<Rightarrow> 's \<times> 'b res" where
  "and_then m k = (case m of (s, Inl e) \<Rightarrow> (s, Inl e) | (s, Inr x) \<Rightarrow> k s x)"

lemma and_then_simps [simp]:
  "and_then (s, Inl e) k = (s, Inl e)" "and_then (s, Inr x) k = k s x"
  by (simp_all add: and_then_def)

lemma and_then_cong [fundef_cong]:
  "m = m' \<Longrightarrow> (\<And>s x. m' = (s, Inr x) \<Longrightarrow> k s x = k' s x) \<Longrightarrow> and_then m k = and_then m' k'"
  by (auto simp: and_then_def split: prod.splits sum.splits)

lemma and_then_ok_iff:
  "and_then m k = (t, Inr y) \<longleftrightarrow> (\<exists>s x. m = (s, Inr x) \<and> k s x = (t, Inr y))"
  by (auto simp: and_then_def split: prod.splits sum.splits)

lemma and_then_cases:
  assumes "and_then m k = (t, r)"
  obtains (fail) e where "m = (t, Inl e)" "r = Inl e"
  | (ok) s x where "m = (s, Inr x)" "k s x = (t, r)"
  using assms by (auto simp: and_then_def split: prod.splits sum.splits)

subsection \<open>Buffers\<close>

text \<open>
  \<open>overwrite off new buf\<close> is the buffer after \<open>memcpy(buf + off, new, length new)\<close>;
  \<open>buf_slice off n buf\<close> reads \<open>n\<close> bytes at \<open>buf + off\<close>.
\<close>

definition overwrite :: "nat \<Rightarrow> 'a list \<Rightarrow> 'a list \<Rightarrow> 'a list" where
  "overwrite off new buf = take off buf @ new @ drop (off + length new) buf"

definition buf_slice :: "nat \<Rightarrow> nat \<Rightarrow> 'a list \<Rightarrow> 'a list" where
  "buf_slice off n buf = take n (drop off buf)"

lemma length_overwrite [simp, buf_simps]:
  "off + length new \<le> length buf \<Longrightarrow> length (overwrite off new buf) = length buf"
  by (simp add: overwrite_def)

lemma length_slice [simp, buf_simps]: "off + n \<le> length buf \<Longrightarrow> length (buf_slice off n buf) = n"
  by (simp add: buf_slice_def)

lemma nth_overwrite [buf_simps]:
  assumes "off + length new \<le> length buf" "i < length buf"
  shows "overwrite off new buf ! i =
    (if off \<le> i \<and> i < off + length new then new ! (i - off) else buf ! i)"
  using assms by (auto simp: overwrite_def nth_append)

lemma nth_slice [buf_simps]: "off + n \<le> length buf \<Longrightarrow> i < n \<Longrightarrow> buf_slice off n buf ! i = buf ! (off + i)"
  by (simp add: buf_slice_def)

lemma slice_overwrite_same [simp, buf_simps]:
  "off + length new \<le> length buf \<Longrightarrow> n = length new \<Longrightarrow> buf_slice off n (overwrite off new buf) = new"
  by (simp add: buf_slice_def overwrite_def)

lemma slice_overwrite_disjoint [simp, buf_simps]:
  assumes "off' + length new \<le> length buf" "off + n \<le> length buf"
    and "off + n \<le> off' \<or> off' + length new \<le> off"
  shows "buf_slice off n (overwrite off' new buf) = buf_slice off n buf"
  by (rule nth_equalityI) (use assms in \<open>auto simp: nth_slice nth_overwrite\<close>)

lemma overwrite_overwrite_same:
  assumes "off + length new \<le> length buf" "length old = length new"
  shows "overwrite off new (overwrite off old buf) = overwrite off new buf"
  by (rule nth_equalityI) (use assms in \<open>auto simp: nth_overwrite\<close>)

lemma overwrite_slice_id:
  assumes "off + n \<le> length buf"
  shows "overwrite off (buf_slice off n buf) buf = buf"
  by (rule nth_equalityI) (use assms in \<open>auto simp: nth_overwrite nth_slice\<close>)

subsection \<open>Byte-addressed stores\<close>

text \<open>
  A store maps every address to a byte.  \<open>get_bytes\<close> reads a range, \<open>put_bytes\<close>
  overwrites one.
\<close>

definition get_bytes :: "(nat \<Rightarrow> 'a) \<Rightarrow> nat \<Rightarrow> nat \<Rightarrow> 'a list" where
  "get_bytes m off n = map (\<lambda>i. m (off + i)) [0..<n]"

definition put_bytes :: "(nat \<Rightarrow> 'a) \<Rightarrow> nat \<Rightarrow> 'a list \<Rightarrow> nat \<Rightarrow> 'a" where
  "put_bytes m off bs = (\<lambda>a. if off \<le> a \<and> a < off + length bs then bs ! (a - off) else m a)"

lemma length_get_bytes [simp]: "length (get_bytes m off n) = n"
  by (simp add: get_bytes_def)

lemma nth_get_bytes [simp]: "i < n \<Longrightarrow> get_bytes m off n ! i = m (off + i)"
  by (simp add: get_bytes_def)

lemma get_bytes_0 [simp]: "get_bytes m off 0 = []"
  by (simp add: get_bytes_def)

lemma get_bytes_Nil_iff [simp]: "get_bytes m off n = [] \<longleftrightarrow> n = 0"
  by (simp add: get_bytes_def)

lemma get_bytes_eq_iff:
  "get_bytes m off n = get_bytes m' off' n \<longleftrightarrow> (\<forall>i<n. m (off + i) = m' (off' + i))"
  by (auto simp: list_eq_iff_nth_eq)

lemma get_bytes_cong:
  "(\<And>a. off \<le> a \<Longrightarrow> a < off + n \<Longrightarrow> m a = m' a) \<Longrightarrow> get_bytes m off n = get_bytes m' off n"
  by (simp add: get_bytes_eq_iff)

lemma get_bytes_append: "get_bytes m off a @ get_bytes m (off + a) b = get_bytes m off (a + b)"
  by (rule nth_equalityI) (auto simp: nth_append)

lemma put_bytes_Nil [simp]: "put_bytes m off [] = m"
  by (rule ext) (auto simp: put_bytes_def)

lemma put_bytes_in: "off \<le> a \<Longrightarrow> a < off + length bs \<Longrightarrow> put_bytes m off bs a = bs ! (a - off)"
  by (simp add: put_bytes_def)

lemma put_bytes_out: "a < off \<or> off + length bs \<le> a \<Longrightarrow> put_bytes m off bs a = m a"
  by (auto simp: put_bytes_def)

lemma put_bytes_append: "put_bytes (put_bytes m off xs) (off + length xs) ys = put_bytes m off (xs @ ys)"
  by (rule ext) (auto simp: put_bytes_def nth_append)

lemma get_put_bytes_same [simp]: "n = length bs \<Longrightarrow> get_bytes (put_bytes m off bs) off n = bs"
  by (rule nth_equalityI) (auto simp: put_bytes_def)

lemma get_put_bytes_disjoint:
  "off + n \<le> off' \<or> off' + length bs \<le> off \<Longrightarrow> get_bytes (put_bytes m off' bs) off n = get_bytes m off n"
  by (rule get_bytes_cong) (auto simp: put_bytes_def)

subsection \<open>Division facts used for cluster arithmetic\<close>

lemma div_times_le: "(a::nat) div c * c \<le> a"
  by (metis div_times_less_eq_dividend)

lemma less_div_Suc_times: "0 < c \<Longrightarrow> (a::nat) < (a div c + 1) * c"
  using dividend_less_div_times [of c a] by (simp add: algebra_simps)

lemma div_eq_of_bounds: "i * c \<le> a \<Longrightarrow> a < (i + 1) * c \<Longrightarrow> (a::nat) div c = i"
  by (metis Suc_eq_plus1 div_nat_eqI mult.commute)

lemma ceil_div_bounds:
  fixes v c :: nat
  assumes "0 < c" "0 < v"
  shows "v \<le> (v + c - 1) div c * c" "(v + c - 1) div c * c < v + c"
proof -
  have "(v + c - 1) = (v + c - 1) div c * c + (v + c - 1) mod c" by simp
  moreover have "(v + c - 1) mod c < c" using assms by simp
  ultimately show "v \<le> (v + c - 1) div c * c" "(v + c - 1) div c * c < v + c"
    using assms by linarith+
qed

lemma less_ceil_div:
  fixes v c x :: nat
  assumes "0 < c" "x < v"
  shows "x div c < (v + c - 1) div c"
proof -
  have "v \<le> (v + c - 1) div c * c" using assms by (intro ceil_div_bounds) auto
  then have "x < (v + c - 1) div c * c" using assms by linarith
  then show ?thesis using assms by (simp add: less_mult_imp_div_less)
qed

subsection \<open>Masks\<close>

unbundle bit_operations_syntax

lemma and_pow2_minus_1: "(x::nat) AND (2 ^ k - 1) = x mod 2 ^ k"
  by (simp only: mask_eq_exp_minus_1 [symmetric] take_bit_eq_mask [symmetric] take_bit_eq_mod)

lemma and_high_bits:
  fixes x :: nat
  assumes "x < 2 ^ 64" "k \<le> 64"
  shows "x AND (2 ^ 64 - 2 ^ k) = x div 2 ^ k * 2 ^ k"
proof -
  have "(2 ^ (64 - k) - 1) * 2 ^ k = (2 ^ 64 :: nat) - 2 ^ k"
    using assms(2) by (simp add: diff_mult_distrib flip: power_add)
  then have m: "2 ^ 64 - 2 ^ k = push_bit k (mask (64 - k) :: nat)"
    by (simp add: push_bit_eq_mult mask_eq_exp_minus_1)
  have "take_bit 64 x = x" using assms(1) by (simp add: take_bit_nat_eq_self)
  then have b: "bit x n \<Longrightarrow> n < 64" for n by (metis bit_take_bit_iff)
  have "x AND push_bit k (mask (64 - k)) = push_bit k (drop_bit k x)"
    by (rule bit_eqI) (auto simp: bit_and_iff bit_push_bit_iff bit_mask_iff bit_drop_bit_eq dest: b)
  then show ?thesis unfolding m by (simp add: push_bit_eq_mult drop_bit_eq_div)
qed

end
