(* ===== verification/Endian.thy ===== *)
theory Endian
  imports Prelude
begin

text \<open>
  The byte-stream codecs of \<^verbatim>\<open>include/scorpi/protocol/endian.h\<close>.  An encoder returns the
  bytes it stores at the destination pointer; a decoder takes the buffer and the offset
  at which the source applies it (\<open>le32dec(buf + off)\<close> is \<open>le32dec buf off\<close>).
\<close>

section \<open>Endian codecs\<close>

definition be16dec :: "byte list \<Rightarrow> nat \<Rightarrow> nat" where
  "be16dec p o' = unat (p ! o') * 256 + unat (p ! (o' + 1))"

definition be32dec :: "byte list \<Rightarrow> nat \<Rightarrow> nat" where
  "be32dec p o' = unat (p ! o') * 16777216 + unat (p ! (o' + 1)) * 65536 +
     unat (p ! (o' + 2)) * 256 + unat (p ! (o' + 3))"

definition be64dec :: "byte list \<Rightarrow> nat \<Rightarrow> nat" where
  "be64dec p o' = be32dec p o' * 4294967296 + be32dec p (o' + 4)"

definition le16dec :: "byte list \<Rightarrow> nat \<Rightarrow> nat" where
  "le16dec p o' = unat (p ! (o' + 1)) * 256 + unat (p ! o')"

definition le32dec :: "byte list \<Rightarrow> nat \<Rightarrow> nat" where
  "le32dec p o' = unat (p ! (o' + 3)) * 16777216 + unat (p ! (o' + 2)) * 65536 +
     unat (p ! (o' + 1)) * 256 + unat (p ! o')"

definition le64dec :: "byte list \<Rightarrow> nat \<Rightarrow> nat" where
  "le64dec p o' = le32dec p (o' + 4) * 4294967296 + le32dec p o'"

definition be16enc :: "nat \<Rightarrow> byte list" where
  "be16enc u = [of_nat (u div 256), of_nat u]"

definition be32enc :: "nat \<Rightarrow> byte list" where
  "be32enc u = [of_nat (u div 16777216), of_nat (u div 65536), of_nat (u div 256), of_nat u]"

definition be64enc :: "nat \<Rightarrow> byte list" where
  "be64enc u = be32enc (u div 4294967296) @ be32enc (u mod 4294967296)"

definition le16enc :: "nat \<Rightarrow> byte list" where
  "le16enc u = [of_nat u, of_nat (u div 256)]"

definition le32enc :: "nat \<Rightarrow> byte list" where
  "le32enc u = [of_nat u, of_nat (u div 256), of_nat (u div 65536), of_nat (u div 16777216)]"

definition le64enc :: "nat \<Rightarrow> byte list" where
  "le64enc u = le32enc (u mod 4294967296) @ le32enc (u div 4294967296)"

lemma length_enc [simp]:
  "length (be16enc u) = 2" "length (be32enc u) = 4" "length (be64enc u) = 8"
  "length (le16enc u) = 2" "length (le32enc u) = 4" "length (le64enc u) = 8"
  by (simp_all add: be16enc_def be32enc_def be64enc_def le16enc_def le32enc_def le64enc_def)

subsection \<open>Ranges of the decoders\<close>

lemma unat_byte_less: "unat (b::byte) < 256"
  using unsigned_less [of b] by simp

lemma le16dec_less [simp]: "le16dec p off < 65536"
  unfolding le16dec_def
  using unat_byte_less [of "p ! off"] unat_byte_less [of "p ! (off + 1)"] by linarith

lemma le32dec_le [simp]: "le32dec p off \<le> UINT32_MAX"
  unfolding le32dec_def
  using unat_byte_less [of "p ! off"] unat_byte_less [of "p ! (off + 1)"]
    unat_byte_less [of "p ! (off + 2)"] unat_byte_less [of "p ! (off + 3)"] by linarith

lemma le64dec_le [simp]: "le64dec p off \<le> UINT64_MAX"
  unfolding le64dec_def using le32dec_le [of p off] le32dec_le [of p "off + 4"] by linarith

lemma be32dec_le [simp]: "be32dec p off \<le> UINT32_MAX"
  unfolding be32dec_def
  using unat_byte_less [of "p ! off"] unat_byte_less [of "p ! (off + 1)"]
    unat_byte_less [of "p ! (off + 2)"] unat_byte_less [of "p ! (off + 3)"] by linarith

lemma be64dec_le [simp]: "be64dec p off \<le> UINT64_MAX"
  unfolding be64dec_def using be32dec_le [of p off] be32dec_le [of p "off + 4"] by linarith

subsection \<open>Decoding reads a buf_slice\<close>

text \<open>
  A decoder depends only on the bytes it reads, so a decode can be moved through any
  update of other parts of the buffer.
\<close>

lemma le16dec_slice: "off + 2 \<le> length p \<Longrightarrow> le16dec p off = le16dec (buf_slice off 2 p) 0"
  by (simp add: le16dec_def nth_slice)

lemma le32dec_slice: "off + 4 \<le> length p \<Longrightarrow> le32dec p off = le32dec (buf_slice off 4 p) 0"
  by (simp add: le32dec_def nth_slice)

lemma le64dec_slice: "off + 8 \<le> length p \<Longrightarrow> le64dec p off = le64dec (buf_slice off 8 p) 0"
  by (simp add: le64dec_def le32dec_def nth_slice add.commute)

subsection \<open>Round trips\<close>

lemma unat_of_nat_byte: "unat (of_nat n :: byte) = n mod 256"
  by (simp add: unat_of_nat)

lemma le16dec_enc [simp]: "u < 65536 \<Longrightarrow> le16dec (le16enc u) 0 = u"
  by (simp add: le16dec_def le16enc_def unat_of_nat_byte)

lemma split4: "u = u div 16777216 * 16777216 + (u div 65536 mod 256) * 65536 +
    (u div 256 mod 256) * 256 + u mod 256" for u :: nat
proof -
  have "u = u div 256 * 256 + u mod 256" by simp
  also have "u div 256 = u div 65536 * 256 + u div 256 mod 256"
    using div_mult_mod_eq [of "u div 256" 256] by (simp add: div_mult2_eq [symmetric])
  also have "u div 65536 = u div 16777216 * 256 + u div 65536 mod 256"
    using div_mult_mod_eq [of "u div 65536" 256] by (simp add: div_mult2_eq [symmetric])
  finally show ?thesis by simp
qed

lemma le32dec_enc [simp]:
  assumes "u \<le> UINT32_MAX"
  shows "le32dec (le32enc u) 0 = u"
proof -
  have "u div 16777216 < 256" using assms by simp
  then show ?thesis using split4 [of u]
    by (simp add: le32dec_def le32enc_def unat_of_nat_byte numeral_2_eq_2 numeral_3_eq_3)
qed

lemma be32dec_enc [simp]:
  assumes "u \<le> UINT32_MAX"
  shows "be32dec (be32enc u) 0 = u"
proof -
  have "u div 16777216 < 256" using assms by simp
  then show ?thesis using split4 [of u]
    by (simp add: be32dec_def be32enc_def unat_of_nat_byte numeral_2_eq_2 numeral_3_eq_3)
qed

lemma le32dec_append1: "4 \<le> length xs \<Longrightarrow> le32dec (xs @ ys) 0 = le32dec xs 0"
  by (auto simp: le32dec_def nth_append)

lemma le32dec_append2: "length xs = 4 \<Longrightarrow> le32dec (xs @ ys) 4 = le32dec ys 0"
  by (simp add: le32dec_def nth_append numeral_2_eq_2)

lemma le64dec_enc [simp]:
  assumes "u \<le> UINT64_MAX"
  shows "le64dec (le64enc u) 0 = u"
proof -
  have "u div 4294967296 \<le> UINT32_MAX" using assms by simp
  moreover have "u mod 4294967296 \<le> UINT32_MAX"
    using mod_less_divisor [of 4294967296 u] by simp
  ultimately show ?thesis
    by (simp add: le64dec_def le64enc_def le32dec_append1 le32dec_append2)
qed

lemma be32dec_append1: "4 \<le> length xs \<Longrightarrow> be32dec (xs @ ys) 0 = be32dec xs 0"
  by (auto simp: be32dec_def nth_append)

lemma be32dec_append2: "length xs = 4 \<Longrightarrow> be32dec (xs @ ys) 4 = be32dec ys 0"
  by (simp add: be32dec_def nth_append numeral_2_eq_2)

lemma be64dec_enc [simp]:
  assumes "u \<le> UINT64_MAX"
  shows "be64dec (be64enc u) 0 = u"
proof -
  have "u div 4294967296 \<le> UINT32_MAX" using assms by simp
  moreover have "u mod 4294967296 \<le> UINT32_MAX"
    using mod_less_divisor [of 4294967296 u] by simp
  ultimately show ?thesis
    by (simp add: be64dec_def be64enc_def be32dec_append1 be32dec_append2)
qed

lemma byte_of_nat_unat: "(of_nat (unat (b::byte) + 256 * k) :: byte) = b"
proof -
  have "(256 :: byte) = 0" by simp
  then have "(256 :: byte) * of_nat k = 0" by (metis mult_zero_left)
  then show ?thesis by simp
qed

lemma le16enc_dec:
  assumes "2 \<le> length p"
  shows "le16enc (le16dec p 0) = take 2 p"
proof -
  from assms obtain a b q where p: "p = a # b # q"
    by (cases p; cases "tl p") auto
  have "(unat b * 256 + unat a) div 256 = unat b"
    using unat_byte_less [of a] by simp
  then show ?thesis using byte_of_nat_unat [of a "unat b"]
    by (simp add: p le16enc_def le16dec_def algebra_simps)
qed

lemma le32enc_dec:
  assumes "4 \<le> length p"
  shows "le32enc (le32dec p 0) = take 4 p"
proof -
  from assms obtain a b c d q where p: "p = a # b # c # d # q"
    by (cases p; cases "tl p"; cases "tl (tl p)"; cases "tl (tl (tl p))") auto
  let ?v = "unat d * 16777216 + unat c * 65536 + unat b * 256 + unat a"
  have v1: "?v = unat a + 256 * (unat b + 256 * (unat c + 256 * unat d))" by simp
  have d1: "?v div 256 = unat b + 256 * (unat c + 256 * unat d)"
    by (rule div_nat_eqI) (use unat_byte_less [of a] in simp_all)
  have d2: "?v div 65536 = unat c + 256 * unat d"
    by (rule div_nat_eqI) (use unat_byte_less [of a] unat_byte_less [of b] in simp_all)
  have d3: "?v div 16777216 = unat d"
    by (rule div_nat_eqI)
      (use unat_byte_less [of a] unat_byte_less [of b] unat_byte_less [of c] in simp_all)
  have "le32dec p 0 = ?v" by (simp add: p le32dec_def numeral_2_eq_2 numeral_3_eq_3)
  then show ?thesis
    using byte_of_nat_unat [of a "unat b + 256 * (unat c + 256 * unat d)"]
      byte_of_nat_unat [of b "unat c + 256 * unat d"] byte_of_nat_unat [of c "unat d"]
    unfolding le32enc_def d1 d2 d3 v1 [symmetric] by (simp add: p d1 d2 d3)
qed

lemma le64enc_dec:
  assumes "8 \<le> length p"
  shows "le64enc (le64dec p 0) = take 8 p"
proof -
  have lo: "le32dec p 0 < 4294967296" using le32dec_le [of p 0] by linarith
  have "le32dec p 4 = le32dec (drop 4 p) 0"
    using assms by (simp add: le32dec_def add.commute)
  then have "le64enc (le64dec p 0) = le32enc (le32dec p 0) @ le32enc (le32dec (drop 4 p) 0)"
    using lo by (simp add: le64enc_def le64dec_def)
  also have "\<dots> = take 4 p @ take 4 (drop 4 p)"
    using assms by (simp add: le32enc_dec)
  also have "\<dots> = take 8 p" by (metis numeral_Bit0 take_add)
  finally show ?thesis .
qed

end
