(* ===== verification/Crc32c.thy ===== *)
theory Crc32c
  imports Endian
begin

text \<open>
  The checksum of \<^verbatim>\<open>src/scorpi_crc32c.c\<close>: the bitwise routine that serves every host, and
  the word-at-a-time loops for x86 (SSE4.2) and AArch64.  The CPU instructions behind
  those loops are parameters; what the loops rely on is their documented effect, the remainder
  of a polynomial division, which is also what CRC-32C is defined by.
\<close>

unbundle bit_operations_syntax

section \<open>CRC-32C\<close>

definition crc32c_bit :: "32 word \<Rightarrow> 32 word" where
  "crc32c_bit crc =
     (if crc AND 1 \<noteq> 0 then drop_bit 1 crc XOR 0x82f63b78 else drop_bit 1 crc)"

definition crc32c_byte :: "32 word \<Rightarrow> byte \<Rightarrow> 32 word" where
  "crc32c_byte crc b = (crc32c_bit ^^ 8) (crc XOR ucast b)"

definition scorpi_crc32c_soft :: "byte list \<Rightarrow> 32 word" where
  "scorpi_crc32c_soft buf = NOT (foldl crc32c_byte 0xffffffff buf)"

text \<open>The CRC instructions of one CPU, by operand width.\<close>

record crc_insns =
  crc_u8 :: "32 word \<Rightarrow> byte \<Rightarrow> 32 word"
  crc_u16 :: "32 word \<Rightarrow> nat \<Rightarrow> 32 word"
  crc_u32 :: "32 word \<Rightarrow> nat \<Rightarrow> 32 word"
  crc_u64 :: "32 word \<Rightarrow> nat \<Rightarrow> 32 word"

fun sse42_u64_loop :: "crc_insns \<Rightarrow> 32 word \<Rightarrow> byte list \<Rightarrow> 32 word \<times> byte list" where
  "sse42_u64_loop insn crc p =
     (if 8 \<le> length p then sse42_u64_loop insn (crc_u64 insn crc (le64dec p 0)) (drop 8 p)
      else (crc, p))"

fun sse42_u32_loop :: "crc_insns \<Rightarrow> 32 word \<Rightarrow> byte list \<Rightarrow> 32 word \<times> byte list" where
  "sse42_u32_loop insn crc p =
     (if 4 \<le> length p then sse42_u32_loop insn (crc_u32 insn crc (le32dec p 0)) (drop 4 p)
      else (crc, p))"

fun sse42_u8_loop :: "crc_insns \<Rightarrow> 32 word \<Rightarrow> byte list \<Rightarrow> 32 word" where
  "sse42_u8_loop insn crc [] = crc"
| "sse42_u8_loop insn crc (b # p) = sse42_u8_loop insn (crc_u8 insn crc b) p"

declare sse42_u64_loop.simps [simp del] sse42_u32_loop.simps [simp del]

text \<open>The first loop is compiled for x86-64 only.\<close>

definition scorpi_crc32c_sse42 :: "bool \<Rightarrow> crc_insns \<Rightarrow> byte list \<Rightarrow> 32 word" where
  "scorpi_crc32c_sse42 x86_64 insn buf =
     (let (crc, p) = (if x86_64 then sse42_u64_loop insn 0xffffffff buf else (0xffffffff, buf));
          (crc, p) = sse42_u32_loop insn crc p
      in NOT (sse42_u8_loop insn crc p))"

definition scorpi_crc32c_arm64 :: "crc_insns \<Rightarrow> byte list \<Rightarrow> 32 word" where
  "scorpi_crc32c_arm64 insn buf =
     (let (crc, p) = sse42_u64_loop insn 0xffffffff buf;
          (crc, p) = (if 4 \<le> length p then (crc_u32 insn crc (le32dec p 0), drop 4 p) else (crc, p));
          (crc, p) = (if 2 \<le> length p then (crc_u16 insn crc (le16dec p 0), drop 2 p) else (crc, p))
      in NOT (case p of [] \<Rightarrow> crc | b # _ \<Rightarrow> crc_u8 insn crc b))"

text \<open>The host CPUs \<open>scorpi_crc32c\<close> distinguishes: at build time, and on x86 also at run time.\<close>

datatype crc_host = Aarch64_crc crc_insns | X86_64 bool crc_insns | I386 bool crc_insns | Other_host

definition scorpi_crc32c_on :: "crc_host \<Rightarrow> byte list \<Rightarrow> 32 word" where
  "scorpi_crc32c_on host buf =
     (case host of
        Aarch64_crc insn \<Rightarrow> scorpi_crc32c_arm64 insn buf
      | X86_64 sse42 insn \<Rightarrow> if sse42 then scorpi_crc32c_sse42 True insn buf else scorpi_crc32c_soft buf
      | I386 sse42 insn \<Rightarrow> if sse42 then scorpi_crc32c_sse42 False insn buf else scorpi_crc32c_soft buf
      | Other_host \<Rightarrow> scorpi_crc32c_soft buf)"

text \<open>
  The checksum the image code calls.  Every host computes it, as shown below, so the image model
  uses the portable routine.
\<close>

definition scorpi_crc32c :: "byte list \<Rightarrow> 32 word" where
  "scorpi_crc32c = scorpi_crc32c_on Other_host"

section \<open>The definition of CRC-32C\<close>

text \<open>
  Polynomials over the field of two elements, the coefficient of the highest power first.
  \<open>poly_add\<close> adds its second argument to the leading terms of the first, and \<open>poly_mod\<close> is long
  division by the Castagnoli polynomial, which has the degree 32.
\<close>

fun poly_add :: "bool list \<Rightarrow> bool list \<Rightarrow> bool list" where
  "poly_add (x # xs) (y # ys) = (x \<noteq> y) # poly_add xs ys"
| "poly_add xs [] = xs"
| "poly_add [] ys = []"

lemma length_poly_add [simp]: "length (poly_add xs ys) = length xs"
  by (induction xs ys rule: poly_add.induct) simp_all

text \<open>The terms below \<open>x\<^sup>3\<^sup>2\<close> of the polynomial \<open>1EDC6F41\<close>.\<close>

definition castagnoli :: "bool list" where
  "castagnoli = map (bit (0x1edc6f41 :: 32 word)) (rev [0..<32])"

function poly_mod :: "bool list \<Rightarrow> bool list" where
  "poly_mod [] = []"
| "poly_mod (b # bs) =
     (if length bs < 32 then b # bs else poly_mod (if b then poly_add bs castagnoli else bs))"
  by pat_completeness auto
termination
  by (relation "measure length") auto

declare poly_mod.simps [simp del]

text \<open>
  One step of the checksum with an operand, as the manuals of both architectures give it: the
  reflected operand is shifted by 32 bits, the reflected checksum to its leading end, and the
  remainder of the sum is reflected.  The coefficients of a reflected number are its bits from the
  lowest up.
\<close>

definition crc32c_step :: "32 word \<Rightarrow> bool list \<Rightarrow> 32 word" where
  "crc32c_step crc src =
     horner_sum of_bool 2 (poly_mod (poly_add (src @ replicate 32 False) (map (bit crc) [0..<32])))"

definition byte_bits :: "byte list \<Rightarrow> bool list" where
  "byte_bits buf = concat (map (\<lambda>b. map (bit b) [0..<8]) buf)"

text \<open>The checksum of a message: initial value and result are inverted.\<close>

definition crc32c_of :: "byte list \<Rightarrow> 32 word" where
  "crc32c_of buf = NOT (crc32c_step 0xffffffff (byte_bits buf))"

text \<open>The documented effect of the instructions.\<close>

definition crc_insns_spec :: "crc_insns \<Rightarrow> bool" where
  "crc_insns_spec insn \<longleftrightarrow>
     (\<forall>c b. crc_u8 insn c b = crc32c_step c (map (bit b) [0..<8])) \<and>
     (\<forall>c v. v \<le> 65535 \<longrightarrow> crc_u16 insn c v = crc32c_step c (map (bit v) [0..<16])) \<and>
     (\<forall>c v. v \<le> UINT32_MAX \<longrightarrow> crc_u32 insn c v = crc32c_step c (map (bit v) [0..<32])) \<and>
     (\<forall>c v. v \<le> UINT64_MAX \<longrightarrow> crc_u64 insn c v = crc32c_step c (map (bit v) [0..<64]))"

text \<open>An instruction set that does what is documented.\<close>

definition crc_insns_model :: crc_insns where
  "crc_insns_model =
     \<lparr>crc_u8 = (\<lambda>c b. crc32c_step c (map (bit b) [0..<8])),
      crc_u16 = (\<lambda>c v. crc32c_step c (map (bit v) [0..<16])),
      crc_u32 = (\<lambda>c v. crc32c_step c (map (bit v) [0..<32])),
      crc_u64 = (\<lambda>c v. crc32c_step c (map (bit v) [0..<64]))\<rparr>"

lemma crc_insns_model_spec: "crc_insns_spec crc_insns_model"
  by (simp add: crc_insns_spec_def crc_insns_model_def)

subsection \<open>The shift register divides\<close>

definition crc32c_shift :: "32 word \<Rightarrow> bool \<Rightarrow> 32 word" where
  "crc32c_shift crc m = crc32c_bit (crc XOR of_bool m)"

lemma nth_poly_add:
  "i < length xs \<Longrightarrow> poly_add xs ys ! i = (if i < length ys then xs ! i \<noteq> ys ! i else xs ! i)"
  by (induction xs ys arbitrary: i rule: poly_add.induct) (auto simp: nth_Cons split: nat.splits)

text \<open>The constant of the code is the reflected polynomial.\<close>

lemma castagnoli_eq: "castagnoli = map (bit (0x82f63b78 :: 32 word)) [0..<32]"
  unfolding castagnoli_def by (simp add: upt_rec numeral_eq_Suc)

lemma castagnoli_reflected: "i < 32 \<Longrightarrow> castagnoli ! i = bit (0x82f63b78 :: 32 word) i"
  by (subst castagnoli_eq, subst nth_map) (simp_all del: upt_rec_numeral)

lemma upt32: "[0..<32] = 0 # [1..<32::nat]"
  by (rule upt_conv_Cons [THEN trans]) simp_all

lemma and_one_bit: "(a :: 32 word) AND 1 \<noteq> 0 \<longleftrightarrow> bit a 0"
  by (simp add: and_one_eq mod_2_eq_odd bit_0)

lemma length_castagnoli [simp]: "length castagnoli = 32"
  by (simp add: castagnoli_def)

lemma bit_crc32c_shift:
  assumes "i < 32"
  shows "bit (crc32c_shift c m) i = ((i < 31 \<and> bit c (Suc i)) \<noteq> ((bit c 0 \<noteq> m) \<and> castagnoli ! i))"
proof -
  have o: "(c XOR of_bool m) AND 1 \<noteq> 0 \<longleftrightarrow> bit c 0 \<noteq> m"
    unfolding and_one_bit by (auto simp: bit_simps)
  have d: "bit (drop_bit 1 (c XOR of_bool m)) i = (i < 31 \<and> bit c (Suc i))"
    using assms bit_imp_le_length [of c "Suc i"] by (auto simp: bit_simps)
  show ?thesis
    unfolding crc32c_shift_def crc32c_bit_def o using assms d castagnoli_reflected [OF assms]
    by (auto simp: bit_xor_iff)
qed

lemma poly_mod_shift:
  "poly_mod (poly_add ((m # ms) @ replicate 32 False) (map (bit c) [0..<32])) =
   poly_mod (poly_add (ms @ replicate 32 False) (map (bit (crc32c_shift c m)) [0..<32]))"
proof -
  let ?z = "ms @ replicate 32 False"
  define r where "r = poly_add ?z (map (bit c) [1..<32])"
  have len: "length r = length ms + 32" by (simp add: r_def del: upt_rec_numeral)
  have "(if m \<noteq> bit c 0 then poly_add r castagnoli else r) = poly_add ?z (map (bit (crc32c_shift c m)) [0..<32])"
  proof (rule nth_equalityI)
    fix i
    assume "i < length (if m \<noteq> bit c 0 then poly_add r castagnoli else r)"
    then have i: "i < length r" "i < length ?z" using len by (simp_all split: if_splits)
    have "(if m \<noteq> bit c 0 then poly_add r castagnoli else r) ! i = (r ! i \<noteq> (m \<noteq> bit c 0 \<and> i < 32 \<and> castagnoli ! i))"
      using nth_poly_add [OF i(1), of castagnoli] by simp
    moreover have "r ! i = (?z ! i \<noteq> (i < 31 \<and> bit c (Suc i)))"
      using nth_poly_add [OF i(2), of "map (bit c) [1..<32]"] by (auto simp: r_def simp del: upt_rec_numeral)
    moreover have "poly_add ?z (map (bit (crc32c_shift c m)) [0..<32]) ! i = (?z ! i \<noteq> (i < 32 \<and> bit (crc32c_shift c m) i))"
      using nth_poly_add [OF i(2), of "map (bit (crc32c_shift c m)) [0..<32]"] by (auto simp del: upt_rec_numeral)
    ultimately show "(if m \<noteq> bit c 0 then poly_add r castagnoli else r) ! i =
        poly_add ?z (map (bit (crc32c_shift c m)) [0..<32]) ! i"
      using bit_crc32c_shift [of i c m] by auto
  qed (simp add: len)
  moreover have "poly_add ((m # ms) @ replicate 32 False) (map (bit c) [0..<32]) = (m \<noteq> bit c 0) # r"
    by (simp only: upt32 list.map append_Cons poly_add.simps r_def)
  ultimately show ?thesis using len by (simp only: poly_mod.simps) simp
qed

lemma crc32c_step_shift: "crc32c_step crc src = foldl crc32c_shift crc src"
proof (induction src arbitrary: crc)
  case Nil
  have "poly_add (replicate 32 False) (map (bit crc) [0..<32]) = map (bit crc) [0..<32]"
    by (rule nth_equalityI) (auto simp: nth_poly_add simp del: upt_rec_numeral)
  moreover have "poly_mod (map (bit crc) [0..<32]) = map (bit crc) [0..<32]"
    by (simp only: upt32 list.map poly_mod.simps) simp
  ultimately show ?case by (simp add: crc32c_step_def horner_sum_bit_eq_take_bit take_bit_word_eq_self del: upt_rec_numeral)
next
  case (Cons m src)
  then show ?case by (simp only: crc32c_step_def poly_mod_shift foldl.simps)
qed

subsection \<open>The routine of the code shifts in the bits of each byte\<close>

lemma crc32c_bit_xor: "crc32c_bit (c XOR w) = crc32c_shift c (bit w 0) XOR drop_bit 1 w"
proof -
  have "(c XOR w) AND 1 \<noteq> 0 \<longleftrightarrow> (c XOR of_bool (bit w 0)) AND 1 \<noteq> 0"
    unfolding and_one_bit by (auto simp: bit_simps)
  moreover have "drop_bit 1 (c XOR of_bool (bit w 0)) = drop_bit 1 c"
    by (rule bit_eqI) (auto simp: bit_simps)
  moreover have "drop_bit 1 (c XOR w) = drop_bit 1 c XOR drop_bit 1 w" by (simp add: drop_bit_xor)
  ultimately show ?thesis by (simp add: crc32c_shift_def crc32c_bit_def xor.assoc xor.commute xor.left_commute)
qed

lemma crc32c_bits_shift:
  fixes w :: "32 word"
  shows "take_bit n w = w \<Longrightarrow> (crc32c_bit ^^ n) (c XOR w) = foldl crc32c_shift c (map (bit w) [0..<n])"
proof (induction n arbitrary: c w)
  case 0
  then have "w = 0" by simp
  then show ?case by simp
next
  case (Suc n)
  have "take_bit n (drop_bit 1 w) = drop_bit 1 w"
    using Suc.prems by (metis drop_bit_take_bit diff_Suc_1 plus_1_eq_Suc add.commute)
  from Suc.IH [OF this, of "crc32c_shift c (bit w 0)"]
  have "(crc32c_bit ^^ Suc n) (c XOR w) = foldl crc32c_shift (crc32c_shift c (bit w 0)) (map (bit (drop_bit 1 w)) [0..<n])"
    by (simp add: funpow_swap1 crc32c_bit_xor)
  moreover have "map (bit w) [0..<Suc n] = bit w 0 # map (bit (drop_bit 1 w)) [0..<n]"
    by (rule nth_equalityI) (auto simp: nth_Cons bit_simps simp del: upt_Suc split: nat.splits)
  ultimately show ?case by (simp only: foldl.simps)
qed

lemma crc32c_byte_step: "crc32c_byte c b = foldl crc32c_shift c (map (bit b) [0..<8])"
proof -
  have "take_bit 8 (ucast b :: 32 word) = ucast b" using bit_imp_le_length [of b] by (intro bit_eqI) (auto simp: bit_simps)
  moreover have "map (bit (ucast b :: 32 word)) [0..<8] = map (bit b) [0..<8]"
    by (intro map_cong refl) (simp add: bit_simps)
  ultimately show ?thesis using crc32c_bits_shift [of 8 "ucast b" c] unfolding crc32c_byte_def by (simp only:)
qed

lemma crc32c_bytes_step: "foldl crc32c_byte c buf = crc32c_step c (byte_bits buf)"
  unfolding crc32c_step_shift
  by (induction buf arbitrary: c) (simp_all add: byte_bits_def crc32c_byte_step)

lemma crc32c_soft_of: "scorpi_crc32c_soft buf = crc32c_of buf"
  by (simp add: scorpi_crc32c_soft_def crc32c_of_def crc32c_bytes_step)

text \<open>The bits of an operand are those of its bytes in memory order.\<close>

lemma operand_byte: "map (bit v) [a..<a + 8] = map (bit (of_nat (v div 2 ^ a) :: byte)) [0..<8]" for v :: nat
proof -
  have "map (bit v) [a..<a + 8] = map (\<lambda>i. bit v (a + i)) [0..<8]"
    by (rule nth_equalityI) simp_all
  also have "\<dots> = map (bit (of_nat (v div 2 ^ a) :: byte)) [0..<8]"
    by (simp add: bit_of_nat_iff_bit flip: drop_bit_eq_div) (simp add: bit_simps)
  finally show ?thesis .
qed

lemma operand_append: "map (bit v) [0..<a + n] = map (bit v) [0..<a] @ map (bit v) [a..<a + n]"
  by (metis le0 map_append upt_add_eq_append)

lemma operand_bits:
  "map (bit v) [0..<16] = byte_bits (le16enc v)" "map (bit v) [0..<32] = byte_bits (le32enc v)"
  "v \<le> UINT64_MAX \<Longrightarrow> map (bit v) [0..<64] = byte_bits (le64enc v)" for v :: nat
proof -
  note s = operand_append [of v _ 8] operand_byte [of v]
  have 8: "map (bit v) [0..<8] = map (bit (of_nat v :: byte)) [0..<8]" for v :: nat
    using operand_byte [of v 0] by simp
  have 16: "map (bit v) [0..<16] = map (bit v) [0..<8] @ map (bit (of_nat (v div 256) :: byte)) [0..<8]" for v :: nat
    using operand_append [of v 8 8] operand_byte [of v 8] by simp
  have 24: "map (bit v) [0..<24] = map (bit v) [0..<16] @ map (bit (of_nat (v div 65536) :: byte)) [0..<8]" for v :: nat
    using operand_append [of v 16 8] operand_byte [of v 16] by simp
  have 32: "map (bit v) [0..<32] = map (bit v) [0..<24] @ map (bit (of_nat (v div 16777216) :: byte)) [0..<8]" for v :: nat
    using operand_append [of v 24 8] operand_byte [of v 24] by simp
  show "map (bit v) [0..<16] = byte_bits (le16enc v)" by (simp only: 16 8) (simp add: byte_bits_def le16enc_def)
  have w: "map (bit v) [0..<32] = byte_bits (le32enc v)" for v :: nat
    by (simp only: 32 24 16 8) (simp add: byte_bits_def le32enc_def)
  then show "map (bit v) [0..<32] = byte_bits (le32enc v)" .
  assume "v \<le> UINT64_MAX"
  have "map (bit v) [32..<64] = map (bit (v div 4294967296)) [0..<32]"
    by (rule nth_equalityI) (simp_all add: bit_iff_odd div_mult2_eq power_add del: upt_rec_numeral)
  moreover have "map (bit v) [0..<32] = map (bit (v mod 4294967296)) [0..<32]"
    using bit_take_bit_iff [of 32 v] by (intro map_cong refl) (simp add: take_bit_eq_mod)
  ultimately have "map (bit v) [0..<64] = map (bit (v mod 4294967296)) [0..<32] @ map (bit (v div 4294967296)) [0..<32]"
    using operand_append [of v 32 32] by (simp del: upt_rec_numeral)
  then show "map (bit v) [0..<64] = byte_bits (le64enc v)" unfolding w by (simp add: byte_bits_def le64enc_def)
qed

lemma crc_insns_bytes:
  assumes "crc_insns_spec insn"
  shows "crc_u8 insn c b = crc32c_byte c b"
    "v \<le> 65535 \<Longrightarrow> crc_u16 insn c v = foldl crc32c_byte c (le16enc v)"
    "v \<le> UINT32_MAX \<Longrightarrow> crc_u32 insn c v = foldl crc32c_byte c (le32enc v)"
    "v \<le> UINT64_MAX \<Longrightarrow> crc_u64 insn c v = foldl crc32c_byte c (le64enc v)"
  using assms by (simp_all add: crc_insns_spec_def crc32c_bytes_step operand_bits)
    (simp add: crc32c_byte_step crc32c_step_shift)

subsection \<open>The word loops fold the bytes in order\<close>

lemma sse42_u64_loop_fold:
  assumes "crc_insns_spec insn"
  shows "sse42_u64_loop insn crc p = (crc', q) \<Longrightarrow>
     foldl crc32c_byte crc' q = foldl crc32c_byte crc p \<and> length q < 8"
proof (induction "length p" arbitrary: crc p rule: less_induct)
  case less
  show ?case
  proof (cases "8 \<le> length p")
    case True
    have "sse42_u64_loop insn (crc_u64 insn crc (le64dec p 0)) (drop 8 p) = (crc', q)"
      using less.prems True by (simp add: sse42_u64_loop.simps [of insn crc p])
    then have "foldl crc32c_byte crc' q = foldl crc32c_byte (crc_u64 insn crc (le64dec p 0)) (drop 8 p)
        \<and> length q < 8"
      using less.hyps True by force
    moreover have "crc_u64 insn crc (le64dec p 0) = foldl crc32c_byte crc (take 8 p)"
      using True by (simp add: crc_insns_bytes [OF assms] le64enc_dec)
    ultimately show ?thesis by (metis append_take_drop_id foldl_append)
  next
    case False
    with less.prems show ?thesis by (simp add: sse42_u64_loop.simps [of insn crc p])
  qed
qed

lemma sse42_u32_loop_fold:
  assumes "crc_insns_spec insn"
  shows "sse42_u32_loop insn crc p = (crc', q) \<Longrightarrow>
     foldl crc32c_byte crc' q = foldl crc32c_byte crc p \<and> length q < 4"
proof (induction "length p" arbitrary: crc p rule: less_induct)
  case less
  show ?case
  proof (cases "4 \<le> length p")
    case True
    have "sse42_u32_loop insn (crc_u32 insn crc (le32dec p 0)) (drop 4 p) = (crc', q)"
      using less.prems True by (simp add: sse42_u32_loop.simps [of insn crc p])
    then have "foldl crc32c_byte crc' q = foldl crc32c_byte (crc_u32 insn crc (le32dec p 0)) (drop 4 p)
        \<and> length q < 4"
      using less.hyps True by force
    moreover have "crc_u32 insn crc (le32dec p 0) = foldl crc32c_byte crc (take 4 p)"
      using True by (simp add: crc_insns_bytes [OF assms] le32enc_dec)
    ultimately show ?thesis by (metis append_take_drop_id foldl_append)
  next
    case False
    with less.prems show ?thesis by (simp add: sse42_u32_loop.simps [of insn crc p])
  qed
qed

lemma sse42_u8_loop_fold:
  "crc_insns_spec insn \<Longrightarrow> sse42_u8_loop insn crc p = foldl crc32c_byte crc p"
  by (induction p arbitrary: crc) (simp_all add: crc_insns_bytes)

lemma crc32c_sse42_soft:
  assumes "crc_insns_spec insn"
  shows "scorpi_crc32c_sse42 x86_64 insn buf = scorpi_crc32c_soft buf"
proof -
  obtain c p where 1: "(if x86_64 then sse42_u64_loop insn 0xffffffff buf else (0xffffffff, buf)) = (c, p)" by fastforce
  obtain d q where 2: "sse42_u32_loop insn c p = (d, q)" by fastforce
  have "foldl crc32c_byte c p = foldl crc32c_byte 0xffffffff buf"
    using 1 by (auto split: if_splits dest: sse42_u64_loop_fold [OF assms])
  then show ?thesis
    using sse42_u32_loop_fold [OF assms 2]
    by (simp only: scorpi_crc32c_sse42_def scorpi_crc32c_soft_def 1 2 sse42_u8_loop_fold [OF assms] Let_def case_prod_conv)
qed

lemma arm64_tail:
  assumes "crc_insns_spec insn" "length p < 2"
  shows "(case p of [] \<Rightarrow> crc | b # _ \<Rightarrow> crc_u8 insn crc b) = foldl crc32c_byte crc p"
  using assms by (cases p) (auto simp: crc_insns_bytes)

lemma crc32c_arm64_soft:
  assumes "crc_insns_spec insn"
  shows "scorpi_crc32c_arm64 insn buf = scorpi_crc32c_soft buf"
proof -
  obtain c p where 1: "sse42_u64_loop insn 0xffffffff buf = (c, p)" by fastforce
  note f1 = sse42_u64_loop_fold [OF assms 1]
  obtain d q where 2: "(if 4 \<le> length p then (crc_u32 insn c (le32dec p 0), drop 4 p) else (c, p)) = (d, q)"
    by fastforce
  have f2: "foldl crc32c_byte d q = foldl crc32c_byte c p \<and> length q < 4"
  proof (cases "4 \<le> length p")
    case True
    then have "d = foldl crc32c_byte c (take 4 p)" "q = drop 4 p"
      using 2 by (auto simp: crc_insns_bytes [OF assms] le32enc_dec)
    with True f1 show ?thesis by (metis (no_types, lifting) append_take_drop_id foldl_append
        length_drop less_diff_conv2 numeral_Bit0)
  qed (use 2 in auto)
  obtain e r where 3: "(if 2 \<le> length q then (crc_u16 insn d (le16dec q 0), drop 2 q) else (d, q)) = (e, r)"
    by fastforce
  have f3: "foldl crc32c_byte e r = foldl crc32c_byte d q \<and> length r < 2"
  proof (cases "2 \<le> length q")
    case True
    have "le16dec q 0 \<le> 65535" using le16dec_less [of q 0] by linarith
    then have "e = foldl crc32c_byte d (take 2 q)" "r = drop 2 q"
      using 3 True by (auto simp: crc_insns_bytes [OF assms] le16enc_dec)
    with True f2 show ?thesis by (metis (no_types, lifting) append_take_drop_id foldl_append
        length_drop less_diff_conv2 numeral_Bit0)
  qed (use 3 in auto)
  show ?thesis using f1 f2 f3
    by (simp only: scorpi_crc32c_arm64_def scorpi_crc32c_soft_def 1 2 3 Let_def case_prod_conv
        arm64_tail [OF assms])
qed

text \<open>What the code relies on: the instructions of its host, where it uses any.\<close>

definition crc_host_ok :: "crc_host \<Rightarrow> bool" where
  "crc_host_ok host \<longleftrightarrow>
     (case host of Aarch64_crc insn \<Rightarrow> crc_insns_spec insn | X86_64 sse42 insn \<Rightarrow> sse42 \<longrightarrow> crc_insns_spec insn
      | I386 sse42 insn \<Rightarrow> sse42 \<longrightarrow> crc_insns_spec insn | Other_host \<Rightarrow> True)"

text \<open>
  Property C20: the checksum is CRC-32C on every host.  Whichever routine the dispatcher selects
  (ARM with the CRC instructions, x86 of either width with or without SSE 4.2, the portable loop),
  for every buffer \<open>scorpi_crc32c\<close> returns the inverted remainder of the polynomial division by the
  Castagnoli polynomial, provided the host's instructions compute the remainder their manuals
  document; so an image written on one host can be validated on another.
\<close>

theorem crc32c_host_independent:
  assumes "crc_host_ok host"
  shows "scorpi_crc32c_on host buf = crc32c_of buf"
  using assms
  by (cases host) (auto simp: crc_host_ok_def scorpi_crc32c_on_def crc32c_sse42_soft crc32c_arm64_soft crc32c_soft_of)

theorem crc32c_host_independent_witness:
  "crc_host_ok (I386 True crc_insns_model) \<and> scorpi_crc32c_on (I386 True crc_insns_model) [1, 2, 3] = crc32c_of [1, 2, 3]"
  using crc32c_host_independent [of "I386 True crc_insns_model" "[1, 2, 3]"]
  by (simp add: crc_host_ok_def crc_insns_model_spec)

end
