(* ===== verification/Host_File.thy ===== *)
theory Host_File
  imports Prelude
begin

text \<open>
  The host file behind an image: the POSIX calls the image code makes on a regular
  file, and the \<open>read_exact\<close> / \<open>write_exact\<close> loops of
  \<^verbatim>\<open>src/scorpi_image_sco.c\<close> and \<^verbatim>\<open>src/scorpi_image_qcow2.c\<close> built on them.

  A file is its size and its bytes.  What the host decides (a call that fails, a
  transfer that is cut short) is a script of outcomes for the next calls: each call
  consumes one entry; the empty script is a host on which every call succeeds in full.
\<close>

section \<open>Host files\<close>

datatype io_outcome =
    IoErr errno   \<comment> \<open>the call fails with this \<open>errno\<close>\<close>
  | IoUpTo nat    \<comment> \<open>the call succeeds and transfers at most this many bytes\<close>

record hfile =
  h_size :: nat
  h_bytes :: "nat \<Rightarrow> byte"
  h_script :: "io_outcome list"

definition pread :: "hfile \<Rightarrow> nat \<Rightarrow> u64 \<Rightarrow> hfile \<times> byte list res" where
  "pread f len off =
     (if INT64_MAX < off then (f, Inl EINVAL)
      else let n = min len (h_size f - off) in
        case h_script f of
          [] \<Rightarrow> (f, Inr (get_bytes (h_bytes f) off n))
        | IoErr e # r \<Rightarrow> (f\<lparr>h_script := r\<rparr>, Inl e)
        | IoUpTo k # r \<Rightarrow> (f\<lparr>h_script := r\<rparr>, Inr (get_bytes (h_bytes f) off (min k n))))"

text \<open>Storing bytes past the end of the file extends it; a gap reads as zeros.\<close>

definition store_bytes :: "hfile \<Rightarrow> u64 \<Rightarrow> byte list \<Rightarrow> hfile" where
  "store_bytes f off bs =
     (if bs = [] then f
      else f\<lparr>h_size := max (h_size f) (off + length bs),
             h_bytes := put_bytes (\<lambda>a. if h_size f \<le> a then 0 else h_bytes f a) off bs\<rparr>)"

definition pwrite :: "hfile \<Rightarrow> byte list \<Rightarrow> u64 \<Rightarrow> hfile \<times> nat res" where
  "pwrite f bs off =
     (if INT64_MAX < off then (f, Inl EINVAL)
      else if INT64_MAX < off + length bs then (f, Inl EFBIG)
      else case h_script f of
          [] \<Rightarrow> (store_bytes f off bs, Inr (length bs))
        | IoErr e # r \<Rightarrow> (f\<lparr>h_script := r\<rparr>, Inl e)
        | IoUpTo k # r \<Rightarrow>
            (store_bytes (f\<lparr>h_script := r\<rparr>) off (take k bs), Inr (min k (length bs))))"

definition fsync :: "hfile \<Rightarrow> hfile \<times> unit res" where
  "fsync f =
     (case h_script f of
        [] \<Rightarrow> (f, Inr ())
      | IoErr e # r \<Rightarrow> (f\<lparr>h_script := r\<rparr>, Inl e)
      | IoUpTo _ # r \<Rightarrow> (f\<lparr>h_script := r\<rparr>, Inr ()))"

definition ftruncate :: "hfile \<Rightarrow> u64 \<Rightarrow> hfile \<times> unit res" where
  "ftruncate f n =
     (if INT64_MAX < n then (f, Inl EINVAL)
      else let g = f\<lparr>h_size := n, h_bytes := (\<lambda>a. if h_size f \<le> a then 0 else h_bytes f a)\<rparr> in
        case h_script f of
          [] \<Rightarrow> (g, Inr ())
        | IoErr e # r \<Rightarrow> (f\<lparr>h_script := r\<rparr>, Inl e)
        | IoUpTo _ # r \<Rightarrow> (g\<lparr>h_script := r\<rparr>, Inr ()))"

definition fstat_size :: "hfile \<Rightarrow> hfile \<times> nat res" where
  "fstat_size f =
     (case h_script f of
        [] \<Rightarrow> (f, Inr (h_size f))
      | IoErr e # r \<Rightarrow> (f\<lparr>h_script := r\<rparr>, Inl e)
      | IoUpTo _ # r \<Rightarrow> (f\<lparr>h_script := r\<rparr>, Inr (h_size f)))"

definition close :: "hfile \<Rightarrow> hfile \<times> unit res" where
  "close f = fsync f"

text \<open>
  \<open>scorpi_host_punch_hole\<close> of \<^verbatim>\<open>src/scorpi_host_sparse.c\<close>: the argument checks of the
  function, then the host's hole punching, which zeroes the range and keeps the size.
\<close>

definition scorpi_host_punch_hole :: "hfile \<Rightarrow> u64 \<Rightarrow> u64 \<Rightarrow> hfile \<times> unit res" where
  "scorpi_host_punch_hole f offset length' =
     (if length' = 0 then (f, Inr ())
      else if INT64_MAX < offset \<or> INT64_MAX < length' then (f, Inl EOVERFLOW)
      else let g = f\<lparr>h_bytes := (\<lambda>a. if offset \<le> a \<and> a < offset + length' then 0 else h_bytes f a)\<rparr> in
        case h_script f of
          [] \<Rightarrow> (g, Inr ())
        | IoErr e # r \<Rightarrow> (f\<lparr>h_script := r\<rparr>, Inl e)
        | IoUpTo _ # r \<Rightarrow> (g\<lparr>h_script := r\<rparr>, Inr ()))"

subsection \<open>Exact transfers\<close>

lemma pread_length: "pread f len off = (f', Inr bs) \<Longrightarrow> length bs \<le> len"
  by (auto simp: pread_def Let_def split: if_splits list.splits io_outcome.splits)

function read_exact :: "hfile \<Rightarrow> u64 \<Rightarrow> nat \<Rightarrow> hfile \<times> byte list res" where
  "read_exact f offset len =
     (if len = 0 then (f, Inr [])
      else case pread f len offset of
          (f', Inl e) \<Rightarrow> (f', Inl e)
        | (f', Inr p) \<Rightarrow>
            if p = [] then (f', Inl EIO)
            else (case read_exact f' (add64 offset (length p)) (len - length p) of
                (f'', Inl e) \<Rightarrow> (f'', Inl e)
              | (f'', Inr q) \<Rightarrow> (f'', Inr (p @ q))))"
  by pat_completeness auto
termination
  by (relation "measure (\<lambda>(f, offset, len). len)") auto

lemma pwrite_count: "pwrite f bs off = (f', Inr n) \<Longrightarrow> n \<le> length bs"
  by (auto simp: pwrite_def split: if_splits list.splits io_outcome.splits)

function write_exact :: "hfile \<Rightarrow> u64 \<Rightarrow> byte list \<Rightarrow> hfile \<times> unit res" where
  "write_exact f offset buf =
     (if buf = [] then (f, Inr ())
      else case pwrite f buf offset of
          (f', Inl e) \<Rightarrow> (f', Inl e)
        | (f', Inr n) \<Rightarrow>
            if n = 0 then (f', Inl EIO)
            else write_exact f' (add64 offset n) (drop n buf))"
  by pat_completeness auto
termination
  by (relation "measure (\<lambda>(f, offset, buf). length buf)") auto

declare read_exact.simps [simp del] write_exact.simps [simp del]

text \<open>\<open>same_data\<close>: two files with the same size and bytes (the scripts may differ).\<close>

definition same_data :: "hfile \<Rightarrow> hfile \<Rightarrow> bool" where
  "same_data f g \<longleftrightarrow> h_size f = h_size g \<and> h_bytes f = h_bytes g"

lemma same_data_refl [simp]: "same_data f f"
  by (simp add: same_data_def)

lemma same_data_trans [trans]: "same_data f g \<Longrightarrow> same_data g h \<Longrightarrow> same_data f h"
  by (simp add: same_data_def)

lemma pread_frame: "pread f len off = (f', r) \<Longrightarrow> same_data f f'"
  by (auto simp: pread_def same_data_def Let_def split: if_splits list.splits io_outcome.splits)

lemma pread_bytes:
  "pread f len off = (f', Inr bs) \<Longrightarrow> bs = get_bytes (h_bytes f) off (length bs) \<and>
     length bs \<le> len \<and> off \<le> INT64_MAX \<and> (bs \<noteq> [] \<longrightarrow> off + length bs \<le> h_size f)"
  by (auto simp: pread_def Let_def min_def split: if_splits list.splits io_outcome.splits)

lemma pread_no_fault:
  "h_script f = [] \<Longrightarrow> off \<le> INT64_MAX \<Longrightarrow> off + len \<le> h_size f \<Longrightarrow>
     pread f len off = (f, Inr (get_bytes (h_bytes f) off len))"
  by (auto simp: pread_def Let_def min_def)

lemma fsync_frame: "fsync f = (f', r) \<Longrightarrow> same_data f f'"
  by (auto simp: fsync_def same_data_def split: list.splits io_outcome.splits)

lemma fstat_frame: "fstat_size f = (f', r) \<Longrightarrow> same_data f f' \<and> (\<forall>n. r = Inr n \<longrightarrow> n = h_size f)"
  by (auto simp: fstat_size_def same_data_def split: list.splits io_outcome.splits)

lemma fstat_no_fault [simp]: "h_script f = [] \<Longrightarrow> fstat_size f = (f, Inr (h_size f))"
  by (simp add: fstat_size_def)

lemma fsync_no_fault [simp]: "h_script f = [] \<Longrightarrow> fsync f = (f, Inr ())"
  by (simp add: fsync_def)

lemma read_exact_0 [simp]: "read_exact f off 0 = (f, Inr [])"
  by (simp add: read_exact.simps)

lemma write_exact_Nil [simp]: "write_exact f off [] = (f, Inr ())"
  by (simp add: write_exact.simps)

text \<open>
  Whatever the host does, \<open>read_exact\<close> leaves the file alone, and a successful call
  returns exactly the requested bytes of the file.
\<close>

lemma read_exact_result:
  "read_exact f off len = (f', r) \<Longrightarrow> off + len \<le> UINT64_MAX \<Longrightarrow>
     same_data f f' \<and> (\<forall>bs. r = Inr bs \<longrightarrow> bs = get_bytes (h_bytes f) off len \<and>
       (0 < len \<longrightarrow> off + len \<le> h_size f))"
proof (induction f off len arbitrary: f' r rule: read_exact.induct)
  case (1 f off len)
  obtain g res where g: "pread f len off = (g, res)" by fastforce
  note sd = pread_frame [OF g]
  show ?case
  proof (cases "len \<noteq> 0 \<and> (\<exists>p. res = Inr p \<and> p \<noteq> [])")
    case False
    with "1.prems" g sd show ?thesis
      by (auto simp: read_exact.simps [of f off len] split: sum.splits if_splits)
  next
    case True
    then obtain p where p: "res = Inr p" "p \<noteq> []" and len: "len \<noteq> 0" by blast
    from pread_bytes [of f len off g p] g p(1)
    have pb: "p = get_bytes (h_bytes f) off (length p)" and pl: "length p \<le> len"
      and pf: "off + length p \<le> h_size f" using p(2) by auto
    have off': "add64 off (length p) = off + length p"
      using "1.prems"(2) pl by (intro add64_exact) linarith
    obtain h res' where h: "read_exact g (off + length p) (len - length p) = (h, res')"
      by fastforce
    have IH: "same_data g h \<and> (\<forall>bs. res' = Inr bs \<longrightarrow> bs = get_bytes (h_bytes g) (off + length p) (len - length p) \<and>
       (0 < len - length p \<longrightarrow> off + length p + (len - length p) \<le> h_size g))"
      using "1.IH" [OF len g [symmetric] p(1,2), of h res'] h off' "1.prems"(2) pl by simp
    have fr: "f' = h" "\<And>bs. r = Inr bs \<Longrightarrow> \<exists>q. res' = Inr q \<and> bs = p @ q"
      using "1.prems"(1) g len p h off'
      by (auto simp: read_exact.simps [of f off len] split: sum.splits)
    have "bs = get_bytes (h_bytes f) off len \<and> off + len \<le> h_size f" if r: "r = Inr bs" for bs
    proof -
      from fr(2) [OF r] obtain q where q: "res' = Inr q" "bs = p @ q" by blast
      from IH q(1) have "q = get_bytes (h_bytes g) (off + length p) (len - length p)"
        and "0 < len - length p \<longrightarrow> off + len \<le> h_size g" using pl by auto
      with sd pb q(2) pl pf show ?thesis
        using get_bytes_append [of "h_bytes f" off "length p" "len - length p"]
        by (cases "len = length p") (auto simp: same_data_def)
    qed
    with fr(1) IH sd show ?thesis by (auto intro: same_data_trans)
  qed
qed

lemma read_exact_no_fault:
  assumes "h_script f = []" "off + len \<le> h_size f" "h_size f \<le> INT64_MAX"
  shows "read_exact f off len = (f, Inr (get_bytes (h_bytes f) off len))"
proof (cases "len = 0")
  case False
  then show ?thesis using assms pread_no_fault [of f off len]
    by (simp add: read_exact.simps [of f off len] add64_exact)
qed simp

subsection \<open>What a write leaves behind\<close>

lemma store_bytes_Nil [simp]: "store_bytes f off [] = f"
  by (simp add: store_bytes_def)

lemma h_size_store_bytes:
  "h_size (store_bytes f off bs) = (if bs = [] then h_size f else max (h_size f) (off + length bs))"
  by (simp add: store_bytes_def)

lemma h_bytes_store_bytes:
  "bs \<noteq> [] \<Longrightarrow> h_bytes (store_bytes f off bs) a =
     (if off \<le> a \<and> a < off + length bs then bs ! (a - off)
      else if h_size f \<le> a then 0 else h_bytes f a)"
  by (simp add: store_bytes_def put_bytes_def)

lemma h_bytes_store_in:
  "off \<le> a \<Longrightarrow> a < off + length bs \<Longrightarrow> h_bytes (store_bytes f off bs) a = bs ! (a - off)"
  by (subst h_bytes_store_bytes) auto

lemma h_bytes_store_out:
  "a < off \<or> off + length bs \<le> a \<Longrightarrow> a < h_size f \<Longrightarrow> h_bytes (store_bytes f off bs) a = h_bytes f a"
  by (cases "bs = []") (auto simp: h_bytes_store_bytes)

lemma store_bytes_script [simp]: "h_script (store_bytes f off bs) = h_script f"
  by (simp add: store_bytes_def)

lemma store_bytes_same_data:
  "same_data f g \<Longrightarrow> same_data (store_bytes f off bs) (store_bytes g off bs)"
  by (cases "bs = []") (simp_all add: same_data_def h_size_store_bytes h_bytes_store_bytes fun_eq_iff)

lemma store_bytes_append:
  "same_data (store_bytes (store_bytes f off xs) (off + length xs) ys) (store_bytes f off (xs @ ys))"
  by (cases "xs = []"; cases "ys = []")
     (auto simp: same_data_def h_size_store_bytes h_bytes_store_bytes fun_eq_iff nth_append)

lemma pwrite_cases:
  assumes "pwrite f bs off = (f', r)"
  obtains (fail) e where "r = Inl e" "same_data f f'"
  | (full) "r = Inr (length bs)" "f' = store_bytes f off bs"
  | (short) k where "k \<le> length bs" "r = Inr k" "same_data f' (store_bytes f off (take k bs))"
proof (cases "INT64_MAX < off + length bs")
  case True
  with assms show ?thesis by (intro fail [of "if INT64_MAX < off then EINVAL else EFBIG"])
    (auto simp: pwrite_def split: if_splits)
next
  case ok: False
  show ?thesis
  proof (cases "h_script f")
    case Nil
    with assms ok show ?thesis by (intro full) (auto simp: pwrite_def)
  next
    case (Cons x rest)
    show ?thesis
    proof (cases x)
      case (IoErr e)
      with assms ok Cons show ?thesis by (intro fail [of e]) (auto simp: pwrite_def same_data_def)
    next
      case (IoUpTo k)
      have "same_data (store_bytes (f\<lparr>h_script := rest\<rparr>) off (take k bs)) (store_bytes f off (take k bs))"
        by (rule store_bytes_same_data) (simp add: same_data_def)
      with assms ok Cons IoUpTo show ?thesis
        by (intro short [of "min k (length bs)"]) (auto simp: pwrite_def min_def)
    qed
  qed
qed

lemma pwrite_result:
  assumes "pwrite f bs off = (f', r)"
  shows "\<exists>k \<le> length bs. same_data f' (store_bytes f off (take k bs)) \<and> (\<forall>n. r = Inr n \<longrightarrow> n = k)"
  using assms
proof (cases rule: pwrite_cases)
  case (fail e)
  then show ?thesis by (auto simp: same_data_def intro: exI [of _ 0])
next
  case full
  then show ?thesis by (auto intro: exI [of _ "length bs"])
qed auto

text \<open>
  \<open>write_exact\<close> stores a prefix of the buffer, the whole of it when it succeeds.
\<close>

lemma write_exact_result:
  "write_exact f off buf = (f', r) \<Longrightarrow> off + length buf \<le> UINT64_MAX \<Longrightarrow>
     \<exists>k \<le> length buf. same_data f' (store_bytes f off (take k buf)) \<and> (is_ok r \<longrightarrow> k = length buf)"
proof (induction f off buf arbitrary: f' r rule: write_exact.induct)
  case (1 f off buf)
  obtain g res where g: "pwrite f buf off = (g, res)" by fastforce
  from pwrite_result [OF g] obtain k where k: "k \<le> length buf"
    "same_data g (store_bytes f off (take k buf))" "\<And>n. res = Inr n \<Longrightarrow> n = k" by blast
  show ?case
  proof (cases "buf \<noteq> [] \<and> (\<exists>n. res = Inr n \<and> n \<noteq> 0)")
    case False
    with "1.prems" g k show ?thesis
      by (auto simp: write_exact.simps [of f off buf] split: sum.splits if_splits)
  next
    case True
    with k(3) have ne: "buf \<noteq> []" and res: "res = Inr k" and k0: "k \<noteq> 0" by blast+
    have off': "add64 off k = off + k"
      using "1.prems"(2) k(1) by (intro add64_exact) linarith
    have rest: "write_exact g (off + k) (drop k buf) = (f', r)"
      using "1.prems"(1) g ne res k0 off' by (simp add: write_exact.simps [of f off buf])
    have "\<exists>j \<le> length (drop k buf). same_data f' (store_bytes g (off + k) (take j (drop k buf))) \<and>
        (is_ok r \<longrightarrow> j = length (drop k buf))"
      using "1.IH" [OF ne g [symmetric] res k0, of f' r] rest off' "1.prems"(2) k(1) by simp
    then obtain j where j: "j \<le> length (drop k buf)"
      "same_data f' (store_bytes g (off + k) (take j (drop k buf)))" "is_ok r \<longrightarrow> j = length (drop k buf)"
      by blast
    have "same_data (store_bytes g (off + k) (take j (drop k buf)))
        (store_bytes (store_bytes f off (take k buf)) (off + k) (take j (drop k buf)))"
      by (rule store_bytes_same_data [OF k(2)])
    also have "same_data \<dots> (store_bytes f off (take k buf @ take j (drop k buf)))"
      using store_bytes_append [of f off "take k buf" "take j (drop k buf)"] k(1) by (simp add: min_absorb2)
    also have "take k buf @ take j (drop k buf) = take (k + j) buf"
      by (simp add: take_add)
    finally have "same_data f' (store_bytes f off (take (k + j) buf))"
      using j(2) same_data_trans by blast
    with j k(1) show ?thesis by (intro exI [of _ "k + j"]) auto
  qed
qed

lemma write_exact_ok:
  assumes "write_exact f off buf = (f', Inr ())" "off + length buf \<le> UINT64_MAX"
  shows "same_data f' (store_bytes f off buf)"
  using write_exact_result [OF assms] by auto

lemma write_exact_no_fault:
  assumes "h_script f = []" "off + length buf \<le> INT64_MAX"
  shows "write_exact f off buf = (store_bytes f off buf, Inr ())"
proof (cases "buf = []")
  case False
  with assms show ?thesis
    by (simp add: write_exact.simps [of f off buf] pwrite_def)
qed simp

text \<open>
  The two facts every client uses: bytes outside the target range that lie in the file
  keep their value, and the file never shrinks.
\<close>

lemma write_exact_frame:
  assumes "write_exact f off buf = (f', r)" "off + length buf \<le> UINT64_MAX"
  shows "h_size f \<le> h_size f'" "h_size f' \<le> max (h_size f) (off + length buf)"
    and "\<And>a. a < off \<or> off + length buf \<le> a \<Longrightarrow> a < h_size f \<Longrightarrow> h_bytes f' a = h_bytes f a"
proof -
  from write_exact_result [OF assms] obtain k where k: "k \<le> length buf"
    "same_data f' (store_bytes f off (take k buf))" by blast
  then show "h_size f \<le> h_size f'" "h_size f' \<le> max (h_size f) (off + length buf)"
    by (auto simp: same_data_def h_size_store_bytes)
  fix a assume "a < off \<or> off + length buf \<le> a" "a < h_size f"
  with k show "h_bytes f' a = h_bytes f a"
    by (auto simp: same_data_def h_bytes_store_out)
qed

text \<open>The host refuses to grow a file past the largest offset.\<close>

lemma pwrite_size_le:
  assumes "pwrite f bs off = (f', r)" "h_size f \<le> INT64_MAX"
  shows "h_size f' \<le> INT64_MAX"
proof (cases "off + length bs \<le> INT64_MAX")
  case True
  from pwrite_result [OF assms(1)] obtain k where "same_data f' (store_bytes f off (take k bs))" by blast
  with True assms(2) show ?thesis by (auto simp: same_data_def h_size_store_bytes)
next
  case False
  with assms show ?thesis by (auto simp: pwrite_def split: if_splits)
qed

lemma write_exact_size_le:
  "write_exact f off buf = (f', r) \<Longrightarrow> h_size f \<le> INT64_MAX \<Longrightarrow> h_size f' \<le> INT64_MAX"
proof (induction f off buf arbitrary: f' r rule: write_exact.induct)
  case (1 f off buf)
  obtain g res where g: "pwrite f buf off = (g, res)" by fastforce
  have hg: "h_size g \<le> INT64_MAX" by (rule pwrite_size_le [OF g "1.prems"(2)])
  show ?case
  proof (cases "buf \<noteq> [] \<and> (\<exists>n. res = Inr n \<and> n \<noteq> 0)")
    case False
    with "1.prems" g hg show ?thesis
      by (auto simp: write_exact.simps [of f off buf] split: sum.splits if_splits)
  next
    case True
    then obtain n where n: "buf \<noteq> []" "res = Inr n" "n \<noteq> 0" by blast
    have "write_exact g (add64 off n) (drop n buf) = (f', r)"
      using "1.prems"(1) g n by (simp add: write_exact.simps [of f off buf])
    with "1.IH" [OF n(1) g [symmetric] n(2,3)] hg show ?thesis by blast
  qed
qed

lemma write_exact_stored:
  assumes "write_exact f off buf = (f', Inr ())" "off + length buf \<le> UINT64_MAX" "buf \<noteq> []"
  shows "off + length buf \<le> h_size f'"
    and "\<And>a. off \<le> a \<Longrightarrow> a < off + length buf \<Longrightarrow> h_bytes f' a = buf ! (a - off)"
  using write_exact_ok [OF assms(1,2)] assms(3)
  by (auto simp: same_data_def h_size_store_bytes h_bytes_store_in)

lemma punch_hole_frame:
  assumes "scorpi_host_punch_hole f off len = (f', r)"
  shows "h_size f' = h_size f" "\<And>a. a < off \<or> off + len \<le> a \<Longrightarrow> h_bytes f' a = h_bytes f a"
  using assms
  by (auto simp: scorpi_host_punch_hole_def Let_def split: if_splits list.splits io_outcome.splits)

lemma punch_hole_script: "h_script f = [] \<Longrightarrow> h_script (fst (scorpi_host_punch_hole f off len)) = []"
  by (simp add: scorpi_host_punch_hole_def Let_def)

end
