(* ===== verification/Image_Types.thy ===== *)
theory Image_Types
  imports Host_File
begin

text \<open>
  The vocabulary of \<^verbatim>\<open>src/scorpi_image.h\<close> (formats, extents, image information, the
  backend operation table), the backend registry of \<^verbatim>\<open>src/scorpi_image.c\<close>, and the
  contract a backend offers to the layer chain, as the locales \<open>image_backend\<close> and
  \<open>image_backend_rw\<close>.
\<close>

section \<open>Image interface\<close>

datatype scorpi_image_format =
  SCORPI_IMAGE_FORMAT_RAW | SCORPI_IMAGE_FORMAT_QCOW2 | SCORPI_IMAGE_FORMAT_SCO

datatype scorpi_image_extent_state =
    SCORPI_IMAGE_EXTENT_ABSENT | SCORPI_IMAGE_EXTENT_PRESENT
  | SCORPI_IMAGE_EXTENT_ZERO | SCORPI_IMAGE_EXTENT_DISCARDED

record scorpi_image_info =
  info_format :: scorpi_image_format
  info_virtual_size :: u64
  info_logical_sector_size :: u32
  info_physical_sector_size :: u32
  info_cluster_size :: u32
  info_readonly :: bool
  info_sealed :: bool
  info_can_discard :: bool
  info_image_uuid :: "byte list"
  info_has_image_uuid :: bool
  info_image_digest :: "byte list"
  info_has_image_digest :: bool
  info_has_base :: bool
  info_base_uri :: "string option"
  info_base_uuid :: "byte list"
  info_has_base_uuid :: bool
  info_base_digest :: "byte list"
  info_has_base_digest :: bool

record scorpi_image_extent =
  ext_offset :: u64
  ext_length :: u64
  ext_state :: scorpi_image_extent_state

text \<open>
  The operation table.  A call that uses the descriptor returns the new backend state,
  also when it fails, because the C code updates the state in place.  \<open>ops_open\<close> returns
  the descriptor on failure, which the caller still owns.
\<close>

record 's scorpi_image_ops =
  ops_name :: string
  ops_probe :: "hfile \<Rightarrow> hfile \<times> nat res"
  ops_open :: "string \<Rightarrow> hfile \<Rightarrow> bool \<Rightarrow> hfile \<times> 's res"
  ops_get_info :: "'s \<Rightarrow> scorpi_image_info res"
  ops_map :: "'s \<Rightarrow> u64 \<Rightarrow> u64 \<Rightarrow> 's \<times> scorpi_image_extent res"
  ops_read :: "'s \<Rightarrow> u64 \<Rightarrow> nat \<Rightarrow> 's \<times> byte list res"
  ops_write :: "'s \<Rightarrow> byte list \<Rightarrow> u64 \<Rightarrow> 's \<times> unit res"
  ops_discard :: "'s \<Rightarrow> u64 \<Rightarrow> u64 \<Rightarrow> 's \<times> unit res"
  ops_flush :: "'s \<Rightarrow> 's \<times> unit res"
  ops_close :: "'s \<Rightarrow> unit res"

subsection \<open>Backend registry\<close>

text \<open>
  The linker set of backends is a list of tables.  A table's function pointers are
  functions here, so of the validity test only the name remains.
\<close>

definition scorpi_image_backend_ops_valid :: "'s scorpi_image_ops \<Rightarrow> bool" where
  "scorpi_image_backend_ops_valid ops \<longleftrightarrow> ops_name ops \<noteq> []"

fun scorpi_image_backend_find :: "'s scorpi_image_ops list \<Rightarrow> string \<Rightarrow> 's scorpi_image_ops option" where
  "scorpi_image_backend_find [] name = None"
| "scorpi_image_backend_find (ops # rest) name =
     (if name = [] then None
      else if scorpi_image_backend_ops_valid ops \<and> ops_name ops = name then Some ops
      else scorpi_image_backend_find rest name)"

fun backend_probe_loop ::
  "'s scorpi_image_ops list \<Rightarrow> hfile \<Rightarrow> 's scorpi_image_ops option \<times> nat \<Rightarrow>
     hfile \<times> ('s scorpi_image_ops option \<times> nat) res" where
  "backend_probe_loop [] f best = (f, Inr best)"
| "backend_probe_loop (ops # rest) f (best_ops, best_score) =
     (if \<not> scorpi_image_backend_ops_valid ops then backend_probe_loop rest f (best_ops, best_score)
      else case ops_probe ops f of
          (f', Inl e) \<Rightarrow> (f', Inl e)
        | (f', Inr candidate) \<Rightarrow>
            if best_score < candidate then backend_probe_loop rest f' (Some ops, candidate)
            else backend_probe_loop rest f' (best_ops, best_score))"

definition scorpi_image_backend_probe ::
  "'s scorpi_image_ops list \<Rightarrow> hfile \<Rightarrow> hfile \<times> ('s scorpi_image_ops \<times> nat) res" where
  "scorpi_image_backend_probe be_set f =
     (case backend_probe_loop be_set f (None, 0) of
        (f', Inl e) \<Rightarrow> (f', Inl e)
      | (f', Inr (None, _)) \<Rightarrow> (f', Inl ENOENT)
      | (f', Inr (Some ops, score)) \<Rightarrow> (f', Inr (ops, score)))"

text \<open>The probe result: a registered table with a positive and maximal score.\<close>

lemma backend_probe_loop_result:
  assumes "backend_probe_loop be_set f (b, n) = (f', Inr (Some ops, score))"
    and "b = None \<longleftrightarrow> n = 0"
  shows "0 < score \<and> n \<le> score \<and> (ops \<in> set be_set \<and> scorpi_image_backend_ops_valid ops \<or> b = Some ops \<and> n = score)"
  using assms
proof (induction be_set f "(b, n)" arbitrary: b n rule: backend_probe_loop.induct)
  case (1 f)
  then show ?case by auto
next
  case (2 o' rest f b n)
  show ?case
  proof (cases "scorpi_image_backend_ops_valid o'")
    case False
    with "2.prems" "2.hyps"(1) show ?thesis by auto
  next
    case True
    obtain g r where g: "ops_probe o' f = (g, r)" by fastforce
    from "2.prems"(1) True g obtain c where r: "r = Inr c" by (auto split: sum.splits)
    show ?thesis
    proof (cases "n < c")
      case True': True
      from "2.prems"(1) True g r True'
      have "backend_probe_loop rest g (Some o', c) = (f', Inr (Some ops, score))" by simp
      from "2.hyps"(2) [OF _ g [symmetric] r True', OF _ this] True True' show ?thesis by auto
    next
      case False
      from "2.prems"(1) True g r False
      have "backend_probe_loop rest g (b, n) = (f', Inr (Some ops, score))" by simp
      from "2.hyps"(3) [OF _ g [symmetric] r False, OF _ this "2.prems"(2)] True show ?thesis by auto
    qed
  qed
qed

subsection \<open>The contract of a backend\<close>

text \<open>
  What a layer stores at each virtual offset: \<open>None\<close> where the layer has nothing
  (the byte comes from the base image), \<open>Some b\<close> where it decides the byte.
\<close>

type_synonym cells = "nat \<Rightarrow> byte option"

definition cell_byte :: "byte option \<Rightarrow> byte" where
  "cell_byte c = (case c of None \<Rightarrow> 0 | Some b \<Rightarrow> b)"

lemma cell_byte_simps [simp]: "cell_byte None = 0" "cell_byte (Some b) = b"
  by (simp_all add: cell_byte_def)

definition extent_describes :: "cells \<Rightarrow> u64 \<Rightarrow> u64 \<Rightarrow> u64 \<Rightarrow> scorpi_image_extent \<Rightarrow> bool" where
  "extent_describes c vs off len e \<longleftrightarrow>
     ext_offset e = off \<and> 0 < ext_length e \<and> ext_length e \<le> len \<and> off + ext_length e \<le> vs \<and>
     (\<forall>x. off \<le> x \<and> x < off + ext_length e \<longrightarrow>
        (case ext_state e of
           SCORPI_IMAGE_EXTENT_ABSENT \<Rightarrow> c x = None
         | SCORPI_IMAGE_EXTENT_PRESENT \<Rightarrow> c x \<noteq> None
         | _ \<Rightarrow> c x = Some 0))"

definition cells_updated :: "bool \<Rightarrow> cells \<Rightarrow> u64 \<Rightarrow> byte list \<Rightarrow> cells \<Rightarrow> bool" where
  "cells_updated has_base c off buf c' \<longleftrightarrow>
     (\<forall>x. if off \<le> x \<and> x < off + length buf then c' x = Some (buf ! (x - off))
          else c' x = c x \<or> (\<not> has_base \<and> c x = None \<and> c' x = Some 0))"

locale image_backend =
  fixes inv :: "'s \<Rightarrow> bool"
    and vsize :: "'s \<Rightarrow> u64"
    and cell :: "'s \<Rightarrow> cells"
    and map_op :: "'s \<Rightarrow> u64 \<Rightarrow> u64 \<Rightarrow> 's \<times> scorpi_image_extent res"
    and read_op :: "'s \<Rightarrow> u64 \<Rightarrow> nat \<Rightarrow> 's \<times> byte list res"
  assumes vsize_le: "inv s \<Longrightarrow> vsize s \<le> UINT64_MAX"
    and map_ok: "inv s \<Longrightarrow> 0 < len \<Longrightarrow> off < vsize s \<Longrightarrow> map_op s off len = (s', Inr e) \<Longrightarrow>
      inv s' \<and> vsize s' = vsize s \<and> cell s' = cell s \<and> extent_describes (cell s) (vsize s) off len e"
    and read_ok: "inv s \<Longrightarrow> off + len \<le> vsize s \<Longrightarrow> read_op s off len = (s', Inr bs) \<Longrightarrow>
      inv s' \<and> vsize s' = vsize s \<and> cell s' = cell s \<and>
      bs = map (\<lambda>i. cell_byte (cell s (off + i))) [0..<len]"
begin

text \<open>Two successful reads of adjacent ranges give the bytes of one read of the whole.\<close>

lemma read_adjacent:
  assumes "inv s" "off + a + b \<le> vsize s"
    and "read_op s off a = (s1, Inr xs)" "read_op s1 (off + a) b = (s2, Inr ys)"
    and "read_op s off (a + b) = (s3, Inr zs)"
  shows "zs = xs @ ys"
proof -
  note r1 = read_ok [OF assms(1) _ assms(3)]
  have "inv s1" "vsize s1 = vsize s" "cell s1 = cell s" "xs = map (\<lambda>i. cell_byte (cell s (off + i))) [0..<a]"
    using r1 assms(2) by auto
  moreover from this have "ys = map (\<lambda>i. cell_byte (cell s (off + a + i))) [0..<b]"
    using read_ok [OF _ _ assms(4)] assms(2) by auto
  moreover have "zs = map (\<lambda>i. cell_byte (cell s (off + i))) [0..<a + b]"
    using read_ok [OF assms(1) _ assms(5)] assms(2) by auto
  ultimately show ?thesis
    by (intro nth_equalityI) (auto simp: nth_append add.assoc)
qed

end

text \<open>
  A backend that stays consistent whatever the host does: calls that only look at the
  image leave its content alone also when they fail, and a failed update changes nothing
  outside the range it was asked to update.
\<close>

definition cells_outside :: "bool \<Rightarrow> cells \<Rightarrow> u64 \<Rightarrow> nat \<Rightarrow> cells \<Rightarrow> bool" where
  "cells_outside has_base c off n c' \<longleftrightarrow>
     (\<forall>x. off \<le> x \<and> x < off + n \<or> c' x = c x \<or> (\<not> has_base \<and> c x = None \<and> c' x = Some 0))"

lemma cells_updated_outside: "cells_updated hb c off buf c' \<Longrightarrow> cells_outside hb c off (length buf) c'"
  unfolding cells_updated_def cells_outside_def by metis

lemma cells_outside_refl [simp]: "cells_outside hb c off n c"
  by (simp add: cells_outside_def)

lemma cells_outside_trans:
  "cells_outside hb c off n c' \<Longrightarrow> cells_outside hb c' off n c'' \<Longrightarrow> cells_outside hb c off n c''"
  unfolding cells_outside_def by (metis option.distinct(1))

lemma cells_outside_mono:
  "cells_outside hb c o1 n1 c' \<Longrightarrow> off \<le> o1 \<Longrightarrow> o1 + n1 \<le> off + n \<Longrightarrow> cells_outside hb c off n c'"
  unfolding cells_outside_def by (meson dual_order.trans order_less_le_trans)

lemma cells_updated_append:
  assumes "cells_updated hb c off xs c'" "cells_updated hb c' (off + length xs) ys c''"
  shows "cells_updated hb c off (xs @ ys) c''"
  unfolding cells_updated_def
proof
  fix x
  from assms have
    1: "if off \<le> x \<and> x < off + length xs then c' x = Some (xs ! (x - off))
        else c' x = c x \<or> (\<not> hb \<and> c x = None \<and> c' x = Some 0)" and
    2: "if off + length xs \<le> x \<and> x < off + length xs + length ys then c'' x = Some (ys ! (x - (off + length xs)))
        else c'' x = c' x \<or> (\<not> hb \<and> c' x = None \<and> c'' x = Some 0)"
    by (simp_all add: cells_updated_def)
  show "if off \<le> x \<and> x < off + length (xs @ ys) then c'' x = Some ((xs @ ys) ! (x - off))
        else c'' x = c x \<or> (\<not> hb \<and> c x = None \<and> c'' x = Some 0)"
    using 1 2 by (auto simp: nth_append split: if_splits)
qed

lemma cells_updated_Nil [simp]: "cells_updated hb c off [] c"
  by (auto simp: cells_updated_def)

locale image_backend_safe = image_backend +
  assumes map_frame: "inv s \<Longrightarrow> map_op s off len = (s', r) \<Longrightarrow>
      inv s' \<and> vsize s' = vsize s \<and> cell s' = cell s"
    and read_frame: "inv s \<Longrightarrow> read_op s off len = (s', r') \<Longrightarrow>
      inv s' \<and> vsize s' = vsize s \<and> cell s' = cell s"
begin

text \<open>A retry after a failed read returns what the first read would have returned.\<close>

lemma read_retry:
  assumes "inv s" "off + len \<le> vsize s" "read_op s off len = (s1, Inl e)"
    and "read_op s1 off len = (s2, Inr bs)"
  shows "bs = map (\<lambda>i. cell_byte (cell s (off + i))) [0..<len]"
  using read_frame [OF assms(1,3)] read_ok [OF _ _ assms(4)] assms(2) by auto

end

locale image_backend_rw = image_backend_safe +
  fixes has_base :: "'s \<Rightarrow> bool"
    and write_op :: "'s \<Rightarrow> byte list \<Rightarrow> u64 \<Rightarrow> 's \<times> unit res"
    and discard_op :: "'s \<Rightarrow> u64 \<Rightarrow> u64 \<Rightarrow> 's \<times> unit res"
  assumes write_ok: "inv s \<Longrightarrow> off + length buf \<le> vsize s \<Longrightarrow> write_op s buf off = (s', Inr ()) \<Longrightarrow>
      inv s' \<and> vsize s' = vsize s \<and> has_base s' = has_base s \<and>
      cells_updated (has_base s) (cell s) off buf (cell s')"
    and write_frame: "inv s \<Longrightarrow> off + length buf \<le> vsize s \<Longrightarrow> write_op s buf off = (s', r) \<Longrightarrow>
      inv s' \<and> vsize s' = vsize s \<and> has_base s' = has_base s \<and>
      cells_outside (has_base s) (cell s) off (length buf) (cell s')"
    and discard_ok: "inv s \<Longrightarrow> off + len \<le> vsize s \<Longrightarrow> discard_op s off len = (s', Inr ()) \<Longrightarrow>
      inv s' \<and> vsize s' = vsize s \<and> has_base s' = has_base s \<and>
      cells_updated (has_base s) (cell s) off (replicate len 0) (cell s')"
    and discard_frame: "inv s \<Longrightarrow> off + len \<le> vsize s \<Longrightarrow> discard_op s off len = (s', r) \<Longrightarrow>
      inv s' \<and> vsize s' = vsize s \<and> has_base s' = has_base s \<and>
      cells_outside (has_base s) (cell s) off len (cell s')"
begin

text \<open>Read your writes, on any backend that meets the contract.\<close>

lemma read_after_write:
  assumes "inv s" "off + length buf \<le> vsize s" "write_op s buf off = (s1, Inr ())"
    and "read_op s1 off (length buf) = (s2, Inr bs)"
  shows "bs = buf"
proof -
  from write_ok [OF assms(1-3)]
  have 1: "inv s1" "vsize s1 = vsize s" "cells_updated (has_base s) (cell s) off buf (cell s1)" by auto
  have "bs = map (\<lambda>i. cell_byte (cell s1 (off + i))) [0..<length buf]"
    using read_ok [OF 1(1) _ assms(4)] 1(2) assms(2) by auto
  then show ?thesis
    using 1(3) by (intro nth_equalityI) (auto simp: cells_updated_def)
qed

text \<open>A write, successful or not, leaves every other byte of the layer as a read shows it.\<close>

lemma read_unaffected:
  assumes "inv s" "off + length buf \<le> vsize s" "write_op s buf off = (s1, r)"
    and "o2 + n \<le> off \<or> off + length buf \<le> o2" "o2 + n \<le> vsize s"
    and "read_op s1 o2 n = (s2, Inr bs)" "read_op s o2 n = (s3, Inr cs)"
  shows "bs = cs"
proof -
  from write_frame [OF assms(1-3)]
  have 1: "inv s1" "vsize s1 = vsize s" "cells_outside (has_base s) (cell s) off (length buf) (cell s1)" by auto
  have b: "bs = map (\<lambda>i. cell_byte (cell s1 (o2 + i))) [0..<n]"
    using read_ok [OF 1(1) _ assms(6)] 1(2) assms(5) by auto
  have c: "cs = map (\<lambda>i. cell_byte (cell s (o2 + i))) [0..<n]"
    using read_ok [OF assms(1) assms(5) assms(7)] by auto
  have "cell_byte (cell s1 (o2 + i)) = cell_byte (cell s (o2 + i))" if "i < n" for i
  proof -
    have "\<not> (off \<le> o2 + i \<and> o2 + i < off + length buf)" using assms(4) that by auto
    with 1(3) show ?thesis unfolding cells_outside_def by (metis cell_byte_simps)
  qed
  with b c show ?thesis by simp
qed

end

end
