(* ===== verification/Image_Raw.thy ===== *)
theory Image_Raw
  imports Image_Types
begin

text \<open>
  The raw backend of \<^verbatim>\<open>src/scorpi_image_raw.c\<close>: the file is the disk.  Every byte of the
  virtual disk is present in the layer.
\<close>

section \<open>Raw images\<close>

record scorpi_raw_image =
  raw_fd :: hfile
  raw_readonly :: bool
  raw_size :: u64

definition raw_probe :: "hfile \<Rightarrow> hfile \<times> nat res" where
  "raw_probe fd = (fd, Inr 1)"

definition raw_open :: "string \<Rightarrow> hfile \<Rightarrow> bool \<Rightarrow> hfile \<times> scorpi_raw_image res" where
  "raw_open path fd readonly =
     (case fstat_size fd of
        (fd', Inl e) \<Rightarrow> (fd', Inl e)
      | (fd', Inr st_size) \<Rightarrow>
          (fd', Inr \<lparr>raw_fd = fd', raw_readonly = readonly, raw_size = st_size\<rparr>))"

definition raw_get_info :: "scorpi_raw_image \<Rightarrow> scorpi_image_info res" where
  "raw_get_info raw = Inr
     \<lparr>info_format = SCORPI_IMAGE_FORMAT_RAW, info_virtual_size = raw_size raw,
      info_logical_sector_size = 512, info_physical_sector_size = 0, info_cluster_size = 0,
      info_readonly = raw_readonly raw, info_sealed = raw_readonly raw, info_can_discard = False,
      info_image_uuid = replicate 16 0, info_has_image_uuid = False,
      info_image_digest = replicate 32 0, info_has_image_digest = False,
      info_has_base = False, info_base_uri = None,
      info_base_uuid = replicate 16 0, info_has_base_uuid = False,
      info_base_digest = replicate 32 0, info_has_base_digest = False\<rparr>"

definition raw_map :: "scorpi_raw_image \<Rightarrow> u64 \<Rightarrow> u64 \<Rightarrow> scorpi_raw_image \<times> scorpi_image_extent res" where
  "raw_map raw offset length' =
     (if raw_size raw < offset then (raw, Inl EINVAL)
      else let len = (if raw_size raw - offset < length' then raw_size raw - offset else length') in
        (raw, Inr \<lparr>ext_offset = offset, ext_length = len, ext_state = SCORPI_IMAGE_EXTENT_PRESENT\<rparr>))"

definition raw_read :: "scorpi_raw_image \<Rightarrow> u64 \<Rightarrow> nat \<Rightarrow> scorpi_raw_image \<times> byte list res" where
  "raw_read raw offset len =
     (case pread (raw_fd raw) len offset of
        (fd, Inl e) \<Rightarrow> (raw\<lparr>raw_fd := fd\<rparr>, Inl e)
      | (fd, Inr buf) \<Rightarrow>
          (raw\<lparr>raw_fd := fd\<rparr>, if length buf \<noteq> len then Inl EIO else Inr buf))"

definition raw_write :: "scorpi_raw_image \<Rightarrow> byte list \<Rightarrow> u64 \<Rightarrow> scorpi_raw_image \<times> unit res" where
  "raw_write raw buf offset =
     (if raw_readonly raw then (raw, Inl EROFS)
      else case pwrite (raw_fd raw) buf offset of
          (fd, Inl e) \<Rightarrow> (raw\<lparr>raw_fd := fd\<rparr>, Inl e)
        | (fd, Inr n) \<Rightarrow> (raw\<lparr>raw_fd := fd\<rparr>, if n \<noteq> length buf then Inl EIO else Inr ()))"

definition raw_discard :: "scorpi_raw_image \<Rightarrow> unit res" where
  "raw_discard raw = Inl EOPNOTSUPP"

definition raw_discard_range :: "scorpi_raw_image \<Rightarrow> u64 \<Rightarrow> u64 \<Rightarrow> scorpi_raw_image \<times> unit res" where
  "raw_discard_range raw offset length' = (raw, raw_discard raw)"

definition raw_flush :: "scorpi_raw_image \<Rightarrow> scorpi_raw_image \<times> unit res" where
  "raw_flush raw =
     (case fsync (raw_fd raw) of (fd, r) \<Rightarrow> (raw\<lparr>raw_fd := fd\<rparr>, r))"

definition raw_close :: "scorpi_raw_image \<Rightarrow> unit res" where
  "raw_close raw = snd (close (raw_fd raw))"

subsection \<open>The raw backend meets the contract\<close>

definition raw_inv :: "scorpi_raw_image \<Rightarrow> bool" where
  "raw_inv raw \<longleftrightarrow> raw_size raw \<le> h_size (raw_fd raw) \<and> raw_size raw \<le> INT64_MAX"

definition raw_cell :: "scorpi_raw_image \<Rightarrow> cells" where
  "raw_cell raw = (\<lambda>x. if x < raw_size raw then Some (h_bytes (raw_fd raw) x) else None)"

lemma raw_open_inv:
  assumes "raw_open path fd ro = (fd', Inr raw)" "h_size fd \<le> INT64_MAX"
  shows "raw_inv raw" "raw_size raw = h_size fd" "raw_readonly raw = ro"
    "raw_cell raw = (\<lambda>x. if x < h_size fd then Some (h_bytes fd x) else None)"
proof -
  from assms(1) obtain n where n: "fstat_size fd = (fd', Inr n)"
    and raw: "raw = \<lparr>raw_fd = fd', raw_readonly = ro, raw_size = n\<rparr>"
    by (auto simp: raw_open_def split: prod.splits sum.splits)
  from fstat_frame [OF n] have fd': "same_data fd fd'" "n = h_size fd" by auto
  with assms(2) show "raw_inv raw" "raw_size raw = h_size fd" "raw_readonly raw = ro"
    by (simp_all add: raw raw_inv_def same_data_def)
  from fd' show "raw_cell raw = (\<lambda>x. if x < h_size fd then Some (h_bytes fd x) else None)"
    by (simp add: raw raw_cell_def same_data_def fun_eq_iff)
qed

lemma raw_map_ok:
  assumes "raw_inv s" "0 < len" "off < raw_size s" "raw_map s off len = (s', Inr e)"
  shows "raw_inv s' \<and> raw_size s' = raw_size s \<and> raw_cell s' = raw_cell s \<and>
    extent_describes (raw_cell s) (raw_size s) off len e"
  using assms by (auto simp: raw_map_def Let_def extent_describes_def raw_cell_def split: if_splits)

lemma raw_cell_cong:
  "raw_size s' = raw_size s \<Longrightarrow> same_data (raw_fd s) (raw_fd s') \<Longrightarrow> raw_cell s' = raw_cell s"
  by (auto simp: raw_cell_def same_data_def fun_eq_iff)

lemma raw_read_frame:
  assumes "raw_read s off len = (s', r)"
  shows "raw_size s' = raw_size s \<and> raw_readonly s' = raw_readonly s \<and> same_data (raw_fd s) (raw_fd s')"
  using assms by (auto simp: raw_read_def split: prod.splits sum.splits dest: pread_frame)

lemma raw_read_ok:
  assumes "raw_inv s" "off + len \<le> raw_size s" "raw_read s off len = (s', Inr bs)"
  shows "raw_inv s' \<and> raw_size s' = raw_size s \<and> raw_cell s' = raw_cell s \<and>
    bs = map (\<lambda>i. cell_byte (raw_cell s (off + i))) [0..<len]"
proof -
  from assms(3) obtain fd where p: "pread (raw_fd s) len off = (fd, Inr bs)" "length bs = len"
    by (auto simp: raw_read_def split: prod.splits sum.splits if_splits)
  from pread_bytes [OF p(1)] p(2) have "bs = get_bytes (h_bytes (raw_fd s)) off len" by simp
  moreover have "cell_byte (raw_cell s (off + i)) = h_bytes (raw_fd s) (off + i)" if "i < len" for i
    using that assms(2) by (simp add: raw_cell_def)
  ultimately have "bs = map (\<lambda>i. cell_byte (raw_cell s (off + i))) [0..<len]"
    by (simp add: get_bytes_def)
  with raw_read_frame [OF assms(3)] raw_cell_cong [of s' s] assms(1) show ?thesis
    by (simp add: raw_inv_def same_data_def)
qed

lemma raw_write_inv:
  assumes "raw_inv s" "raw_write s buf off = (s', r)"
  shows "raw_inv s'" "raw_size s' = raw_size s" "raw_readonly s' = raw_readonly s"
proof -
  show "raw_size s' = raw_size s" "raw_readonly s' = raw_readonly s"
    using assms(2) by (auto simp: raw_write_def split: if_splits prod.splits sum.splits)
  show "raw_inv s'"
  proof (cases "raw_readonly s")
    case False
    obtain fd res where p: "pwrite (raw_fd s) buf off = (fd, res)" by fastforce
    have "h_size (raw_fd s) \<le> h_size fd"
      using pwrite_result [OF p] by (auto simp: same_data_def h_size_store_bytes)
    with assms p False show ?thesis
      by (auto simp: raw_write_def raw_inv_def split: sum.splits)
  qed (use assms in \<open>simp add: raw_write_def\<close>)
qed

lemma raw_write_ok:
  assumes "raw_inv s" "off + length buf \<le> raw_size s" "raw_write s buf off = (s', Inr ())"
  shows "raw_inv s' \<and> raw_size s' = raw_size s \<and> False = False \<and>
    cells_updated False (raw_cell s) off buf (raw_cell s')"
proof -
  from assms(3) obtain fd where p: "pwrite (raw_fd s) buf off = (fd, Inr (length buf))"
    and s': "s' = s\<lparr>raw_fd := fd\<rparr>"
    by (auto simp: raw_write_def split: if_splits prod.splits sum.splits)
  from pwrite_result [OF p] have fd: "same_data fd (store_bytes (raw_fd s) off buf)" by auto
  have "raw_cell s' x = (if off \<le> x \<and> x < off + length buf then Some (buf ! (x - off)) else raw_cell s x)"
    for x
    using fd assms(1,2) by (auto simp: raw_cell_def s' same_data_def raw_inv_def h_bytes_store_in h_bytes_store_out)
  then show ?thesis
    using raw_write_inv [OF assms(1,3)] by (simp add: cells_updated_def)
qed

lemma raw_read_any:
  assumes "raw_inv s" "raw_read s off len = (s', r)"
  shows "raw_inv s' \<and> raw_size s' = raw_size s \<and> raw_cell s' = raw_cell s"
  using raw_read_frame [OF assms(2)] raw_cell_cong [of s' s] assms(1)
  by (simp add: raw_inv_def same_data_def)

lemma raw_write_any:
  assumes "raw_inv s" "off + length buf \<le> raw_size s" "raw_write s buf off = (s', r)"
  shows "raw_inv s' \<and> raw_size s' = raw_size s \<and> False = False \<and>
    cells_outside False (raw_cell s) off (length buf) (raw_cell s')"
proof -
  have "raw_cell s' x = raw_cell s x" if "\<not> (off \<le> x \<and> x < off + length buf)" for x
  proof (cases "raw_readonly s")
    case False
    obtain fd res where p: "pwrite (raw_fd s) buf off = (fd, res)" by fastforce
    have s': "raw_fd s' = fd"
      using assms(3) p False by (auto simp: raw_write_def split: sum.splits)
    have "h_bytes fd x = h_bytes (raw_fd s) x" if "x < h_size (raw_fd s)"
      using pwrite_result [OF p] that \<open>\<not> (off \<le> x \<and> x < off + length buf)\<close>
      by (auto simp: same_data_def h_bytes_store_out min_def)
    with raw_write_inv [OF assms(1,3)] assms(1) show ?thesis
      by (simp add: raw_cell_def raw_inv_def s')
  qed (use assms in \<open>simp add: raw_write_def\<close>)
  then show ?thesis
    using raw_write_inv [OF assms(1,3)] by (auto simp: cells_outside_def)
qed

interpretation raw: image_backend_rw raw_inv raw_size raw_cell raw_map raw_read
  "\<lambda>_. False" raw_write raw_discard_range
proof (unfold_locales, goal_cases)
  case (1 s)
  then show ?case by (simp add: raw_inv_def)
next
  case (2 s len off s' e)
  then show ?case by (rule raw_map_ok)
next
  case (3 s off len s' bs)
  then show ?case by (rule raw_read_ok)
next
  case (4 s off len s' r)
  then show ?case by (auto simp: raw_map_def Let_def split: if_splits)
next
  case (5 s off len s' r)
  then show ?case by (rule raw_read_any)
next
  case (6 s off buf s')
  then show ?case by (rule raw_write_ok)
next
  case (7 s off buf s' r)
  then show ?case by (rule raw_write_any)
next
  case (8 s off len s')
  then show ?case by (simp add: raw_discard_range_def raw_discard_def)
next
  case (9 s off len s' r)
  then show ?case by (simp add: raw_discard_range_def raw_discard_def)
qed

text \<open>With a host that does not fail, reads and writes inside the disk succeed.\<close>

lemma raw_read_succeeds:
  assumes "raw_inv s" "off + len \<le> raw_size s" "h_script (raw_fd s) = []"
  shows "raw_read s off len = (s, Inr (get_bytes (h_bytes (raw_fd s)) off len))"
proof -
  have "pread (raw_fd s) len off = (raw_fd s, Inr (get_bytes (h_bytes (raw_fd s)) off len))"
    using assms by (intro pread_no_fault) (simp_all add: raw_inv_def)
  then show ?thesis by (simp add: raw_read_def)
qed

lemma raw_write_succeeds:
  assumes "raw_inv s" "off + length buf \<le> raw_size s" "h_script (raw_fd s) = []" "\<not> raw_readonly s"
  shows "raw_write s buf off = (s\<lparr>raw_fd := store_bytes (raw_fd s) off buf\<rparr>, Inr ())"
proof -
  have "pwrite (raw_fd s) buf off = (store_bytes (raw_fd s) off buf, Inr (length buf))"
    using assms by (simp add: pwrite_def raw_inv_def)
  with assms(4) show ?thesis by (simp add: raw_write_def)
qed

end
