(* ===== verification/Sco_Format.thy ===== *)
theory Sco_Format
  imports Crc32c Image_Types
begin

text \<open>
  The on-disk structures of the SCO image format: the constants of
  \<^verbatim>\<open>src/scorpi_image_sco_format.h\<close> and the codecs of \<^verbatim>\<open>src/scorpi_image_sco.c\<close> for
  allocation-table slots, superblocks and the range checks they use.
\<close>

section \<open>SCO on-disk format\<close>

abbreviation (input) SCO_FORMAT_MAJOR :: nat where "SCO_FORMAT_MAJOR \<equiv> 2"
abbreviation (input) SCO_FILE_ID_OFFSET :: nat where "SCO_FILE_ID_OFFSET \<equiv> 0"
abbreviation (input) SCO_FILE_ID_SIZE :: nat where "SCO_FILE_ID_SIZE \<equiv> 4096"
abbreviation (input) SCO_SUPERBLOCK_A_OFFSET :: nat where "SCO_SUPERBLOCK_A_OFFSET \<equiv> 4096"
abbreviation (input) SCO_SUPERBLOCK_B_OFFSET :: nat where "SCO_SUPERBLOCK_B_OFFSET \<equiv> 8192"
abbreviation (input) SCO_SUPERBLOCK_SIZE :: nat where "SCO_SUPERBLOCK_SIZE \<equiv> 4096"
abbreviation (input) SCO_METADATA_AREA_OFFSET :: nat where "SCO_METADATA_AREA_OFFSET \<equiv> 65536"
abbreviation (input) SCO_METADATA_PAGE_SIZE :: nat where "SCO_METADATA_PAGE_SIZE \<equiv> 4096"
abbreviation (input) SCO_MIN_FILE_SIZE :: nat where "SCO_MIN_FILE_SIZE \<equiv> 65536"
abbreviation (input) SCO_MIN_CLUSTER_SIZE :: nat where "SCO_MIN_CLUSTER_SIZE \<equiv> 65536"
abbreviation (input) SCO_MAX_CLUSTER_SIZE :: nat where "SCO_MAX_CLUSTER_SIZE \<equiv> 4194304"
abbreviation (input) SCO_BASE_DESCRIPTOR_MIN_SIZE :: nat where "SCO_BASE_DESCRIPTOR_MIN_SIZE \<equiv> 80"
abbreviation (input) SCO_CHECKSUM_CRC32C :: nat where "SCO_CHECKSUM_CRC32C \<equiv> 1"
abbreviation (input) SCO_TABLE_SLOT_SIZE :: nat where "SCO_TABLE_SLOT_SIZE \<equiv> 16"
abbreviation (input) SCO_TABLE_SLOTS_PER_ENTRY :: nat where "SCO_TABLE_SLOTS_PER_ENTRY \<equiv> 2"
abbreviation (input) SCO_TABLE_ENTRY_SIZE :: nat where "SCO_TABLE_ENTRY_SIZE \<equiv> 32"
abbreviation (input) SCO_MAX_SINGLE_TABLE_BYTES :: nat where "SCO_MAX_SINGLE_TABLE_BYTES \<equiv> 33554432"
abbreviation (input) SCO_INCOMPAT_FIXED_TABLE_V2 :: "32 word" where "SCO_INCOMPAT_FIXED_TABLE_V2 \<equiv> 1"
abbreviation (input) SCO_INCOMPAT_SUPPORTED :: "32 word" where "SCO_INCOMPAT_SUPPORTED \<equiv> 1"
abbreviation (input) SCO_RO_COMPAT_SEALED :: "32 word" where "SCO_RO_COMPAT_SEALED \<equiv> 1"
abbreviation (input) SCO_RO_COMPAT_SUPPORTED :: "32 word" where "SCO_RO_COMPAT_SUPPORTED \<equiv> 1"
abbreviation (input) SCO_MAP_STATE_ABSENT :: nat where "SCO_MAP_STATE_ABSENT \<equiv> 0"
abbreviation (input) SCO_MAP_STATE_PRESENT :: nat where "SCO_MAP_STATE_PRESENT \<equiv> 1"
abbreviation (input) SCO_MAP_STATE_ZERO :: nat where "SCO_MAP_STATE_ZERO \<equiv> 2"
abbreviation (input) SCO_MAP_STATE_DISCARDED :: nat where "SCO_MAP_STATE_DISCARDED \<equiv> 3"
abbreviation (input) SCO_SLOT_A :: nat where "SCO_SLOT_A \<equiv> 0"
abbreviation (input) SCO_SLOT_B :: nat where "SCO_SLOT_B \<equiv> 1"

text \<open>The magic \<open>SCOIMG\<close> followed by two NUL bytes.\<close>

definition SCO_MAGIC :: "byte list" where
  "SCO_MAGIC = [0x53, 0x43, 0x4f, 0x49, 0x4d, 0x47, 0, 0]"

lemma length_SCO_MAGIC [simp]: "length SCO_MAGIC = 8"
  by (simp add: SCO_MAGIC_def)

record sco_superblock =
  sb_generation :: u64
  sb_virtual_size :: u64
  sb_logical_sector_size :: u32
  sb_physical_sector_size :: u32
  sb_cluster_size :: u32
  sb_cluster_count :: u64
  sb_data_area_offset :: u64
  sb_base_descriptor_offset :: u64
  sb_base_descriptor_length :: u32
  sb_table_offset :: u64
  sb_table_length :: u32
  sb_incompatible_features :: "32 word"
  sb_readonly_compatible_features :: "32 word"
  sb_compatible_features :: "32 word"
  sb_image_uuid :: "byte list"
  sb_image_digest :: "byte list"
  sb_has_image_digest :: bool

record sco_table_entry =
  te_generation :: u32
  te_physical_cluster :: u32
  te_state :: nat
  te_active_slot :: nat
  te_flags :: nat

subsection \<open>Checks\<close>

definition is_power_of_two_u64 :: "u64 \<Rightarrow> bool" where
  "is_power_of_two_u64 value \<longleftrightarrow> value \<noteq> 0 \<and> value AND (value - 1) = 0"

definition range_fits :: "u64 \<Rightarrow> u64 \<Rightarrow> u64 \<Rightarrow> bool" where
  "range_fits offset length' limit \<longleftrightarrow>
     (if UINT64_MAX - offset < length' then False else offset + length' \<le> limit)"

definition range_before_data :: "u64 \<Rightarrow> u64 \<Rightarrow> u64 \<Rightarrow> bool" where
  "range_before_data offset length' data_area_offset \<longleftrightarrow>
     SCO_METADATA_AREA_OFFSET \<le> offset \<and> offset mod SCO_METADATA_PAGE_SIZE = 0 \<and>
     length' \<noteq> 0 \<and> length' mod SCO_METADATA_PAGE_SIZE = 0 \<and>
     range_fits offset length' data_area_offset"

definition reserved_zero :: "byte list \<Rightarrow> nat \<Rightarrow> nat \<Rightarrow> bool" where
  "reserved_zero buf offset length' \<longleftrightarrow> list_all (\<lambda>i. buf ! (offset + i) = 0) [0..<length']"

text \<open>The comparison of a buffer with itself shifted by one byte, as \<open>memcmp\<close> does it.\<close>

definition buffer_all_zero :: "byte list \<Rightarrow> bool" where
  "buffer_all_zero buf \<longleftrightarrow>
     (case buf of [] \<Rightarrow> True
      | p0 # rest \<Rightarrow> p0 = 0 \<and> (length buf = 1 \<or> take (length buf - 1) buf = rest))"

definition crc32c_valid :: "byte list \<Rightarrow> nat \<Rightarrow> u32 \<Rightarrow> bool" where
  "crc32c_valid buf checksum_offset expected \<longleftrightarrow>
     unat (scorpi_crc32c (overwrite checksum_offset [0, 0, 0, 0] buf)) = expected"

definition sco_inactive_superblock_offset :: "u64 \<Rightarrow> u64" where
  "sco_inactive_superblock_offset active_offset =
     (if active_offset = SCO_SUPERBLOCK_A_OFFSET then SCO_SUPERBLOCK_B_OFFSET
      else SCO_SUPERBLOCK_A_OFFSET)"

definition sco_cluster_stored_length :: "sco_superblock \<Rightarrow> u64 \<Rightarrow> u64" where
  "sco_cluster_stored_length sb cluster_index =
     (let cluster_offset = mul64 cluster_index (sb_cluster_size sb);
          remaining = sub64 (sb_virtual_size sb) cluster_offset
      in if remaining < sb_cluster_size sb then remaining else sb_cluster_size sb)"

definition sco_state_valid :: "nat \<Rightarrow> bool" where
  "sco_state_valid state \<longleftrightarrow>
     state = SCO_MAP_STATE_ABSENT \<or> state = SCO_MAP_STATE_PRESENT \<or>
     state = SCO_MAP_STATE_ZERO \<or> state = SCO_MAP_STATE_DISCARDED"

subsection \<open>Table slots\<close>

definition zeros :: "nat \<Rightarrow> byte list" where
  "zeros n = replicate n 0"

text \<open>Stores a list of fields, each at its offset, one after the other.\<close>

definition put_fields :: "(nat \<times> byte list) list \<Rightarrow> byte list \<Rightarrow> byte list" where
  "put_fields fs buf = foldl (\<lambda>b (off, bs). overwrite off bs b) buf fs"

definition sco_table_slot_offset :: "sco_superblock \<Rightarrow> u64 \<Rightarrow> nat \<Rightarrow> u64" where
  "sco_table_slot_offset sb cluster_index slot_index =
     add64 (add64 (sb_table_offset sb) (mul64 cluster_index SCO_TABLE_ENTRY_SIZE))
       (slot_index * SCO_TABLE_SLOT_SIZE)"

definition sco_slot_crc32c :: "sco_superblock \<Rightarrow> u64 \<Rightarrow> nat \<Rightarrow> byte list \<Rightarrow> 32 word" where
  "sco_slot_crc32c sb cluster_index slot_index slot =
     scorpi_crc32c (sb_image_uuid sb @ le64enc cluster_index @ le32enc slot_index @
       overwrite 8 [0, 0, 0, 0] slot)"

definition sco_build_slot :: "sco_superblock \<Rightarrow> u64 \<Rightarrow> nat \<Rightarrow> u32 \<Rightarrow> nat \<Rightarrow> u32 \<Rightarrow> byte list" where
  "sco_build_slot sb cluster_index slot_index generation state physical_cluster =
     (let slot = put_fields
            [(0x0, le32enc generation), (0x4, le32enc physical_cluster),
             (0xc, [of_nat state]), (0xd, [0]), (0xe, le16enc 0)] (zeros SCO_TABLE_SLOT_SIZE);
          crc = sco_slot_crc32c sb cluster_index slot_index slot
      in overwrite 0x8 (le32enc (unat crc)) slot)"

definition sco_slot_valid ::
  "sco_superblock \<Rightarrow> u64 \<Rightarrow> u64 \<Rightarrow> nat \<Rightarrow> byte list \<Rightarrow> sco_table_entry option" where
  "sco_slot_valid sb file_size cluster_index slot_index slot =
     (let generation = le32dec slot 0x0;
          physical_cluster = le32dec slot 0x4;
          expected_crc = le32dec slot 0x8;
          state = unat (slot ! 0xc);
          flags = unat (slot ! 0xd);
          entry = \<lparr>te_generation = generation, te_physical_cluster = physical_cluster,
                   te_state = state, te_active_slot = slot_index, te_flags = flags\<rparr>
      in if generation = 0 \<and> physical_cluster = 0 \<and> expected_crc = 0 \<and> state = 0 \<and> flags = 0 \<and>
            le16dec slot 0xe = 0 then None
         else if flags \<noteq> 0 \<or> le16dec slot 0xe \<noteq> 0 \<or> \<not> sco_state_valid state then None
         else if unat (sco_slot_crc32c sb cluster_index slot_index slot) \<noteq> expected_crc then None
         else if state = SCO_MAP_STATE_PRESENT then
           (if physical_cluster = 0 then None
            else if UINT64_MAX div sb_cluster_size sb < physical_cluster then None
            else let physical_offset = mul64 physical_cluster (sb_cluster_size sb) in
              if physical_offset < sb_data_area_offset sb \<or> file_size < physical_offset \<or>
                 file_size - physical_offset < sco_cluster_stored_length sb cluster_index then None
              else Some entry)
         else if physical_cluster \<noteq> 0 then None
         else Some entry)"

subsection \<open>Superblocks\<close>

text \<open>The fields of a superblock page, in the order the encoder stores them.\<close>

definition sco_superblock_fields :: "sco_superblock \<Rightarrow> (nat \<times> byte list) list" where
  "sco_superblock_fields sb =
     [(0x00, SCO_MAGIC), (0x08, le16enc SCO_FORMAT_MAJOR), (0x0a, le16enc 0),
      (0x0c, le32enc SCO_SUPERBLOCK_SIZE), (0x10, le32enc SCO_CHECKSUM_CRC32C),
      (0x18, le64enc (sb_generation sb)), (0x20, le64enc (sb_virtual_size sb)),
      (0x28, le32enc (sb_logical_sector_size sb)), (0x2c, le32enc (sb_physical_sector_size sb)),
      (0x30, le32enc (sb_cluster_size sb)), (0x38, le64enc (sb_cluster_count sb)),
      (0x40, le64enc SCO_METADATA_AREA_OFFSET), (0x48, le64enc (sb_data_area_offset sb)),
      (0x50, le64enc (sb_base_descriptor_offset sb)), (0x58, le32enc (sb_base_descriptor_length sb)),
      (0x60, le64enc (sb_table_offset sb)), (0x68, le32enc (sb_table_length sb)),
      (0x6c, le32enc SCO_TABLE_SLOT_SIZE), (0x70, le32enc (unat (sb_incompatible_features sb))),
      (0x74, le32enc (unat (sb_readonly_compatible_features sb))),
      (0x78, le32enc (unat (sb_compatible_features sb))), (0x80, sb_image_uuid sb)] @
     (if sb_has_image_digest sb then [(0x90, sb_image_digest sb)] else []) @
     [(0xb0, le32enc (if sb_has_image_digest sb then 1 else 0))]"

definition sco_build_superblock :: "sco_superblock \<Rightarrow> byte list" where
  "sco_build_superblock sb =
     (let buf = put_fields (sco_superblock_fields sb) (zeros SCO_SUPERBLOCK_SIZE);
          crc = scorpi_crc32c buf
      in overwrite 0x14 (le32enc (unat crc)) buf)"

definition sco_superblock_layout_valid :: "sco_superblock \<Rightarrow> u64 \<Rightarrow> bool" where
  "sco_superblock_layout_valid sb file_size \<longleftrightarrow>
     \<not> (sb_virtual_size sb = 0 \<or> sb_logical_sector_size sb = 0 \<or>
        sb_cluster_size sb = 0 \<or> sb_cluster_count sb = 0) \<and>
     is_power_of_two_u64 (sb_logical_sector_size sb) \<and>
     \<not> (sb_physical_sector_size sb \<noteq> 0 \<and>
        (\<not> is_power_of_two_u64 (sb_physical_sector_size sb) \<or>
         sb_physical_sector_size sb < sb_logical_sector_size sb)) \<and>
     \<not> (sb_cluster_size sb < SCO_MIN_CLUSTER_SIZE \<or> SCO_MAX_CLUSTER_SIZE < sb_cluster_size sb \<or>
        \<not> is_power_of_two_u64 (sb_cluster_size sb) \<or>
        sb_cluster_size sb mod sb_logical_sector_size sb \<noteq> 0) \<and>
     (let expected_clusters =
            sub64 (add64 (sb_virtual_size sb) (sb_cluster_size sb)) 1 div sb_cluster_size sb;
          required_table_length = mul64 (sb_cluster_count sb) SCO_TABLE_SLOT_SIZE;
          table_total_length = (sb_table_length sb * SCO_TABLE_SLOTS_PER_ENTRY) mod 4294967296
      in sb_cluster_count sb = expected_clusters \<and>
         \<not> UINT64_MAX div SCO_TABLE_SLOT_SIZE < sb_cluster_count sb \<and>
         \<not> (SCO_MAX_SINGLE_TABLE_BYTES < required_table_length \<or>
            UINT32_MAX < required_table_length) \<and>
         \<not> (sb_table_length sb < required_table_length \<or>
            SCO_MAX_SINGLE_TABLE_BYTES < sb_table_length sb \<or>
            sb_table_length sb mod SCO_METADATA_PAGE_SIZE \<noteq> 0) \<and>
         range_before_data (sb_table_offset sb) table_total_length (sb_data_area_offset sb)) \<and>
     \<not> (sb_data_area_offset sb < SCO_METADATA_AREA_OFFSET \<or>
        sb_data_area_offset sb mod sb_cluster_size sb \<noteq> 0 \<or>
        file_size < sb_data_area_offset sb) \<and>
     (if sb_base_descriptor_offset sb = 0 then sb_base_descriptor_length sb = 0
      else range_before_data (sb_base_descriptor_offset sb) (sb_base_descriptor_length sb)
             (sb_data_area_offset sb))"

text \<open>
  The decoder of one superblock page: \<open>sco_read_superblock\<close> after its \<open>read_exact\<close>.
  \<open>sco_superblock_of_page\<close> is its field extraction.
\<close>

definition sco_superblock_of_page :: "byte list \<Rightarrow> sco_superblock" where
  "sco_superblock_of_page buf =
     \<lparr>sb_generation = le64dec buf 0x18, sb_virtual_size = le64dec buf 0x20,
      sb_logical_sector_size = le32dec buf 0x28, sb_physical_sector_size = le32dec buf 0x2c,
      sb_cluster_size = le32dec buf 0x30, sb_cluster_count = le64dec buf 0x38,
      sb_data_area_offset = le64dec buf 0x48, sb_base_descriptor_offset = le64dec buf 0x50,
      sb_base_descriptor_length = le32dec buf 0x58, sb_table_offset = le64dec buf 0x60,
      sb_table_length = le32dec buf 0x68,
      sb_incompatible_features = of_nat (le32dec buf 0x70),
      sb_readonly_compatible_features = of_nat (le32dec buf 0x74),
      sb_compatible_features = of_nat (le32dec buf 0x78),
      sb_image_uuid = buf_slice 0x80 16 buf, sb_image_digest = buf_slice 0x90 32 buf,
      sb_has_image_digest = (le32dec buf 0xb0 \<noteq> 0)\<rparr>"

definition sco_decode_superblock :: "byte list \<Rightarrow> bool \<Rightarrow> byte list \<Rightarrow> u64 \<Rightarrow> sco_superblock res" where
  "sco_decode_superblock buf readonly file_id_uuid file_size =
     (if take 8 buf \<noteq> SCO_MAGIC then Inl EINVAL
      else if le16dec buf 0x08 \<noteq> SCO_FORMAT_MAJOR then Inl EINVAL
      else if le32dec buf 0x0c \<noteq> SCO_SUPERBLOCK_SIZE then Inl EINVAL
      else if le32dec buf 0x10 \<noteq> SCO_CHECKSUM_CRC32C then Inl EINVAL
      else if \<not> crc32c_valid buf 0x14 (le32dec buf 0x14) then Inl EINVAL
      else if le64dec buf 0x40 \<noteq> SCO_METADATA_AREA_OFFSET then Inl EINVAL
      else if le32dec buf 0x6c \<noteq> SCO_TABLE_SLOT_SIZE then Inl EINVAL
      else if le32dec buf 0x5c \<noteq> 0 \<or> le32dec buf 0x7c \<noteq> 0 \<or> le32dec buf 0xb4 \<noteq> 0 then Inl EINVAL
      else if \<not> reserved_zero buf 0xb8 (SCO_SUPERBLOCK_SIZE - 0xb8) then Inl EINVAL
      else if 1 < le32dec buf 0xb0 then Inl EINVAL
      else
        let sb = sco_superblock_of_page buf
        in if sb_image_uuid sb \<noteq> file_id_uuid then Inl EINVAL
           else if sb_incompatible_features sb AND NOT SCO_INCOMPAT_SUPPORTED \<noteq> 0 then Inl EINVAL
           else if sb_readonly_compatible_features sb AND NOT SCO_RO_COMPAT_SUPPORTED \<noteq> 0 \<and>
                   \<not> readonly then Inl EINVAL
           else if sb_incompatible_features sb AND SCO_INCOMPAT_FIXED_TABLE_V2 = 0 then Inl EINVAL
           else if \<not> sco_superblock_layout_valid sb file_size then Inl EINVAL
           else Inr sb)"

definition sco_read_superblock ::
  "hfile \<Rightarrow> u64 \<Rightarrow> bool \<Rightarrow> byte list \<Rightarrow> u64 \<Rightarrow> hfile \<times> sco_superblock res" where
  "sco_read_superblock fd offset readonly file_id_uuid file_size =
     (case read_exact fd offset SCO_SUPERBLOCK_SIZE of
        (fd', Inl e) \<Rightarrow> (fd', Inl e)
      | (fd', Inr buf) \<Rightarrow> (fd', sco_decode_superblock buf readonly file_id_uuid file_size))"

definition sco_select_superblock ::
  "hfile \<Rightarrow> bool \<Rightarrow> byte list \<Rightarrow> u64 \<Rightarrow> hfile \<times> (sco_superblock \<times> u64) res" where
  "sco_select_superblock fd readonly file_id_uuid file_size =
     (let (fd1, ra) = sco_read_superblock fd SCO_SUPERBLOCK_A_OFFSET readonly file_id_uuid file_size;
          (fd2, rb) = sco_read_superblock fd1 SCO_SUPERBLOCK_B_OFFSET readonly file_id_uuid file_size
      in (fd2, case (ra, rb) of
            (Inl _, Inl _) \<Rightarrow> Inl EINVAL
          | (Inr a, Inl _) \<Rightarrow> Inr (a, SCO_SUPERBLOCK_A_OFFSET)
          | (Inl _, Inr b) \<Rightarrow> Inr (b, SCO_SUPERBLOCK_B_OFFSET)
          | (Inr a, Inr b) \<Rightarrow>
              if sb_generation a < sb_generation b then Inr (b, SCO_SUPERBLOCK_B_OFFSET)
              else Inr (a, SCO_SUPERBLOCK_A_OFFSET)))"

section \<open>Facts about the format\<close>

subsection \<open>Pages built from fields\<close>

text \<open>Fields in ascending order, without overlap, inside a buffer of \<open>n\<close> bytes.\<close>

fun fields_ok :: "nat \<Rightarrow> (nat \<times> byte list) list \<Rightarrow> nat \<Rightarrow> bool" where
  "fields_ok lo [] n = True"
| "fields_ok lo ((off, bs) # fs) n =
     (lo \<le> off \<and> off + length bs \<le> n \<and> fields_ok (off + length bs) fs n)"

lemma length_zeros [simp]: "length (zeros n) = n"
  by (simp add: zeros_def)

lemma nth_zeros [simp]: "i < n \<Longrightarrow> zeros n ! i = 0"
  by (simp add: zeros_def)

lemma slice_zeros: "off + n \<le> m \<Longrightarrow> buf_slice off n (zeros m) = zeros n"
  by (rule nth_equalityI) (simp_all add: nth_slice)

lemma put_fields_Nil [simp]: "put_fields [] buf = buf"
  by (simp add: put_fields_def)

lemma put_fields_Cons [simp]: "put_fields ((off, bs) # fs) buf = put_fields fs (overwrite off bs buf)"
  by (simp add: put_fields_def)

lemma length_put_fields [simp]:
  "fields_ok lo fs (length buf) \<Longrightarrow> length (put_fields fs buf) = length buf"
  by (induction fs arbitrary: lo buf) auto

lemma slice_put_fields_gap:
  "fields_ok lo fs (length buf) \<Longrightarrow> off + n \<le> length buf \<Longrightarrow>
     list_all (\<lambda>(o', bs). off + n \<le> o' \<or> o' + length bs \<le> off) fs \<Longrightarrow>
     buf_slice off n (put_fields fs buf) = buf_slice off n buf"
  by (induction fs arbitrary: lo buf) auto

lemma fields_ok_above:
  "fields_ok lo fs n \<Longrightarrow> off + m \<le> lo \<Longrightarrow> list_all (\<lambda>(o', bs). off + m \<le> o' \<or> o' + length bs \<le> off) fs"
  by (induction fs arbitrary: lo) auto

lemma slice_put_fields:
  "fields_ok lo fs (length buf) \<Longrightarrow> (off, bs) \<in> set fs \<Longrightarrow>
     buf_slice off (length bs) (put_fields fs buf) = bs"
proof (induction fs arbitrary: lo buf)
  case (Cons f fs)
  obtain o' cs where f: "f = (o', cs)" by fastforce
  from Cons.prems(1) f have ok: "fields_ok (o' + length cs) fs (length (overwrite o' cs buf))"
    "o' + length cs \<le> length buf" by auto
  show ?case
  proof (cases "(off, bs) \<in> set fs")
    case True
    from Cons.IH [OF ok(1) True] show ?thesis by (simp add: f)
  next
    case False
    with Cons.prems(2) f have "off = o'" "bs = cs" by auto
    with ok slice_put_fields_gap [OF ok(1), of o' "length cs"] fields_ok_above [OF ok(1), of o' "length cs"]
    show ?thesis by (simp add: f)
  qed
qed simp

lemma le16dec_field:
  "fields_ok lo fs (length buf) \<Longrightarrow> (off, le16enc v) \<in> set fs \<Longrightarrow> off + 2 \<le> length buf \<Longrightarrow> v < 65536 \<Longrightarrow>
     le16dec (put_fields fs buf) off = v"
  using slice_put_fields [of lo fs buf off "le16enc v"] by (subst le16dec_slice) auto

lemma le32dec_field:
  "fields_ok lo fs (length buf) \<Longrightarrow> (off, le32enc v) \<in> set fs \<Longrightarrow> off + 4 \<le> length buf \<Longrightarrow> v \<le> UINT32_MAX \<Longrightarrow>
     le32dec (put_fields fs buf) off = v"
  using slice_put_fields [of lo fs buf off "le32enc v"] by (subst le32dec_slice) auto

lemma le64dec_field:
  "fields_ok lo fs (length buf) \<Longrightarrow> (off, le64enc v) \<in> set fs \<Longrightarrow> off + 8 \<le> length buf \<Longrightarrow> v \<le> UINT64_MAX \<Longrightarrow>
     le64dec (put_fields fs buf) off = v"
  using slice_put_fields [of lo fs buf off "le64enc v"] by (subst le64dec_slice) auto

lemma le32dec_zeros: "off + 4 \<le> n \<Longrightarrow> le32dec (zeros n) off = 0"
  by (simp add: le32dec_def)

lemma le32dec_gap:
  "fields_ok lo fs n \<Longrightarrow> off + 4 \<le> n \<Longrightarrow>
     list_all (\<lambda>(o', bs). off + 4 \<le> o' \<or> o' + length bs \<le> off) fs \<Longrightarrow>
     le32dec (put_fields fs (zeros n)) off = 0"
  using slice_put_fields_gap [of lo fs "zeros n" off 4]
  by (subst le32dec_slice) (auto simp: slice_zeros le32dec_zeros)

text \<open>A decode is not disturbed by the checksum stored elsewhere in the page.\<close>

lemma le_dec_overwrite:
  assumes "o' + length bs \<le> length p"
  shows "off + 2 \<le> length p \<Longrightarrow> off + 2 \<le> o' \<or> o' + length bs \<le> off \<Longrightarrow>
      le16dec (overwrite o' bs p) off = le16dec p off"
    and "off + 4 \<le> length p \<Longrightarrow> off + 4 \<le> o' \<or> o' + length bs \<le> off \<Longrightarrow>
      le32dec (overwrite o' bs p) off = le32dec p off"
    and "off + 8 \<le> length p \<Longrightarrow> off + 8 \<le> o' \<or> o' + length bs \<le> off \<Longrightarrow>
      le64dec (overwrite o' bs p) off = le64dec p off"
  using assms by (simp_all add: le16dec_slice [of off] le32dec_slice [of off] le64dec_slice [of off])

lemma crc32c_valid_stored:
  assumes "off + 4 \<le> length p" "buf_slice off 4 p = zeros 4"
  shows "crc32c_valid (overwrite off (le32enc (unat (scorpi_crc32c p))) p) off (unat (scorpi_crc32c p))"
proof -
  have "overwrite off [0, 0, 0, 0] (overwrite off (le32enc (unat (scorpi_crc32c p))) p) = overwrite off (zeros 4) p"
    using assms(1) by (subst overwrite_overwrite_same) (simp_all add: zeros_def numeral_eq_Suc)
  also have "\<dots> = p" using overwrite_slice_id [of off 4 p] assms by simp
  finally show ?thesis by (simp add: crc32c_valid_def)
qed

lemma le32dec_overwrite_same:
  "off + 4 \<le> length p \<Longrightarrow> v \<le> UINT32_MAX \<Longrightarrow> le32dec (overwrite off (le32enc v) p) off = v"
  by (subst le32dec_slice) simp_all

lemma unat_u32_le: "unat (w :: 32 word) \<le> UINT32_MAX"
proof -
  have "unat w < 2 ^ LENGTH(32)" by (rule unsigned_less)
  then show ?thesis by simp
qed

subsection \<open>Buffers of zeros\<close>

lemma shifted_eq_const: "take (length xs) (x # xs) = xs \<Longrightarrow> \<forall>y\<in>set xs. y = x"
proof (induction xs arbitrary: x)
  case (Cons a xs)
  from Cons.prems have "a = x" "take (length xs) (a # xs) = xs" by simp_all
  with Cons.IH [of a] show ?case by auto
qed simp

lemma const_shifted_eq: "\<forall>y\<in>set xs. y = x \<Longrightarrow> take (length xs) (x # xs) = xs"
  by (induction xs arbitrary: x) auto

lemma buffer_all_zero_iff: "buffer_all_zero buf \<longleftrightarrow> (\<forall>b\<in>set buf. b = 0)"
proof (cases buf)
  case (Cons p0 rest)
  then show ?thesis
    using shifted_eq_const [of rest p0] const_shifted_eq [of rest p0]
    by (cases rest) (auto simp: buffer_all_zero_def)
qed (simp add: buffer_all_zero_def)

lemma buffer_all_zero_nth: "buffer_all_zero buf \<Longrightarrow> i < length buf \<Longrightarrow> buf ! i = 0"
  by (simp add: buffer_all_zero_iff)

subsection \<open>Powers of two\<close>

lemma and_pred_double:
  fixes w :: nat
  assumes "0 < w"
  shows "(2 * w) AND (2 * w - 1) = 2 * (w AND (w - 1))"
proof -
  from assms have e: "2 * w - 1 = 1 + 2 * (w - 1)" by simp
  show ?thesis unfolding e by (subst and_rec) simp
qed

lemma is_power_of_two_imp: "is_power_of_two_u64 v \<Longrightarrow> \<exists>k. v = 2 ^ k"
proof (induction v rule: less_induct)
  case (less v)
  then have v0: "v \<noteq> 0" and z: "v AND (v - 1) = 0" by (auto simp: is_power_of_two_u64_def)
  show ?case
  proof (cases "even v")
    case True
    then obtain w where w: "v = 2 * w" by blast
    with v0 have "0 < w" by simp
    from z and_pred_double [OF \<open>0 < w\<close>] have "w AND (w - 1) = 0" unfolding w by linarith
    with \<open>0 < w\<close> have "is_power_of_two_u64 w" unfolding is_power_of_two_u64_def by simp
    with less.IH [of w] w \<open>0 < w\<close> obtain k where "w = 2 ^ k" by auto
    with w show ?thesis by (intro exI [of _ "Suc k"]) simp
  next
    case False
    then obtain w where w: "v = 2 * w + 1" by (metis oddE)
    have "(1 + 2 * w) AND (2 * w) = 2 * w" by (subst and_rec) simp
    with z w have "w = 0" by simp
    with w show ?thesis by (intro exI [of _ 0]) simp
  qed
qed

subsection \<open>Slot round trip\<close>

text \<open>
  The fields of a slot before its checksum, and what an encoded slot decodes to.  The
  generation of an encoded slot is never zero, so it is never taken for an empty slot.
\<close>

definition sco_slot_body :: "u32 \<Rightarrow> nat \<Rightarrow> u32 \<Rightarrow> byte list" where
  "sco_slot_body generation state physical_cluster = put_fields
     [(0x0, le32enc generation), (0x4, le32enc physical_cluster),
      (0xc, [of_nat state]), (0xd, [0]), (0xe, le16enc 0)] (zeros 16)"

lemma length_sco_slot_body [simp]: "length (sco_slot_body g st ph) = 16"
  by (simp add: sco_slot_body_def)

lemma sco_build_slot_body:
  "sco_build_slot sb i k g st ph =
     overwrite 8 (le32enc (unat (sco_slot_crc32c sb i k (sco_slot_body g st ph)))) (sco_slot_body g st ph)"
  by (simp add: sco_build_slot_def sco_slot_body_def Let_def)

lemma length_sco_build_slot [simp]: "length (sco_build_slot sb i k g st ph) = 16"
  by (simp add: sco_build_slot_body)

lemma sco_slot_body_fields:
  assumes "g \<le> UINT32_MAX" "ph \<le> UINT32_MAX" "st < 256"
  shows "le32dec (sco_slot_body g st ph) 0 = g" "le32dec (sco_slot_body g st ph) 4 = ph"
    "unat (sco_slot_body g st ph ! 12) = st" "unat (sco_slot_body g st ph ! 13) = 0"
    "le16dec (sco_slot_body g st ph) 14 = 0" "buf_slice 8 4 (sco_slot_body g st ph) = zeros 4"
proof -
  let ?fs = "[(0x0, le32enc g), (0x4, le32enc ph), (0xc, [of_nat st]), (0xd, [0]), (0xe, le16enc 0)]"
  have ok: "fields_ok 0 ?fs (length (zeros 16))" by simp
  show "le32dec (sco_slot_body g st ph) 0 = g"
    unfolding sco_slot_body_def by (rule le32dec_field [OF ok]) (simp_all add: assms)
  show "le32dec (sco_slot_body g st ph) 4 = ph"
    unfolding sco_slot_body_def by (rule le32dec_field [OF ok]) (simp_all add: assms)
  show "le16dec (sco_slot_body g st ph) 14 = 0"
    unfolding sco_slot_body_def by (rule le16dec_field [OF ok]) simp_all
  have "buf_slice 12 1 (sco_slot_body g st ph) = [of_nat st]" "buf_slice 13 1 (sco_slot_body g st ph) = [0]"
    using slice_put_fields [OF ok, of 12 "[of_nat st]"] slice_put_fields [OF ok, of 13 "[0]"]
    by (simp_all add: sco_slot_body_def)
  then have "sco_slot_body g st ph ! 12 = of_nat st" "sco_slot_body g st ph ! 13 = 0"
    using nth_slice [of 12 1 "sco_slot_body g st ph" 0] nth_slice [of 13 1 "sco_slot_body g st ph" 0]
    by simp_all
  with assms(3) show "unat (sco_slot_body g st ph ! 12) = st" "unat (sco_slot_body g st ph ! 13) = 0"
    by (simp_all add: unat_of_nat_byte)
  show "buf_slice 8 4 (sco_slot_body g st ph) = zeros 4"
    unfolding sco_slot_body_def by (subst slice_put_fields_gap [OF ok]) (simp_all add: slice_zeros)
qed

lemma sco_build_slot_fields:
  fixes sb :: sco_superblock and i k :: nat
  assumes "g \<le> UINT32_MAX" "ph \<le> UINT32_MAX" "st < 256"
  defines "slot \<equiv> sco_build_slot sb i k g st ph"
  shows "le32dec slot 0 = g" "le32dec slot 4 = ph" "unat (slot ! 12) = st" "unat (slot ! 13) = 0"
    "le16dec slot 14 = 0" "le32dec slot 8 = unat (sco_slot_crc32c sb i k slot)"
proof -
  note f = sco_slot_body_fields [OF assms(1-3)]
  show "le32dec slot 0 = g" "le32dec slot 4 = ph" "le16dec slot 14 = 0"
    by (simp_all add: slot_def sco_build_slot_body le_dec_overwrite f)
  show "unat (slot ! 12) = st" "unat (slot ! 13) = 0"
    by (simp_all add: slot_def sco_build_slot_body nth_overwrite f)
  have "overwrite 8 [0, 0, 0, 0] slot = overwrite 8 [0, 0, 0, 0] (sco_slot_body g st ph)"
    by (simp add: slot_def sco_build_slot_body overwrite_overwrite_same)
  then have "sco_slot_crc32c sb i k slot = sco_slot_crc32c sb i k (sco_slot_body g st ph)"
    by (simp add: sco_slot_crc32c_def)
  then show "le32dec slot 8 = unat (sco_slot_crc32c sb i k slot)"
    by (simp add: slot_def sco_build_slot_body le32dec_overwrite_same unat_u32_le)
qed

lemma sco_slot_roundtrip:
  assumes "g \<le> UINT32_MAX" "g \<noteq> 0" "ph \<le> UINT32_MAX" "sco_state_valid st"
    and "st \<noteq> SCO_MAP_STATE_PRESENT \<Longrightarrow> ph = 0"
    and "st = SCO_MAP_STATE_PRESENT \<Longrightarrow> ph \<noteq> 0 \<and> ph \<le> UINT64_MAX div sb_cluster_size sb \<and>
        sb_data_area_offset sb \<le> ph * sb_cluster_size sb \<and>
        ph * sb_cluster_size sb + sco_cluster_stored_length sb i \<le> file_size"
  shows "sco_slot_valid sb file_size i k (sco_build_slot sb i k g st ph) =
    Some \<lparr>te_generation = g, te_physical_cluster = ph, te_state = st, te_active_slot = k, te_flags = 0\<rparr>"
proof -
  have st: "st < 256" using assms(4) by (auto simp: sco_state_valid_def)
  note f = sco_build_slot_fields [OF assms(1,3) st, of sb i k]
  have mul: "mul64 ph (sb_cluster_size sb) = ph * sb_cluster_size sb" if "st = SCO_MAP_STATE_PRESENT"
  proof (rule mul64_exact)
    have "ph * sb_cluster_size sb \<le> UINT64_MAX div sb_cluster_size sb * sb_cluster_size sb"
      using assms(6) [OF that] by (intro mult_le_mono1) auto
    also have "\<dots> \<le> UINT64_MAX" by (rule div_times_le)
    finally show "ph * sb_cluster_size sb \<le> UINT64_MAX" .
  qed
  show ?thesis
  proof (cases "st = SCO_MAP_STATE_PRESENT")
    case True
    have nl: "\<not> UINT64_MAX div sb_cluster_size sb < ph" "\<not> ph * sb_cluster_size sb < sb_data_area_offset sb"
      "\<not> file_size < ph * sb_cluster_size sb"
      "\<not> file_size - ph * sb_cluster_size sb < sco_cluster_stored_length sb i"
      using assms(6) [OF True] by linarith+
    show ?thesis using assms(2,4,6) nl mul f
      unfolding True by (simp add: sco_slot_valid_def Let_def del: One_nat_def)
  next
    case False
    then have ph: "ph = 0" by (rule assms(5))
    show ?thesis using assms(2,4) False f unfolding ph
      by (simp add: sco_slot_valid_def Let_def)
  qed
qed

subsection \<open>Superblock round trip\<close>

text \<open>Every field within its width; a missing digest is stored as zeros.\<close>

definition sco_superblock_fits :: "sco_superblock \<Rightarrow> bool" where
  "sco_superblock_fits sb \<longleftrightarrow>
     sb_generation sb \<le> UINT64_MAX \<and> sb_virtual_size sb \<le> UINT64_MAX \<and>
     sb_logical_sector_size sb \<le> UINT32_MAX \<and> sb_physical_sector_size sb \<le> UINT32_MAX \<and>
     sb_cluster_size sb \<le> UINT32_MAX \<and> sb_cluster_count sb \<le> UINT64_MAX \<and>
     sb_data_area_offset sb \<le> UINT64_MAX \<and> sb_base_descriptor_offset sb \<le> UINT64_MAX \<and>
     sb_base_descriptor_length sb \<le> UINT32_MAX \<and> sb_table_offset sb \<le> UINT64_MAX \<and>
     sb_table_length sb \<le> UINT32_MAX \<and> length (sb_image_uuid sb) = 16 \<and>
     length (sb_image_digest sb) = 32 \<and>
     (\<not> sb_has_image_digest sb \<longrightarrow> sb_image_digest sb = zeros 32)"

abbreviation (input) sb_page :: "sco_superblock \<Rightarrow> byte list" where
  "sb_page sb \<equiv> put_fields (sco_superblock_fields sb) (zeros 4096)"

lemma sb_fields_ok:
  "length (sb_image_uuid sb) = 16 \<Longrightarrow> length (sb_image_digest sb) = 32 \<Longrightarrow>
     fields_ok 0 (sco_superblock_fields sb) (length (zeros 4096))"
  by (simp add: sco_superblock_fields_def)

lemma sb_page_fields:
  assumes "sco_superblock_fits sb"
  shows "le16dec (sb_page sb) 0x08 = 2 \<and> le32dec (sb_page sb) 0x0c = 4096 \<and> le32dec (sb_page sb) 0x10 = 1 \<and>
    le64dec (sb_page sb) 0x18 = sb_generation sb \<and> le64dec (sb_page sb) 0x20 = sb_virtual_size sb \<and>
    le32dec (sb_page sb) 0x28 = sb_logical_sector_size sb \<and>
    le32dec (sb_page sb) 0x2c = sb_physical_sector_size sb \<and>
    le32dec (sb_page sb) 0x30 = sb_cluster_size sb \<and> le64dec (sb_page sb) 0x38 = sb_cluster_count sb \<and>
    le64dec (sb_page sb) 0x40 = 65536 \<and> le64dec (sb_page sb) 0x48 = sb_data_area_offset sb \<and>
    le64dec (sb_page sb) 0x50 = sb_base_descriptor_offset sb \<and>
    le32dec (sb_page sb) 0x58 = sb_base_descriptor_length sb \<and>
    le64dec (sb_page sb) 0x60 = sb_table_offset sb \<and> le32dec (sb_page sb) 0x68 = sb_table_length sb \<and>
    le32dec (sb_page sb) 0x6c = 16 \<and>
    le32dec (sb_page sb) 0x70 = unat (sb_incompatible_features sb) \<and>
    le32dec (sb_page sb) 0x74 = unat (sb_readonly_compatible_features sb) \<and>
    le32dec (sb_page sb) 0x78 = unat (sb_compatible_features sb) \<and>
    le32dec (sb_page sb) 0xb0 = (if sb_has_image_digest sb then 1 else 0)"
proof -
  note fits = assms [unfolded sco_superblock_fits_def]
  from fits have ok: "fields_ok 0 (sco_superblock_fields sb) (length (zeros 4096))"
    by (intro sb_fields_ok) auto
  note dec = le16dec_field [OF ok] le32dec_field [OF ok] le64dec_field [OF ok]
  show ?thesis
    by (intro conjI; rule dec) (simp_all add: sco_superblock_fields_def fits unat_u32_le)
qed

text \<open>The parts of the page the encoder leaves zero, and the byte strings it copies.\<close>

lemma sb_page_rest:
  assumes "sco_superblock_fits sb"
  shows "buf_slice 0 8 (sb_page sb) = SCO_MAGIC" "buf_slice 0x80 16 (sb_page sb) = sb_image_uuid sb"
    "buf_slice 0x90 32 (sb_page sb) = sb_image_digest sb" "buf_slice 0x14 4 (sb_page sb) = zeros 4"
    "le32dec (sb_page sb) 0x5c = 0" "le32dec (sb_page sb) 0x7c = 0" "le32dec (sb_page sb) 0xb4 = 0"
    "buf_slice 0xb8 3912 (sb_page sb) = zeros 3912"
proof -
  note fits = assms [unfolded sco_superblock_fits_def]
  from fits have ok: "fields_ok 0 (sco_superblock_fields sb) (length (zeros 4096))"
    by (intro sb_fields_ok) auto
  from fits have ok': "fields_ok 0 (sco_superblock_fields sb) 4096"
    by (simp add: sco_superblock_fields_def)
  have len: "length (sb_image_uuid sb) = 16" "length (sb_image_digest sb) = 32" using fits by auto
  have "(0, SCO_MAGIC) \<in> set (sco_superblock_fields sb)"
    "(0x80, sb_image_uuid sb) \<in> set (sco_superblock_fields sb)"
    by (simp_all add: sco_superblock_fields_def)
  from this [THEN slice_put_fields [OF ok]] len
  show "buf_slice 0 8 (sb_page sb) = SCO_MAGIC" "buf_slice 0x80 16 (sb_page sb) = sb_image_uuid sb"
    by simp_all
  show "buf_slice 0x90 32 (sb_page sb) = sb_image_digest sb"
  proof (cases "sb_has_image_digest sb")
    case True
    then have "(0x90, sb_image_digest sb) \<in> set (sco_superblock_fields sb)"
      by (simp add: sco_superblock_fields_def)
    from slice_put_fields [OF ok this] len show ?thesis by simp
  next
    case False
    then have "buf_slice 0x90 32 (sb_page sb) = buf_slice 0x90 32 (zeros 4096)"
      using len by (intro slice_put_fields_gap [OF ok]) (simp_all add: sco_superblock_fields_def)
    with False fits show ?thesis by (simp add: slice_zeros)
  qed
  have gap: "buf_slice off n (sb_page sb) = buf_slice off n (zeros 4096)"
    if "(off, n) \<in> {(0x14, 4), (0xb8, 3912)}" for off n
    using that len by (intro slice_put_fields_gap [OF ok]) (auto simp: sco_superblock_fields_def)
  then show "buf_slice 0x14 4 (sb_page sb) = zeros 4" "buf_slice 0xb8 3912 (sb_page sb) = zeros 3912"
    by (simp_all add: slice_zeros)
  show "le32dec (sb_page sb) 0x5c = 0" "le32dec (sb_page sb) 0x7c = 0" "le32dec (sb_page sb) 0xb4 = 0"
    by ((rule le32dec_gap [OF ok'], simp, use len in \<open>simp add: sco_superblock_fields_def\<close>)+)
qed

lemma length_sb_page [simp]: "sco_superblock_fits sb \<Longrightarrow> length (sb_page sb) = 4096"
  using length_put_fields [OF sb_fields_ok, of sb] by (simp add: sco_superblock_fits_def)

lemma reserved_zero_slice:
  "off + n \<le> length buf \<Longrightarrow> buf_slice off n buf = zeros n \<Longrightarrow> reserved_zero buf off n"
  unfolding reserved_zero_def list_all_iff
  by (auto simp: nth_slice [symmetric])

lemma sco_decode_build_superblock:
  assumes "sco_superblock_fits sb" "sco_superblock_layout_valid sb file_size"
    and "sb_incompatible_features sb = SCO_INCOMPAT_FIXED_TABLE_V2"
    and "sb_readonly_compatible_features sb AND NOT SCO_RO_COMPAT_SUPPORTED = 0 \<or> readonly"
  shows "sco_decode_superblock (sco_build_superblock sb) readonly (sb_image_uuid sb) file_size = Inr sb"
proof -
  let ?p = "sb_page sb" and ?c = "unat (scorpi_crc32c (sb_page sb))"
  note len = length_sb_page [OF assms(1)]
  have build: "sco_build_superblock sb = overwrite 0x14 (le32enc ?c) ?p"
    by (simp add: sco_build_superblock_def Let_def)
  note rest = sb_page_rest [OF assms(1)]
  have sl: "buf_slice off n (overwrite 0x14 (le32enc ?c) ?p) = buf_slice off n ?p"
    if "off + n \<le> 4096" "off + n \<le> 0x14 \<or> 0x18 \<le> off" for off n
    using that len by (intro slice_overwrite_disjoint) auto
  have take8: "take 8 (overwrite 0x14 (le32enc ?c) ?p) = SCO_MAGIC"
    using sl [of 0 8] rest(1) by (simp add: buf_slice_def)
  have dec: "le32dec (overwrite 0x14 (le32enc ?c) ?p) 0x14 = ?c"
    using len by (intro le32dec_overwrite_same) (simp_all add: unat_u32_le)
  have crc: "crc32c_valid (overwrite 0x14 (le32enc ?c) ?p) 0x14 ?c"
    using len rest(4) by (intro crc32c_valid_stored) simp_all
  have rz: "reserved_zero (overwrite 0x14 (le32enc ?c) ?p) 0xb8 3912"
    using len sl [of "0xb8" 3912] rest(8) by (intro reserved_zero_slice) simp_all
  note facts = len sb_page_fields [OF assms(1)] rest
  have "sco_superblock_of_page (overwrite 0x14 (le32enc ?c) ?p) = sb"
    by (rule sco_superblock.equality)
      (simp_all add: sco_superblock_of_page_def le_dec_overwrite facts)
  then show ?thesis
    using take8 dec crc rz assms(2-4)
    by (simp add: build sco_decode_superblock_def Let_def le_dec_overwrite facts)
qed

subsection \<open>Geometry\<close>

text \<open>
  What an accepted superblock says about the layout, in plain arithmetic: the cluster
  count covers the virtual size without wrap-around, the table lies between the fixed
  metadata area and the data area, and the data area starts on a cluster boundary.
\<close>

definition sco_geometry :: "sco_superblock \<Rightarrow> bool" where
  "sco_geometry sb \<longleftrightarrow>
     0 < sb_virtual_size sb \<and> 65536 \<le> sb_cluster_size sb \<and> sb_cluster_size sb \<le> 4194304 \<and>
     sb_virtual_size sb + sb_cluster_size sb \<le> 18446744073709551616 \<and>
     sb_cluster_count sb = (sb_virtual_size sb + sb_cluster_size sb - 1) div sb_cluster_size sb \<and>
     sb_cluster_count sb \<le> 2097152 \<and>
     65536 \<le> sb_table_offset sb \<and>
     sb_table_offset sb + 32 * sb_cluster_count sb \<le> sb_data_area_offset sb \<and>
     sb_data_area_offset sb mod sb_cluster_size sb = 0 \<and> sb_data_area_offset sb \<le> INT64_MAX"

lemma ceil_div_no_wrap:
  assumes "vs \<le> UINT64_MAX" "0 < cs" "cs \<le> UINT32_MAX" "0 < n" "n = sub64 (add64 vs cs) 1 div cs"
  shows "vs + cs \<le> 18446744073709551616" "n = (vs + cs - 1) div cs"
proof -
  show le: "vs + cs \<le> 18446744073709551616"
  proof (rule ccontr)
    assume "\<not> vs + cs \<le> 18446744073709551616"
    with assms(1-3) have x: "add64 vs cs = vs + cs - 18446744073709551616"
      by (simp add: add64_def mod_if)
    have "sub64 (add64 vs cs) 1 < cs"
      using x \<open>\<not> vs + cs \<le> 18446744073709551616\<close> assms(1) by (simp add: sub64_def) linarith
    with assms(4,5) show False by simp
  qed
  show "n = (vs + cs - 1) div cs"
  proof (cases "vs + cs = 18446744073709551616")
    case True
    then show ?thesis using assms(5) by (simp add: add64_def sub64_def)
  next
    case False
    with le assms(2,5) show ?thesis by (simp add: add64_exact sub64_exact)
  qed
qed

lemma sco_layout_geometry:
  assumes "sco_superblock_layout_valid sb file_size" "sb_virtual_size sb \<le> UINT64_MAX"
    and "file_size \<le> INT64_MAX"
  shows "sco_geometry sb" "sb_data_area_offset sb \<le> file_size"
proof -
  note v = assms(1) [unfolded sco_superblock_layout_valid_def Let_def]
  have vs: "0 < sb_virtual_size sb" and cc: "0 < sb_cluster_count sb" and
    cs: "65536 \<le> sb_cluster_size sb" "sb_cluster_size sb \<le> 4194304" using v by auto
  have n: "sb_cluster_count sb = sub64 (add64 (sb_virtual_size sb) (sb_cluster_size sb)) 1 div sb_cluster_size sb"
    using v by blast
  have nw: "sb_virtual_size sb + sb_cluster_size sb \<le> 18446744073709551616"
    "sb_cluster_count sb = (sb_virtual_size sb + sb_cluster_size sb - 1) div sb_cluster_size sb"
    using ceil_div_no_wrap [OF assms(2) _ _ cc n] cs by auto
  have cc16: "sb_cluster_count sb \<le> UINT64_MAX div 16" using v by auto
  then have m: "mul64 (sb_cluster_count sb) 16 = sb_cluster_count sb * 16" by (intro mul64_exact) simp
  have req: "sb_cluster_count sb * 16 \<le> 33554432" "sb_cluster_count sb * 16 \<le> sb_table_length sb"
    "sb_table_length sb \<le> 33554432" using v m by auto
  have rb: "range_before_data (sb_table_offset sb) ((sb_table_length sb * 2) mod 4294967296) (sb_data_area_offset sb)"
    using v by blast
  have tl: "(sb_table_length sb * 2) mod 4294967296 = sb_table_length sb * 2" using req(3) by simp
  have "65536 \<le> sb_table_offset sb" "sb_table_offset sb + sb_table_length sb * 2 \<le> sb_data_area_offset sb"
    using rb unfolding tl by (auto simp: range_before_data_def range_fits_def split: if_splits)
  moreover have dao: "sb_data_area_offset sb mod sb_cluster_size sb = 0" "sb_data_area_offset sb \<le> file_size"
    using v by auto
  ultimately show "sco_geometry sb" "sb_data_area_offset sb \<le> file_size"
    unfolding sco_geometry_def using vs cs nw req assms(3) by auto
qed

lemma sco_geometryD:
  assumes "sco_geometry sb"
  shows "0 < sb_cluster_size sb" "0 < sb_cluster_count sb"
    "sb_virtual_size sb \<le> sb_cluster_count sb * sb_cluster_size sb"
    "(sb_cluster_count sb - 1) * sb_cluster_size sb < sb_virtual_size sb"
    "sb_virtual_size sb \<le> 8796093022208"
proof -
  note g = assms [unfolded sco_geometry_def]
  from g show cs: "0 < sb_cluster_size sb" by auto
  have b: "sb_virtual_size sb \<le> sb_cluster_count sb * sb_cluster_size sb"
    "sb_cluster_count sb * sb_cluster_size sb < sb_virtual_size sb + sb_cluster_size sb"
    using ceil_div_bounds [of "sb_cluster_size sb" "sb_virtual_size sb"] g cs by auto
  then show "sb_virtual_size sb \<le> sb_cluster_count sb * sb_cluster_size sb" by simp
  then show "0 < sb_cluster_count sb" using g by (cases "sb_cluster_count sb") auto
  then show "(sb_cluster_count sb - 1) * sb_cluster_size sb < sb_virtual_size sb"
    using b g by (simp add: diff_mult_distrib) linarith
  have "sb_cluster_count sb * sb_cluster_size sb \<le> 2097152 * 4194304"
    using g by (intro mult_le_mono) auto
  with b(1) show "sb_virtual_size sb \<le> 8796093022208" by simp
qed

lemma sco_cluster_index_less:
  "sco_geometry sb \<Longrightarrow> x < sb_virtual_size sb \<Longrightarrow> x div sb_cluster_size sb < sb_cluster_count sb"
  using sco_geometryD(1) [of sb] less_ceil_div [of "sb_cluster_size sb" x "sb_virtual_size sb"]
  by (simp add: sco_geometry_def)

lemma sco_cluster_start_less:
  assumes "sco_geometry sb" "i < sb_cluster_count sb"
  shows "i * sb_cluster_size sb < sb_virtual_size sb"
proof -
  have "i * sb_cluster_size sb \<le> (sb_cluster_count sb - 1) * sb_cluster_size sb"
    using assms(2) by (intro mult_le_mono1) simp
  with sco_geometryD(4) [OF assms(1)] show ?thesis by linarith
qed

lemma sco_stored_length:
  assumes "sco_geometry sb" "i < sb_cluster_count sb"
  shows "sco_cluster_stored_length sb i = min (sb_cluster_size sb) (sb_virtual_size sb - i * sb_cluster_size sb)"
proof -
  note s = sco_cluster_start_less [OF assms] and v = sco_geometryD(5) [OF assms(1)]
  have "mul64 i (sb_cluster_size sb) = i * sb_cluster_size sb" using s v by (intro mul64_exact) simp
  moreover have "sub64 (sb_virtual_size sb) (i * sb_cluster_size sb) = sb_virtual_size sb - i * sb_cluster_size sb"
    using s by (intro sub64_exact) simp
  ultimately show ?thesis by (simp add: sco_cluster_stored_length_def Let_def min_def)
qed

lemma sco_stored_length_bounds:
  assumes "sco_geometry sb" "i < sb_cluster_count sb"
  shows "0 < sco_cluster_stored_length sb i" "sco_cluster_stored_length sb i \<le> sb_cluster_size sb"
    "i * sb_cluster_size sb + sco_cluster_stored_length sb i \<le> sb_virtual_size sb"
    "sco_cluster_stored_length sb i \<le> 4194304"
  using sco_stored_length [OF assms] sco_cluster_start_less [OF assms] sco_geometryD(1) [OF assms(1)] assms(1)
  by (auto simp: sco_geometry_def)

lemma sco_offset_in_cluster:
  assumes "sco_geometry sb" "x < sb_virtual_size sb"
  shows "x mod sb_cluster_size sb < sco_cluster_stored_length sb (x div sb_cluster_size sb)"
proof -
  have "x div sb_cluster_size sb * sb_cluster_size sb + x mod sb_cluster_size sb = x"
    by (rule div_mult_mod_eq)
  moreover have "x mod sb_cluster_size sb < sb_cluster_size sb"
    using sco_geometryD(1) [OF assms(1)] by simp
  ultimately show ?thesis
    using sco_stored_length [OF assms(1) sco_cluster_index_less [OF assms]] assms(2) by linarith
qed

lemma sco_table_slot_offset_eq:
  assumes "sco_geometry sb" "i < sb_cluster_count sb" "k \<le> 1"
  shows "sco_table_slot_offset sb i k = sb_table_offset sb + 32 * i + 16 * k"
    and "sb_table_offset sb + 32 * i + 16 * k + 16 \<le> sb_data_area_offset sb"
    and "65536 \<le> sb_table_offset sb + 32 * i + 16 * k"
proof -
  note g = assms(1) [unfolded sco_geometry_def]
  have le: "32 * i + 32 \<le> 32 * sb_cluster_count sb" using assms(2) by simp
  show *: "sb_table_offset sb + 32 * i + 16 * k + 16 \<le> sb_data_area_offset sb"
    using g le assms(3) by linarith
  show "65536 \<le> sb_table_offset sb + 32 * i + 16 * k" using g by linarith
  have "sb_data_area_offset sb \<le> INT64_MAX" using g by blast
  with * show "sco_table_slot_offset sb i k = sb_table_offset sb + 32 * i + 16 * k"
    by (simp add: sco_table_slot_offset_def wrap_simps mult.commute)
qed

end
