(* ===== verification/Sco_Image.thy ===== *)
theory Sco_Image
  imports Sco_Format
begin

text \<open>
  The SCO backend of \<^verbatim>\<open>src/scorpi_image_sco.c\<close>: the open image, its allocation table and
  data-cluster allocator, and the operations of its table \<open>scorpi_sco_ops\<close>.

  The model is a single-threaded execution: the reader-writer locks of the C code are
  taken and released without effect.  The trace counters (environment variable
  \<open>SCORPI_SCO_TRACE\<close>) are left out, and memory allocation succeeds.  Every operation
  returns the image it leaves behind, also when it fails.
\<close>

section \<open>SCO images\<close>

record sco_image =
  sco_fd :: hfile
  sco_readonly :: bool
  sco_file_size :: u64
  sco_active_superblock_offset :: u64
  sco_sb :: sco_superblock
  sco_table :: "sco_table_entry list"
  sco_data_cluster_used :: "bool list"
  sco_data_cluster_base :: u64
  sco_data_cluster_count :: u64
  sco_data_alloc_cursor :: u64
  sco_has_base :: bool
  sco_base_uri :: "byte list"
  sco_base_uuid :: "byte list"
  sco_has_base_uuid :: bool
  sco_base_digest :: "byte list"
  sco_has_base_digest :: bool

record sco_lookup =
  lk_extent :: scorpi_image_extent
  lk_physical_offset :: u64

text \<open>A file operation on the descriptor of an image.\<close>

definition sco_io :: "sco_image \<Rightarrow> hfile \<times> 'a res \<Rightarrow> sco_image \<times> 'a res" where
  "sco_io sco m = (case m of (fd, r) \<Rightarrow> (sco\<lparr>sco_fd := fd\<rparr>, r))"

definition sco_trace_fsync :: "sco_image \<Rightarrow> sco_image \<times> unit res" where
  "sco_trace_fsync sco = sco_io sco (fsync (sco_fd sco))"

definition sco_is_sealed :: "sco_superblock \<Rightarrow> bool" where
  "sco_is_sealed sb \<longleftrightarrow> sb_readonly_compatible_features sb AND SCO_RO_COMPAT_SEALED \<noteq> 0"

subsection \<open>Metadata\<close>

definition sco_commit_superblock :: "sco_image \<Rightarrow> sco_superblock \<Rightarrow> sco_image \<times> unit res" where
  "sco_commit_superblock sco next_sb =
     (let inactive_offset = sco_inactive_superblock_offset (sco_active_superblock_offset sco) in
      and_then (sco_io sco (write_exact (sco_fd sco) inactive_offset (sco_build_superblock next_sb)))
        (\<lambda>sco _. and_then (sco_io sco (fsync (sco_fd sco)))
        (\<lambda>sco _. (sco\<lparr>sco_sb := next_sb, sco_active_superblock_offset := inactive_offset\<rparr>, Inr ()))))"

definition sco_decode_file_id :: "byte list \<Rightarrow> byte list res" where
  "sco_decode_file_id buf =
     (if take 8 buf \<noteq> SCO_MAGIC then Inl EINVAL
      else if le16dec buf 0x08 \<noteq> SCO_FORMAT_MAJOR then Inl EINVAL
      else if le32dec buf 0x0c \<noteq> SCO_FILE_ID_SIZE then Inl EINVAL
      else if le32dec buf 0x20 \<noteq> SCO_CHECKSUM_CRC32C then Inl EINVAL
      else if \<not> crc32c_valid buf 0x24 (le32dec buf 0x24) then Inl EINVAL
      else if \<not> reserved_zero buf 0x28 (SCO_FILE_ID_SIZE - 0x28) then Inl EINVAL
      else Inr (buf_slice 0x10 16 buf))"

definition sco_read_file_id :: "hfile \<Rightarrow> hfile \<times> byte list res" where
  "sco_read_file_id fd =
     and_then (read_exact fd SCO_FILE_ID_OFFSET SCO_FILE_ID_SIZE) (\<lambda>fd buf. (fd, sco_decode_file_id buf))"

text \<open>The checks and field extraction of \<open>sco_read_base_descriptor\<close> after its read.\<close>

record sco_base_descriptor =
  bd_uri :: "byte list"
  bd_uuid :: "byte list option"
  bd_digest :: "byte list option"

definition sco_decode_base_descriptor :: "byte list \<Rightarrow> u32 \<Rightarrow> sco_base_descriptor res" where
  "sco_decode_base_descriptor buf descriptor_length =
     (let descriptor_size = le32dec buf 0x0;
          base_uri_length = le32dec buf 0x10;
          padding_offset = SCO_BASE_DESCRIPTOR_MIN_SIZE + base_uri_length
      in if descriptor_size \<noteq> descriptor_length \<or> descriptor_size < SCO_BASE_DESCRIPTOR_MIN_SIZE \<or>
            descriptor_size mod SCO_METADATA_PAGE_SIZE \<noteq> 0 \<or> le32dec buf 0x4 \<noteq> SCO_CHECKSUM_CRC32C \<or>
            le32dec buf 0xc \<noteq> 0 \<or> le32dec buf 0x14 \<noteq> 0 \<or>
            1 < le32dec buf 0x48 \<or> 1 < le32dec buf 0x4c \<or> base_uri_length = 0 \<or>
            descriptor_size - SCO_BASE_DESCRIPTOR_MIN_SIZE < base_uri_length then Inl EINVAL
         else if \<not> crc32c_valid buf 0x8 (le32dec buf 0x8) then Inl EINVAL
         else if \<not> reserved_zero buf padding_offset (descriptor_size - padding_offset) then Inl EINVAL
         else if base_uri_length < 5 \<or>
                 buf_slice SCO_BASE_DESCRIPTOR_MIN_SIZE 5 buf \<noteq> [0x66, 0x69, 0x6c, 0x65, 0x3a] then Inl ENOTSUP
         else Inr \<lparr>bd_uri = buf_slice SCO_BASE_DESCRIPTOR_MIN_SIZE base_uri_length buf,
                   bd_uuid = (if le32dec buf 0x48 \<noteq> 0 then Some (buf_slice 0x18 16 buf) else None),
                   bd_digest = (if le32dec buf 0x4c \<noteq> 0 then Some (buf_slice 0x28 32 buf) else None)\<rparr>)"

definition sco_set_base :: "sco_image \<Rightarrow> sco_base_descriptor \<Rightarrow> sco_image" where
  "sco_set_base sco bd =
     (let sco = sco\<lparr>sco_has_base := True, sco_base_uri := bd_uri bd\<rparr>;
          sco = (case bd_uuid bd of None \<Rightarrow> sco
                 | Some u \<Rightarrow> sco\<lparr>sco_base_uuid := u, sco_has_base_uuid := True\<rparr>)
      in case bd_digest bd of None \<Rightarrow> sco
         | Some d \<Rightarrow> sco\<lparr>sco_base_digest := d, sco_has_base_digest := True\<rparr>)"

definition sco_read_base_descriptor :: "sco_image \<Rightarrow> sco_image \<times> unit res" where
  "sco_read_base_descriptor sco =
     (if sb_base_descriptor_offset (sco_sb sco) = 0 then (sco, Inr ())
      else and_then (sco_io sco (read_exact (sco_fd sco) (sb_base_descriptor_offset (sco_sb sco))
                       (sb_base_descriptor_length (sco_sb sco))))
        (\<lambda>sco buf. case sco_decode_base_descriptor buf (sb_base_descriptor_length (sco_sb sco)) of
             Inl e \<Rightarrow> (sco, Inl e)
           | Inr bd \<Rightarrow> (sco_set_base sco bd, Inr ())))"

text \<open>The choice between the two slots of an entry, the body of the loop of \<open>sco_load_table\<close>.\<close>

definition sco_load_entry :: "sco_superblock \<Rightarrow> u64 \<Rightarrow> u64 \<Rightarrow> byte list \<Rightarrow> byte list \<Rightarrow> sco_table_entry" where
  "sco_load_entry sb file_size i slot_a slot_b =
     (case (sco_slot_valid sb file_size i SCO_SLOT_A slot_a, sco_slot_valid sb file_size i SCO_SLOT_B slot_b) of
        (Some a, Some b) \<Rightarrow> if te_generation a < te_generation b then b else a
      | (Some a, None) \<Rightarrow> a
      | (None, Some b) \<Rightarrow> b
      | (None, None) \<Rightarrow>
          \<lparr>te_generation = 0, te_physical_cluster = 0, te_state = SCO_MAP_STATE_ABSENT,
           te_active_slot = SCO_SLOT_B, te_flags = 0\<rparr>)"

definition sco_load_table :: "sco_image \<Rightarrow> sco_image \<times> unit res" where
  "sco_load_table sco =
     (let sb = sco_sb sco; n = sb_cluster_count sb in
      if SIZE_MAX div 12 < n then (sco, Inl EINVAL)
      else if UINT64_MAX div SCO_TABLE_ENTRY_SIZE < n then (sco, Inl EINVAL)
      else and_then (sco_io sco (read_exact (sco_fd sco) (sb_table_offset sb) (n * SCO_TABLE_ENTRY_SIZE)))
        (\<lambda>sco slots. (sco\<lparr>sco_table := map (\<lambda>i. sco_load_entry sb (sco_file_size sco) i
             (buf_slice (i * SCO_TABLE_ENTRY_SIZE) SCO_TABLE_SLOT_SIZE slots)
             (buf_slice (i * SCO_TABLE_ENTRY_SIZE + SCO_TABLE_SLOT_SIZE) SCO_TABLE_SLOT_SIZE slots)) [0..<n]\<rparr>,
           Inr ())))"

subsection \<open>The data-cluster allocator\<close>

definition sco_data_allocator_grow :: "sco_image \<Rightarrow> u64 \<Rightarrow> sco_image \<times> unit res" where
  "sco_data_allocator_grow sco count =
     (if count \<le> sco_data_cluster_count sco then (sco, Inr ())
      else if SIZE_MAX < count then (sco, Inl EFBIG)
      else (sco\<lparr>sco_data_cluster_used := take (sco_data_cluster_count sco) (sco_data_cluster_used sco) @
                   replicate (count - sco_data_cluster_count sco) False,
                sco_data_cluster_count := count\<rparr>, Inr ()))"

definition sco_data_allocator_mark :: "sco_image \<Rightarrow> u32 \<Rightarrow> bool \<Rightarrow> sco_image \<times> unit res" where
  "sco_data_allocator_mark sco physical_cluster used =
     (if physical_cluster < sco_data_cluster_base sco then (sco, Inl EINVAL)
      else let index = physical_cluster - sco_data_cluster_base sco in
        if sco_data_cluster_count sco \<le> index then (sco, Inl EINVAL)
        else (sco\<lparr>sco_data_cluster_used := (sco_data_cluster_used sco)[index := used]\<rparr>, Inr ()))"

definition sco_data_allocator_release :: "sco_image \<Rightarrow> u32 \<Rightarrow> sco_image" where
  "sco_data_allocator_release sco physical_cluster =
     (case sco_data_allocator_mark sco physical_cluster False of
        (sco, Inl _) \<Rightarrow> sco
      | (sco, Inr _) \<Rightarrow>
          if sco_data_cluster_count sco \<le> sco_data_alloc_cursor sco \<or>
             physical_cluster - sco_data_cluster_base sco < sco_data_alloc_cursor sco
          then sco\<lparr>sco_data_alloc_cursor := physical_cluster - sco_data_cluster_base sco\<rparr>
          else sco)"

fun sco_mark_entries :: "u64 \<Rightarrow> u64 \<Rightarrow> sco_table_entry list \<Rightarrow> bool list \<Rightarrow> bool list res" where
  "sco_mark_entries base count [] used = Inr used"
| "sco_mark_entries base count (entry # rest) used =
     (if te_state entry \<noteq> SCO_MAP_STATE_PRESENT then sco_mark_entries base count rest used
      else if te_physical_cluster entry < base then Inl EINVAL
      else let index = te_physical_cluster entry - base in
        if count \<le> index \<or> used ! index then Inl EINVAL
        else sco_mark_entries base count rest (used[index := True]))"

definition sco_data_allocator_init :: "sco_image \<Rightarrow> sco_image \<times> unit res" where
  "sco_data_allocator_init sco =
     (let sb = sco_sb sco; cs = sb_cluster_size sb in
      if sb_data_area_offset sb mod cs \<noteq> 0 then (sco, Inl EINVAL)
      else let sco = sco\<lparr>sco_data_cluster_base := sb_data_area_offset sb div cs\<rparr>;
               file_clusters = (sco_file_size sco + cs - 1) div cs
        in and_then
          (if sco_file_size sco \<le> sb_data_area_offset sb then (sco, Inr 0)
           else if UINT64_MAX - cs + 1 < sco_file_size sco then (sco, Inl EFBIG)
           else if file_clusters < sco_data_cluster_base sco then (sco, Inl EINVAL)
           else (sco, Inr (file_clusters - sco_data_cluster_base sco)))
          (\<lambda>sco count. and_then (sco_data_allocator_grow sco count)
          (\<lambda>sco _. case sco_mark_entries (sco_data_cluster_base sco) (sco_data_cluster_count sco)
                           (sco_table sco) (sco_data_cluster_used sco) of
               Inl e \<Rightarrow> (sco, Inl e)
             | Inr used \<Rightarrow> (sco\<lparr>sco_data_cluster_used := used\<rparr>, Inr ()))))"

text \<open>The round-robin search of \<open>sco_alloc_data_cluster\<close>, starting at the cursor.\<close>

definition sco_find_free :: "sco_image \<Rightarrow> nat option" where
  "sco_find_free sco =
     find (\<lambda>index. \<not> sco_data_cluster_used sco ! index)
       (map (\<lambda>checked. (sco_data_alloc_cursor sco + checked) mod sco_data_cluster_count sco)
          [0..<sco_data_cluster_count sco])"

definition sco_pick_data_cluster :: "sco_image \<Rightarrow> sco_image \<times> u64 res" where
  "sco_pick_data_cluster sco =
     (let (sco, physical_cluster) =
        (case sco_find_free sco of
           Some index \<Rightarrow>
             (sco\<lparr>sco_data_alloc_cursor := (index + 1) mod sco_data_cluster_count sco\<rparr>,
              sco_data_cluster_base sco + index)
         | None \<Rightarrow> (sco, 0))
      in if physical_cluster \<noteq> 0 then (sco, Inr physical_cluster)
         else if UINT64_MAX - sco_data_cluster_count sco < sco_data_cluster_base sco then (sco, Inl EFBIG)
         else let physical_cluster = sco_data_cluster_base sco + sco_data_cluster_count sco in
           if physical_cluster = 0 \<or> UINT32_MAX < physical_cluster then (sco, Inl EFBIG)
           else and_then (sco_data_allocator_grow sco (sco_data_cluster_count sco + 1))
             (\<lambda>sco _. (sco\<lparr>sco_data_alloc_cursor :=
                  (if sco_data_cluster_count sco = 0 then 0
                   else (physical_cluster - sco_data_cluster_base sco + 1) mod sco_data_cluster_count sco)\<rparr>,
                Inr physical_cluster)))"

definition sco_alloc_data_cluster :: "sco_image \<Rightarrow> u64 \<Rightarrow> byte list \<Rightarrow> sco_image \<times> u64 res" where
  "sco_alloc_data_cluster sco cluster_index buf =
     (let stored_length = sco_cluster_stored_length (sco_sb sco) cluster_index in
      if stored_length = 0 \<or> SIZE_MAX < stored_length then (sco, Inl EINVAL)
      else and_then (sco_pick_data_cluster sco)
        (\<lambda>sco physical_cluster.
          if physical_cluster = 0 \<or> UINT32_MAX < physical_cluster then (sco, Inl EFBIG)
          else let sco = sco\<lparr>sco_data_cluster_used :=
                       (sco_data_cluster_used sco)[physical_cluster - sco_data_cluster_base sco := True]\<rparr>;
                   physical_offset = physical_cluster * sb_cluster_size (sco_sb sco)
            in if UINT64_MAX - physical_offset < stored_length then (sco, Inl EFBIG)
               else and_then (sco_io sco (write_exact (sco_fd sco) physical_offset (take stored_length buf)))
                 (\<lambda>sco _. (sco\<lparr>sco_file_size := max (sco_file_size sco) (physical_offset + stored_length)\<rparr>,
                    Inr physical_offset))))"

subsection \<open>Clusters\<close>

definition sco_lookup_extent :: "sco_image \<Rightarrow> u64 \<Rightarrow> u64 \<Rightarrow> sco_lookup res" where
  "sco_lookup_extent sco offset length' =
     (let sb = sco_sb sco in
      if length' = 0 \<or> sb_virtual_size sb \<le> offset then Inl EINVAL
      else let cluster_index = offset div sb_cluster_size sb in
        if sb_cluster_count sb \<le> cluster_index then Inl EINVAL
        else let cluster_start = cluster_index * sb_cluster_size sb;
                 cluster_offset = offset - cluster_start;
                 cluster_length = sco_cluster_stored_length sb cluster_index
          in if cluster_length \<le> cluster_offset then Inl EINVAL
             else let len = (if cluster_length - cluster_offset < length'
                             then cluster_length - cluster_offset else length');
                      entry = sco_table sco ! cluster_index;
                      found = (\<lambda>st phys. Inr \<lparr>lk_extent = \<lparr>ext_offset = offset, ext_length = len, ext_state = st\<rparr>,
                                lk_physical_offset = phys\<rparr>)
               in if te_state entry = SCO_MAP_STATE_PRESENT then
                    found SCORPI_IMAGE_EXTENT_PRESENT (te_physical_cluster entry * sb_cluster_size sb)
                  else if te_state entry = SCO_MAP_STATE_ZERO then found SCORPI_IMAGE_EXTENT_ZERO 0
                  else if te_state entry = SCO_MAP_STATE_DISCARDED then found SCORPI_IMAGE_EXTENT_DISCARDED 0
                  else if te_state entry = SCO_MAP_STATE_ABSENT then found SCORPI_IMAGE_EXTENT_ABSENT 0
                  else Inl EINVAL)"

text \<open>The cleanup of the replaced cluster at the end of \<open>sco_commit_table_entry\<close>.\<close>

definition sco_drop_old_cluster :: "sco_image \<Rightarrow> u64 \<Rightarrow> sco_table_entry \<Rightarrow> u64 \<Rightarrow> sco_image" where
  "sco_drop_old_cluster sco cluster_index old_entry physical_cluster =
     (if te_state old_entry = SCO_MAP_STATE_PRESENT \<and> te_physical_cluster old_entry \<noteq> physical_cluster then
        (let sco = sco_data_allocator_release sco (te_physical_cluster old_entry)
         in fst (sco_io sco (scorpi_host_punch_hole (sco_fd sco)
              (te_physical_cluster old_entry * sb_cluster_size (sco_sb sco))
              (sco_cluster_stored_length (sco_sb sco) cluster_index))))
      else sco)"

definition sco_commit_table_entry :: "sco_image \<Rightarrow> u64 \<Rightarrow> nat \<Rightarrow> u64 \<Rightarrow> sco_image \<times> unit res" where
  "sco_commit_table_entry sco cluster_index state physical_offset =
     (let sb = sco_sb sco in
      if sb_cluster_count sb \<le> cluster_index \<or> \<not> sco_state_valid state then (sco, Inl EINVAL)
      else and_then
        (if state = SCO_MAP_STATE_PRESENT then
           (if physical_offset < sb_data_area_offset sb \<or> physical_offset mod sb_cluster_size sb \<noteq> 0
            then (sco, Inl EINVAL)
            else let physical_cluster = physical_offset div sb_cluster_size sb in
              if physical_cluster = 0 \<or> UINT32_MAX < physical_cluster then (sco, Inl EFBIG)
              else (sco, Inr physical_cluster))
         else if physical_offset \<noteq> 0 then (sco, Inl EINVAL) else (sco, Inr 0))
        (\<lambda>sco physical_cluster.
          let old_entry = sco_table sco ! cluster_index in
          if te_generation old_entry = UINT32_MAX then (sco, Inl EFBIG)
          else let next_generation = te_generation old_entry + 1;
                   next_slot = (if te_active_slot old_entry = SCO_SLOT_A then SCO_SLOT_B else SCO_SLOT_A);
                   slot = sco_build_slot sb cluster_index next_slot next_generation state physical_cluster
            in and_then (sco_io sco (write_exact (sco_fd sco) (sco_table_slot_offset sb cluster_index next_slot) slot))
              (\<lambda>sco _. and_then (sco_trace_fsync sco)
              (\<lambda>sco _.
                let entry = \<lparr>te_generation = next_generation, te_physical_cluster = physical_cluster,
                             te_state = state, te_active_slot = next_slot, te_flags = 0\<rparr>;
                    sco = sco\<lparr>sco_table := (sco_table sco)[cluster_index := entry]\<rparr>
                in (sco_drop_old_cluster sco cluster_index old_entry physical_cluster, Inr ())))))"

definition sco_write_present_cluster ::
  "sco_image \<Rightarrow> sco_lookup \<Rightarrow> u64 \<Rightarrow> byte list \<Rightarrow> sco_image \<times> unit res" where
  "sco_write_present_cluster sco lookup cluster_offset buf =
     (let cluster_index = ext_offset (lk_extent lookup) div sb_cluster_size (sco_sb sco);
          stored_length = sco_cluster_stored_length (sco_sb sco) cluster_index
      in if buf = [] then (sco, Inl EINVAL)
         else if stored_length < cluster_offset \<or> stored_length - cluster_offset < length buf then (sco, Inl EINVAL)
         else if cluster_offset = 0 \<and> length buf = stored_length \<and> buffer_all_zero buf then
           sco_commit_table_entry sco cluster_index SCO_MAP_STATE_ZERO 0
         else sco_io sco (write_exact (sco_fd sco) (add64 (lk_physical_offset lookup) cluster_offset) buf))"

definition sco_write_present_cluster_data ::
  "sco_image \<Rightarrow> sco_lookup \<Rightarrow> u64 \<Rightarrow> byte list \<Rightarrow> sco_image \<times> unit res" where
  "sco_write_present_cluster_data sco lookup cluster_offset buf =
     (let cluster_index = ext_offset (lk_extent lookup) div sb_cluster_size (sco_sb sco);
          stored_length = sco_cluster_stored_length (sco_sb sco) cluster_index
      in if buf = [] then (sco, Inl EINVAL)
         else if stored_length < cluster_offset \<or> stored_length - cluster_offset < length buf then (sco, Inl EINVAL)
         else sco_io sco (write_exact (sco_fd sco) (add64 (lk_physical_offset lookup) cluster_offset) buf))"

text \<open>Allocate, sync, then commit: the order of every write that maps a new cluster.\<close>

definition sco_write_new_cluster :: "sco_image \<Rightarrow> u64 \<Rightarrow> byte list \<Rightarrow> sco_image \<times> unit res" where
  "sco_write_new_cluster sco cluster_index cluster =
     and_then (sco_alloc_data_cluster sco cluster_index cluster)
       (\<lambda>sco physical_offset. and_then (sco_trace_fsync sco)
       (\<lambda>sco _. sco_commit_table_entry sco cluster_index SCO_MAP_STATE_PRESENT physical_offset))"

definition sco_write_materialized_cluster ::
  "sco_image \<Rightarrow> u64 \<Rightarrow> u64 \<Rightarrow> byte list \<Rightarrow> sco_image \<times> unit res" where
  "sco_write_materialized_cluster sco cluster_index cluster_offset buf =
     (let stored_length = sco_cluster_stored_length (sco_sb sco) cluster_index in
      if buf = [] then (sco, Inl EINVAL)
      else if stored_length = 0 \<or> SIZE_MAX < stored_length \<or> stored_length < cluster_offset \<or>
              stored_length - cluster_offset < length buf then (sco, Inl EINVAL)
      else if cluster_offset = 0 \<and> length buf = stored_length then
        (if buffer_all_zero buf then sco_commit_table_entry sco cluster_index SCO_MAP_STATE_ZERO 0
         else sco_write_new_cluster sco cluster_index buf)
      else sco_write_new_cluster sco cluster_index (overwrite cluster_offset buf (zeros stored_length)))"

definition sco_write_cluster_range ::
  "sco_image \<Rightarrow> u64 \<Rightarrow> u64 \<Rightarrow> byte list \<Rightarrow> sco_image \<times> unit res" where
  "sco_write_cluster_range sco cluster_index cluster_offset buf =
     (let cluster_start = mul64 cluster_index (sb_cluster_size (sco_sb sco));
          stored_length = sco_cluster_stored_length (sco_sb sco) cluster_index
      in if buf = [] then (sco, Inl EINVAL)
         else if stored_length = 0 \<or> sub64 stored_length cluster_offset < length buf then (sco, Inl EINVAL)
         else case sco_lookup_extent sco cluster_start stored_length of
             Inl e \<Rightarrow> (sco, Inl e)
           | Inr lookup \<Rightarrow>
               (case ext_state (lk_extent lookup) of
                  SCORPI_IMAGE_EXTENT_PRESENT \<Rightarrow> sco_write_present_cluster sco lookup cluster_offset buf
                | SCORPI_IMAGE_EXTENT_ABSENT \<Rightarrow>
                    if sco_has_base sco \<and> (cluster_offset \<noteq> 0 \<or> length buf \<noteq> stored_length)
                    then (sco, Inl EOPNOTSUPP)
                    else sco_write_materialized_cluster sco cluster_index cluster_offset buf
                | _ \<Rightarrow> sco_write_materialized_cluster sco cluster_index cluster_offset buf))"

definition sco_discard_cluster_range ::
  "sco_image \<Rightarrow> u64 \<Rightarrow> u64 \<Rightarrow> u64 \<Rightarrow> sco_image \<times> unit res" where
  "sco_discard_cluster_range sco cluster_index cluster_offset len =
     (let cluster_start = mul64 cluster_index (sb_cluster_size (sco_sb sco));
          stored_length = sco_cluster_stored_length (sco_sb sco) cluster_index
      in if len = 0 \<or> SIZE_MAX < len then (sco, Inl EINVAL)
         else if stored_length = 0 \<or> stored_length \<le> cluster_offset \<or> stored_length - cluster_offset < len
           then (sco, Inl EINVAL)
         else case sco_lookup_extent sco cluster_start stored_length of
             Inl e \<Rightarrow> (sco, Inl e)
           | Inr lookup \<Rightarrow>
               if cluster_offset = 0 \<and> len = stored_length then
                 sco_commit_table_entry sco cluster_index SCO_MAP_STATE_DISCARDED 0
               else
                 (case ext_state (lk_extent lookup) of
                    SCORPI_IMAGE_EXTENT_PRESENT \<Rightarrow> sco_write_present_cluster sco lookup cluster_offset (zeros len)
                  | SCORPI_IMAGE_EXTENT_ABSENT \<Rightarrow>
                      if sco_has_base sco then (sco, Inl EOPNOTSUPP)
                      else sco_commit_table_entry sco cluster_index SCO_MAP_STATE_DISCARDED 0
                  | _ \<Rightarrow> sco_commit_table_entry sco cluster_index SCO_MAP_STATE_DISCARDED 0))"

subsection \<open>The operation table\<close>

definition sco_probe :: "hfile \<Rightarrow> hfile \<times> nat res" where
  "sco_probe fd =
     and_then (pread fd 8 SCO_FILE_ID_OFFSET)
       (\<lambda>fd magic. (fd, Inr (if length magic = 8 \<and> magic = SCO_MAGIC then 100 else 0)))"

text \<open>The image as \<open>sco_open\<close> fills it in before it loads the table.\<close>

definition sco_fresh_image :: "hfile \<Rightarrow> bool \<Rightarrow> u64 \<Rightarrow> sco_superblock \<Rightarrow> u64 \<Rightarrow> sco_image" where
  "sco_fresh_image fd readonly file_size sb active_offset =
     \<lparr>sco_fd = fd, sco_readonly = readonly, sco_file_size = file_size,
      sco_active_superblock_offset = active_offset, sco_sb = sb, sco_table = [],
      sco_data_cluster_used = [], sco_data_cluster_base = 0, sco_data_cluster_count = 0,
      sco_data_alloc_cursor = 0, sco_has_base = False, sco_base_uri = [],
      sco_base_uuid = zeros 16, sco_has_base_uuid = False,
      sco_base_digest = zeros 32, sco_has_base_digest = False\<rparr>"

definition sco_load :: "sco_image \<Rightarrow> sco_image \<times> unit res" where
  "sco_load sco =
     and_then (sco_load_table sco) (\<lambda>sco _.
     and_then (sco_data_allocator_init sco) (\<lambda>sco _.
     sco_read_base_descriptor sco))"

definition sco_open :: "string \<Rightarrow> hfile \<Rightarrow> bool \<Rightarrow> hfile \<times> sco_image res" where
  "sco_open path fd readonly =
     and_then (fstat_size fd) (\<lambda>fd st_size.
       if st_size < SCO_MIN_FILE_SIZE then (fd, Inl EINVAL)
       else and_then (sco_read_file_id fd) (\<lambda>fd file_id_uuid.
         and_then (sco_select_superblock fd readonly file_id_uuid st_size) (\<lambda>fd (sb, active_offset).
           if \<not> readonly \<and> sco_is_sealed sb then (fd, Inl EROFS)
           else case sco_load (sco_fresh_image fd readonly st_size sb active_offset) of
               (sco, Inl e) \<Rightarrow> (sco_fd sco, Inl e)
             | (sco, Inr _) \<Rightarrow> (sco_fd sco, Inr sco))))"

text \<open>A C string read back from a buffer ends at its first NUL byte.\<close>

definition c_string :: "byte list \<Rightarrow> string" where
  "c_string bs = map (\<lambda>b. char_of (unat b)) (takeWhile (\<lambda>b. b \<noteq> 0) bs)"

definition sco_get_info :: "sco_image \<Rightarrow> scorpi_image_info res" where
  "sco_get_info sco = Inr
     \<lparr>info_format = SCORPI_IMAGE_FORMAT_SCO, info_virtual_size = sb_virtual_size (sco_sb sco),
      info_logical_sector_size = sb_logical_sector_size (sco_sb sco),
      info_physical_sector_size = sb_physical_sector_size (sco_sb sco),
      info_cluster_size = sb_cluster_size (sco_sb sco),
      info_readonly = sco_readonly sco, info_sealed = sco_is_sealed (sco_sb sco),
      info_can_discard = (\<not> sco_readonly sco \<and> \<not> sco_is_sealed (sco_sb sco)),
      info_image_uuid = sb_image_uuid (sco_sb sco), info_has_image_uuid = True,
      info_image_digest = (if sb_has_image_digest (sco_sb sco) then sb_image_digest (sco_sb sco) else zeros 32),
      info_has_image_digest = sb_has_image_digest (sco_sb sco),
      info_has_base = sco_has_base sco,
      info_base_uri = (if sco_has_base sco then Some (c_string (sco_base_uri sco)) else None),
      info_base_uuid = (if sco_has_base_uuid sco then sco_base_uuid sco else zeros 16),
      info_has_base_uuid = sco_has_base_uuid sco,
      info_base_digest = (if sco_has_base_digest sco then sco_base_digest sco else zeros 32),
      info_has_base_digest = sco_has_base_digest sco\<rparr>"

definition sco_map :: "sco_image \<Rightarrow> u64 \<Rightarrow> u64 \<Rightarrow> sco_image \<times> scorpi_image_extent res" where
  "sco_map sco offset length' =
     (case sco_lookup_extent sco offset length' of
        Inl e \<Rightarrow> (sco, Inl e)
      | Inr lookup \<Rightarrow> (sco, Inr (lk_extent lookup)))"

definition sco_validate_write_locked :: "sco_image \<Rightarrow> u64 \<Rightarrow> nat \<Rightarrow> unit res" where
  "sco_validate_write_locked sco offset len =
     (if sco_readonly sco \<or> sco_is_sealed (sco_sb sco) then Inl EROFS
      else if sb_virtual_size (sco_sb sco) < offset \<or> sb_virtual_size (sco_sb sco) - offset < len then Inl EINVAL
      else Inr ())"

text \<open>The bytes of one extent: the switch in the loop of \<open>sco_read\<close>.\<close>

definition sco_read_extent :: "sco_image \<Rightarrow> sco_lookup \<Rightarrow> u64 \<Rightarrow> sco_image \<times> byte list res" where
  "sco_read_extent sco lookup offset =
     (let n = ext_length (lk_extent lookup) in
      case ext_state (lk_extent lookup) of
        SCORPI_IMAGE_EXTENT_PRESENT \<Rightarrow>
          (let physical_offset = add64 (lk_physical_offset lookup) (offset mod sb_cluster_size (sco_sb sco))
           in sco_io sco (read_exact (sco_fd sco) physical_offset n))
      | _ \<Rightarrow> (sco, Inr (zeros n)))"

function sco_read_loop :: "sco_image \<Rightarrow> u64 \<Rightarrow> nat \<Rightarrow> sco_image \<times> byte list res" where
  "sco_read_loop sco offset len =
     (if len = 0 then (sco, Inr [])
      else case sco_lookup_extent sco offset len of
          Inl e \<Rightarrow> (sco, Inl e)
        | Inr lookup \<Rightarrow>
            let n = ext_length (lk_extent lookup) in
            if n = 0 \<or> SIZE_MAX < n then (sco, Inl EIO)
            else and_then (sco_read_extent sco lookup offset)
              (\<lambda>sco p. and_then (sco_read_loop sco (add64 offset n) (len - n))
              (\<lambda>sco q. (sco, Inr (p @ q)))))"
  by pat_completeness auto
termination
  by (relation "measure (\<lambda>(sco, offset, len). len)") auto

definition sco_read :: "sco_image \<Rightarrow> u64 \<Rightarrow> nat \<Rightarrow> sco_image \<times> byte list res" where
  "sco_read sco offset len =
     (if sb_virtual_size (sco_sb sco) < offset \<or> sb_virtual_size (sco_sb sco) - offset < len
      then (sco, Inl EINVAL)
      else sco_read_loop sco offset len)"

definition sco_write_is_data_only :: "sco_lookup \<Rightarrow> u64 \<Rightarrow> byte list \<Rightarrow> u64 \<Rightarrow> bool" where
  "sco_write_is_data_only lookup cluster_offset buf stored_length \<longleftrightarrow>
     ext_state (lk_extent lookup) = SCORPI_IMAGE_EXTENT_PRESENT \<and>
     \<not> (cluster_offset = 0 \<and> length buf = stored_length \<and> buffer_all_zero buf)"

definition sco_try_write_present_data_only ::
  "sco_image \<Rightarrow> u64 \<Rightarrow> u64 \<Rightarrow> byte list \<Rightarrow> sco_image \<times> bool res" where
  "sco_try_write_present_data_only sco cluster_index cluster_offset buf =
     (let cluster_start = mul64 cluster_index (sb_cluster_size (sco_sb sco));
          stored_length = sco_cluster_stored_length (sco_sb sco) cluster_index
      in if buf = [] then (sco, Inl EINVAL)
         else case sco_validate_write_locked sco (add64 cluster_start cluster_offset) (length buf) of
             Inl e \<Rightarrow> (sco, Inl e)
           | Inr _ \<Rightarrow>
               if stored_length = 0 \<or> stored_length \<le> cluster_offset \<or>
                  stored_length - cluster_offset < length buf then (sco, Inl EINVAL)
               else (case sco_lookup_extent sco cluster_start stored_length of
                   Inl e \<Rightarrow> (sco, Inl e)
                 | Inr lookup \<Rightarrow>
                     if \<not> sco_write_is_data_only lookup cluster_offset buf stored_length then (sco, Inr False)
                     else and_then (sco_write_present_cluster_data sco lookup cluster_offset buf)
                       (\<lambda>sco _. (sco, Inr True))))"

definition sco_write_metadata_cluster ::
  "sco_image \<Rightarrow> u64 \<Rightarrow> u64 \<Rightarrow> byte list \<Rightarrow> sco_image \<times> unit res" where
  "sco_write_metadata_cluster sco cluster_index cluster_offset buf =
     (case sco_validate_write_locked sco
             (add64 (mul64 cluster_index (sb_cluster_size (sco_sb sco))) cluster_offset) (length buf) of
        Inl e \<Rightarrow> (sco, Inl e)
      | Inr _ \<Rightarrow> sco_write_cluster_range sco cluster_index cluster_offset buf)"

text \<open>One pass of the loop of \<open>sco_write\<close> writes one chunk.\<close>

definition sco_write_chunk :: "sco_image \<Rightarrow> u64 \<Rightarrow> u64 \<Rightarrow> byte list \<Rightarrow> sco_image \<times> unit res" where
  "sco_write_chunk sco cluster_index cluster_offset buf =
     and_then (sco_try_write_present_data_only sco cluster_index cluster_offset buf)
       (\<lambda>sco done. if done then (sco, Inr ())
                  else sco_write_metadata_cluster sco cluster_index cluster_offset buf)"

function sco_write_loop ::
  "u64 \<Rightarrow> u64 \<Rightarrow> sco_image \<Rightarrow> byte list \<Rightarrow> u64 \<Rightarrow> u64 \<Rightarrow> sco_image \<times> unit res" where
  "sco_write_loop cluster_size virtual_size sco p offset end' =
     (if \<not> offset < end' then (sco, Inr ())
      else let cluster_index = offset div cluster_size;
               cluster_offset = offset mod cluster_size;
               remaining = sub64 virtual_size (mul64 cluster_index cluster_size);
               stored_length = (if cluster_size < remaining then cluster_size else remaining)
        in if stored_length = 0 \<or> stored_length \<le> cluster_offset then (sco, Inl EINVAL)
           else let chunk = (if end' - offset < stored_length - cluster_offset
                             then end' - offset else stored_length - cluster_offset)
             in if SIZE_MAX < chunk then (sco, Inl EINVAL)
                else and_then (sco_write_chunk sco cluster_index cluster_offset (take chunk p))
                  (\<lambda>sco _. sco_write_loop cluster_size virtual_size sco (drop chunk p) (offset + chunk) end'))"
  by pat_completeness auto
termination
  by (relation "measure (\<lambda>(cs, vs, sco, p, offset, end'). end' - offset)") (auto simp: Let_def)

definition sco_write :: "sco_image \<Rightarrow> byte list \<Rightarrow> u64 \<Rightarrow> sco_image \<times> unit res" where
  "sco_write sco buf offset =
     (case sco_validate_write_locked sco offset (length buf) of
        Inl e \<Rightarrow> (sco, Inl e)
      | Inr _ \<Rightarrow>
          if buf = [] then (sco, Inr ())
          else sco_write_loop (sb_cluster_size (sco_sb sco)) (sb_virtual_size (sco_sb sco)) sco buf
                 offset (offset + length buf))"

function sco_discard_loop :: "sco_image \<Rightarrow> u64 \<Rightarrow> u64 \<Rightarrow> sco_image \<times> unit res" where
  "sco_discard_loop sco offset end' =
     (if \<not> offset < end' then (sco, Inr ())
      else let cluster_index = offset div sb_cluster_size (sco_sb sco);
               cluster_offset = offset mod sb_cluster_size (sco_sb sco);
               stored_length = sco_cluster_stored_length (sco_sb sco) cluster_index
        in if stored_length = 0 \<or> stored_length \<le> cluster_offset then (sco, Inl EINVAL)
           else let chunk = (if end' - offset < stored_length - cluster_offset
                             then end' - offset else stored_length - cluster_offset)
             in and_then (sco_discard_cluster_range sco cluster_index cluster_offset chunk)
                  (\<lambda>sco _. sco_discard_loop sco (offset + chunk) end'))"
  by pat_completeness auto
termination
  by (relation "measure (\<lambda>(sco, offset, end'). end' - offset)") (auto simp: Let_def)

definition sco_discard :: "sco_image \<Rightarrow> u64 \<Rightarrow> u64 \<Rightarrow> sco_image \<times> unit res" where
  "sco_discard sco offset length' =
     (if sco_readonly sco \<or> sco_is_sealed (sco_sb sco) then (sco, Inl EROFS)
      else if sb_virtual_size (sco_sb sco) < offset \<or> sb_virtual_size (sco_sb sco) - offset < length'
        then (sco, Inl EINVAL)
      else if length' = 0 then (sco, Inr ())
      else sco_discard_loop sco offset (offset + length'))"

definition sco_flush :: "sco_image \<Rightarrow> sco_image \<times> unit res" where
  "sco_flush sco = sco_trace_fsync sco"

definition scorpi_image_sco_set_sealed :: "sco_image \<Rightarrow> bool \<Rightarrow> sco_image \<times> unit res" where
  "scorpi_image_sco_set_sealed sco sealed =
     (let sb = sco_sb sco; features = sb_readonly_compatible_features sb in
      if features AND NOT SCO_RO_COMPAT_SUPPORTED \<noteq> 0 then (sco, Inl ENOTSUP)
      else if sco_is_sealed sb = sealed then (sco, Inr ())
      else if sealed \<and> sco_readonly sco then (sco, Inl EROFS)
      else sco_commit_superblock sco
        (sb\<lparr>sb_generation := add64 (sb_generation sb) 1,
            sb_readonly_compatible_features :=
              (if sealed then features OR SCO_RO_COMPAT_SEALED
               else features AND NOT SCO_RO_COMPAT_SEALED)\<rparr>))"

definition sco_close :: "sco_image \<Rightarrow> unit res" where
  "sco_close sco = snd (close (sco_fd sco))"

declare sco_read_loop.simps [simp del] sco_write_loop.simps [simp del] sco_discard_loop.simps [simp del]

end
