(* ===== verification/Image_Qcow2.thy ===== *)
theory Image_Qcow2
  imports Endian Image_Types Sco_Image
begin

text \<open>
  The read-only QCOW2 backend, \<^verbatim>\<open>src/scorpi_image_qcow2.c\<close>: the header, the two-level table of
  clusters with a one-table cache, compressed clusters with a one-cluster cache, and the
  operations of the backend.

  Decompression is done by zlib.  The state holds it as the function \<open>q_inflate\<close>: given the
  compressed bytes and the size of the output buffer it returns the bytes written and whether
  the calls of the library all succeeded and reached the end of the stream.
\<close>

type_synonym inflate = "byte list \<Rightarrow> nat \<Rightarrow> byte list \<times> bool"

record qcow2_header =
  qh_version :: u32
  qh_backing_file_offset :: u64
  qh_backing_file_size :: u32
  qh_cluster_bits :: u32
  qh_size :: u64
  qh_crypt_method :: u32
  qh_l1_size :: u32
  qh_l1_table_offset :: u64
  qh_nb_snapshots :: u32
  qh_incompatible_features :: u64
  qh_header_length :: u32
  qh_compression_type :: nat

record qcow2_resolved_cluster =
  rs_state :: scorpi_image_extent_state
  rs_compressed :: bool
  rs_physical_offset :: u64
  rs_compressed_length :: u64
  rs_guest_cluster :: u64

record qcow2_image =
  q_fd :: hfile
  q_file_size :: u64
  q_version :: u32
  q_cluster_bits :: u32
  q_cluster_size :: u32
  q_compression_type :: nat
  q_virtual_size :: u64
  q_l1_size :: u32
  q_l1_table :: "u64 list"
  q_base_uri :: "string option"
  q_l2_cache_valid :: bool
  q_l2_cache_offset :: u64
  q_l2_cache :: "u64 list"
  q_compressed_cache_valid :: bool
  q_compressed_cache_guest_cluster :: u64
  q_compressed_cache :: "byte list"
  q_inflate :: inflate

abbreviation (input) QCOW2_MAGIC :: nat where "QCOW2_MAGIC \<equiv> 0x514649fb"
abbreviation (input) QCOW2_ENTRY_ZERO :: nat where "QCOW2_ENTRY_ZERO \<equiv> 1"
abbreviation (input) QCOW2_ENTRY_COMPRESSED :: nat where "QCOW2_ENTRY_COMPRESSED \<equiv> 4611686018427387904"
abbreviation (input) QCOW2_ENTRY_COPIED :: nat where "QCOW2_ENTRY_COPIED \<equiv> 9223372036854775808"
abbreviation (input) QCOW2_ENTRY_OFFSET_MASK :: nat where "QCOW2_ENTRY_OFFSET_MASK \<equiv> 0xffffffffffffe00"

definition QCOW2_L1_RESERVED_MASK :: nat where
  "QCOW2_L1_RESERVED_MASK = UINT64_MAX - (QCOW2_ENTRY_OFFSET_MASK OR QCOW2_ENTRY_COPIED)"

definition QCOW2_L2_RESERVED_MASK :: nat where
  "QCOW2_L2_RESERVED_MASK =
     UINT64_MAX - (QCOW2_ENTRY_OFFSET_MASK OR QCOW2_ENTRY_ZERO OR QCOW2_ENTRY_COMPRESSED OR QCOW2_ENTRY_COPIED)"

section \<open>Opening\<close>

definition is_cluster_aligned :: "qcow2_image \<Rightarrow> u64 \<Rightarrow> bool" where
  "is_cluster_aligned q offset = (offset AND (q_cluster_size q - 1) = 0)"

definition qcow2_decode_header :: "hfile \<Rightarrow> hfile \<times> qcow2_header res" where
  "qcow2_decode_header fd =
     and_then (read_exact fd 0 72) (\<lambda>fd buf.
       let version = be32dec buf 4;
           header = \<lparr>qh_version = version, qh_backing_file_offset = be64dec buf 8,
             qh_backing_file_size = be32dec buf 16, qh_cluster_bits = be32dec buf 20,
             qh_size = be64dec buf 24, qh_crypt_method = be32dec buf 32, qh_l1_size = be32dec buf 36,
             qh_l1_table_offset = be64dec buf 40, qh_nb_snapshots = be32dec buf 60,
             qh_incompatible_features = 0, qh_header_length = 72, qh_compression_type = 0\<rparr> in
       if be32dec buf 0 \<noteq> QCOW2_MAGIC then (fd, Inl EINVAL)
       else if version \<noteq> 2 \<and> version \<noteq> 3 then (fd, Inl ENOTSUP)
       else if version = 2 then (fd, Inr header)
       else and_then (read_exact fd 72 32) (\<lambda>fd ext.
         let header = header\<lparr>qh_incompatible_features := be64dec ext 0\<rparr>; header_length = be32dec ext 28 in
         if header_length < 104 \<or> header_length mod 8 \<noteq> 0 then (fd, Inl EINVAL)
         else let header = header\<lparr>qh_header_length := header_length\<rparr> in
           if 104 < header_length then
             and_then (read_exact fd 104 1) (\<lambda>fd b. (fd, Inr (header\<lparr>qh_compression_type := unat (b ! 0)\<rparr>)))
           else (fd, Inr header)))"

definition qcow2_probe :: "hfile \<Rightarrow> hfile \<times> nat res" where
  "qcow2_probe fd =
     (case pread fd 4 0 of
        (fd, Inl _) \<Rightarrow> (fd, Inr 0)
      | (fd, Inr buf) \<Rightarrow>
          (fd, Inr (if length buf \<noteq> 4 then 0 else if be32dec buf 0 = QCOW2_MAGIC then 90 else 0)))"

definition qcow2_make_base_uri :: "string \<Rightarrow> string res" where
  "qcow2_make_base_uri backing =
     (if backing = [] then Inl EINVAL
      else if take 5 backing = ''file:'' then Inr backing
      else if CHR '':'' \<in> set backing then Inl ENOTSUP
      else Inr ((if hd backing = CHR ''/'' then ''file://'' else ''file:'') @ backing))"

definition qcow2_read_base_uri :: "hfile \<Rightarrow> qcow2_header \<Rightarrow> hfile \<times> string option res" where
  "qcow2_read_base_uri fd header =
     (if qh_backing_file_offset header = 0 then
        (fd, if qh_backing_file_size header \<noteq> 0 then Inl EINVAL else Inr None)
      else if qh_backing_file_size header = 0 \<or> 1023 < qh_backing_file_size header then (fd, Inl EINVAL)
      else if UINT64_MAX - qh_backing_file_size header < qh_backing_file_offset header then (fd, Inl EFBIG)
      else and_then (read_exact fd (qh_backing_file_offset header) (qh_backing_file_size header)) (\<lambda>fd backing.
        (fd, case qcow2_make_base_uri (c_string backing) of Inl e \<Rightarrow> Inl e | Inr uri \<Rightarrow> Inr (Some uri))))"

definition qcow2_validate_header :: "qcow2_header \<Rightarrow> unit res" where
  "qcow2_validate_header h =
     (if qh_cluster_bits h < 9 \<or> 21 < qh_cluster_bits h then Inl ENOTSUP
      else let cluster_size = 2 ^ qh_cluster_bits h in
        if cluster_size < qh_header_length h then Inl EINVAL
        else if qh_crypt_method h \<noteq> 0 then Inl ENOTSUP
        else if qh_incompatible_features h \<noteq> 0 then Inl ENOTSUP
        else if qh_compression_type h \<noteq> 0 then Inl ENOTSUP
        else if qh_l1_size h = 0 \<or> qh_l1_table_offset h = 0 then Inl EINVAL
        else if 32 * 1024 * 1024 div 8 < qh_l1_size h then Inl EFBIG
        else let l1_bytes = qh_l1_size h * 8 in
          if qh_l1_table_offset h mod cluster_size \<noteq> 0 then Inl EINVAL
          else if UINT64_MAX - l1_bytes < qh_l1_table_offset h then Inl EFBIG
          else let l2_entries = cluster_size div 8; covered_clusters = mul64 (qh_l1_size h) l2_entries in
            if 0 < qh_size h \<and> covered_clusters < sub64 (add64 (qh_size h) cluster_size) 1 div cluster_size
            then Inl EINVAL
            else Inr ())"

fun qcow2_l1_entries :: "qcow2_image \<Rightarrow> u64 list \<Rightarrow> u64 list res" where
  "qcow2_l1_entries q [] = Inr []"
| "qcow2_l1_entries q (entry # es) =
     (if entry = 0 then (case qcow2_l1_entries q es of Inl e \<Rightarrow> Inl e | Inr os \<Rightarrow> Inr (0 # os))
      else if entry AND QCOW2_L1_RESERVED_MASK \<noteq> 0 then Inl ENOTSUP
      else let offset = entry AND QCOW2_ENTRY_OFFSET_MASK in
        if offset = 0 \<or> \<not> is_cluster_aligned q offset \<or> q_file_size q < offset \<or>
           q_file_size q - offset < q_cluster_size q then Inl EINVAL
        else (case qcow2_l1_entries q es of Inl e \<Rightarrow> Inl e | Inr os \<Rightarrow> Inr (offset # os)))"

definition be64_list :: "byte list \<Rightarrow> nat \<Rightarrow> u64 list" where
  "be64_list buf n = map (\<lambda>i. be64dec buf (i * 8)) [0..<n]"

definition qcow2_read_l1_table :: "qcow2_image \<Rightarrow> qcow2_header \<Rightarrow> qcow2_image \<times> unit res" where
  "qcow2_read_l1_table q header =
     (case read_exact (q_fd q) (qh_l1_table_offset header) (qh_l1_size header * 8) of
        (fd, Inl e) \<Rightarrow> (q\<lparr>q_fd := fd\<rparr>, Inl e)
      | (fd, Inr buf) \<Rightarrow>
          (case qcow2_l1_entries q (be64_list buf (qh_l1_size header)) of
             Inl e \<Rightarrow> (q\<lparr>q_fd := fd\<rparr>, Inl e)
           | Inr t \<Rightarrow> (q\<lparr>q_fd := fd, q_l1_table := t\<rparr>, Inr ())))"

text \<open>A new image before its table is read; the compressed-cluster buffer is not initialised and holds whatever the allocator left there.\<close>

definition qcow2_fresh :: "inflate \<Rightarrow> (nat \<Rightarrow> byte) \<Rightarrow> hfile \<Rightarrow> u64 \<Rightarrow> qcow2_header \<Rightarrow> qcow2_image" where
  "qcow2_fresh inflate garbage fd st_size h =
     \<lparr>q_fd = fd, q_file_size = st_size, q_version = qh_version h, q_cluster_bits = qh_cluster_bits h,
      q_cluster_size = 2 ^ qh_cluster_bits h, q_compression_type = qh_compression_type h,
      q_virtual_size = qh_size h, q_l1_size = qh_l1_size h, q_l1_table = [], q_base_uri = None,
      q_l2_cache_valid = False, q_l2_cache_offset = 0, q_l2_cache = replicate (2 ^ qh_cluster_bits h div 8) 0,
      q_compressed_cache_valid = False, q_compressed_cache_guest_cluster = 0,
      q_compressed_cache = map garbage [0..<2 ^ qh_cluster_bits h], q_inflate = inflate\<rparr>"

definition qcow2_open :: "inflate \<Rightarrow> (nat \<Rightarrow> byte) \<Rightarrow> string \<Rightarrow> hfile \<Rightarrow> bool \<Rightarrow> hfile \<times> qcow2_image res" where
  "qcow2_open inflate garbage path fd readonly =
     (if \<not> readonly then (fd, Inl EROFS)
      else and_then (fstat_size fd) (\<lambda>fd st_size.
        and_then (qcow2_decode_header fd) (\<lambda>fd header.
          case qcow2_validate_header header of
            Inl e \<Rightarrow> (fd, Inl e)
          | Inr _ \<Rightarrow>
              (case qcow2_read_l1_table (qcow2_fresh inflate garbage fd st_size header) header of
                 (q, Inl e) \<Rightarrow> (q_fd q, Inl e)
               | (q, Inr _) \<Rightarrow>
                   and_then (qcow2_read_base_uri (q_fd q) header) (\<lambda>fd uri.
                     (fd, Inr (q\<lparr>q_fd := fd, q_base_uri := uri\<rparr>)))))))"

definition qcow2_get_info :: "qcow2_image \<Rightarrow> scorpi_image_info res" where
  "qcow2_get_info q = Inr
     \<lparr>info_format = SCORPI_IMAGE_FORMAT_QCOW2, info_virtual_size = q_virtual_size q,
      info_logical_sector_size = 512, info_physical_sector_size = 0, info_cluster_size = q_cluster_size q,
      info_readonly = True, info_sealed = True, info_can_discard = False,
      info_image_uuid = replicate 16 0, info_has_image_uuid = False,
      info_image_digest = replicate 32 0, info_has_image_digest = False,
      info_has_base = (q_base_uri q \<noteq> None), info_base_uri = q_base_uri q,
      info_base_uuid = replicate 16 0, info_has_base_uuid = False,
      info_base_digest = replicate 32 0, info_has_base_digest = False\<rparr>"

section \<open>Looking up a cluster\<close>

definition qcow2_l2_entry :: "qcow2_image \<Rightarrow> u64 \<Rightarrow> u64 \<Rightarrow> qcow2_image \<times> u64 res" where
  "qcow2_l2_entry q l2_offset l2_index =
     (if l2_offset = 0 then (q, Inr 0)
      else if \<not> is_cluster_aligned q l2_offset \<or> q_file_size q < l2_offset \<or>
        q_file_size q - l2_offset < q_cluster_size q then (q, Inl EINVAL)
      else let l2_entries = q_cluster_size q div 8 in
        if l2_entries \<le> l2_index then (q, Inl EINVAL)
        else if q_l2_cache_valid q \<and> q_l2_cache_offset q = l2_offset then (q, Inr (q_l2_cache q ! l2_index))
        else case read_exact (q_fd q) l2_offset (q_cluster_size q) of
            (fd, Inl e) \<Rightarrow> (q\<lparr>q_fd := fd\<rparr>, Inl e)
          | (fd, Inr buf) \<Rightarrow>
              let t = be64_list buf l2_entries in
              (q\<lparr>q_fd := fd, q_l2_cache := t, q_l2_cache_offset := l2_offset, q_l2_cache_valid := True\<rparr>,
               Inr (t ! l2_index)))"

definition resolved_as :: "u64 \<Rightarrow> scorpi_image_extent_state \<Rightarrow> qcow2_resolved_cluster" where
  "resolved_as g st = \<lparr>rs_state = st, rs_compressed = False, rs_physical_offset = 0,
     rs_compressed_length = 0, rs_guest_cluster = g\<rparr>"

text \<open>What an entry of a second-level table says about a cluster.\<close>

definition qcow2_decode_entry :: "qcow2_image \<Rightarrow> u64 \<Rightarrow> u64 \<Rightarrow> qcow2_resolved_cluster res" where
  "qcow2_decode_entry q g entry =
     (if entry AND QCOW2_ENTRY_COMPRESSED \<noteq> 0 then
        if entry AND QCOW2_ENTRY_COPIED \<noteq> 0 then Inl EINVAL
        else
          let compressed_offset_bits = 62 - (q_cluster_bits q - 8);
              physical_offset = entry AND (2 ^ compressed_offset_bits - 1);
              compressed_sectors = drop_bit compressed_offset_bits entry AND (2 ^ (62 - compressed_offset_bits) - 1) in
          if compressed_sectors = UINT64_MAX \<or> UINT64_MAX div 512 < compressed_sectors + 1 then Inl EINVAL
          else
            let compressed_length = (compressed_sectors + 1) * 512 - (physical_offset AND 511) in
            if compressed_length = 0 then Inl EINVAL
            else if q_file_size q < physical_offset \<or> q_file_size q - physical_offset < compressed_length
            then Inl EINVAL
            else Inr \<lparr>rs_state = SCORPI_IMAGE_EXTENT_PRESENT, rs_compressed = True,
              rs_physical_offset = physical_offset, rs_compressed_length = compressed_length,
              rs_guest_cluster = g\<rparr>
      else if entry AND QCOW2_L2_RESERVED_MASK \<noteq> 0 then Inl ENOTSUP
      else if q_version q = 2 \<and> entry AND QCOW2_ENTRY_ZERO \<noteq> 0 then Inl ENOTSUP
      else if entry AND QCOW2_ENTRY_ZERO \<noteq> 0 then Inr (resolved_as g SCORPI_IMAGE_EXTENT_ZERO)
      else let physical_offset = entry AND QCOW2_ENTRY_OFFSET_MASK in
        if physical_offset = 0 then
          if entry AND QCOW2_ENTRY_COPIED \<noteq> 0 then Inl EINVAL
          else Inr (resolved_as g SCORPI_IMAGE_EXTENT_ABSENT)
        else if \<not> is_cluster_aligned q physical_offset \<or> q_file_size q < physical_offset then Inl EINVAL
        else Inr ((resolved_as g SCORPI_IMAGE_EXTENT_PRESENT)\<lparr>rs_physical_offset := physical_offset\<rparr>))"

definition qcow2_resolve_cluster :: "qcow2_image \<Rightarrow> u64 \<Rightarrow> qcow2_image \<times> qcow2_resolved_cluster res" where
  "qcow2_resolve_cluster q offset =
     (if q_virtual_size q \<le> offset then (q, Inl EINVAL)
      else
        let guest_cluster = drop_bit (q_cluster_bits q) offset; l2_entries = q_cluster_size q div 8;
            l1_index = guest_cluster div l2_entries; l2_index = guest_cluster mod l2_entries in
        if q_l1_size q \<le> l1_index then (q, Inl EINVAL)
        else let l2_offset = q_l1_table q ! l1_index in
          if l2_offset = 0 then (q, Inr (resolved_as guest_cluster SCORPI_IMAGE_EXTENT_ABSENT))
          else and_then (qcow2_l2_entry q l2_offset l2_index) (\<lambda>q entry.
            (q, qcow2_decode_entry q guest_cluster entry)))"

definition qcow2_map :: "qcow2_image \<Rightarrow> u64 \<Rightarrow> u64 \<Rightarrow> qcow2_image \<times> scorpi_image_extent res" where
  "qcow2_map q offset length' =
     (if length' = 0 then (q, Inl EINVAL)
      else if q_virtual_size q \<le> offset then (q, Inl EINVAL)
      else
        let length' = (if q_virtual_size q - offset < length' then q_virtual_size q - offset else length') in
        and_then (qcow2_resolve_cluster q offset) (\<lambda>q resolved.
          let cluster_start = offset AND (UINT64_MAX - (q_cluster_size q - 1));
              cluster_end = add64 cluster_start (q_cluster_size q);
              cluster_end = (if q_virtual_size q < cluster_end then q_virtual_size q else cluster_end);
              length' = (if sub64 cluster_end offset < length' then sub64 cluster_end offset else length') in
          (q, Inr \<lparr>ext_offset = offset, ext_length = length', ext_state = rs_state resolved\<rparr>)))"

section \<open>Reading\<close>

definition qcow2_read_compressed_cluster_locked ::
  "qcow2_image \<Rightarrow> qcow2_resolved_cluster \<Rightarrow> qcow2_image \<times> unit res" where
  "qcow2_read_compressed_cluster_locked q resolved =
     (if q_compressed_cache_valid q \<and> q_compressed_cache_guest_cluster q = rs_guest_cluster resolved
      then (q, Inr ())
      else if q_compression_type q \<noteq> 0 then (q, Inl ENOTSUP)
      else if UINT32_MAX < rs_compressed_length resolved then (q, Inl EFBIG)
      else case read_exact (q_fd q) (rs_physical_offset resolved) (rs_compressed_length resolved) of
          (fd, Inl e) \<Rightarrow> (q\<lparr>q_fd := fd\<rparr>, Inl e)
        | (fd, Inr compressed) \<Rightarrow>
            (case q_inflate q compressed (q_cluster_size q) of
               (out, ok) \<Rightarrow>
                 let q = q\<lparr>q_fd := fd, q_compressed_cache := overwrite 0 out (q_compressed_cache q)\<rparr> in
                 if \<not> ok \<or> length out \<noteq> q_cluster_size q then (q, Inl EIO)
                 else (q\<lparr>q_compressed_cache_guest_cluster := rs_guest_cluster resolved,
                         q_compressed_cache_valid := True\<rparr>, Inr ())))"

definition qcow2_read_compressed_cluster ::
  "qcow2_image \<Rightarrow> qcow2_resolved_cluster \<Rightarrow> u64 \<Rightarrow> nat \<Rightarrow> qcow2_image \<times> byte list res" where
  "qcow2_read_compressed_cluster q resolved cluster_offset len =
     and_then (qcow2_read_compressed_cluster_locked q resolved) (\<lambda>q _.
       (q, Inr (buf_slice cluster_offset len (q_compressed_cache q))))"

text \<open>The switch in the loop of \<open>qcow2_read\<close>.\<close>

definition qcow2_read_chunk ::
  "qcow2_image \<Rightarrow> qcow2_resolved_cluster \<Rightarrow> u64 \<Rightarrow> nat \<Rightarrow> qcow2_image \<times> byte list res" where
  "qcow2_read_chunk q resolved cluster_offset chunk =
     (case rs_state resolved of
        SCORPI_IMAGE_EXTENT_PRESENT \<Rightarrow>
          if rs_compressed resolved then qcow2_read_compressed_cluster q resolved cluster_offset chunk
          else if UINT64_MAX - cluster_offset < rs_physical_offset resolved \<or>
            q_file_size q < rs_physical_offset resolved + cluster_offset \<or>
            q_file_size q - (rs_physical_offset resolved + cluster_offset) < chunk then (q, Inl EINVAL)
          else (case read_exact (q_fd q) (rs_physical_offset resolved + cluster_offset) chunk of
              (fd, r) \<Rightarrow> (q\<lparr>q_fd := fd\<rparr>, r))
      | _ \<Rightarrow> (q, Inr (replicate chunk 0)))"

function qcow2_read_loop :: "qcow2_image \<Rightarrow> u64 \<Rightarrow> nat \<Rightarrow> qcow2_image \<times> byte list res" where
  "qcow2_read_loop q offset len =
     (if len = 0 then (q, Inr [])
      else and_then (qcow2_resolve_cluster q offset) (\<lambda>q resolved.
        let cluster_offset = offset AND (q_cluster_size q - 1);
            chunk = q_cluster_size q - cluster_offset;
            chunk = (if len < chunk then len else chunk) in
        if chunk = 0 then (q, Inl EINVAL)
        else and_then (qcow2_read_chunk q resolved cluster_offset chunk) (\<lambda>q bs.
          and_then (qcow2_read_loop q (offset + chunk) (len - chunk)) (\<lambda>q rest. (q, Inr (bs @ rest))))))"
  by pat_completeness auto
termination
  by (relation "measure (\<lambda>(q, offset, len). len)") (auto simp: Let_def)

declare qcow2_read_loop.simps [simp del]

definition qcow2_read :: "qcow2_image \<Rightarrow> u64 \<Rightarrow> nat \<Rightarrow> qcow2_image \<times> byte list res" where
  "qcow2_read q offset len =
     (if len = 0 then (q, Inr [])
      else if q_virtual_size q < offset \<or> q_virtual_size q - offset < len then (q, Inl EINVAL)
      else qcow2_read_loop q offset len)"

definition qcow2_write :: "qcow2_image \<Rightarrow> byte list \<Rightarrow> u64 \<Rightarrow> qcow2_image \<times> unit res" where
  "qcow2_write q buf offset = (q, Inl EROFS)"

definition qcow2_discard :: "qcow2_image \<Rightarrow> u64 \<Rightarrow> u64 \<Rightarrow> qcow2_image \<times> unit res" where
  "qcow2_discard q offset length' = (q, Inl EROFS)"

definition qcow2_flush :: "qcow2_image \<Rightarrow> qcow2_image \<times> unit res" where
  "qcow2_flush q = (q, Inr ())"

definition qcow2_close :: "qcow2_image \<Rightarrow> unit res" where
  "qcow2_close q = snd (close (q_fd q))"

section \<open>The content of an image\<close>

text \<open>What the tables in the file say about an offset, without the caches.\<close>

definition qcow2_lookup :: "qcow2_image \<Rightarrow> u64 \<Rightarrow> qcow2_resolved_cluster res" where
  "qcow2_lookup q offset =
     (let cs = q_cluster_size q; g = offset div cs; l2_offset = q_l1_table q ! (g div (cs div 8)) in
      if q_virtual_size q \<le> offset \<or> q_l1_size q \<le> g div (cs div 8) then Inl EINVAL
      else if l2_offset = 0 then Inr (resolved_as g SCORPI_IMAGE_EXTENT_ABSENT)
      else if \<not> is_cluster_aligned q l2_offset \<or> q_file_size q < l2_offset \<or> q_file_size q - l2_offset < cs
      then Inl EINVAL
      else qcow2_decode_entry q g
        (be64dec (get_bytes (h_bytes (q_fd q)) l2_offset cs) (g mod (cs div 8) * 8)))"

definition qcow2_inflated :: "qcow2_image \<Rightarrow> qcow2_resolved_cluster \<Rightarrow> byte list" where
  "qcow2_inflated q r =
     fst (q_inflate q (get_bytes (h_bytes (q_fd q)) (rs_physical_offset r) (rs_compressed_length r)) (q_cluster_size q))"

definition resolved_cell :: "qcow2_image \<Rightarrow> qcow2_resolved_cluster \<Rightarrow> nat \<Rightarrow> byte option" where
  "resolved_cell q r i =
     (case rs_state r of
        SCORPI_IMAGE_EXTENT_ABSENT \<Rightarrow> None
      | SCORPI_IMAGE_EXTENT_PRESENT \<Rightarrow>
          Some (if rs_compressed r then qcow2_inflated q r ! i else h_bytes (q_fd q) (rs_physical_offset r + i))
      | _ \<Rightarrow> Some 0)"

definition qcow2_cell :: "qcow2_image \<Rightarrow> cells" where
  "qcow2_cell q x =
     (case qcow2_lookup q x of Inl _ \<Rightarrow> None | Inr r \<Rightarrow> resolved_cell q r (x mod q_cluster_size q))"

definition qcow2_same :: "qcow2_image \<Rightarrow> qcow2_image \<Rightarrow> bool" where
  "qcow2_same q q' \<longleftrightarrow> same_data (q_fd q) (q_fd q') \<and> q_file_size q' = q_file_size q \<and> q_version q' = q_version q \<and>
     q_cluster_bits q' = q_cluster_bits q \<and> q_cluster_size q' = q_cluster_size q \<and>
     q_compression_type q' = q_compression_type q \<and> q_virtual_size q' = q_virtual_size q \<and>
     q_l1_size q' = q_l1_size q \<and> q_l1_table q' = q_l1_table q \<and> q_base_uri q' = q_base_uri q \<and> q_inflate q' = q_inflate q"

text \<open>
  The invariant: the parameters are those the header check accepts, and each cache holds
  what the file holds for the table or the cluster it is labelled with.
\<close>

definition qcow2_params :: "qcow2_image \<Rightarrow> bool" where
  "qcow2_params q \<longleftrightarrow> 9 \<le> q_cluster_bits q \<and> q_cluster_bits q \<le> 21 \<and> q_cluster_size q = 2 ^ q_cluster_bits q \<and>
     q_virtual_size q \<le> UINT64_MAX \<and> q_file_size q \<le> UINT64_MAX"

definition qcow2_l2_coherent :: "qcow2_image \<Rightarrow> bool" where
  "qcow2_l2_coherent q \<longleftrightarrow> (q_l2_cache_valid q \<longrightarrow>
     q_l2_cache q = be64_list (get_bytes (h_bytes (q_fd q)) (q_l2_cache_offset q) (q_cluster_size q)) (q_cluster_size q div 8))"

definition qcow2_compressed_coherent :: "qcow2_image \<Rightarrow> bool" where
  "qcow2_compressed_coherent q \<longleftrightarrow> length (q_compressed_cache q) = q_cluster_size q \<and>
     (q_compressed_cache_valid q \<longrightarrow>
       (\<forall>x r. qcow2_lookup q x = Inr r \<longrightarrow> rs_compressed r \<longrightarrow>
          rs_guest_cluster r = q_compressed_cache_guest_cluster q \<longrightarrow> q_compressed_cache q = qcow2_inflated q r))"

definition qcow2_inv :: "qcow2_image \<Rightarrow> bool" where
  "qcow2_inv q \<longleftrightarrow> qcow2_params q \<and> qcow2_l2_coherent q \<and> qcow2_compressed_coherent q"

lemma qcow2_same_refl [simp]: "qcow2_same q q"
  by (simp add: qcow2_same_def)

lemma qcow2_same_trans [trans]: "qcow2_same p q \<Longrightarrow> qcow2_same q r \<Longrightarrow> qcow2_same p r"
  unfolding qcow2_same_def by (auto intro: same_data_trans)

lemma same_fields:
  assumes "qcow2_same q q'"
  shows "q_file_size q' = q_file_size q" "q_version q' = q_version q" "q_cluster_bits q' = q_cluster_bits q"
    "q_cluster_size q' = q_cluster_size q" "q_virtual_size q' = q_virtual_size q" "q_l1_size q' = q_l1_size q"
    "q_l1_table q' = q_l1_table q" "q_base_uri q' = q_base_uri q" "q_inflate q' = q_inflate q"
    "h_bytes (q_fd q') = h_bytes (q_fd q)" "is_cluster_aligned q' = is_cluster_aligned q"
  using assms by (auto simp: qcow2_same_def same_data_def is_cluster_aligned_def fun_eq_iff)

lemma decode_entry_same: "qcow2_same q q' \<Longrightarrow> qcow2_decode_entry q' = qcow2_decode_entry q"
  by (intro ext) (simp only: qcow2_decode_entry_def same_fields [of q q'])

lemma lookup_same: "qcow2_same q q' \<Longrightarrow> qcow2_lookup q' = qcow2_lookup q"
  by (intro ext) (simp only: qcow2_lookup_def same_fields [of q q'] decode_entry_same [of q q'])

lemma inflated_same: "qcow2_same q q' \<Longrightarrow> qcow2_inflated q' = qcow2_inflated q"
  by (intro ext) (simp only: qcow2_inflated_def same_fields [of q q'])

lemma cell_same: "qcow2_same q q' \<Longrightarrow> qcow2_cell q' = qcow2_cell q"
  by (intro ext) (simp only: qcow2_cell_def resolved_cell_def same_fields [of q q'] lookup_same [of q q']
      inflated_same [of q q'])

lemma params_same: "qcow2_same q q' \<Longrightarrow> qcow2_params q' = qcow2_params q"
  by (simp add: qcow2_params_def qcow2_same_def)

text \<open>A change of the descriptor's script only, as a failed read leaves it.\<close>

lemma same_fd [simp]: "same_data (q_fd q) fd \<Longrightarrow> qcow2_same q (q\<lparr>q_fd := fd\<rparr>)"
  by (simp add: qcow2_same_def)

lemma inv_fd: "qcow2_inv q \<Longrightarrow> same_data (q_fd q) fd \<Longrightarrow> qcow2_inv (q\<lparr>q_fd := fd\<rparr>)"
  using params_same [OF same_fd, of q fd] lookup_same [OF same_fd, of q fd] inflated_same [OF same_fd, of q fd]
  by (auto simp: qcow2_inv_def qcow2_l2_coherent_def qcow2_compressed_coherent_def same_data_def)

lemma be64_list_nth: "i < n \<Longrightarrow> be64_list buf n ! i = be64dec buf (i * 8)"
  by (simp add: be64_list_def)

lemma qcow2_l2_entry_ok:
  assumes "qcow2_inv q" "qcow2_l2_entry q l2 i = (q', r)"
  shows "qcow2_same q q' \<and> qcow2_inv q' \<and> (\<forall>e. r = Inr e \<longrightarrow> l2 \<noteq> 0 \<longrightarrow>
    is_cluster_aligned q l2 \<and> l2 \<le> q_file_size q \<and> q_cluster_size q \<le> q_file_size q - l2 \<and>
    e = be64dec (get_bytes (h_bytes (q_fd q)) l2 (q_cluster_size q)) (i * 8))"
proof (cases "l2 = 0 \<or> \<not> is_cluster_aligned q l2 \<or> q_file_size q < l2 \<or> q_file_size q - l2 < q_cluster_size q \<or>
    q_cluster_size q div 8 \<le> i \<or> q_l2_cache_valid q \<and> q_l2_cache_offset q = l2")
  case True
  then show ?thesis
    using assms be64_list_nth [of i "q_cluster_size q div 8"]
    by (auto simp: qcow2_l2_entry_def Let_def qcow2_inv_def qcow2_l2_coherent_def split: if_splits)
next
  case False
  obtain fd x where x: "read_exact (q_fd q) l2 (q_cluster_size q) = (fd, x)" by fastforce
  have "l2 + q_cluster_size q \<le> UINT64_MAX" using False assms(1) by (auto simp: qcow2_inv_def qcow2_params_def)
  note re = read_exact_result [OF x this]
  show ?thesis
  proof (cases x)
    case (Inl e)
    then show ?thesis
      using assms False x re inv_fd [of q fd] by (auto simp: qcow2_l2_entry_def Let_def)
  next
    case (Inr buf)
    have sd: "same_data (q_fd q) fd" and buf: "buf = get_bytes (h_bytes (q_fd q)) l2 (q_cluster_size q)"
      using re Inr by auto
    let ?q = "q\<lparr>q_fd := fd, q_l2_cache := be64_list buf (q_cluster_size q div 8), q_l2_cache_offset := l2,
      q_l2_cache_valid := True\<rparr>"
    have q': "q' = ?q" "r = Inr (be64_list buf (q_cluster_size q div 8) ! i)"
      using assms(2) False x Inr by (auto simp: qcow2_l2_entry_def Let_def)
    have s: "qcow2_same q ?q" using sd by (simp add: qcow2_same_def)
    have "qcow2_inv ?q"
      using assms(1) params_same [OF s] lookup_same [OF s] inflated_same [OF s] sd
      by (simp add: qcow2_inv_def qcow2_l2_coherent_def qcow2_compressed_coherent_def buf same_data_def)
    then show ?thesis using q' s False by (simp add: be64_list_nth buf)
  qed
qed

lemma qcow2_resolve_ok:
  assumes "qcow2_inv q" "qcow2_resolve_cluster q off = (q', r)"
  shows "qcow2_same q q' \<and> qcow2_inv q' \<and> (\<forall>c. r = Inr c \<longrightarrow> qcow2_lookup q off = Inr c)"
proof -
  have cs: "q_cluster_size q = 2 ^ q_cluster_bits q" using assms(1) by (simp add: qcow2_inv_def qcow2_params_def)
  let ?g = "off div q_cluster_size q" and ?n = "q_cluster_size q div 8"
  have g: "drop_bit (q_cluster_bits q) off = ?g" by (simp add: drop_bit_eq_div cs)
  let ?l2 = "q_l1_table q ! (?g div ?n)"
  show ?thesis
  proof (cases "q_virtual_size q \<le> off \<or> q_l1_size q \<le> ?g div ?n \<or> ?l2 = 0")
    case True
    then show ?thesis
      using assms by (auto simp: qcow2_resolve_cluster_def qcow2_lookup_def Let_def g split: if_splits)
  next
    case False
    obtain p x where p: "qcow2_l2_entry q ?l2 (?g mod ?n) = (p, x)" by fastforce
    note e = qcow2_l2_entry_ok [OF assms(1) p]
    have r: "(q', r) = and_then (p, x) (\<lambda>q entry. (q, qcow2_decode_entry q ?g entry))"
      using assms(2) False p by (simp add: qcow2_resolve_cluster_def Let_def g)
    show ?thesis
    proof (cases x)
      case (Inr en)
      have "qcow2_decode_entry p = qcow2_decode_entry q" using e decode_entry_same by blast
      then show ?thesis using r e Inr False by (simp add: qcow2_lookup_def Let_def)
    qed (use r e in simp)
  qed
qed

lemma decode_entry_cases:
  assumes "qcow2_decode_entry q g e = Inr r"
  obtains (compressed) l p where "r = \<lparr>rs_state = SCORPI_IMAGE_EXTENT_PRESENT, rs_compressed = True,
      rs_physical_offset = p, rs_compressed_length = l, rs_guest_cluster = g\<rparr>" "p + l \<le> q_file_size q"
    | (plain) st p where "r = \<lparr>rs_state = st, rs_compressed = False, rs_physical_offset = p,
      rs_compressed_length = 0, rs_guest_cluster = g\<rparr>"
proof (cases "e AND QCOW2_ENTRY_COMPRESSED = 0")
  case False
  define k where "k = 62 - (q_cluster_bits q - 8)"
  define p where "p = e AND (2 ^ k - 1)"
  define s where "s = drop_bit k e AND (2 ^ (62 - k) - 1)"
  define l where "l = (s + 1) * 512 - (p AND 511)"
  have "(if e AND QCOW2_ENTRY_COPIED \<noteq> 0 then Inl EINVAL
      else if s = UINT64_MAX \<or> UINT64_MAX div 512 < s + 1 then Inl EINVAL
      else if l = 0 then Inl EINVAL else if q_file_size q < p \<or> q_file_size q - p < l then Inl EINVAL
      else Inr \<lparr>rs_state = SCORPI_IMAGE_EXTENT_PRESENT, rs_compressed = True, rs_physical_offset = p,
        rs_compressed_length = l, rs_guest_cluster = g\<rparr>) = Inr r"
    using assms False
    by (simp only: qcow2_decode_entry_def Let_def k_def [symmetric] p_def [symmetric] s_def [symmetric]
        l_def [symmetric]) simp
  then show thesis using compressed [of p l] by (auto split: if_splits)
next
  case True
  define p where "p = e AND QCOW2_ENTRY_OFFSET_MASK"
  have "\<exists>st p. r = \<lparr>rs_state = st, rs_compressed = False, rs_physical_offset = p,
      rs_compressed_length = 0, rs_guest_cluster = g\<rparr>"
    using assms True by (simp add: qcow2_decode_entry_def p_def [symmetric] resolved_as_def Let_def split: if_splits) (metis+)
  then show thesis using plain by blast
qed

lemma decode_entry_guest: "qcow2_decode_entry q g e = Inr r \<Longrightarrow> rs_guest_cluster r = g"
  by (erule decode_entry_cases) simp_all

lemma decode_entry_compressed:
  "qcow2_decode_entry q g e = Inr r \<Longrightarrow> rs_compressed r \<Longrightarrow>
     rs_state r = SCORPI_IMAGE_EXTENT_PRESENT \<and> rs_physical_offset r + rs_compressed_length r \<le> q_file_size q"
  by (erule decode_entry_cases) simp_all

lemma lookup_facts:
  assumes "qcow2_lookup q x = Inr r"
  shows "rs_guest_cluster r = x div q_cluster_size q" "x < q_virtual_size q"
    "rs_compressed r \<Longrightarrow> rs_state r = SCORPI_IMAGE_EXTENT_PRESENT \<and>
      rs_physical_offset r + rs_compressed_length r \<le> q_file_size q"
  using assms
  by (auto simp: qcow2_lookup_def Let_def resolved_as_def split: if_splits
      dest: decode_entry_guest decode_entry_compressed)

lemma lookup_cluster:
  assumes "qcow2_lookup q x = Inr r" "y div q_cluster_size q = x div q_cluster_size q" "y < q_virtual_size q"
  shows "qcow2_lookup q y = Inr r"
  using assms by (simp add: qcow2_lookup_def Let_def split: if_splits)

lemma lookup_guest_inj:
  assumes "qcow2_lookup q x = Inr r" "qcow2_lookup q y = Inr r'" "rs_guest_cluster r' = rs_guest_cluster r"
  shows "r' = r"
  using lookup_cluster [OF assms(1), of y] lookup_facts(1,2) [OF assms(1)] lookup_facts(1,2) [OF assms(2)] assms(2,3)
  by simp

lemma compressed_locked_ok:
  assumes "qcow2_inv q" "qcow2_lookup q x = Inr r" "rs_compressed r"
    and "qcow2_read_compressed_cluster_locked q r = (q', res)" "res \<noteq> Inl EIO"
  shows "qcow2_same q q' \<and> qcow2_inv q' \<and> (res = Inr () \<longrightarrow> q_compressed_cache q' = qcow2_inflated q r)"
proof (cases "q_compressed_cache_valid q \<and> q_compressed_cache_guest_cluster q = rs_guest_cluster r \<or>
    q_compression_type q \<noteq> 0 \<or> UINT32_MAX < rs_compressed_length r")
  case True
  then show ?thesis
    using assms by (auto simp: qcow2_read_compressed_cluster_locked_def qcow2_inv_def qcow2_compressed_coherent_def
        split: if_splits)
next
  case False
  obtain fd b where b: "read_exact (q_fd q) (rs_physical_offset r) (rs_compressed_length r) = (fd, b)" by fastforce
  have "rs_physical_offset r + rs_compressed_length r \<le> UINT64_MAX"
    using lookup_facts(3) [OF assms(2,3)] assms(1) by (simp add: qcow2_inv_def qcow2_params_def)
  note re = read_exact_result [OF b this]
  show ?thesis
  proof (cases b)
    case (Inl e)
    then show ?thesis using assms False b re inv_fd [of q fd] by (auto simp: qcow2_read_compressed_cluster_locked_def)
  next
    case (Inr comp)
    obtain out ok where out: "q_inflate q comp (q_cluster_size q) = (out, ok)" by fastforce
    have sd: "same_data (q_fd q) fd" and comp: "qcow2_inflated q r = out"
      using re Inr out by (auto simp: qcow2_inflated_def)
    have ok: "ok" "length out = q_cluster_size q"
      using assms(4,5) False b Inr out
      by (auto simp: qcow2_read_compressed_cluster_locked_def Let_def split: if_splits)
    let ?q = "q\<lparr>q_fd := fd, q_compressed_cache := out, q_compressed_cache_guest_cluster := rs_guest_cluster r,
      q_compressed_cache_valid := True\<rparr>"
    have "overwrite 0 out (q_compressed_cache q) = out"
      using ok assms(1) by (simp add: overwrite_def qcow2_inv_def qcow2_compressed_coherent_def)
    then have q': "q' = ?q" "res = Inr ()"
      using assms(4) False b Inr out ok by (auto simp: qcow2_read_compressed_cluster_locked_def Let_def)
    have s: "qcow2_same q ?q" using sd by (simp add: qcow2_same_def)
    have "qcow2_compressed_coherent ?q"
      using ok comp lookup_guest_inj [OF assms(2)]
      by (simp add: qcow2_compressed_coherent_def lookup_same [OF s] inflated_same [OF s]) blast
    then have "qcow2_inv ?q"
      using assms(1) params_same [OF s] sd by (simp add: qcow2_inv_def qcow2_l2_coherent_def same_data_def)
    then show ?thesis using q' s comp by simp
  qed
qed

lemma div_mod_within: "m + i < (c::nat) \<Longrightarrow> (k * c + m + i) div c = k \<and> (k * c + m + i) mod c = m + i"
  by (simp add: add.assoc)

lemma cells_of_cluster:
  assumes "qcow2_lookup q off = Inr r" "off mod q_cluster_size q + n \<le> q_cluster_size q"
    "off + n \<le> q_virtual_size q" "i < n"
  shows "qcow2_lookup q (off + i) = Inr r"
    "qcow2_cell q (off + i) = resolved_cell q r (off mod q_cluster_size q + i)"
proof -
  let ?cs = "q_cluster_size q"
  have lt: "off mod ?cs + i < ?cs" using assms(2,4) by simp
  have d: "(off + i) div ?cs = off div ?cs" "(off + i) mod ?cs = off mod ?cs + i"
    using div_mod_within [OF lt, of "off div ?cs"] by simp_all
  show l: "qcow2_lookup q (off + i) = Inr r" using lookup_cluster [OF assms(1) d(1)] assms(3,4) by simp
  then show "qcow2_cell q (off + i) = resolved_cell q r (off mod ?cs + i)" by (simp add: qcow2_cell_def d(2))
qed

lemma qcow2_read_chunk_ok:
  assumes "qcow2_inv q" "qcow2_lookup q off = Inr r" "off mod q_cluster_size q + n \<le> q_cluster_size q"
    "off + n \<le> q_virtual_size q" "qcow2_read_chunk q r (off mod q_cluster_size q) n = (q', res)" "res \<noteq> Inl EIO"
  shows "qcow2_same q q' \<and> qcow2_inv q' \<and>
    (\<forall>bs. res = Inr bs \<longrightarrow> bs = map (\<lambda>i. cell_byte (qcow2_cell q (off + i))) [0..<n])"
proof -
  let ?co = "off mod q_cluster_size q"
  have cells: "map (\<lambda>i. cell_byte (qcow2_cell q (off + i))) [0..<n] = map (\<lambda>i. cell_byte (resolved_cell q r (?co + i))) [0..<n]"
    using cells_of_cluster(2) [OF assms(2-4)] by simp
  consider (z) "rs_state r \<noteq> SCORPI_IMAGE_EXTENT_PRESENT"
    | (c) "rs_state r = SCORPI_IMAGE_EXTENT_PRESENT" "rs_compressed r"
    | (p) "rs_state r = SCORPI_IMAGE_EXTENT_PRESENT" "\<not> rs_compressed r" by blast
  then show ?thesis
  proof cases
    case z
    then have "q' = q" "res = Inr (replicate n 0)"
      using assms(5) by (auto simp: qcow2_read_chunk_def split: scorpi_image_extent_state.splits)
    moreover have "cell_byte (resolved_cell q r j) = 0" for j
      using z by (simp add: resolved_cell_def split: scorpi_image_extent_state.splits)
    ultimately show ?thesis unfolding cells using assms(1) by (simp add: map_replicate_const)
  next
    case c
    obtain p x where x: "qcow2_read_compressed_cluster_locked q r = (p, x)" by fastforce
    have r: "(q', res) = and_then (p, x) (\<lambda>q _. (q, Inr (buf_slice ?co n (q_compressed_cache q))))"
      using assms(5) c x by (simp add: qcow2_read_chunk_def qcow2_read_compressed_cluster_def)
    then have "x \<noteq> Inl EIO" using assms(6) by auto
    note l = compressed_locked_ok [OF assms(1,2) c(2) x this]
    show ?thesis
    proof (cases x)
      case (Inr u)
      have len: "length (q_compressed_cache p) = q_cluster_size q"
        using l same_fields(4) [of q p] by (simp add: qcow2_inv_def qcow2_compressed_coherent_def)
      have "buf_slice ?co n (q_compressed_cache p) = map (\<lambda>i. cell_byte (resolved_cell q r (?co + i))) [0..<n]"
        using len assms(3) l Inr c by (intro nth_equalityI) (auto simp: nth_slice resolved_cell_def)
      then show ?thesis unfolding cells using r Inr l by simp
    qed (use r l in simp)
  next
    case p
    let ?o = "rs_physical_offset r + ?co"
    show ?thesis
    proof (cases "UINT64_MAX - ?co < rs_physical_offset r \<or> q_file_size q < ?o \<or> q_file_size q - ?o < n")
      case True
      then show ?thesis using assms(1,5) p by (auto simp: qcow2_read_chunk_def)
    next
      case False
      obtain fd b where b: "read_exact (q_fd q) ?o n = (fd, b)" by fastforce
      have "?o + n \<le> UINT64_MAX" using False assms(1) by (auto simp: qcow2_inv_def qcow2_params_def)
      note re = read_exact_result [OF b this]
      have q': "q' = q\<lparr>q_fd := fd\<rparr>" "res = b" using assms(5) p False b by (auto simp: qcow2_read_chunk_def)
      then show ?thesis
        unfolding cells using re inv_fd [OF assms(1), of fd] p by (auto simp: resolved_cell_def get_bytes_def add.assoc)
    qed
  qed
qed

lemma qcow2_read_loop_ok:
  "qcow2_inv q \<Longrightarrow> off + len \<le> q_virtual_size q \<Longrightarrow> qcow2_read_loop q off len = (q', res) \<Longrightarrow> res \<noteq> Inl EIO \<Longrightarrow>
     qcow2_same q q' \<and> qcow2_inv q' \<and>
     (\<forall>bs. res = Inr bs \<longrightarrow> bs = map (\<lambda>i. cell_byte (qcow2_cell q (off + i))) [0..<len] \<and>
        (\<forall>i < len. \<exists>r. qcow2_lookup q (off + i) = Inr r))"
proof (induction len arbitrary: q off q' res rule: less_induct)
  case (less len)
  show ?case
  proof (cases "len = 0")
    case True
    then show ?thesis using less.prems by (auto simp: qcow2_read_loop.simps)
  next
    case False
    obtain q1 r1 where 1: "qcow2_resolve_cluster q off = (q1, r1)" by fastforce
    note s1 = qcow2_resolve_ok [OF less.prems(1) 1]
    show ?thesis
    proof (cases r1)
      case (Inl e)
      then show ?thesis using less.prems(3) 1 s1 False by (subst (asm) qcow2_read_loop.simps) auto
    next
      case (Inr r)
      let ?cs = "q_cluster_size q1"
      define n where "n = (if len < ?cs - off mod ?cs then len else ?cs - off mod ?cs)"
      have p1: "qcow2_params q1" using s1 by (simp add: qcow2_inv_def)
      then have cs: "off AND (?cs - Suc 0) = off mod ?cs" "0 < ?cs"
        using and_pow2_minus_1 [of off "q_cluster_bits q1"] by (auto simp: qcow2_params_def)
      then have "off mod ?cs < ?cs" by simp
      then have n: "0 < n" "n \<le> len" "off mod ?cs + n \<le> ?cs" using False by (auto simp: n_def)
      obtain q2 r2 where 2: "qcow2_read_chunk q1 r (off mod ?cs) n = (q2, r2)" by fastforce
      obtain q3 r3 where 3: "qcow2_read_loop q2 (off + n) (len - n) = (q3, r3)" by fastforce
      have eq: "(q', res) = and_then (q2, r2) (\<lambda>q bs. and_then (qcow2_read_loop q (off + n) (len - n)) (\<lambda>q rest. (q, Inr (bs @ rest))))"
        using less.prems(3) False 1 Inr n(1) 2
        by (subst (asm) qcow2_read_loop.simps) (simp add: Let_def cs(1) n_def [symmetric] cong: if_cong)
      have l: "qcow2_lookup q1 off = Inr r" "q_virtual_size q1 = q_virtual_size q" "qcow2_cell q1 = qcow2_cell q"
        using s1 Inr lookup_same [of q q1] same_fields(5) [of q q1] cell_same [of q q1] by auto
      have "r2 \<noteq> Inl EIO" using eq less.prems(4) by auto
      then have s2: "qcow2_same q1 q2 \<and> qcow2_inv q2 \<and>
          (\<forall>bs. r2 = Inr bs \<longrightarrow> bs = map (\<lambda>i. cell_byte (qcow2_cell q (off + i))) [0..<n])"
        using qcow2_read_chunk_ok [OF _ l(1), of n q2 r2] s1 n 2 l(2,3) less.prems(2) by simp
      then have s12: "qcow2_same q q2" using s1 qcow2_same_trans by blast
      show ?thesis
      proof (cases r2)
        case (Inr bs)
        have "r3 \<noteq> Inl EIO" using eq Inr 3 less.prems(4) by auto
        then have s3: "qcow2_same q2 q3 \<and> qcow2_inv q3 \<and>
            (\<forall>bs. r3 = Inr bs \<longrightarrow> bs = map (\<lambda>i. cell_byte (qcow2_cell q (off + n + i))) [0..<len - n] \<and>
              (\<forall>i < len - n. \<exists>r. qcow2_lookup q (off + n + i) = Inr r))"
          using less.IH [of "len - n" q2 "off + n" q3 r3] n s2 3 less.prems(2) cell_same [OF s12]
            same_fields(5) [OF s12] lookup_same [OF s12] False by simp
        have lk: "\<exists>r. qcow2_lookup q (off + i) = Inr r"
          if "\<forall>i < len - n. \<exists>r. qcow2_lookup q (off + n + i) = Inr r" "i < len" for i
        proof (cases "i < n")
          case True
          then show ?thesis using cells_of_cluster(1) [OF l(1) n(3), of i] l(2) n(2) less.prems(2) lookup_same [of q q1] s1 by simp
        next
          case False
          then show ?thesis using that(1) [rule_format, of "i - n"] that(2) by simp
        qed
        have "map (\<lambda>i. cell_byte (qcow2_cell q (off + i))) [0..<n] @
            map (\<lambda>i. cell_byte (qcow2_cell q (off + n + i))) [0..<len - n] =
            map (\<lambda>i. cell_byte (qcow2_cell q (off + i))) [0..<len]"
          using n by (intro nth_equalityI) (auto simp: nth_append)
        then show ?thesis using eq Inr 3 s2 s3 qcow2_same_trans [OF s12] lk by (cases r3) auto
      qed (use eq s2 s12 in simp)
    qed
  qed
qed

text \<open>
  The end of the cluster as \<open>qcow2_map\<close> computes it.  In the last cluster of the 64-bit
  range it wraps to zero and the difference wraps back.
\<close>

lemma cluster_remaining:
  assumes "off < vs" "vs \<le> UINT64_MAX" "k \<le> 21"
  defines "E \<equiv> add64 (off AND (UINT64_MAX - (2 ^ k - 1))) (2 ^ k)"
  shows "min (vs - off) (sub64 (if vs < E then vs else E) off) = min (vs - off) (2 ^ k - off mod 2 ^ k)"
proof -
  let ?B = "off div 2 ^ k * 2 ^ k"
  have pk: "(1::nat) \<le> 2 ^ k" by simp
  have "UINT64_MAX - (2 ^ k - 1) = 2 ^ 64 - (2 ^ k :: nat)" using pk by (simp add: le_diff_conv)
  then have B: "off AND (UINT64_MAX - (2 ^ k - 1)) = ?B"
    using and_high_bits [of off k] assms(1-3) by simp
  have off: "off = ?B + off mod 2 ^ k" "off mod 2 ^ k < 2 ^ k"
    by (simp_all only: div_mult_mod_eq) simp
  show ?thesis
  proof (cases "?B + 2 ^ k \<le> UINT64_MAX")
    case True
    then have E: "E = ?B + 2 ^ k" unfolding E_def B by (rule add64_exact)
    then have "off < E" using off by linarith
    then have "sub64 (if vs < E then vs else E) off = (if vs < E then vs else E) - off"
      using assms(1) by (intro sub64_exact) simp
    moreover have "E - off = 2 ^ k - off mod 2 ^ k" using E off by linarith
    ultimately show ?thesis by (auto simp: min_def)
  next
    case False
    have "?B < 2 ^ (64 - k) * 2 ^ k" using assms(1-3) off by (simp flip: power_add)
    then have "off div 2 ^ k + 1 \<le> 2 ^ (64 - k)" by simp
    then have "(off div 2 ^ k + 1) * 2 ^ k \<le> 2 ^ (64 - k) * 2 ^ k" by (rule mult_le_mono1)
    then have "?B + 2 ^ k \<le> 2 ^ 64" using assms(3) by (simp add: algebra_simps flip: power_add)
    then have B64: "?B + 2 ^ k = 18446744073709551616" using False by simp
    then have E: "E = 0" unfolding E_def B add64_def by simp
    have "vs - off \<le> 2 ^ k - off mod 2 ^ k" using B64 off assms(2) by linarith
    moreover have "vs - off \<le> sub64 0 off"
    proof (cases "off = 0")
      case True
      have "(2::nat) ^ k \<le> 2 ^ 21" using assms(3) by (intro power_increasing) auto
      then show ?thesis using True B64 by simp
    next
      case False
      then show ?thesis using sub64_wraps [of 0 off] assms(1,2) by simp
    qed
    ultimately show ?thesis using E by simp
  qed
qed

lemma qcow2_map_ok:
  assumes "qcow2_inv q" "off < q_virtual_size q" "0 < len" "qcow2_map q off len = (q', Inr e)"
  shows "qcow2_same q q' \<and> qcow2_inv q' \<and> extent_describes (qcow2_cell q) (q_virtual_size q) off len e"
proof -
  let ?vs = "q_virtual_size q" and ?cs = "q_cluster_size q"
  obtain q1 r1 where 1: "qcow2_resolve_cluster q off = (q1, r1)" by fastforce
  note s = qcow2_resolve_ok [OF assms(1) 1]
  define E where "E = add64 (off AND (UINT64_MAX - (?cs - 1))) ?cs"
  define L where "L = (if ?vs - off < len then ?vs - off else len)"
  define d where "d = sub64 (if ?vs < E then ?vs else E) off"
  have sz: "q_cluster_size q1 = ?cs" "q_virtual_size q1 = ?vs" using s same_fields(4,5) [of q q1] by auto
  have "(q', Inr e) = and_then (q1, r1) (\<lambda>q1 resolved. (q1, Inr \<lparr>ext_offset = off,
      ext_length = (if sub64 (if q_virtual_size q1 < add64 (off AND (UINT64_MAX - (q_cluster_size q1 - 1))) (q_cluster_size q1)
          then q_virtual_size q1 else add64 (off AND (UINT64_MAX - (q_cluster_size q1 - 1))) (q_cluster_size q1)) off < L
        then sub64 (if q_virtual_size q1 < add64 (off AND (UINT64_MAX - (q_cluster_size q1 - 1))) (q_cluster_size q1)
          then q_virtual_size q1 else add64 (off AND (UINT64_MAX - (q_cluster_size q1 - 1))) (q_cluster_size q1)) off
        else L), ext_state = rs_state resolved\<rparr>))"
    using assms(2-4) 1 unfolding qcow2_map_def Let_def L_def by simp
  then obtain r where r: "r1 = Inr r" and q': "q' = q1"
    and e: "e = \<lparr>ext_offset = off, ext_length = (if d < L then d else L), ext_state = rs_state r\<rparr>"
    by (cases r1) (auto simp only: and_then_simps sz E_def [symmetric] d_def [symmetric] prod.inject sum.inject sum.distinct)
  have p: "qcow2_params q" using assms(1) by (simp add: qcow2_inv_def)
  then have k: "?cs = 2 ^ q_cluster_bits q" "?vs \<le> UINT64_MAX" "q_cluster_bits q \<le> 21"
    by (simp_all add: qcow2_params_def)
  have "min (?vs - off) d = min (?vs - off) (?cs - off mod ?cs)"
    unfolding d_def E_def k(1) by (rule cluster_remaining [OF assms(2) k(2,3)])
  then have n: "ext_length e = min len (min (?vs - off) (?cs - off mod ?cs))"
    by (auto simp: e L_def min_def split: if_splits)
  have "off mod ?cs < ?cs" using p by (simp add: qcow2_params_def)
  moreover have ml: "ext_length e \<le> len" "ext_length e \<le> ?vs - off" "ext_length e \<le> ?cs - off mod ?cs"
    by (simp_all add: n)
  moreover have "0 < ext_length e" unfolding n using assms(2,3) \<open>off mod ?cs < ?cs\<close> by simp
  ultimately have n': "0 < ext_length e" "ext_length e \<le> len" "off + ext_length e \<le> ?vs"
    "off mod ?cs + ext_length e \<le> ?cs"
    using assms(2,3) ml by linarith+
  have l: "qcow2_lookup q off = Inr r" using s r by simp
  have "qcow2_cell q x = resolved_cell q r (off mod ?cs + (x - off))" if "off \<le> x" "x < off + ext_length e" for x
    using cells_of_cluster(2) [OF l n'(4,3), of "x - off"] that by simp
  then have "extent_describes (qcow2_cell q) ?vs off len e"
    using n' by (auto simp: extent_describes_def e resolved_cell_def split: scorpi_image_extent_state.splits)
  then show ?thesis using s q' by simp
qed

lemma qcow2_read_ok:
  assumes "qcow2_inv q" "qcow2_read q off len = (q', res)" "res \<noteq> Inl EIO"
  shows "qcow2_same q q' \<and> qcow2_inv q' \<and>
    (\<forall>bs. res = Inr bs \<longrightarrow> bs = map (\<lambda>i. cell_byte (qcow2_cell q (off + i))) [0..<len] \<and>
       (\<forall>i < len. \<exists>r. qcow2_lookup q (off + i) = Inr r))"
proof (cases "len = 0 \<or> q_virtual_size q < off \<or> q_virtual_size q - off < len")
  case True
  then show ?thesis using assms by (auto simp: qcow2_read_def split: if_splits)
next
  case False
  then show ?thesis using assms qcow2_read_loop_ok [OF assms(1), of off len q' res] by (auto simp: qcow2_read_def)
qed

interpretation qcow2: image_backend qcow2_inv q_virtual_size qcow2_cell qcow2_map qcow2_read
proof (unfold_locales, goal_cases)
  case (1 s)
  then show ?case by (simp add: qcow2_inv_def qcow2_params_def)
next
  case (2 s len off s' e)
  then show ?case using qcow2_map_ok [of s off len s' e] cell_same [of s s'] same_fields(5) [of s s'] by auto
next
  case (3 s off len s' bs)
  then show ?case using qcow2_read_ok [of s off len s' "Inr bs"] cell_same [of s s'] same_fields(5) [of s s'] by auto
qed

section \<open>Opening establishes the invariant\<close>

text \<open>A big-endian number of the file.\<close>

fun be_at :: "(nat \<Rightarrow> byte) \<Rightarrow> nat \<Rightarrow> nat \<Rightarrow> nat" where
  "be_at m a 0 = 0"
| "be_at m a (Suc n) = be_at m a n * 256 + unat (m (a + n))"

lemma dec_get_bytes:
  "i + 4 \<le> n \<Longrightarrow> be32dec (get_bytes m a n) i = unat (m (a + i)) * 16777216 + unat (m (a + (i + 1))) * 65536 +
     unat (m (a + (i + 2))) * 256 + unat (m (a + (i + 3)))"
  "i + 8 \<le> n \<Longrightarrow> be64dec (get_bytes m a n) i =
     be32dec (get_bytes m a n) i * 4294967296 + be32dec (get_bytes m a n) (i + 4)"
  by (simp_all add: be32dec_def be64dec_def)

lemma dec_be_at:
  "i + 4 \<le> n \<Longrightarrow> be32dec (get_bytes m a n) i = be_at m (a + i) 4"
  "i + 8 \<le> n \<Longrightarrow> be64dec (get_bytes m a n) i = be_at m (a + i) 8"
proof -
  have 4: "be_at m a 4 = unat (m a) * 16777216 + unat (m (a + 1)) * 65536 + unat (m (a + 2)) * 256 + unat (m (a + 3))" for a
  proof -
    have "4 = Suc (Suc (Suc (Suc 0)))" by simp
    then have "be_at m a 4 = be_at m a (Suc (Suc (Suc (Suc 0))))" by (rule arg_cong)
    then show ?thesis by (simp add: numeral_2_eq_2 numeral_3_eq_3)
  qed
  have add: "be_at m a (n + k) = be_at m a n * 256 ^ k + be_at m (a + n) k" for a n k
    by (induction k) (simp_all add: algebra_simps)
  have 8: "be_at m a 8 = be_at m a 4 * 4294967296 + be_at m (a + 4) 4" for a using add [of a 4 4] by simp
  show "i + 4 \<le> n \<Longrightarrow> be32dec (get_bytes m a n) i = be_at m (a + i) 4"
    by (simp add: dec_get_bytes 4 add.assoc)
  then show "i + 8 \<le> n \<Longrightarrow> be64dec (get_bytes m a n) i = be_at m (a + i) 8"
    by (simp add: dec_get_bytes 8 4 ac_simps)
qed

lemma be_at_bound: "be_at m a n < 256 ^ n"
proof (induction n)
  case (Suc n)
  have "unat (m (a + n)) < 256" by (rule unat_byte_less)
  then show ?case using Suc by simp
qed simp

lemma decode_header_bounds:
  assumes "qcow2_decode_header fd = (fd', Inr h)"
  shows "same_data fd fd' \<and> qh_size h \<le> UINT64_MAX \<and> qh_version h = be_at (h_bytes fd) 4 4 \<and>
    qh_cluster_bits h = be_at (h_bytes fd) 20 4 \<and> qh_size h = be_at (h_bytes fd) 24 8 \<and>
    qh_l1_size h = be_at (h_bytes fd) 36 4 \<and> qh_l1_table_offset h = be_at (h_bytes fd) 40 8 \<and>
    (qh_version h = 2 \<or> qh_version h = 3)"
proof -
  have re: "read_exact f a n = (f', Inr b) \<Longrightarrow> a + n \<le> 105 \<Longrightarrow> same_data f f'" for f f' a n b
    using read_exact_result [of f a n f' "Inr b"] by simp
  obtain f b where b: "read_exact fd 0 72 = (f, Inr b)"
    using assms by (auto simp: qcow2_decode_header_def and_then_ok_iff)
  then have "b = get_bytes (h_bytes fd) 0 72" using read_exact_result [OF b] by simp
  then have d: "be32dec b i = be_at (h_bytes fd) i 4" "be64dec b i = be_at (h_bytes fd) i 8" if "i + 8 \<le> 72" for i
    using that by (simp_all add: dec_be_at)
  show ?thesis
    using assms b be_at_bound [of "h_bytes fd" 24 8] by (auto simp: qcow2_decode_header_def and_then_ok_iff Let_def d split: if_splits
        intro: same_data_trans dest!: re)
qed

lemma l1_entries_ok:
  "qcow2_l1_entries q es = Inr t \<Longrightarrow> length t = length es \<and>
     (\<forall>i < length es. t ! i = es ! i AND QCOW2_ENTRY_OFFSET_MASK \<and> t ! i \<le> q_file_size q)"
proof (induction es arbitrary: t)
  case (Cons e es)
  then obtain os where os: "qcow2_l1_entries q es = Inr os" "t = (e AND QCOW2_ENTRY_OFFSET_MASK) # os"
      "e AND QCOW2_ENTRY_OFFSET_MASK \<le> q_file_size q"
    by (auto simp: Let_def split: if_splits sum.splits)
  with Cons.IH [OF os(1)] show ?case by (auto simp: nth_Cons split: nat.splits)
qed simp

lemma validate_header_ok:
  assumes "qcow2_validate_header h = Inr u"
  shows "9 \<le> qh_cluster_bits h" "qh_cluster_bits h \<le> 21" "qh_l1_table_offset h + qh_l1_size h * 8 \<le> UINT64_MAX"
  using assms by (auto simp: qcow2_validate_header_def Let_def split: if_splits)

lemma read_l1_table_ok:
  assumes "qcow2_read_l1_table q h = (q', Inr u)" "qh_l1_table_offset h + qh_l1_size h * 8 \<le> UINT64_MAX"
  shows "\<exists>fd t. q' = q\<lparr>q_fd := fd, q_l1_table := t\<rparr> \<and> same_data (q_fd q) fd \<and>
    (\<forall>i < qh_l1_size h. t ! i = be_at (h_bytes (q_fd q)) (qh_l1_table_offset h + 8 * i) 8 AND QCOW2_ENTRY_OFFSET_MASK \<and>
       be_at (h_bytes (q_fd q)) (qh_l1_table_offset h + 8 * i) 8 AND QCOW2_ENTRY_OFFSET_MASK \<le> q_file_size q)"
proof -
  obtain fd buf t where r: "read_exact (q_fd q) (qh_l1_table_offset h) (qh_l1_size h * 8) = (fd, Inr buf)"
    and t: "qcow2_l1_entries q (be64_list buf (qh_l1_size h)) = Inr t" and q': "q' = q\<lparr>q_fd := fd, q_l1_table := t\<rparr>"
    using assms(1) by (auto simp: qcow2_read_l1_table_def split: prod.splits sum.splits)
  have b: "buf = get_bytes (h_bytes (q_fd q)) (qh_l1_table_offset h) (qh_l1_size h * 8)" "same_data (q_fd q) fd"
    using read_exact_result [OF r assms(2)] by simp_all
  have "be64_list buf (qh_l1_size h) ! i = be_at (h_bytes (q_fd q)) (qh_l1_table_offset h + 8 * i) 8" if "i < qh_l1_size h" for i
    using that by (simp add: be64_list_nth b(1) dec_be_at mult.commute)
  then have "\<forall>i < qh_l1_size h. t ! i = be_at (h_bytes (q_fd q)) (qh_l1_table_offset h + 8 * i) 8 AND QCOW2_ENTRY_OFFSET_MASK \<and>
       be_at (h_bytes (q_fd q)) (qh_l1_table_offset h + 8 * i) 8 AND QCOW2_ENTRY_OFFSET_MASK \<le> q_file_size q"
    using l1_entries_ok [OF t] by (simp add: be64_list_def) metis
  with q' b(2) show ?thesis by blast
qed

lemma read_base_uri_ok:
  assumes "qcow2_read_base_uri fd h = (fd', Inr uri)"
  shows "same_data fd fd'"
proof (cases "qh_backing_file_offset h = 0")
  case False
  with assms obtain b where "read_exact fd (qh_backing_file_offset h) (qh_backing_file_size h) = (fd', Inr b)"
    "qh_backing_file_offset h + qh_backing_file_size h \<le> UINT64_MAX"
    by (auto simp: qcow2_read_base_uri_def and_then_ok_iff split: if_splits)
  then show ?thesis using read_exact_result by blast
qed (use assms in \<open>auto simp: qcow2_read_base_uri_def split: if_splits\<close>)

text \<open>The fields of an opened image are those of the file.\<close>

definition qcow2_loaded :: "inflate \<Rightarrow> hfile \<Rightarrow> qcow2_image \<Rightarrow> bool" where
  "qcow2_loaded inflate fd q \<longleftrightarrow> q_inflate q = inflate \<and> q_file_size q = h_size fd \<and> q_version q = be_at (h_bytes fd) 4 4 \<and>
     q_cluster_bits q = be_at (h_bytes fd) 20 4 \<and> q_virtual_size q = be_at (h_bytes fd) 24 8 \<and>
     (q_version q = 2 \<or> q_version q = 3) \<and>
     (\<forall>i < q_l1_size q.
        be_at (h_bytes fd) (be_at (h_bytes fd) 40 8 + 8 * i) 8 AND QCOW2_ENTRY_OFFSET_MASK \<le> h_size fd \<and>
        q_l1_table q ! i = be_at (h_bytes fd) (be_at (h_bytes fd) 40 8 + 8 * i) 8 AND QCOW2_ENTRY_OFFSET_MASK)"

lemma qcow2_open_result:
  assumes "qcow2_open inflate g path fd ro = (fd', Inr q)" "h_size fd \<le> INT64_MAX"
  shows "qcow2_inv q \<and> same_data fd (q_fd q) \<and> ro \<and> qcow2_loaded inflate fd q"
proof -
  have ro: "ro" using assms(1) by (auto simp: qcow2_open_def split: if_splits)
  obtain fd1 n fd2 h where 1: "fstat_size fd = (fd1, Inr n)" and 2: "qcow2_decode_header fd1 = (fd2, Inr h)"
    and r: "(case qcow2_validate_header h of Inl e \<Rightarrow> (fd2, Inl e)
      | Inr _ \<Rightarrow> (case qcow2_read_l1_table (qcow2_fresh inflate g fd2 n h) h of
          (q, Inl e) \<Rightarrow> (q_fd q, Inl e)
        | (q, Inr _) \<Rightarrow> and_then (qcow2_read_base_uri (q_fd q) h) (\<lambda>fd uri.
            (fd, Inr (q\<lparr>q_fd := fd, q_base_uri := uri\<rparr>))))) = (fd', Inr q)"
    using assms(1) ro by (auto simp: qcow2_open_def and_then_ok_iff)
  obtain u where v: "qcow2_validate_header h = Inr u" using r by (cases "qcow2_validate_header h") auto
  obtain q3 x where x: "qcow2_read_l1_table (qcow2_fresh inflate g fd2 n h) h = (q3, x)" by fastforce
  have 3: "qcow2_read_l1_table (qcow2_fresh inflate g fd2 n h) h = (q3, Inr ())" using r v x by (cases x) auto
  obtain fd4 uri where 4: "qcow2_read_base_uri (q_fd q3) h = (fd4, Inr uri)"
    and q: "q = q3\<lparr>q_fd := fd4, q_base_uri := uri\<rparr>"
    using r v 3 by (auto simp: and_then_ok_iff)
  obtain fd3 t where q3: "q3 = (qcow2_fresh inflate g fd2 n h)\<lparr>q_fd := fd3, q_l1_table := t\<rparr>" "same_data fd2 fd3"
    and t: "\<forall>i < qh_l1_size h. t ! i = be_at (h_bytes fd2) (qh_l1_table_offset h + 8 * i) 8 AND QCOW2_ENTRY_OFFSET_MASK \<and>
       be_at (h_bytes fd2) (qh_l1_table_offset h + 8 * i) 8 AND QCOW2_ENTRY_OFFSET_MASK \<le> n"
    using read_l1_table_ok [OF 3 validate_header_ok(3) [OF v]] by (auto simp: qcow2_fresh_def)
  have n: "same_data fd fd1" "n = h_size fd" using fstat_frame [OF 1] by auto
  note h = decode_header_bounds [OF 2]
  have "same_data fd (q_fd q)"
    using n(1) h q3 read_base_uri_ok [OF 4] q by (auto intro: same_data_trans)
  moreover have "qcow2_inv q"
    using validate_header_ok(1,2) [OF v] n(2) h assms(2)
    by (simp add: q q3 qcow2_fresh_def qcow2_inv_def qcow2_params_def qcow2_l2_coherent_def qcow2_compressed_coherent_def)
  moreover have "h_bytes fd1 = h_bytes fd" "h_bytes fd2 = h_bytes fd" using n(1) h by (simp_all add: same_data_def)
  then have "qcow2_loaded inflate fd q"
    using t h n(2) by (auto simp: qcow2_loaded_def q q3 qcow2_fresh_def)
  ultimately show ?thesis using ro by simp
qed

section \<open>The content of the file, from the format\<close>

text \<open>
  The guest content that a QCOW2 file stands for, written from the description of the format and
  not from the code.  The header gives the version, the cluster bits and the first-level table;
  an entry of either table holds a host offset in bits 9 to 55; bit 62 of a second-level entry
  marks a compressed cluster, whose entry holds an offset in its low \<open>70 - cluster_bits\<close> bits and
  above them the number of additional sectors; bit 0 marks a cluster of zeros from version 3 on.
  An offset of 0 is an unallocated cluster, the content of which is that of the backing file.
\<close>

definition format_offset :: "nat \<Rightarrow> nat" where
  "format_offset e = e div 2 ^ 9 mod 2 ^ 47 * 2 ^ 9"

definition format_compressed :: "nat \<Rightarrow> nat \<Rightarrow> nat \<times> nat" where
  "format_compressed bits e =
     (let k = 70 - bits; host = e mod 2 ^ k in (host, (e div 2 ^ k mod 2 ^ (bits - 8) + 1) * 512 - host mod 512))"

definition format_cell :: "inflate \<Rightarrow> (nat \<Rightarrow> byte) \<Rightarrow> nat \<Rightarrow> nat \<Rightarrow> byte option" where
  "format_cell inflate m e i =
     (let bits = be_at m 20 4 in
      if odd (e div 2 ^ 62) then
        let (host, n) = format_compressed bits e in
        Some (fst (inflate (map (\<lambda>j. m (host + j)) [0..<n]) (2 ^ bits)) ! i)
      else if 3 \<le> be_at m 4 4 \<and> odd e then Some 0
      else if format_offset e = 0 then None
      else Some (m (format_offset e + i)))"

definition format_content :: "inflate \<Rightarrow> (nat \<Rightarrow> byte) \<Rightarrow> nat \<Rightarrow> byte option" where
  "format_content inflate m x =
     (let cs = 2 ^ be_at m 20 4; per_table = cs div 8; g = x div cs;
          l2 = format_offset (be_at m (be_at m 40 8 + 8 * (g div per_table)) 8) in
      if l2 = 0 then None
      else format_cell inflate m (be_at m (l2 + 8 * (g mod per_table)) 8) (x mod cs))"

lemma offset_mask_eq: "e AND QCOW2_ENTRY_OFFSET_MASK = e div 512 mod 2 ^ 51 * (512::nat)"
proof -
  have "QCOW2_ENTRY_OFFSET_MASK = push_bit 9 (mask 51)" by (simp add: mask_eq_exp_minus_1 push_bit_eq_mult)
  moreover have "e AND push_bit 9 (mask 51) = push_bit 9 (take_bit 51 (drop_bit 9 e))"
    by (rule bit_eqI) (auto simp: bit_simps)
  ultimately show ?thesis by (simp add: push_bit_eq_mult take_bit_eq_mod drop_bit_eq_div)
qed

lemma offset_in_file:
  assumes "e AND QCOW2_ENTRY_OFFSET_MASK \<le> n" "n < 2 ^ 56"
  shows "e AND QCOW2_ENTRY_OFFSET_MASK = format_offset e"
proof -
  have "e div 512 mod 2 ^ 51 < 2 ^ 47" using assms by (simp add: offset_mask_eq)
  moreover have "e div 512 mod 2 ^ 51 mod 2 ^ 47 = e div 512 mod 2 ^ 47" by (rule mod_mod_cancel) simp
  ultimately show ?thesis unfolding offset_mask_eq format_offset_def by simp
qed

lemma and_bit: "(e AND 2 ^ k = 0) = even (e div 2 ^ k :: nat)"
  using and_exp_eq_0_iff_not_bit [of e k] by (simp add: bit_iff_odd)

lemma decode_entry_format:
  assumes "qcow2_decode_entry q g e = Inr r" "qcow2_params q" "q_file_size q < 2 ^ 56" "qcow2_loaded inflate fd q"
    "same_data fd (q_fd q)"
  shows "resolved_cell q r i = format_cell inflate (h_bytes fd) e i"
proof -
  note ld = assms(4) [unfolded qcow2_loaded_def]
  have m: "h_bytes (q_fd q) = h_bytes fd" using assms(5) by (simp add: same_data_def)
  have c: "(e AND QCOW2_ENTRY_COMPRESSED = 0) = even (e div 2 ^ 62)" "(e AND QCOW2_ENTRY_ZERO = 0) = even e"
    using and_bit [of e 62] and_bit [of e 0] by simp_all
  show ?thesis
  proof (cases "even (e div 2 ^ 62)")
    case False
    define k where "k = 62 - (q_cluster_bits q - 8)"
    define p where "p = e AND (2 ^ k - 1)"
    define n where "n = drop_bit k e AND (2 ^ (62 - k) - 1)"
    define l where "l = (n + 1) * 512 - (p AND 511)"
    have d: "(if e AND QCOW2_ENTRY_COPIED \<noteq> 0 then Inl EINVAL
        else if n = UINT64_MAX \<or> UINT64_MAX div 512 < n + 1 then Inl EINVAL
        else if l = 0 then Inl EINVAL else if q_file_size q < p \<or> q_file_size q - p < l then Inl EINVAL
        else Inr \<lparr>rs_state = SCORPI_IMAGE_EXTENT_PRESENT, rs_compressed = True, rs_physical_offset = p,
          rs_compressed_length = l, rs_guest_cluster = g\<rparr>) = Inr r"
      using assms(1) False c(1)
      by (simp only: qcow2_decode_entry_def Let_def k_def [symmetric] p_def [symmetric] n_def [symmetric]
          l_def [symmetric]) simp
    have k: "k = 70 - q_cluster_bits q" "62 - k = q_cluster_bits q - 8" using assms(2) by (auto simp: qcow2_params_def k_def)
    have "p AND 511 = p mod 512" using and_pow2_minus_1 [of p 9] by simp
    then have "format_compressed (q_cluster_bits q) e = (p, l)"
      unfolding format_compressed_def Let_def k(1) [symmetric] l_def n_def k(2) drop_bit_eq_div
      by (simp only: p_def and_pow2_minus_1)
    moreover have "r = \<lparr>rs_state = SCORPI_IMAGE_EXTENT_PRESENT, rs_compressed = True, rs_physical_offset = p,
        rs_compressed_length = l, rs_guest_cluster = g\<rparr>" using d by (simp split: if_splits)
    ultimately show ?thesis
      using False ld assms(2) by (simp add: resolved_cell_def format_cell_def Let_def qcow2_inflated_def m get_bytes_def
          qcow2_params_def)
  next
    case True
    define p where "p = e AND QCOW2_ENTRY_OFFSET_MASK"
    have d: "(if e AND QCOW2_L2_RESERVED_MASK \<noteq> 0 then Inl ENOTSUP
      else if q_version q = 2 \<and> odd e then Inl ENOTSUP
      else if odd e then Inr (resolved_as g SCORPI_IMAGE_EXTENT_ZERO)
      else if p = 0 then
          if e AND QCOW2_ENTRY_COPIED \<noteq> 0 then Inl EINVAL
          else Inr (resolved_as g SCORPI_IMAGE_EXTENT_ABSENT)
        else if \<not> is_cluster_aligned q p \<or> q_file_size q < p then Inl EINVAL
        else Inr ((resolved_as g SCORPI_IMAGE_EXTENT_PRESENT)\<lparr>rs_physical_offset := p\<rparr>)) = Inr r"
      using assms(1) True unfolding qcow2_decode_entry_def Let_def c p_def by simp
    show ?thesis
    proof (cases "odd e")
      case odd: True
      then have "r = resolved_as g SCORPI_IMAGE_EXTENT_ZERO" "q_version q = 3" using d ld by (auto split: if_splits)
      then show ?thesis using True odd ld by (simp add: resolved_cell_def resolved_as_def format_cell_def Let_def)
    next
      case False
      then have "p \<le> q_file_size q" using d by (auto split: if_splits)
      then have "p = format_offset e" using offset_in_file [of e "q_file_size q"] assms(3) by (simp add: p_def)
      then show ?thesis using d True False
        by (auto simp: resolved_cell_def resolved_as_def format_cell_def Let_def m split: if_splits)
    qed
  qed
qed

lemma cell_format:
  assumes "qcow2_params q" "q_file_size q < 2 ^ 56" "qcow2_loaded inflate fd q" "same_data fd (q_fd q)"
    "qcow2_lookup q x = Inr r"
  shows "qcow2_cell q x = format_content inflate (h_bytes fd) x"
proof -
  note ld = assms(3) [unfolded qcow2_loaded_def]
  let ?cs = "q_cluster_size q"
  let ?g = "x div ?cs" and ?n = "?cs div 8"
  let ?l2 = "q_l1_table q ! (?g div ?n)"
  have m: "h_bytes (q_fd q) = h_bytes fd" using assms(4) by (simp add: same_data_def)
  have cs: "?cs = 2 ^ be_at (h_bytes fd) 20 4" using assms(1) ld by (simp add: qcow2_params_def)
  have i: "?g div ?n < q_l1_size q" using assms(5) by (auto simp: qcow2_lookup_def Let_def split: if_splits)
  have l2: "?l2 = format_offset (be_at (h_bytes fd) (be_at (h_bytes fd) 40 8 + 8 * (?g div ?n)) 8)"
    using ld i offset_in_file [of _ "h_size fd"] assms(2) by simp
  have "?n * 8 = ?cs"
  proof -
    have "(2::nat) ^ 3 dvd 2 ^ q_cluster_bits q" using assms(1) by (intro le_imp_power_dvd) (simp add: qcow2_params_def)
    then show ?thesis using assms(1) by (simp add: qcow2_params_def)
  qed
  moreover have "0 < ?n" using assms(1) calculation by (cases ?n) (auto simp: qcow2_params_def)
  then have "?g mod ?n < ?n" by (rule mod_less_divisor)
  ultimately have "?g mod ?n * 8 + 8 \<le> ?cs" by linarith
  then have e: "be64dec (get_bytes (h_bytes fd) ?l2 ?cs) (?g mod ?n * 8) = be_at (h_bytes fd) (?l2 + 8 * (?g mod ?n)) 8"
    by (simp add: dec_be_at mult.commute)
  show ?thesis
  proof (cases "?l2 = 0")
    case True
    then have "r = resolved_as ?g SCORPI_IMAGE_EXTENT_ABSENT"
      using assms(5) i by (simp add: qcow2_lookup_def Let_def split: if_splits)
    then have "qcow2_cell q x = None" using assms(5) by (simp add: qcow2_cell_def resolved_cell_def resolved_as_def)
    then show ?thesis using True l2 unfolding format_content_def Let_def cs [symmetric] by simp
  next
    case False
    have "qcow2_decode_entry q ?g (be_at (h_bytes fd) (?l2 + 8 * (?g mod ?n)) 8) = Inr r"
      using assms(5) False i m e by (auto simp: qcow2_lookup_def Let_def split: if_splits)
    from decode_entry_format [OF this assms(1-4), of "x mod ?cs"] assms(5)
    have "qcow2_cell q x = format_cell inflate (h_bytes fd) (be_at (h_bytes fd) (?l2 + 8 * (?g mod ?n)) 8) (x mod ?cs)"
      by (simp add: qcow2_cell_def)
    then show ?thesis using False l2 unfolding format_content_def Let_def cs [symmetric] by simp
  qed
qed

text \<open>A session on an opened image: maps and reads in any order, failing or not, of which no read reported \<open>EIO\<close>.\<close>

inductive qcow2_session :: "qcow2_image \<Rightarrow> qcow2_image \<Rightarrow> bool" where
  start: "qcow2_session q q"
| map: "qcow2_session q p \<Longrightarrow> qcow2_map p off len = (p', r) \<Longrightarrow> qcow2_session q p'"
| read: "qcow2_session q p \<Longrightarrow> qcow2_read p off len = (p', r) \<Longrightarrow> r \<noteq> Inl EIO \<Longrightarrow> qcow2_session q p'"

lemma qcow2_map_keeps:
  assumes "qcow2_inv q" "qcow2_map q off len = (q', r)"
  shows "qcow2_same q q' \<and> qcow2_inv q'"
proof -
  obtain q1 r1 where 1: "qcow2_resolve_cluster q off = (q1, r1)" by fastforce
  have "q' = q \<or> q' = q1" using assms(2) 1 by (cases r1) (auto simp: qcow2_map_def Let_def split: if_splits)
  then show ?thesis using qcow2_resolve_ok [OF assms(1) 1] assms(1) by auto
qed

lemma qcow2_session_keeps: "qcow2_session q p \<Longrightarrow> qcow2_inv q \<Longrightarrow> qcow2_same q p \<and> qcow2_inv p"
proof (induction rule: qcow2_session.induct)
  case (map q p off len p' r)
  then show ?case using qcow2_map_keeps qcow2_same_trans by blast
next
  case (read q p off len p' r)
  then show ?case using qcow2_read_ok [of p off len p' r] qcow2_same_trans by blast
qed simp

section \<open>Concrete images\<close>

text \<open>A version 2 image of 512 bytes with one empty first-level entry.\<close>

definition qcow2_empty_file :: hfile where
  "qcow2_empty_file = \<lparr>h_size = 1024, h_bytes = (\<lambda>x.
     if x = 0 then 0x51 else if x = 1 then 0x46 else if x = 2 then 0x49 else if x = 3 then 0xfb
     else if x = 7 then 2 else if x = 23 then 9 else if x = 30 then 2 else if x = 39 then 1
     else if x = 46 then 2 else 0), h_script = []\<rparr>"

definition qcow2_empty_header :: qcow2_header where
  "qcow2_empty_header = \<lparr>qh_version = 2, qh_backing_file_offset = 0, qh_backing_file_size = 0, qh_cluster_bits = 9,
     qh_size = 512, qh_crypt_method = 0, qh_l1_size = 1, qh_l1_table_offset = 512, qh_nb_snapshots = 0,
     qh_incompatible_features = 0, qh_header_length = 72, qh_compression_type = 0\<rparr>"

lemma empty_file_read:
  "a + n \<le> 1024 \<Longrightarrow> read_exact qcow2_empty_file a n =
     (qcow2_empty_file, Inr (get_bytes (h_bytes qcow2_empty_file) a n))"
  by (rule read_exact_no_fault) (simp_all add: qcow2_empty_file_def)

lemma empty_header: "qcow2_decode_header qcow2_empty_file = (qcow2_empty_file, Inr qcow2_empty_header)"
  by (simp add: qcow2_decode_header_def empty_file_read dec_get_bytes Let_def)
    (simp add: qcow2_empty_file_def qcow2_empty_header_def)

definition qcow2_empty :: "inflate \<Rightarrow> (nat \<Rightarrow> byte) \<Rightarrow> qcow2_image" where
  "qcow2_empty z g = (qcow2_fresh z g qcow2_empty_file 1024 qcow2_empty_header)\<lparr>q_l1_table := [0]\<rparr>"

lemma empty_open: "qcow2_open z g path qcow2_empty_file True = (qcow2_empty_file, Inr (qcow2_empty z g))"
proof -
  have s: "fstat_size qcow2_empty_file = (qcow2_empty_file, Inr 1024)"
    by (simp add: fstat_size_def qcow2_empty_file_def)
  have v: "qcow2_validate_header qcow2_empty_header = Inr ()"
    by (simp add: qcow2_validate_header_def qcow2_empty_header_def mul64_def add64_def sub64_def)
  have "be64_list (get_bytes (h_bytes qcow2_empty_file) 512 8) 1 = [0]"
    by (simp add: be64_list_def dec_get_bytes) (simp add: qcow2_empty_file_def)
  then have l: "qcow2_read_l1_table (qcow2_fresh z g qcow2_empty_file 1024 qcow2_empty_header) qcow2_empty_header =
      (qcow2_empty z g, Inr ())"
    by (simp add: qcow2_read_l1_table_def qcow2_fresh_def qcow2_empty_header_def empty_file_read qcow2_empty_def)
  have "qcow2_read_base_uri qcow2_empty_file qcow2_empty_header = (qcow2_empty_file, Inr None)"
    by (simp add: qcow2_read_base_uri_def qcow2_empty_header_def)
  then show ?thesis
    by (simp add: qcow2_open_def s empty_header v l)
      (simp add: qcow2_empty_def qcow2_fresh_def)
qed

lemma empty_read: "qcow2_read (qcow2_empty z g) 3 2 = (qcow2_empty z g, Inr [0, 0])"
proof -
  let ?q = "qcow2_empty z g"
  have f: "q_virtual_size ?q = 512" "q_cluster_size ?q = 512" "q_cluster_bits ?q = 9" "q_l1_size ?q = 1" "q_l1_table ?q = [0]"
    by (simp_all add: qcow2_empty_def qcow2_fresh_def qcow2_empty_header_def)
  have "qcow2_resolve_cluster ?q 3 = (?q, Inr (resolved_as 0 SCORPI_IMAGE_EXTENT_ABSENT))"
    by (simp add: qcow2_resolve_cluster_def f Let_def)
  moreover have "qcow2_read_chunk ?q (resolved_as 0 SCORPI_IMAGE_EXTENT_ABSENT) co 2 = (?q, Inr [0, 0])" for co
    by (simp add: qcow2_read_chunk_def resolved_as_def numeral_2_eq_2)
  moreover have "qcow2_read_loop ?q 5 0 = (?q, Inr [])" by (simp add: qcow2_read_loop.simps)
  ultimately show ?thesis
    by (simp add: qcow2_read_def f qcow2_read_loop.simps [of ?q 3 2] Let_def)
qed

text \<open>
  An image of two compressed clusters.  The first inflates to 512 bytes 5; the data of the
  second is damaged, and zlib stores one byte before it reports the damage.
\<close>

definition demo_inflate :: inflate where
  "demo_inflate src n = (if src ! 0 = 1 then (replicate n 5, True) else ([7], False))"

definition qcow2_demo_bytes :: "nat \<Rightarrow> byte" where
  "qcow2_demo_bytes x =
     (if x = 0 then 0x51 else if x = 1 then 0x46 else if x = 2 then 0x49 else if x = 3 then 0xfb
      else if x = 7 then 2 else if x = 23 then 9 else if x = 30 then 4 else if x = 39 then 1 else if x = 46 then 8
      else if x = 512 \<or> x = 520 then 0x40 else if x = 518 then 4 else if x = 526 then 6 else if x = 1024 then 1
      else if x = 2054 then 2 else 0)"

definition qcow2_demo_file :: hfile where
  "qcow2_demo_file = \<lparr>h_size = 2560, h_bytes = qcow2_demo_bytes, h_script = []\<rparr>"

definition qcow2_demo_header :: qcow2_header where
  "qcow2_demo_header = qcow2_empty_header\<lparr>qh_size := 1024, qh_l1_table_offset := 2048\<rparr>"

definition qcow2_demo :: qcow2_image where
  "qcow2_demo = (qcow2_fresh demo_inflate (\<lambda>_. 0) qcow2_demo_file 2560 qcow2_demo_header)\<lparr>q_l1_table := [512]\<rparr>"

lemma demo_fields:
  "q_fd qcow2_demo = qcow2_demo_file" "q_virtual_size qcow2_demo = 1024" "q_cluster_bits qcow2_demo = 9"
  "q_cluster_size qcow2_demo = 512" "q_l1_size qcow2_demo = 1" "q_l1_table qcow2_demo = [512]"
  "q_file_size qcow2_demo = 2560" "q_inflate qcow2_demo = demo_inflate" "q_compression_type qcow2_demo = 0"
  "\<not> q_l2_cache_valid qcow2_demo" "\<not> q_compressed_cache_valid qcow2_demo" "length (q_compressed_cache qcow2_demo) = 512"
  "h_script qcow2_demo_file = []" "h_size qcow2_demo_file = 2560" "h_bytes qcow2_demo_file = qcow2_demo_bytes"
  by (simp_all add: qcow2_demo_def qcow2_fresh_def qcow2_demo_header_def qcow2_empty_header_def qcow2_demo_file_def)

definition demo_cluster :: "nat \<Rightarrow> qcow2_resolved_cluster" where
  "demo_cluster g = \<lparr>rs_state = SCORPI_IMAGE_EXTENT_PRESENT, rs_compressed = True,
     rs_physical_offset = 1024 + 512 * g, rs_compressed_length = 512, rs_guest_cluster = g\<rparr>"

lemma demo_file_read:
  "a + n \<le> 2560 \<Longrightarrow> read_exact qcow2_demo_file a n = (qcow2_demo_file, Inr (get_bytes qcow2_demo_bytes a n))"
  using read_exact_no_fault [of qcow2_demo_file a n] by (simp add: qcow2_demo_file_def)

lemma demo_open: "qcow2_open demo_inflate (\<lambda>_. 0) path qcow2_demo_file True = (qcow2_demo_file, Inr qcow2_demo)"
proof -
  have s: "fstat_size qcow2_demo_file = (qcow2_demo_file, Inr 2560)"
    by (simp add: fstat_size_def qcow2_demo_file_def)
  have h: "qcow2_decode_header qcow2_demo_file = (qcow2_demo_file, Inr qcow2_demo_header)"
    by (simp add: qcow2_decode_header_def demo_file_read dec_get_bytes Let_def)
      (simp add: qcow2_demo_bytes_def qcow2_demo_header_def qcow2_empty_header_def)
  have v: "qcow2_validate_header qcow2_demo_header = Inr ()"
    by (simp add: qcow2_validate_header_def qcow2_demo_header_def qcow2_empty_header_def mul64_def add64_def sub64_def)
  have b: "be64_list (get_bytes qcow2_demo_bytes 2048 8) 1 = [512]"
    by (simp add: be64_list_def dec_get_bytes) (simp add: qcow2_demo_bytes_def)
  have e: "qcow2_l1_entries (qcow2_fresh demo_inflate (\<lambda>_. 0) qcow2_demo_file 2560 qcow2_demo_header) [512] = Inr [512]"
    by (simp add: qcow2_fresh_def QCOW2_L1_RESERVED_MASK_def is_cluster_aligned_def qcow2_demo_header_def qcow2_empty_header_def)
  have r: "read_exact qcow2_demo_file 2048 8 = (qcow2_demo_file, Inr (get_bytes qcow2_demo_bytes 2048 8))"
    by (rule demo_file_read) simp
  have l: "qcow2_read_l1_table (qcow2_fresh demo_inflate (\<lambda>_. 0) qcow2_demo_file 2560 qcow2_demo_header) qcow2_demo_header =
      (qcow2_demo, Inr ())"
  proof -
    have f: "q_fd (qcow2_fresh demo_inflate (\<lambda>_. 0) qcow2_demo_file 2560 qcow2_demo_header) = qcow2_demo_file"
      "qh_l1_size qcow2_demo_header = 1" "qh_l1_table_offset qcow2_demo_header = 2048"
      by (simp_all add: qcow2_fresh_def qcow2_demo_header_def qcow2_empty_header_def)
    have "(qcow2_fresh demo_inflate (\<lambda>_. 0) qcow2_demo_file 2560 qcow2_demo_header)\<lparr>q_fd := qcow2_demo_file, q_l1_table := [512]\<rparr> = qcow2_demo"
      by (simp add: qcow2_fresh_def qcow2_demo_def)
    then show ?thesis by (simp add: qcow2_read_l1_table_def f r b e del: qcow2_l1_entries.simps One_nat_def)
  qed
  have "qcow2_read_base_uri qcow2_demo_file qcow2_demo_header = (qcow2_demo_file, Inr None)"
    by (simp add: qcow2_read_base_uri_def qcow2_demo_header_def qcow2_empty_header_def)
  then show ?thesis
    by (simp add: qcow2_open_def s h v l) (simp add: qcow2_demo_def qcow2_fresh_def)
qed

lemma demo_entries:
  "be64dec (get_bytes qcow2_demo_bytes 512 512) 0 = 4611686018427388928"
  "be64dec (get_bytes qcow2_demo_bytes 512 512) 8 = 4611686018427389440"
  by (simp_all add: dec_get_bytes) (simp_all add: qcow2_demo_bytes_def)

lemma demo_lookup: "qcow2_lookup qcow2_demo 0 = Inr (demo_cluster 0)" "qcow2_lookup qcow2_demo 512 = Inr (demo_cluster 1)"
proof -
  have a: "is_cluster_aligned qcow2_demo 512" by (simp add: is_cluster_aligned_def demo_fields)
  show "qcow2_lookup qcow2_demo 0 = Inr (demo_cluster 0)" "qcow2_lookup qcow2_demo 512 = Inr (demo_cluster 1)"
    using a demo_entries
    by (simp_all add: qcow2_lookup_def demo_fields qcow2_decode_entry_def Let_def demo_cluster_def)
qed

section \<open>A failed decompression\<close>

text \<open>What a host that does not fail leaves of the second-level cache.\<close>

definition with_l2_cache :: "qcow2_image \<Rightarrow> bool \<times> u64 \<times> u64 list \<Rightarrow> qcow2_image" where
  "with_l2_cache q c = q\<lparr>q_l2_cache_valid := fst c, q_l2_cache_offset := fst (snd c), q_l2_cache := snd (snd c)\<rparr>"

definition qcow2_steady :: "qcow2_image \<Rightarrow> bool" where
  "qcow2_steady q \<longleftrightarrow> qcow2_params q \<and> qcow2_l2_coherent q \<and> h_script (q_fd q) = [] \<and>
     h_size (q_fd q) = q_file_size q \<and> q_file_size q \<le> INT64_MAX"

lemma resolve_steady:
  assumes "qcow2_steady q" "qcow2_lookup q x = Inr r"
  shows "\<exists>c. qcow2_resolve_cluster q x = (with_l2_cache q c, Inr r) \<and> qcow2_steady (with_l2_cache q c)"
proof -
  have cs: "q_cluster_size q = 2 ^ q_cluster_bits q" using assms(1) by (simp add: qcow2_steady_def qcow2_params_def)
  let ?g = "x div q_cluster_size q" and ?n = "q_cluster_size q div 8"
  let ?l2 = "q_l1_table q ! (?g div ?n)"
  have g: "drop_bit (q_cluster_bits q) x = ?g" by (simp add: drop_bit_eq_div cs)
  have same: "with_l2_cache q (q_l2_cache_valid q, q_l2_cache_offset q, q_l2_cache q) = q" by (simp add: with_l2_cache_def)
  have b: "\<not> q_virtual_size q \<le> x" "\<not> q_l1_size q \<le> ?g div ?n"
    using assms(2) by (auto simp: qcow2_lookup_def Let_def split: if_splits)
  show ?thesis
  proof (cases "?l2 = 0")
    case True
    then have "qcow2_resolve_cluster q x = (q, Inr r)"
      using assms(2) b by (simp add: qcow2_resolve_cluster_def qcow2_lookup_def Let_def g)
    then show ?thesis using same assms(1) by metis
  next
    case False
    define t where "t = be64_list (get_bytes (h_bytes (q_fd q)) ?l2 (q_cluster_size q)) ?n"
    have l2: "is_cluster_aligned q ?l2" "?l2 + q_cluster_size q \<le> q_file_size q"
      and d: "qcow2_decode_entry q ?g (be64dec (get_bytes (h_bytes (q_fd q)) ?l2 (q_cluster_size q)) (?g mod ?n * 8)) = Inr r"
      using assms(2) b False by (auto simp: qcow2_lookup_def Let_def split: if_splits)
    have "0 < ?n"
    proof -
      have "(2::nat) ^ 9 \<le> 2 ^ q_cluster_bits q" using assms(1)
        by (intro power_increasing) (simp_all add: qcow2_steady_def qcow2_params_def)
      then show ?thesis by (simp add: cs div_greater_zero_iff)
    qed
    then have n: "?g mod ?n < ?n" by (rule mod_less_divisor)
    then have tn: "t ! (?g mod ?n) = be64dec (get_bytes (h_bytes (q_fd q)) ?l2 (q_cluster_size q)) (?g mod ?n * 8)"
      by (simp add: t_def be64_list_nth)
    have rd: "read_exact (q_fd q) ?l2 (q_cluster_size q) = (q_fd q, Inr (get_bytes (h_bytes (q_fd q)) ?l2 (q_cluster_size q)))"
      using assms(1) l2 by (intro read_exact_no_fault) (simp_all add: qcow2_steady_def)
    have co: "q_l2_cache_valid q \<Longrightarrow> q_l2_cache_offset q = ?l2 \<Longrightarrow> q_l2_cache q = t"
      using assms(1) by (simp add: qcow2_steady_def qcow2_l2_coherent_def t_def)
    have "\<exists>c. qcow2_l2_entry q ?l2 (?g mod ?n) = (with_l2_cache q c, Inr (t ! (?g mod ?n))) \<and> qcow2_steady (with_l2_cache q c)"
    proof (cases "q_l2_cache_valid q \<and> q_l2_cache_offset q = ?l2")
      case True
      then have "qcow2_l2_entry q ?l2 (?g mod ?n) = (q, Inr (t ! (?g mod ?n)))"
        using False l2 n co by (simp add: qcow2_l2_entry_def Let_def)
      then show ?thesis using same assms(1) by metis
    next
      case miss: False
      have "qcow2_l2_entry q ?l2 (?g mod ?n) = (with_l2_cache q (True, ?l2, t), Inr (t ! (?g mod ?n)))"
        using False l2 n rd miss by (auto simp: qcow2_l2_entry_def Let_def with_l2_cache_def t_def)
      moreover have "qcow2_steady (with_l2_cache q (True, ?l2, t))"
        using assms(1) by (simp add: qcow2_steady_def with_l2_cache_def qcow2_params_def qcow2_l2_coherent_def t_def)
      ultimately show ?thesis by blast
    qed
    then obtain c where c: "qcow2_l2_entry q ?l2 (?g mod ?n) = (with_l2_cache q c, Inr (t ! (?g mod ?n)))"
      "qcow2_steady (with_l2_cache q c)" by blast
    have "qcow2_decode_entry (with_l2_cache q c) = qcow2_decode_entry q"
      by (rule decode_entry_same) (simp add: qcow2_same_def with_l2_cache_def)
    then have "qcow2_resolve_cluster q x = (with_l2_cache q c, Inr r)"
      using b False c(1) d tn by (simp add: qcow2_resolve_cluster_def Let_def g)
    then show ?thesis using c(2) by blast
  qed
qed

lemma read_byte_steady:
  assumes "qcow2_steady q" "qcow2_lookup q x = Inr r" "rs_compressed r"
  shows "\<exists>c. qcow2_steady (with_l2_cache q c) \<and> qcow2_read q x 1 =
    and_then (qcow2_read_compressed_cluster_locked (with_l2_cache q c) r)
      (\<lambda>q' _. (q', Inr (buf_slice (x mod q_cluster_size q) 1 (q_compressed_cache q'))))"
proof -
  obtain c where c: "qcow2_resolve_cluster q x = (with_l2_cache q c, Inr r)" "qcow2_steady (with_l2_cache q c)"
    using resolve_steady [OF assms(1,2)] by blast
  let ?p = "with_l2_cache q c"
  have p: "q_cluster_size ?p = q_cluster_size q" by (simp add: with_l2_cache_def)
  have cs: "q_cluster_size q = 2 ^ q_cluster_bits q" using assms(1) by (simp add: qcow2_steady_def qcow2_params_def)
  then have co: "x AND (q_cluster_size q - 1) = x mod q_cluster_size q" "x mod q_cluster_size q < q_cluster_size q"
    using and_pow2_minus_1 [of x "q_cluster_bits q"] by simp_all
  have ch: "(if 1 < q_cluster_size q - x mod q_cluster_size q then 1 else q_cluster_size q - x mod q_cluster_size q) = 1"
    using co(2) by auto
  have st: "rs_state r = SCORPI_IMAGE_EXTENT_PRESENT" using lookup_facts(3) [OF assms(2,3)] by simp
  obtain q' v where l: "qcow2_read_compressed_cluster_locked ?p r = (q', v)" by fastforce
  have z: "qcow2_read_loop p' y 0 = (p', Inr [])" for p' y by (simp add: qcow2_read_loop.simps)
  have "qcow2_read q x 1 = qcow2_read_loop q x 1" using lookup_facts(2) [OF assms(2)] by (simp add: qcow2_read_def)
  also have "\<dots> = and_then (qcow2_read_chunk ?p r (x mod q_cluster_size q) 1) (\<lambda>q bs. (q, Inr bs))"
    by (subst qcow2_read_loop.simps) (simp only: c(1) and_then_simps Let_def p co ch, simp add: z)
  also have "\<dots> = and_then (q', v) (\<lambda>q'' _. (q'', Inr (buf_slice (x mod q_cluster_size q) 1 (q_compressed_cache q''))))"
    using assms(3) st l by (cases v) (simp_all add: qcow2_read_chunk_def qcow2_read_compressed_cluster_def)
  finally show ?thesis using c(2) l by (intro exI [of _ c]) simp
qed

section \<open>Properties\<close>

text \<open>
  Property C37: what a QCOW2 image returns.  Open a file of less than \<open>2 ^ 56\<close> bytes, then map and read
  it in any order; reads may fail, but none with \<open>EIO\<close>.  A read that then succeeds
  returns for every offset the content that the format gives the bytes of the file there, as
  \<open>format_content\<close> spells it out: stored, compressed, zero, or unallocated and read as zero.  The
  caches do not show, and no call changes the file.
\<close>

theorem qcow2_open_read_content:
  assumes "qcow2_open inflate garbage path fd ro = (fd', Inr q)" "h_size fd < 2 ^ 56"
    and "qcow2_session q p" "qcow2_read p off len = (p', Inr bs)"
  shows "bs = map (\<lambda>i. cell_byte (format_content inflate (h_bytes fd) (off + i))) [0..<len] \<and>
    ro \<and> same_data fd (q_fd p') \<and> (0 < len \<longrightarrow> off + len \<le> be_at (h_bytes fd) 24 8)"
proof -
  have "h_size fd \<le> INT64_MAX" using assms(2) by simp
  from qcow2_open_result [OF assms(1) this]
  have o: "qcow2_inv q" "same_data fd (q_fd q)" "ro" "qcow2_loaded inflate fd q" by auto
  have p: "qcow2_same q p" "qcow2_inv p" using qcow2_session_keeps [OF assms(3) o(1)] by auto
  have r: "qcow2_same p p'" "bs = map (\<lambda>i. cell_byte (qcow2_cell q (off + i))) [0..<len]"
    "\<And>i. i < len \<Longrightarrow> \<exists>r. qcow2_lookup q (off + i) = Inr r"
    using qcow2_read_ok [OF p(2) assms(4)] cell_same [OF p(1)] lookup_same [OF p(1)] by auto
  have "qcow2_cell q (off + i) = format_content inflate (h_bytes fd) (off + i)" if "i < len" for i
    using r(3) [OF that] cell_format [OF _ _ o(4,2)] o(1,4) assms(2) by (auto simp: qcow2_inv_def qcow2_loaded_def)
  then have "bs = map (\<lambda>i. cell_byte (format_content inflate (h_bytes fd) (off + i))) [0..<len]" using r(2) by simp
  moreover have "same_data fd (q_fd p')"
    using o(2) p(1) r(1) same_data_trans by (auto simp: qcow2_same_def)
  moreover have "off + len \<le> be_at (h_bytes fd) 24 8" if "0 < len"
  proof -
    have "len - 1 < len" using that by simp
    then obtain r where "qcow2_lookup q (off + (len - 1)) = Inr r" using r(3) by blast
    from lookup_facts(2) [OF this] o(4) that show ?thesis by (simp add: qcow2_loaded_def)
  qed
  ultimately show ?thesis using o(3) by blast
qed

theorem qcow2_open_read_content_witness:
  "\<exists>q p'. qcow2_open demo_inflate (\<lambda>_. 0) [] qcow2_empty_file True = (qcow2_empty_file, Inr q) \<and>
    qcow2_session q q \<and> qcow2_read q 3 2 = (p', Inr [0, 0]) \<and> same_data qcow2_empty_file (q_fd p')"
proof -
  have "h_size qcow2_empty_file < 2 ^ 56" by (simp add: qcow2_empty_file_def)
  from qcow2_open_read_content [OF empty_open [of demo_inflate "\<lambda>_. 0" "[]"] this qcow2_session.start empty_read]
  show ?thesis using empty_open [of demo_inflate "\<lambda>_. 0" "[]"] empty_read [of demo_inflate "\<lambda>_. 0"] qcow2_session.start by blast
qed

text \<open>
  Property C40: a failed decompression spoils the cache.  The buffer of the compressed-cluster
  cache is the output buffer of the decompression, and it stays marked valid for the cluster it
  held when a decompression of another cluster fails.  For every image in a consistent state, on
  a host that does not fail: if a cluster is cached and the decompression of another one stores
  \<open>out\<close> and then reports an error, the read of that other cluster fails with \<open>EIO\<close>, and the next read of
  the cached cluster succeeds and returns the bytes of \<open>out\<close>, where it returned the content
  of the cluster before.
\<close>

theorem qcow2_failed_inflate_spoils_cache:
  assumes "qcow2_inv q" "h_script (q_fd q) = []" "h_size (q_fd q) = q_file_size q" "q_file_size q \<le> INT64_MAX"
    and "q_compression_type q = 0" "q_compressed_cache_valid q"
    and "qcow2_lookup q a = Inr ra" "rs_compressed ra" "rs_guest_cluster ra = q_compressed_cache_guest_cluster q"
    and "qcow2_lookup q b = Inr rb" "rs_compressed rb" "rs_guest_cluster rb \<noteq> rs_guest_cluster ra"
    and "rs_compressed_length rb \<le> UINT32_MAX"
    and "q_inflate q (get_bytes (h_bytes (q_fd q)) (rs_physical_offset rb) (rs_compressed_length rb)) (q_cluster_size q) = (out, False)"
    and "length out \<le> q_cluster_size q" "a mod q_cluster_size q < length out"
  shows "\<exists>q1 q2 q3. qcow2_read q a 1 = (q1, Inr [cell_byte (qcow2_cell q a)]) \<and>
    qcow2_read q b 1 = (q2, Inl EIO) \<and> qcow2_read q2 a 1 = (q3, Inr [out ! (a mod q_cluster_size q)])"
proof -
  let ?cs = "q_cluster_size q" and ?cc = "q_compressed_cache q"
  let ?k = "a mod ?cs"
  have st: "qcow2_steady q" using assms(1-4) by (simp add: qcow2_steady_def qcow2_inv_def)
  have cc: "length ?cc = ?cs" "?cc = qcow2_inflated q ra"
    using assms(1,6-9) by (auto simp: qcow2_inv_def qcow2_compressed_coherent_def)
  have k: "?k < ?cs" using assms(15,16) by simp
  have slice: "buf_slice ?k 1 xs = [xs ! ?k]" if "length xs = ?cs" for xs :: "byte list"
    using that k by (simp add: buf_slice_def take_Suc_conv_app_nth hd_drop_conv_nth take_Suc)
  have hit: "qcow2_read_compressed_cluster_locked p ra = (p, Inr ())"
    if "q_compressed_cache_valid p" "q_compressed_cache_guest_cluster p = q_compressed_cache_guest_cluster q" for p
    using that assms(9) by (simp add: qcow2_read_compressed_cluster_locked_def)
  have "qcow2_cell q a = Some (?cc ! ?k)"
    using assms(7,8) lookup_facts(3) [OF assms(7,8)] cc(2) by (simp add: qcow2_cell_def resolved_cell_def)
  moreover obtain c where "qcow2_read q a 1 = and_then (qcow2_read_compressed_cluster_locked (with_l2_cache q c) ra)
      (\<lambda>q' _. (q', Inr (buf_slice ?k 1 (q_compressed_cache q'))))"
    using read_byte_steady [OF st assms(7,8)] by blast
  ultimately have 1: "qcow2_read q a 1 = (with_l2_cache q c, Inr [cell_byte (qcow2_cell q a)])"
    using hit [of "with_l2_cache q c"] assms(6) slice [OF cc(1)] by (simp add: with_l2_cache_def)
  obtain d where d: "qcow2_steady (with_l2_cache q d)"
    "qcow2_read q b 1 = and_then (qcow2_read_compressed_cluster_locked (with_l2_cache q d) rb)
      (\<lambda>q' _. (q', Inr (buf_slice (b mod ?cs) 1 (q_compressed_cache q'))))"
    using read_byte_steady [OF st assms(10,11)] by blast
  let ?q2 = "(with_l2_cache q d)\<lparr>q_compressed_cache := overwrite 0 out ?cc\<rparr>"
  have "read_exact (q_fd q) (rs_physical_offset rb) (rs_compressed_length rb) =
      (q_fd q, Inr (get_bytes (h_bytes (q_fd q)) (rs_physical_offset rb) (rs_compressed_length rb)))"
    using assms(2-4) lookup_facts(3) [OF assms(10,11)] by (intro read_exact_no_fault) simp_all
  then have "qcow2_read_compressed_cluster_locked (with_l2_cache q d) rb = (?q2, Inl EIO)"
    using assms(5,6,9,12-14) by (simp add: qcow2_read_compressed_cluster_locked_def with_l2_cache_def Let_def)
  with d(2) have 2: "qcow2_read q b 1 = (?q2, Inl EIO)" by simp
  have same: "qcow2_same q ?q2" by (simp add: qcow2_same_def with_l2_cache_def)
  have "qcow2_steady ?q2"
    using d(1) by (simp add: qcow2_steady_def qcow2_params_def qcow2_l2_coherent_def)
  moreover have "qcow2_lookup ?q2 a = Inr ra" using lookup_same [OF same] assms(7) by simp
  ultimately obtain e where "qcow2_read ?q2 a 1 = and_then (qcow2_read_compressed_cluster_locked (with_l2_cache ?q2 e) ra)
      (\<lambda>q' _. (q', Inr (buf_slice (a mod q_cluster_size ?q2) 1 (q_compressed_cache q'))))"
    using read_byte_steady [of ?q2 a ra] assms(8) by blast
  moreover have "length (overwrite 0 out ?cc) = ?cs" "overwrite 0 out ?cc ! ?k = out ! ?k"
    using assms(15,16) cc(1) by (simp_all add: overwrite_def nth_append)
  moreover have "q_cluster_size ?q2 = ?cs" by (simp add: with_l2_cache_def)
  ultimately have 3: "qcow2_read ?q2 a 1 = (with_l2_cache ?q2 e, Inr [out ! ?k])"
    using hit [of "with_l2_cache ?q2 e"] assms(6) slice [of "overwrite 0 out ?cc"] by (simp add: with_l2_cache_def)
  from 1 2 3 show ?thesis by blast
qed

theorem qcow2_failed_inflate_spoils_cache_witness:
  "qcow2_open demo_inflate (\<lambda>_. 0) [] qcow2_demo_file True = (qcow2_demo_file, Inr qcow2_demo) \<and>
   (\<exists>q q1 q2 q3. qcow2_read qcow2_demo 0 1 = (q, Inr [5]) \<and> qcow2_read q 0 1 = (q1, Inr [5]) \<and>
      qcow2_read q 512 1 = (q2, Inl EIO) \<and> qcow2_read q2 0 1 = (q3, Inr [7]))"
proof -
  have i: "qcow2_inv qcow2_demo"
    using qcow2_open_result [OF demo_open [of "[]"]] by (simp add: demo_fields)
  have l: "demo_inflate (get_bytes qcow2_demo_bytes 1024 512) 512 = (replicate 512 5, True)"
    "demo_inflate (get_bytes qcow2_demo_bytes 1536 512) 512 = ([7], False)"
    by (simp_all add: demo_inflate_def qcow2_demo_bytes_def)
  have dc: "rs_compressed (demo_cluster g)" "rs_guest_cluster (demo_cluster g) = g" "rs_compressed_length (demo_cluster g) = 512"
    "rs_physical_offset (demo_cluster g) = 1024 + 512 * g" for g by (simp_all add: demo_cluster_def)
  have "qcow2_steady qcow2_demo" using i by (simp add: qcow2_steady_def qcow2_inv_def demo_fields)
  from read_byte_steady [OF this demo_lookup(1) dc(1)] obtain c where
    r: "qcow2_read qcow2_demo 0 1 = and_then (qcow2_read_compressed_cluster_locked (with_l2_cache qcow2_demo c) (demo_cluster 0))
      (\<lambda>q' _. (q', Inr (buf_slice 0 1 (q_compressed_cache q'))))" by auto
  let ?q = "(with_l2_cache qcow2_demo c)\<lparr>q_compressed_cache := replicate 512 5, q_compressed_cache_guest_cluster := 0,
     q_compressed_cache_valid := True\<rparr>"
  have o: "overwrite 0 (replicate 512 5) (q_compressed_cache qcow2_demo) = replicate 512 5"
    by (simp add: overwrite_def demo_fields)
  have x: "read_exact qcow2_demo_file 1024 512 = (qcow2_demo_file, Inr (get_bytes qcow2_demo_bytes 1024 512))"
    by (rule demo_file_read) simp
  have "qcow2_read_compressed_cluster_locked (with_l2_cache qcow2_demo c) (demo_cluster 0) = (?q, Inr ())"
    using x l o by (simp add: qcow2_read_compressed_cluster_locked_def with_l2_cache_def demo_fields dc Let_def)
  with r have 0: "qcow2_read qcow2_demo 0 1 = (?q, Inr [5])" by (simp add: buf_slice_def)
  have q: "qcow2_same qcow2_demo ?q" "qcow2_inv ?q" using qcow2_read_ok [OF i 0] by auto
  have f: "h_script (q_fd ?q) = []" "h_size (q_fd ?q) = q_file_size ?q" "q_file_size ?q \<le> INT64_MAX" "q_compression_type ?q = 0"
    "q_compressed_cache_valid ?q" "rs_guest_cluster (demo_cluster 0) = q_compressed_cache_guest_cluster ?q"
    "rs_guest_cluster (demo_cluster 1) \<noteq> rs_guest_cluster (demo_cluster 0)" "rs_compressed_length (demo_cluster 1) \<le> UINT32_MAX"
    "length [7::byte] \<le> q_cluster_size ?q" "0 mod q_cluster_size ?q < length [7::byte]" "q_cluster_size ?q = 512"
    by (simp_all add: with_l2_cache_def demo_fields dc)
  have z: "q_inflate ?q (get_bytes (h_bytes (q_fd ?q)) (rs_physical_offset (demo_cluster 1)) (rs_compressed_length (demo_cluster 1)))
      (q_cluster_size ?q) = ([7], False)"
    using l(2) by (simp add: with_l2_cache_def demo_fields dc)
  have lk: "qcow2_lookup ?q 0 = Inr (demo_cluster 0)" "qcow2_lookup ?q 512 = Inr (demo_cluster 1)"
    using lookup_same [OF q(1)] demo_lookup by simp_all
  have "cell_byte (qcow2_cell ?q 0) = 5"
    using lk(1) l(1) by (simp add: qcow2_cell_def resolved_cell_def demo_cluster_def qcow2_inflated_def with_l2_cache_def demo_fields)
  with qcow2_failed_inflate_spoils_cache [OF q(2) f(1-5) lk(1) dc(1) f(6) lk(2) dc(1) f(7,8) z f(9,10)] 0 demo_open [of "[]"]
  show ?thesis by (auto simp: f(11))
qed

end
