(* ===== verification/Sco_Data.thy ===== *)
theory Sco_Data
  imports Sco_Image
begin

text \<open>
  The data path of an open SCO image: the invariant that ties the allocation table to the
  allocator and the file, the content the image represents, and what every operation does
  to both, whether it succeeds or fails.
\<close>

section \<open>Invariant and content\<close>

definition sco_entry_ok :: "sco_image \<Rightarrow> nat \<Rightarrow> bool" where
  "sco_entry_ok s i \<longleftrightarrow>
     (let e = sco_table s ! i; pc = te_physical_cluster e in
      te_state e \<le> 3 \<and> te_generation e \<le> UINT32_MAX \<and> te_active_slot e \<le> 1 \<and>
      (te_state e = SCO_MAP_STATE_PRESENT \<longrightarrow>
         sco_data_cluster_base s \<le> pc \<and> pc < sco_data_cluster_base s + sco_data_cluster_count s \<and>
         pc \<le> UINT32_MAX \<and> sco_data_cluster_used s ! (pc - sco_data_cluster_base s) \<and>
         pc * sb_cluster_size (sco_sb s) + sco_cluster_stored_length (sco_sb s) i \<le> sco_file_size s))"

definition sco_present :: "sco_image \<Rightarrow> nat \<Rightarrow> bool" where
  "sco_present s i \<longleftrightarrow> i < length (sco_table s) \<and> te_state (sco_table s ! i) = SCO_MAP_STATE_PRESENT"

definition sco_phys :: "sco_image \<Rightarrow> nat \<Rightarrow> nat" where
  "sco_phys s i = te_physical_cluster (sco_table s ! i)"

definition sco_inv :: "sco_image \<Rightarrow> bool" where
  "sco_inv s \<longleftrightarrow>
     sco_geometry (sco_sb s) \<and>
     length (sco_table s) = sb_cluster_count (sco_sb s) \<and>
     sco_data_cluster_base s * sb_cluster_size (sco_sb s) = sb_data_area_offset (sco_sb s) \<and>
     length (sco_data_cluster_used s) = sco_data_cluster_count s \<and>
     sco_data_alloc_cursor s \<le> sco_data_cluster_count s \<and>
     sco_data_cluster_base s + sco_data_cluster_count s \<le> 281474976710656 \<and>
     sb_data_area_offset (sco_sb s) \<le> sco_file_size s \<and>
     sco_file_size s \<le> h_size (sco_fd s) \<and> h_size (sco_fd s) \<le> INT64_MAX \<and>
     (\<forall>i < length (sco_table s). sco_entry_ok s i) \<and>
     (\<forall>i j. sco_present s i \<longrightarrow> sco_present s j \<longrightarrow> i \<noteq> j \<longrightarrow> sco_phys s i \<noteq> sco_phys s j)"

text \<open>The byte an image holds at each virtual offset.\<close>

definition sco_cell :: "sco_image \<Rightarrow> cells" where
  "sco_cell s = (\<lambda>x.
     if x < sb_virtual_size (sco_sb s) then
       (let cs = sb_cluster_size (sco_sb s); e = sco_table s ! (x div cs) in
        if te_state e = SCO_MAP_STATE_PRESENT then
          Some (h_bytes (sco_fd s) (te_physical_cluster e * cs + x mod cs))
        else if te_state e = SCO_MAP_STATE_ABSENT then None
        else Some 0)
     else None)"

definition sco_vsize :: "sco_image \<Rightarrow> u64" where
  "sco_vsize s = sb_virtual_size (sco_sb s)"

text \<open>The part of an image no data operation changes.\<close>

definition sco_static where
  "sco_static s = (sco_sb s, sco_readonly s, sco_active_superblock_offset s, sco_data_cluster_base s,
     sco_has_base s, sco_base_uri s, sco_base_uuid s, sco_has_base_uuid s, sco_base_digest s, sco_has_base_digest s)"

lemma sco_static_updates [simp]:
  "sco_static (s\<lparr>sco_fd := fd\<rparr>) = sco_static s"
  "sco_static (s\<lparr>sco_file_size := n\<rparr>) = sco_static s"
  "sco_static (s\<lparr>sco_table := t\<rparr>) = sco_static s"
  "sco_static (s\<lparr>sco_data_cluster_used := u\<rparr>) = sco_static s"
  "sco_static (s\<lparr>sco_data_cluster_count := n\<rparr>) = sco_static s"
  "sco_static (s\<lparr>sco_data_alloc_cursor := n\<rparr>) = sco_static s"
  by (simp_all add: sco_static_def)

lemma sco_staticD:
  assumes "sco_static s' = sco_static s"
  shows "sco_sb s' = sco_sb s" "sco_readonly s' = sco_readonly s" "sco_has_base s' = sco_has_base s"
    "sco_active_superblock_offset s' = sco_active_superblock_offset s"
    "sco_data_cluster_base s' = sco_data_cluster_base s"
  using assms by (simp_all add: sco_static_def)

text \<open>
  The bytes of the file that mean something: the metadata before the data area, and the
  stored bytes of every cluster the table points at.
\<close>

definition sco_cluster_bytes :: "sco_image \<Rightarrow> nat \<Rightarrow> nat set" where
  "sco_cluster_bytes s i =
     {sco_phys s i * sb_cluster_size (sco_sb s) ..<
      sco_phys s i * sb_cluster_size (sco_sb s) + sco_cluster_stored_length (sco_sb s) i}"

definition sco_live :: "sco_image \<Rightarrow> nat \<Rightarrow> bool" where
  "sco_live s a \<longleftrightarrow> a < sb_data_area_offset (sco_sb s) \<or> (\<exists>i. sco_present s i \<and> a \<in> sco_cluster_bytes s i)"

lemma sco_invD:
  assumes "sco_inv s"
  shows "sco_geometry (sco_sb s)" "length (sco_table s) = sb_cluster_count (sco_sb s)"
    "sco_data_cluster_base s * sb_cluster_size (sco_sb s) = sb_data_area_offset (sco_sb s)"
    "length (sco_data_cluster_used s) = sco_data_cluster_count s"
    "sb_data_area_offset (sco_sb s) \<le> sco_file_size s" "sco_file_size s \<le> h_size (sco_fd s)"
    "0 < sco_data_cluster_base s" "0 < sb_cluster_size (sco_sb s)" "h_size (sco_fd s) \<le> INT64_MAX"
proof -
  show "0 < sco_data_cluster_base s"
    using assms by (cases "sco_data_cluster_base s") (auto simp: sco_inv_def sco_geometry_def)
  show "0 < sb_cluster_size (sco_sb s)"
    using assms sco_geometryD by (auto simp: sco_inv_def)
qed (use assms in \<open>simp_all add: sco_inv_def\<close>)

lemma sco_inv_entry:
  assumes "sco_inv s" "i < length (sco_table s)"
  shows "te_state (sco_table s ! i) \<le> 3" "te_generation (sco_table s ! i) \<le> UINT32_MAX"
    "te_active_slot (sco_table s ! i) \<le> 1"
  using assms by (auto simp: sco_inv_def sco_entry_ok_def Let_def)

lemma sco_inv_present:
  assumes "sco_inv s" "sco_present s i"
  shows "i < sb_cluster_count (sco_sb s)" "sco_data_cluster_base s \<le> sco_phys s i"
    "sco_phys s i < sco_data_cluster_base s + sco_data_cluster_count s" "sco_phys s i \<le> UINT32_MAX"
    "sco_data_cluster_used s ! (sco_phys s i - sco_data_cluster_base s)"
    "sco_phys s i * sb_cluster_size (sco_sb s) + sco_cluster_stored_length (sco_sb s) i \<le> sco_file_size s"
    "sb_data_area_offset (sco_sb s) \<le> sco_phys s i * sb_cluster_size (sco_sb s)"
proof -
  have i: "i < length (sco_table s)" "te_state (sco_table s ! i) = SCO_MAP_STATE_PRESENT"
    using assms(2) by (auto simp: sco_present_def)
  have ok: "sco_entry_ok s i" using assms(1) i by (auto simp: sco_inv_def)
  show "i < sb_cluster_count (sco_sb s)" using i sco_invD(2) [OF assms(1)] by simp
  show "sco_data_cluster_base s \<le> sco_phys s i"
    "sco_phys s i < sco_data_cluster_base s + sco_data_cluster_count s" "sco_phys s i \<le> UINT32_MAX"
    "sco_data_cluster_used s ! (sco_phys s i - sco_data_cluster_base s)"
    "sco_phys s i * sb_cluster_size (sco_sb s) + sco_cluster_stored_length (sco_sb s) i \<le> sco_file_size s"
    using ok i by (auto simp: sco_entry_ok_def Let_def sco_phys_def)
  then show "sb_data_area_offset (sco_sb s) \<le> sco_phys s i * sb_cluster_size (sco_sb s)"
    unfolding sco_invD(3) [OF assms(1), symmetric] by (intro mult_le_mono1)
qed

lemma cluster_ranges_disjoint:
  fixes p q c :: nat
  assumes "p \<noteq> q" "p * c \<le> a" "a < p * c + c"
  shows "a < q * c \<or> q * c + c \<le> a"
proof -
  from assms have "a div c = p" by (intro div_eq_of_bounds) (auto simp: algebra_simps)
  moreover have "a div c = q" if "\<not> (a < q * c \<or> q * c + c \<le> a)"
    using that by (intro div_eq_of_bounds) (auto simp: algebra_simps)
  ultimately show ?thesis using assms(1) by blast
qed

lemma sco_cluster_bytes_disjoint:
  assumes "sco_inv s" "sco_present s i" "sco_phys s i \<noteq> q" "a \<in> sco_cluster_bytes s i"
  shows "a < q * sb_cluster_size (sco_sb s) \<or> q * sb_cluster_size (sco_sb s) + sb_cluster_size (sco_sb s) \<le> a"
proof -
  have "sco_cluster_stored_length (sco_sb s) i \<le> sb_cluster_size (sco_sb s)"
    by (rule sco_stored_length_bounds(2) [OF sco_invD(1) [OF assms(1)] sco_inv_present(1) [OF assms(1,2)]])
  with assms(4) show ?thesis
    by (intro cluster_ranges_disjoint [OF assms(3)]) (auto simp: sco_cluster_bytes_def)
qed

lemma sco_live_size:
  assumes "sco_inv s" "sco_live s a"
  shows "a < h_size (sco_fd s)"
  using assms(2) unfolding sco_live_def
proof (elim disjE exE conjE)
  fix i assume i: "sco_present s i" "a \<in> sco_cluster_bytes s i"
  have "a < sco_phys s i * sb_cluster_size (sco_sb s) + sco_cluster_stored_length (sco_sb s) i"
    using i(2) by (simp add: sco_cluster_bytes_def)
  with sco_inv_present(6) [OF assms(1) i(1)] sco_invD(6) [OF assms(1)] show ?thesis by linarith
next
  assume "a < sb_data_area_offset (sco_sb s)"
  with sco_invD(5,6) [OF assms(1)] show ?thesis by linarith
qed

text \<open>A changed file with the same live bytes, and the same table, has the same content.\<close>

lemma sco_cell_cong:
  assumes "sco_inv s" "sco_sb s' = sco_sb s" "sco_table s' = sco_table s"
    and "\<And>i a. sco_present s i \<Longrightarrow> a \<in> sco_cluster_bytes s i \<Longrightarrow> h_bytes (sco_fd s') a = h_bytes (sco_fd s) a"
  shows "sco_cell s' = sco_cell s"
proof (rule ext)
  fix x
  let ?cs = "sb_cluster_size (sco_sb s)" and ?i = "x div sb_cluster_size (sco_sb s)"
  show "sco_cell s' x = sco_cell s x"
  proof (cases "x < sb_virtual_size (sco_sb s) \<and> te_state (sco_table s ! ?i) = SCO_MAP_STATE_PRESENT")
    case True
    have "?i < length (sco_table s)"
      using sco_cluster_index_less [OF sco_invD(1) [OF assms(1)]] True sco_invD(2) [OF assms(1)] by simp
    then have p: "sco_present s ?i" using True by (simp add: sco_present_def)
    have "sco_phys s ?i * ?cs + x mod ?cs \<in> sco_cluster_bytes s ?i"
      using sco_offset_in_cluster [OF sco_invD(1) [OF assms(1)]] True by (simp add: sco_cluster_bytes_def)
    from assms(4) [OF p this] show ?thesis
      using True by (simp add: sco_cell_def assms(2,3) sco_phys_def Let_def)
  qed (simp add: sco_cell_def assms(2,3) Let_def)
qed

text \<open>Growing the file and the allocator keeps the invariant.\<close>

lemma sco_inv_mono:
  assumes "sco_inv s" "sco_static s' = sco_static s" "sco_table s' = sco_table s"
    and "sco_data_cluster_count s \<le> sco_data_cluster_count s'"
    and "length (sco_data_cluster_used s') = sco_data_cluster_count s'"
    and "\<And>k. k < sco_data_cluster_count s \<Longrightarrow> sco_data_cluster_used s ! k \<Longrightarrow> sco_data_cluster_used s' ! k"
    and "sco_data_alloc_cursor s' \<le> sco_data_cluster_count s'"
    and "sco_data_cluster_base s + sco_data_cluster_count s' \<le> 281474976710656"
    and "sco_file_size s \<le> sco_file_size s'" "sco_file_size s' \<le> h_size (sco_fd s')"
    and "h_size (sco_fd s') \<le> INT64_MAX"
  shows "sco_inv s'"
proof -
  note st = sco_staticD [OF assms(2)]
  have "sco_entry_ok s' i" if i: "i < length (sco_table s)" for i
  proof (cases "sco_present s i")
    case True
    have "sco_data_cluster_used s' ! (sco_phys s i - sco_data_cluster_base s)"
      using sco_inv_present(2,3,5) [OF assms(1) True] by (intro assms(6)) auto
    then show ?thesis
      using sco_inv_present(2-6) [OF assms(1) True] sco_inv_entry [OF assms(1) i] assms(3,4,9) st
      by (auto simp: sco_entry_ok_def Let_def sco_phys_def)
  next
    case False
    then show ?thesis using i sco_inv_entry [OF assms(1) i] assms(3)
      by (simp add: sco_entry_ok_def Let_def sco_present_def)
  qed
  moreover have "sco_present s' i = sco_present s i" "sco_phys s' i = sco_phys s i" for i
    using assms(3) by (simp_all add: sco_present_def sco_phys_def)
  ultimately show ?thesis
    using assms st by (simp add: sco_inv_def)
qed

section \<open>Looking up extents\<close>

definition sco_extent_of_state :: "nat \<Rightarrow> scorpi_image_extent_state" where
  "sco_extent_of_state st =
     (if st = SCO_MAP_STATE_PRESENT then SCORPI_IMAGE_EXTENT_PRESENT
      else if st = SCO_MAP_STATE_ZERO then SCORPI_IMAGE_EXTENT_ZERO
      else if st = SCO_MAP_STATE_DISCARDED then SCORPI_IMAGE_EXTENT_DISCARDED
      else SCORPI_IMAGE_EXTENT_ABSENT)"

lemma sco_lookup_extent_eq:
  assumes "sco_inv s" "0 < len" "off < sb_virtual_size (sco_sb s)"
  defines "i \<equiv> off div sb_cluster_size (sco_sb s)"
  shows "sco_lookup_extent s off len = Inr
    \<lparr>lk_extent = \<lparr>ext_offset = off,
       ext_length = min len (sco_cluster_stored_length (sco_sb s) i - off mod sb_cluster_size (sco_sb s)),
       ext_state = sco_extent_of_state (te_state (sco_table s ! i))\<rparr>,
     lk_physical_offset = (if sco_present s i then sco_phys s i * sb_cluster_size (sco_sb s) else 0)\<rparr>"
proof -
  note g = sco_invD(1) [OF assms(1)]
  have i: "i < sb_cluster_count (sco_sb s)" using sco_cluster_index_less [OF g assms(3)] by (simp add: i_def)
  have m: "off - i * sb_cluster_size (sco_sb s) = off mod sb_cluster_size (sco_sb s)"
    by (simp add: i_def minus_div_mult_eq_mod)
  have lt: "off mod sb_cluster_size (sco_sb s) < sco_cluster_stored_length (sco_sb s) i"
    using sco_offset_in_cluster [OF g assms(3)] by (simp add: i_def)
  have st: "te_state (sco_table s ! i) \<le> 3" using sco_inv_entry(1) [OF assms(1)] i sco_invD(2) [OF assms(1)] by simp
  have len: "length (sco_table s) = sb_cluster_count (sco_sb s)" using sco_invD(2) [OF assms(1)] .
  consider "te_state (sco_table s ! i) = 0" | "te_state (sco_table s ! i) = 1" |
    "te_state (sco_table s ! i) = 2" | "te_state (sco_table s ! i) = 3"
    using st by linarith
  then show ?thesis
    using assms(2,3) i m lt len
    by cases (simp_all add: sco_lookup_extent_def Let_def i_def [symmetric] sco_extent_of_state_def
        sco_present_def sco_phys_def min_def)
qed

text \<open>The bytes of one extent lie in one cluster and share its state.\<close>

lemma extent_same_cluster:
  assumes "sco_geometry sb" "off < sb_virtual_size sb"
    and "off \<le> x" "x < off + (sco_cluster_stored_length sb (off div sb_cluster_size sb) - off mod sb_cluster_size sb)"
  shows "x div sb_cluster_size sb = off div sb_cluster_size sb" "x < sb_virtual_size sb"
    "x mod sb_cluster_size sb = off mod sb_cluster_size sb + (x - off)"
proof -
  let ?c = "sb_cluster_size sb" and ?i = "off div sb_cluster_size sb"
  note b = sco_stored_length_bounds [OF assms(1) sco_cluster_index_less [OF assms(1,2)]]
  have off: "off = ?i * ?c + off mod ?c" by simp
  have x: "?i * ?c \<le> x" "x < ?i * ?c + sco_cluster_stored_length sb ?i"
    using assms(3,4) off by linarith+
  then show d: "x div ?c = ?i"
    using b(2) by (intro div_eq_of_bounds) (auto simp: algebra_simps)
  show "x < sb_virtual_size sb" using x b(3) by linarith
  have "x = ?i * ?c + x mod ?c" using d by (metis div_mult_mod_eq)
  then show "x mod ?c = off mod ?c + (x - off)" using off assms(3) by linarith
qed

lemma sco_map_ok:
  assumes "sco_inv s" "0 < len" "off < sco_vsize s" "sco_map s off len = (s', Inr e)"
  shows "sco_inv s' \<and> sco_vsize s' = sco_vsize s \<and> sco_cell s' = sco_cell s \<and>
    extent_describes (sco_cell s) (sco_vsize s) off len e"
proof -
  note g = sco_invD(1) [OF assms(1)]
  let ?sb = "sco_sb s"
  let ?i = "off div sb_cluster_size ?sb"
  let ?n = "min len (sco_cluster_stored_length ?sb ?i - off mod sb_cluster_size ?sb)"
  have vs: "off < sb_virtual_size ?sb" using assms(3) by (simp add: sco_vsize_def)
  from assms(4) sco_lookup_extent_eq [OF assms(1,2) vs]
  have e: "e = \<lparr>ext_offset = off, ext_length = ?n, ext_state = sco_extent_of_state (te_state (sco_table s ! ?i))\<rparr>"
    and s': "s' = s" by (auto simp: sco_map_def)
  have n: "0 < ?n" using sco_offset_in_cluster [OF g vs] assms(2) by simp
  have sc: "x div sb_cluster_size ?sb = ?i" "x < sb_virtual_size ?sb" if "off \<le> x" "x < off + ?n" for x
    using extent_same_cluster [OF g vs, of x] that by auto
  have "off + ?n \<le> sb_virtual_size ?sb"
    using sc(2) [of "off + ?n - 1"] n by linarith
  moreover have "case sco_extent_of_state (te_state (sco_table s ! ?i)) of
       SCORPI_IMAGE_EXTENT_ABSENT \<Rightarrow> sco_cell s x = None
     | SCORPI_IMAGE_EXTENT_PRESENT \<Rightarrow> sco_cell s x \<noteq> None
     | _ \<Rightarrow> sco_cell s x = Some 0" if "off \<le> x" "x < off + ?n" for x
  proof -
    have "te_state (sco_table s ! ?i) \<le> 3"
      using sco_inv_entry(1) [OF assms(1)] sco_cluster_index_less [OF g vs] sco_invD(2) [OF assms(1)] by simp
    then consider "te_state (sco_table s ! ?i) = 0" | "te_state (sco_table s ! ?i) = 1" |
      "te_state (sco_table s ! ?i) = 2" | "te_state (sco_table s ! ?i) = 3" by linarith
    then show ?thesis
      using sc [OF that] by cases (simp_all add: sco_cell_def sco_extent_of_state_def Let_def)
  qed
  ultimately show ?thesis
    using assms(1) n by (simp add: s' e extent_describes_def sco_vsize_def)
qed

section \<open>Reading\<close>

lemma sco_io_fd: "sco_io s m = (s', r) \<longleftrightarrow> (\<exists>fd. m = (fd, r) \<and> s' = s\<lparr>sco_fd := fd\<rparr>)"
  by (auto simp: sco_io_def split: prod.splits)

lemma sco_inv_same_data:
  assumes "sco_inv s" "same_data (sco_fd s) fd"
  shows "sco_inv (s\<lparr>sco_fd := fd\<rparr>)" "sco_cell (s\<lparr>sco_fd := fd\<rparr>) = sco_cell s"
proof -
  show "sco_inv (s\<lparr>sco_fd := fd\<rparr>)"
    using assms(2) sco_invD [OF assms(1)] assms(1)
    by (intro sco_inv_mono [OF assms(1)]) (auto simp: same_data_def sco_inv_def)
  show "sco_cell (s\<lparr>sco_fd := fd\<rparr>) = sco_cell s"
    using assms(2) by (intro sco_cell_cong [OF assms(1)]) (auto simp: same_data_def)
qed

definition sco_only_script :: "sco_image \<Rightarrow> sco_image \<Rightarrow> bool" where
  "sco_only_script s s' \<longleftrightarrow> (\<exists>fd. same_data (sco_fd s) fd \<and> s' = s\<lparr>sco_fd := fd\<rparr>)"

lemma sco_only_script_refl [simp]: "sco_only_script s s"
  unfolding sco_only_script_def by (rule exI [of _ "sco_fd s"]) simp

lemma sco_only_script_trans:
  "sco_only_script s t \<Longrightarrow> sco_only_script t u \<Longrightarrow> sco_only_script s u"
  by (auto simp: sco_only_script_def same_data_def)

lemma sco_only_scriptD:
  assumes "sco_only_script s s'"
  shows "sco_static s' = sco_static s" "sco_table s' = sco_table s" "same_data (sco_fd s) (sco_fd s')"
    "sco_file_size s' = sco_file_size s" "sco_inv s \<Longrightarrow> sco_inv s'" "sco_inv s \<Longrightarrow> sco_cell s' = sco_cell s"
    "sco_vsize s' = sco_vsize s"
  using assms sco_inv_same_data by (auto simp: sco_only_script_def sco_vsize_def)

lemma sco_phys_bound:
  assumes "sco_inv s" "sco_present s i" "n \<le> 4194304"
  shows "sco_phys s i * sb_cluster_size (sco_sb s) + n \<le> 18014398513676288"
proof -
  have "sco_phys s i * sb_cluster_size (sco_sb s) \<le> 4294967295 * 4194304"
    using sco_inv_present(4) [OF assms(1,2)] sco_invD(1) [OF assms(1)]
    by (intro mult_le_mono) (auto simp: sco_geometry_def)
  with assms(3) show ?thesis by linarith
qed

lemma sco_read_extent_result:
  assumes "sco_inv s" "off < sb_virtual_size (sco_sb s)" "0 < len"
    and "sco_lookup_extent s off len = Inr lk" "sco_read_extent s lk off = (t, r)"
  defines "n \<equiv> ext_length (lk_extent lk)"
  shows "0 < n" "n \<le> len" "sco_only_script s t"
    and "\<And>p. r = Inr p \<Longrightarrow> p = map (\<lambda>i. cell_byte (sco_cell s (off + i))) [0..<n]"
proof -
  note inv = assms(1) and vs = assms(2) and g = sco_invD(1) [OF assms(1)]
  let ?cs = "sb_cluster_size (sco_sb s)"
  let ?i = "off div ?cs"
  note lk = sco_lookup_extent_eq [OF inv assms(3) vs, unfolded assms(4) sum.inject]
  have n: "n = min len (sco_cluster_stored_length (sco_sb s) ?i - off mod ?cs)"
    by (simp add: n_def lk)
  then show n0: "0 < n" "n \<le> len" using sco_offset_in_cluster [OF g vs] assms(3) by simp_all
  have sc: "x div ?cs = ?i" "x < sb_virtual_size (sco_sb s)" "x mod ?cs = off mod ?cs + (x - off)"
    if "off \<le> x" "x < off + n" for x
    using extent_same_cluster [OF g vs, of x] that n by auto
  have ii: "?i < length (sco_table s)"
    using sco_cluster_index_less [OF g vs] sco_invD(2) [OF inv] by simp
  have "sco_only_script s t \<and> (\<forall>p. r = Inr p \<longrightarrow> p = map (\<lambda>i. cell_byte (sco_cell s (off + i))) [0..<n])"
  proof (cases "sco_present s ?i")
    case True
    let ?phys = "sco_phys s ?i * ?cs"
    have "off mod ?cs + n \<le> 4194304"
      using n n0 sco_stored_length_bounds(4) [OF g sco_cluster_index_less [OF g vs]] by linarith
    from sco_phys_bound [OF inv True this] have bnd: "?phys + off mod ?cs + n \<le> UINT64_MAX" by linarith
    then have a: "add64 ?phys (off mod ?cs) = ?phys + off mod ?cs" by (intro add64_exact) linarith
    have "sco_io s (read_exact (sco_fd s) (?phys + off mod ?cs) n) = (t, r)"
      using assms(5) True by (simp add: sco_read_extent_def lk n sco_extent_of_state_def a sco_present_def)
    then obtain fd where rd: "read_exact (sco_fd s) (?phys + off mod ?cs) n = (fd, r)" and t: "t = s\<lparr>sco_fd := fd\<rparr>"
      by (auto simp: sco_io_fd)
    have "cell_byte (sco_cell s (off + j)) = h_bytes (sco_fd s) (?phys + off mod ?cs + j)" if "j < n" for j
      using sc [of "off + j"] that True by (simp add: sco_cell_def Let_def sco_present_def sco_phys_def add.assoc)
    then show ?thesis
      using read_exact_result [OF rd bnd] by (auto simp: sco_only_script_def t get_bytes_def)
  next
    case False
    then have st: "te_state (sco_table s ! ?i) \<noteq> SCO_MAP_STATE_PRESENT" using ii by (simp add: sco_present_def)
    then have "t = s" "r = Inr (zeros n)"
      using assms(5) by (auto simp: sco_read_extent_def lk n sco_extent_of_state_def split: if_splits)
    moreover have "cell_byte (sco_cell s (off + j)) = 0" if "j < n" for j
      using sc [of "off + j"] that st by (simp add: sco_cell_def Let_def)
    ultimately show ?thesis by (auto simp: zeros_def intro: nth_equalityI)
  qed
  then show "sco_only_script s t" "\<And>p. r = Inr p \<Longrightarrow> p = map (\<lambda>i. cell_byte (sco_cell s (off + i))) [0..<n]"
    by blast+
qed

lemma sco_read_loop_result:
  "sco_read_loop s off len = (s', r) \<Longrightarrow> sco_inv s \<Longrightarrow> off + len \<le> sb_virtual_size (sco_sb s) \<Longrightarrow>
     sco_only_script s s' \<and> (\<forall>bs. r = Inr bs \<longrightarrow> bs = map (\<lambda>i. cell_byte (sco_cell s (off + i))) [0..<len])"
proof (induction s off len arbitrary: s' r rule: sco_read_loop.induct)
  case (1 s off len)
  note inv = "1.prems"(2) and le = "1.prems"(3)
  show ?case
  proof (cases "len = 0")
    case True
    with "1.prems"(1) show ?thesis by (auto simp: sco_read_loop.simps)
  next
    case False
    have vs: "off < sb_virtual_size (sco_sb s)" and len: "0 < len" using False le by auto
    obtain lk where lk: "sco_lookup_extent s off len = Inr lk"
      using sco_lookup_extent_eq [OF inv len vs] by blast
    obtain t p where p: "sco_read_extent s lk off = (t, p)" by fastforce
    define n where "n = ext_length (lk_extent lk)"
    note ext = sco_read_extent_result [OF inv vs len lk p, folded n_def]
    have add: "add64 off n = off + n" and nmax: "\<not> (n = 0 \<or> SIZE_MAX < n)"
      using ext(1,2) le sco_geometryD(5) [OF sco_invD(1) [OF inv]] by (auto intro: add64_exact)
    have tD: "sco_inv t" "sco_cell t = sco_cell s" "sco_sb t = sco_sb s"
      using sco_only_scriptD [OF ext(3)] inv sco_staticD(1) by blast+
    have eq: "sco_read_loop s off len = and_then (t, p) (\<lambda>t p. and_then (sco_read_loop t (off + n) (len - n))
        (\<lambda>s q. (s, Inr (p @ q))))"
      using False nmax add by (simp add: sco_read_loop.simps [of s off len] lk n_def p Let_def)
    from "1.prems"(1) [unfolded eq] show ?thesis
    proof (cases rule: and_then_cases)
      case (fail e)
      then show ?thesis using ext(3) by simp
    next
      case (ok t' p')
      then have p': "t' = t" "p = Inr p'" by auto
      have IH: "sco_only_script t u \<and> (\<forall>bs. ur = Inr bs \<longrightarrow>
          bs = map (\<lambda>i. cell_byte (sco_cell s (off + n + i))) [0..<len - n])"
        if "sco_read_loop t (off + n) (len - n) = (u, ur)" for u ur
        using "1.IH" [OF False lk n_def nmax p [unfolded p'(2)], of u ur] that tD le ext(2) add by simp
      from ok(2) [unfolded p'(1)] show ?thesis
      proof (cases rule: and_then_cases)
        case (fail e)
        then show ?thesis using IH [of s' "Inl e"] ext(3) sco_only_script_trans by auto
      next
        case ok': (ok u q)
        have q: "sco_only_script t u" "q = map (\<lambda>i. cell_byte (sco_cell s (off + n + i))) [0..<len - n]"
          using IH [of u "Inr q"] ok'(1) by auto
        have "p' @ q = map (\<lambda>i. cell_byte (sco_cell s (off + i))) [0..<len]"
          using ext(2) ext(4) [OF p'(2)] unfolding q by (intro nth_equalityI) (auto simp: nth_append)
        then show ?thesis using ok'(2) q(1) ext(3) sco_only_script_trans by auto
      qed
    qed
  qed
qed

lemma sco_read_ok:
  assumes "sco_inv s" "off + len \<le> sco_vsize s" "sco_read s off len = (s', r)"
  shows "sco_only_script s s'"
    and "\<And>bs. r = Inr bs \<Longrightarrow> bs = map (\<lambda>i. cell_byte (sco_cell s (off + i))) [0..<len]"
  using sco_read_loop_result [of s off len s' r] assms by (auto simp: sco_read_def sco_vsize_def split: if_splits)

lemma sco_read_any:
  assumes "sco_inv s" "sco_read s off len = (s', r)"
  shows "sco_only_script s s'"
  using sco_read_loop_result [of s off len s' r] assms by (auto simp: sco_read_def split: if_splits)

section \<open>Allocating data clusters\<close>

lemma sco_find_free_result:
  assumes "sco_find_free s = Some k"
  shows "k < sco_data_cluster_count s" "\<not> sco_data_cluster_used s ! k"
  using assms by (auto simp: sco_find_free_def find_Some_iff)

text \<open>A picked cluster lies in the data area and is marked free.\<close>

lemma sco_pick_result:
  assumes "sco_inv s" "sco_pick_data_cluster s = (s', r)"
  shows "sco_static s' = sco_static s \<and> sco_table s' = sco_table s \<and> sco_fd s' = sco_fd s \<and>
      sco_file_size s' = sco_file_size s \<and> sco_inv s' \<and>
      (\<forall>k < sco_data_cluster_count s. sco_data_cluster_used s' ! k = sco_data_cluster_used s ! k) \<and>
      (\<forall>pc. r = Inr pc \<longrightarrow> sco_data_cluster_base s \<le> pc \<and>
         pc < sco_data_cluster_base s + sco_data_cluster_count s' \<and>
         \<not> sco_data_cluster_used s' ! (pc - sco_data_cluster_base s))"
proof (cases "sco_find_free s")
  case (Some k)
  note k = sco_find_free_result [OF Some]
  from assms(2) sco_invD(7) [OF assms(1)]
  have s': "s' = s\<lparr>sco_data_alloc_cursor := (k + 1) mod sco_data_cluster_count s\<rparr>"
    and r: "r = Inr (sco_data_cluster_base s + k)"
    by (auto simp: sco_pick_data_cluster_def Some)
  have "sco_inv s'"
    unfolding s' using k(1) sco_invD [OF assms(1)] assms(1)
    by (intro sco_inv_mono [OF assms(1)]) (auto simp: sco_inv_def mod_le_divisor)
  then show ?thesis using k by (auto simp: s' r)
next
  case None
  let ?c = "sco_data_cluster_count s" and ?b = "sco_data_cluster_base s"
  show ?thesis
  proof (cases "is_ok r")
    case False
    then have "s' = s" "\<And>pc. r \<noteq> Inr pc" using assms(2)
      by (auto simp: sco_pick_data_cluster_def None sco_data_allocator_grow_def Let_def split: if_splits)
    then show ?thesis using assms(1) by simp
  next
    case True
    then have r: "r = Inr (?b + ?c)" and le: "?b + ?c \<le> UINT32_MAX" and
      s': "s' = s\<lparr>sco_data_cluster_used := take ?c (sco_data_cluster_used s) @ [False],
        sco_data_cluster_count := ?c + 1, sco_data_alloc_cursor := (?c + 1) mod (?c + 1)\<rparr>"
      using assms(2)
      by (auto simp: sco_pick_data_cluster_def None sco_data_allocator_grow_def Let_def split: if_splits)
    have "sco_inv s'"
      unfolding s' using sco_invD [OF assms(1)] assms(1) le
      by (intro sco_inv_mono [OF assms(1)]) (auto simp: sco_inv_def nth_append)
    then show ?thesis using sco_invD(4) [OF assms(1)] by (auto simp: s' r nth_append)
  qed
qed

text \<open>A free cluster belongs to no table entry.\<close>

lemma sco_free_not_owned:
  "sco_inv s \<Longrightarrow> \<not> sco_data_cluster_used s ! (pc - sco_data_cluster_base s) \<Longrightarrow> sco_present s i \<Longrightarrow> sco_phys s i \<noteq> pc"
  using sco_inv_present(5) by blast

definition sco_alloc_post :: "sco_image \<Rightarrow> nat \<Rightarrow> byte list \<Rightarrow> sco_image \<Rightarrow> nat \<Rightarrow> bool" where
  "sco_alloc_post s i buf s' po \<longleftrightarrow>
     (\<exists>pc. po = pc * sb_cluster_size (sco_sb s) \<and> sco_data_cluster_base s \<le> pc \<and> pc \<le> UINT32_MAX \<and>
        pc < sco_data_cluster_base s + sco_data_cluster_count s' \<and>
        sco_data_cluster_used s' ! (pc - sco_data_cluster_base s) \<and>
        (\<forall>j. sco_present s j \<longrightarrow> sco_phys s j \<noteq> pc)) \<and>
     po + sco_cluster_stored_length (sco_sb s) i \<le> sco_file_size s' \<and>
     (\<forall>k < sco_cluster_stored_length (sco_sb s) i. h_bytes (sco_fd s') (po + k) = buf ! k)"

text \<open>
  The common shape of the frame facts of the data path: the invariant and the table are
  kept, and so is every live byte outside the set \<open>A\<close>.
\<close>

definition sco_data_frame :: "nat set \<Rightarrow> sco_image \<Rightarrow> sco_image \<Rightarrow> bool" where
  "sco_data_frame A s s' \<longleftrightarrow> sco_inv s' \<and> sco_static s' = sco_static s \<and> sco_table s' = sco_table s \<and>
     sco_file_size s \<le> sco_file_size s' \<and> h_size (sco_fd s) \<le> h_size (sco_fd s') \<and>
     (\<forall>a. sco_live s a \<longrightarrow> a \<notin> A \<longrightarrow> h_bytes (sco_fd s') a = h_bytes (sco_fd s) a)"

lemma sco_present_cong: "sco_table s' = sco_table s \<Longrightarrow> sco_present s' = sco_present s"
  by (simp add: sco_present_def fun_eq_iff)

lemma sco_phys_cong: "sco_table s' = sco_table s \<Longrightarrow> sco_phys s' = sco_phys s"
  by (simp add: sco_phys_def fun_eq_iff)

lemma sco_cluster_bytes_cong:
  "sco_table s' = sco_table s \<Longrightarrow> sco_sb s' = sco_sb s \<Longrightarrow> sco_cluster_bytes s' = sco_cluster_bytes s"
  by (simp add: sco_cluster_bytes_def sco_phys_def fun_eq_iff)

lemma sco_live_cong: "sco_table s' = sco_table s \<Longrightarrow> sco_sb s' = sco_sb s \<Longrightarrow> sco_live s' = sco_live s"
  using sco_cluster_bytes_cong [of s' s] sco_present_cong [of s' s] by (simp add: sco_live_def fun_eq_iff)

lemma sco_data_frame_refl [simp]: "sco_inv s \<Longrightarrow> sco_data_frame A s s"
  by (simp add: sco_data_frame_def)

lemma sco_data_frame_mono: "sco_data_frame A s s' \<Longrightarrow> A \<subseteq> B \<Longrightarrow> sco_data_frame B s s'"
  by (auto simp: sco_data_frame_def)

lemma sco_data_frame_trans:
  assumes "sco_data_frame A s t" "sco_data_frame A t u"
  shows "sco_data_frame A s u"
proof -
  have "sco_live t = sco_live s"
    using assms(1) sco_live_cong [of t s] sco_staticD(1) [of t s] by (simp add: sco_data_frame_def)
  then show ?thesis using assms by (auto simp: sco_data_frame_def)
qed

lemma sco_data_frame_cell:
  assumes "sco_inv s" "sco_data_frame A s s'" "\<And>a. a \<in> A \<Longrightarrow> a < sb_data_area_offset (sco_sb s)"
  shows "sco_cell s' = sco_cell s"
proof (rule sco_cell_cong [OF assms(1)])
  show "sco_sb s' = sco_sb s" "sco_table s' = sco_table s"
    using assms(2) sco_staticD(1) [of s' s] by (auto simp: sco_data_frame_def)
  fix i a assume i: "sco_present s i" "a \<in> sco_cluster_bytes s i"
  then have "sco_live s a" "sb_data_area_offset (sco_sb s) \<le> a"
    using sco_inv_present(7) [OF assms(1) i(1)] by (auto simp: sco_live_def sco_cluster_bytes_def)
  then show "h_bytes (sco_fd s') a = h_bytes (sco_fd s) a"
    using assms(2,3) unfolding sco_data_frame_def by (metis linorder_not_le)
qed

lemma sco_only_script_data_frame: "sco_inv s \<Longrightarrow> sco_only_script s s' \<Longrightarrow> sco_data_frame A s s'"
  using sco_only_scriptD [of s s'] by (auto simp: sco_data_frame_def same_data_def)

lemma sco_data_frame_same_fd:
  assumes "sco_inv s'" "sco_static s' = sco_static s" "sco_table s' = sco_table s" "sco_fd s' = sco_fd s"
    and "sco_file_size s \<le> sco_file_size s'"
  shows "sco_data_frame A s s'"
  using assms by (simp add: sco_data_frame_def)

lemma sco_fsync_only_script: "sco_trace_fsync s = (s', r) \<Longrightarrow> sco_only_script s s'"
  by (auto simp: sco_trace_fsync_def sco_io_fd sco_only_script_def dest: fsync_frame)

text \<open>Writing to a cluster no entry owns leaves the live bytes alone.\<close>

lemma sco_write_unowned:
  assumes "sco_inv s" "\<forall>j. sco_present s j \<longrightarrow> sco_phys s j \<noteq> pc" "sco_data_cluster_base s \<le> pc" "pc \<le> UINT32_MAX"
    and "length buf \<le> sb_cluster_size (sco_sb s)"
    and "write_exact (sco_fd s) (pc * sb_cluster_size (sco_sb s)) buf = (fd, r)"
  shows "sco_data_frame A (s::sco_image) (s\<lparr>sco_fd := fd\<rparr>)"
proof -
  let ?cs = "sb_cluster_size (sco_sb s)"
  have "pc * ?cs + length buf \<le> 4294967295 * 4194304 + 4194304"
    using assms(4,5) sco_invD(1) [OF assms(1)] by (intro add_le_mono mult_le_mono) (auto simp: sco_geometry_def)
  then have bnd: "pc * ?cs + length buf \<le> UINT64_MAX" by simp
  note fr = write_exact_frame [OF assms(6) bnd]
  have live: "h_bytes fd a = h_bytes (sco_fd s) a" if a: "sco_live s a" for a
  proof (rule fr(3))
    show "a < h_size (sco_fd s)" by (rule sco_live_size [OF assms(1) a])
    from a show "a < pc * ?cs \<or> pc * ?cs + length buf \<le> a"
      unfolding sco_live_def
    proof (elim disjE exE conjE)
      assume "a < sb_data_area_offset (sco_sb s)"
      moreover have "sco_data_cluster_base s * ?cs \<le> pc * ?cs" using assms(3) by (rule mult_le_mono1)
      ultimately show ?thesis using sco_invD(3) [OF assms(1)] by linarith
    next
      fix i assume "sco_present s i" "a \<in> sco_cluster_bytes s i"
      from sco_cluster_bytes_disjoint [OF assms(1) this(1) _ this(2), of pc] assms(2,5) \<open>sco_present s i\<close>
      show ?thesis by auto
    qed
  qed
  have "sco_inv (s\<lparr>sco_fd := fd\<rparr>)"
    using fr(1) sco_invD [OF assms(1)] write_exact_size_le [OF assms(6)] assms(1)
    by (intro sco_inv_mono [OF assms(1)]) (auto simp: sco_inv_def)
  then show ?thesis using fr(1) live by (auto simp: sco_data_frame_def)
qed

lemma nth_update_True: "xs ! j \<Longrightarrow> xs[k := True] ! j"
  by (cases "k < length xs") (auto simp: nth_list_update list_update_beyond)

lemma sco_mark_used:
  assumes "sco_inv s"
  shows "sco_inv (s\<lparr>sco_data_cluster_used := (sco_data_cluster_used s)[k := True]\<rparr>)"
  using sco_invD [OF assms] assms
  by (intro sco_inv_mono [OF assms]) (auto simp: sco_inv_def nth_update_True)

lemma sco_alloc_result:
  assumes "sco_inv s" "i < sb_cluster_count (sco_sb s)" "length buf = sco_cluster_stored_length (sco_sb s) i"
    and "sco_alloc_data_cluster s i buf = (s', r)"
  shows "sco_data_frame {} s s' \<and> (\<forall>po. r = Inr po \<longrightarrow> sco_alloc_post s i buf s' po)"
proof -
  let ?cs = "sb_cluster_size (sco_sb s)" and ?len = "sco_cluster_stored_length (sco_sb s) i"
  note len = sco_stored_length_bounds [OF sco_invD(1) [OF assms(1)] assms(2)]
  obtain s1 r1 where pick: "sco_pick_data_cluster s = (s1, r1)" by fastforce
  note p1 = sco_pick_result [OF assms(1) pick]
  have f1: "sco_data_frame {} s s1" using p1 by (intro sco_data_frame_same_fd) auto
  have sb1: "sco_sb s1 = sco_sb s" "sco_data_cluster_base s1 = sco_data_cluster_base s"
    using p1 sco_staticD [of s1 s] by blast+
  show ?thesis
  proof (cases "\<exists>pc. r1 = Inr pc \<and> pc \<noteq> 0 \<and> pc \<le> UINT32_MAX")
    case False
    then have "s' = s1 \<and> \<not> is_ok r"
      using assms(4) len by (cases r1) (auto simp: sco_alloc_data_cluster_def pick)
    then show ?thesis using f1 by (auto simp: is_ok_def)
  next
    case True
    then obtain pc where pc: "r1 = Inr pc" "pc \<noteq> 0" "pc \<le> UINT32_MAX" by blast
    let ?k = "pc - sco_data_cluster_base s"
    define s2 where "s2 = s1\<lparr>sco_data_cluster_used := (sco_data_cluster_used s1)[?k := True]\<rparr>"
    have inv2: "sco_inv s2" unfolding s2_def using p1 by (intro sco_mark_used) simp
    have f2: "sco_data_frame {} s s2"
      using p1 inv2 by (intro sco_data_frame_same_fd) (auto simp: s2_def)
    have un: "\<forall>j. sco_present s j \<longrightarrow> sco_phys s j \<noteq> pc"
      using p1 sco_free_not_owned [of s1 pc] sco_present_cong [of s1 s] sco_phys_cong [of s1 s] pc(1) sb1 by auto
    have un2: "\<forall>j. sco_present s2 j \<longrightarrow> sco_phys s2 j \<noteq> pc"
      using un p1 by (simp add: s2_def sco_present_def sco_phys_def)
    have pcb: "sco_data_cluster_base s \<le> pc" "pc < sco_data_cluster_base s + sco_data_cluster_count s1"
      using p1 pc(1) by auto
    have "pc * ?cs + ?len \<le> 4294967295 * 4194304 + 4194304"
      using pc(3) sco_invD(1) [OF assms(1)] len(4)
      by (intro add_le_mono mult_le_mono) (auto simp: sco_geometry_def)
    then have bnd: "pc * ?cs + ?len \<le> UINT64_MAX" and nw: "\<not> UINT64_MAX - pc * ?cs < ?len" by linarith+
    obtain fd wr where w: "write_exact (sco_fd s2) (pc * ?cs) buf = (fd, wr)" by fastforce
    have w2: "sco_data_frame {} s2 (s2\<lparr>sco_fd := fd\<rparr>)"
      using sco_write_unowned [OF inv2 un2 _ pc(3), of buf fd wr] pcb sb1 assms(3) len(2) w by (simp add: s2_def)
    note f3 = sco_data_frame_trans [OF f2 w2]
    have eq: "sco_alloc_data_cluster s i buf = and_then (s2\<lparr>sco_fd := fd\<rparr>, wr)
        (\<lambda>sco _. (sco\<lparr>sco_file_size := max (sco_file_size sco) (pc * ?cs + ?len)\<rparr>, Inr (pc * ?cs)))"
      using pc len nw w assms(3) sb1
      by (simp add: sco_alloc_data_cluster_def pick s2_def sco_io_def Let_def)
    from assms(4) [unfolded eq] show ?thesis
    proof (cases rule: and_then_cases)
      case (fail e)
      then show ?thesis using f3 by auto
    next
      case (ok t u)
      have t: "t = s2\<lparr>sco_fd := fd\<rparr>" "wr = Inr ()" and
        s': "s' = t\<lparr>sco_file_size := max (sco_file_size t) (pc * ?cs + ?len)\<rparr>" "r = Inr (pc * ?cs)"
        using ok by auto
      note st = write_exact_stored [OF w [unfolded t(2)]]
      have sz: "pc * ?cs + ?len \<le> h_size fd" using st(1) bnd assms(3) len(1) by force
      have byt: "h_bytes fd (pc * ?cs + k) = buf ! k" if "k < ?len" for k
        using st(2) [of "pc * ?cs + k"] bnd assms(3) that by force
      have invt: "sco_inv t" using w2 t by (simp add: sco_data_frame_def)
      have inv': "sco_inv s'"
        unfolding s' using sco_invD [OF invt] invt sz t(1)
        by (intro sco_inv_mono [OF invt]) (auto simp: sco_inv_def)
      have "sco_data_frame {} t s'"
        using inv' by (intro sco_data_frame_same_fd) (auto simp: s')
      moreover have "sco_alloc_post s i buf s' (pc * ?cs)"
        unfolding sco_alloc_post_def
        using un pc pcb byt sco_invD(4) [of s1] p1
        by (auto simp: s' t s2_def)
      ultimately show ?thesis
        using sco_data_frame_trans [OF f3 [folded t(1)]] by (simp add: s'(2))
    qed
  qed
qed

section \<open>Committing table entries\<close>

definition sco_slot_addr :: "sco_superblock \<Rightarrow> nat \<Rightarrow> nat \<Rightarrow> nat" where
  "sco_slot_addr sb i k = sb_table_offset sb + 32 * i + 16 * k"

definition sco_slot_range :: "sco_superblock \<Rightarrow> nat \<Rightarrow> nat \<Rightarrow> nat set" where
  "sco_slot_range sb i k = {sco_slot_addr sb i k ..< sco_slot_addr sb i k + 16}"

definition sco_slot_bytes :: "sco_image \<Rightarrow> nat \<Rightarrow> nat \<Rightarrow> byte list" where
  "sco_slot_bytes s i k = get_bytes (h_bytes (sco_fd s)) (sco_slot_addr (sco_sb s) i k) 16"

definition sco_next_slot :: "sco_table_entry \<Rightarrow> nat" where
  "sco_next_slot e = (if te_active_slot e = SCO_SLOT_A then SCO_SLOT_B else SCO_SLOT_A)"

lemma sco_next_slot_le [simp]: "sco_next_slot e \<le> 1" "sco_next_slot e \<le> Suc 0"
  by (simp_all add: sco_next_slot_def)

lemma sco_slot_range_metadata:
  assumes "sco_geometry sb" "i < sb_cluster_count sb" "k \<le> 1" "a \<in> sco_slot_range sb i k"
  shows "a < sb_data_area_offset sb"
  using sco_table_slot_offset_eq [OF assms(1-3)] assms(4)
  by (simp add: sco_slot_range_def sco_slot_addr_def)

lemma sco_write_slot:
  assumes "sco_inv s" "i < sb_cluster_count (sco_sb s)" "k \<le> 1" "length slot = 16"
    and "write_exact (sco_fd s) (sco_table_slot_offset (sco_sb s) i k) slot = (fd, r)"
  shows "sco_data_frame (sco_slot_range (sco_sb s) i k) s (s\<lparr>sco_fd := fd\<rparr>)"
    and "h_size fd = h_size (sco_fd s)"
    and "r = Inr () \<Longrightarrow> get_bytes (h_bytes fd) (sco_slot_addr (sco_sb s) i k) 16 = slot"
    and "\<And>a. a < h_size (sco_fd s) \<Longrightarrow> a \<notin> sco_slot_range (sco_sb s) i k \<Longrightarrow> h_bytes fd a = h_bytes (sco_fd s) a"
proof -
  let ?a = "sco_slot_addr (sco_sb s) i k"
  note so = sco_table_slot_offset_eq [OF sco_invD(1) [OF assms(1)] assms(2,3), folded sco_slot_addr_def]
  have sz: "?a + 16 \<le> h_size (sco_fd s)" using so sco_invD(5,6) [OF assms(1)] by linarith
  have bnd: "?a + length slot \<le> UINT64_MAX"
    using so assms(4) sco_invD(1) [OF assms(1)] by (simp add: sco_geometry_def)
  note w = assms(5) [unfolded so(1)]
  note fr = write_exact_frame [OF w bnd]
  show h: "h_size fd = h_size (sco_fd s)" using fr(1,2) sz assms(4) by simp
  have "sco_inv (s\<lparr>sco_fd := fd\<rparr>)"
    using h sco_invD [OF assms(1)] assms(1) by (intro sco_inv_mono [OF assms(1)]) (auto simp: sco_inv_def)
  moreover show out: "h_bytes fd a = h_bytes (sco_fd s) a"
    if "a < h_size (sco_fd s)" "a \<notin> sco_slot_range (sco_sb s) i k" for a
    using that assms(4) by (intro fr(3)) (auto simp: sco_slot_range_def)
  ultimately show "sco_data_frame (sco_slot_range (sco_sb s) i k) s (s\<lparr>sco_fd := fd\<rparr>)"
    using h sco_live_size [OF assms(1)] by (auto simp: sco_data_frame_def)
  assume "r = Inr ()"
  have "slot \<noteq> []" using assms(4) by auto
  have "h_bytes fd (?a + j) = slot ! j" if "j < 16" for j
    using write_exact_stored(2) [OF w [unfolded \<open>r = Inr ()\<close>] bnd \<open>slot \<noteq> []\<close>, of "?a + j"] that assms(4) by simp
  then show "get_bytes (h_bytes fd) ?a 16 = slot" using assms(4) by (intro nth_equalityI) auto
qed

lemma sco_release_result:
  assumes "sco_inv s" "\<forall>j. sco_present s j \<longrightarrow> sco_phys s j \<noteq> pc"
  defines "s' \<equiv> sco_data_allocator_release s pc"
  shows "sco_data_frame A s s' \<and> sco_fd s' = sco_fd s \<and> sco_file_size s' = sco_file_size s"
proof -
  let ?k = "pc - sco_data_cluster_base s"
  have eqs: "sco_static s' = sco_static s" "sco_table s' = sco_table s" "sco_fd s' = sco_fd s"
    "sco_file_size s' = sco_file_size s" "sco_data_cluster_count s' = sco_data_cluster_count s"
    "length (sco_data_cluster_used s') = length (sco_data_cluster_used s)"
    "sco_data_alloc_cursor s' = sco_data_alloc_cursor s \<or> sco_data_alloc_cursor s' < sco_data_cluster_count s"
    by (auto simp: s'_def sco_data_allocator_release_def sco_data_allocator_mark_def Let_def)
  have used: "sco_data_cluster_used s' ! j = sco_data_cluster_used s ! j"
    if "j \<noteq> ?k \<or> pc < sco_data_cluster_base s" for j
    using that by (auto simp: s'_def sco_data_allocator_release_def sco_data_allocator_mark_def Let_def)
  have "sco_entry_ok s' i" if i: "i < length (sco_table s)" for i
  proof (cases "sco_present s i")
    case True
    note p = sco_inv_present [OF assms(1) True]
    have "sco_data_cluster_used s' ! (sco_phys s i - sco_data_cluster_base s)"
      using p(2,5) assms(2) True used by (metis diff_diff_cancel eq_diff_iff linorder_not_less nat_le_linear)
    then show ?thesis
      using p sco_inv_entry [OF assms(1) i] eqs sco_staticD [OF eqs(1)]
      by (auto simp: sco_entry_ok_def Let_def sco_phys_def)
  next
    case False
    then show ?thesis using i sco_inv_entry [OF assms(1) i] eqs(2)
      by (simp add: sco_entry_ok_def Let_def sco_present_def)
  qed
  then have "sco_inv s'"
    using assms(1) eqs sco_staticD [OF eqs(1)] sco_present_cong [OF eqs(2)] sco_phys_cong [OF eqs(2)]
    by (auto simp: sco_inv_def)
  then show ?thesis using eqs by (intro conjI sco_data_frame_same_fd) simp_all
qed

lemma sco_drop_old_result:
  assumes "sco_inv s" "i < sb_cluster_count (sco_sb s)"
    and "te_state old = SCO_MAP_STATE_PRESENT \<Longrightarrow> te_physical_cluster old \<noteq> pc \<Longrightarrow>
      \<forall>j. sco_present s j \<longrightarrow> sco_phys s j \<noteq> te_physical_cluster old"
    and "te_state old = SCO_MAP_STATE_PRESENT \<Longrightarrow> sco_data_cluster_base s \<le> te_physical_cluster old"
  defines "s' \<equiv> sco_drop_old_cluster s i old pc"
  shows "sco_data_frame {} s s' \<and> sco_file_size s' = sco_file_size s \<and> h_size (sco_fd s') = h_size (sco_fd s)"
proof (cases "te_state old = SCO_MAP_STATE_PRESENT \<and> te_physical_cluster old \<noteq> pc")
  case False
  then have "s' = s" by (auto simp: s'_def sco_drop_old_cluster_def)
  then show ?thesis using assms(1) by simp
next
  case True
  let ?q = "te_physical_cluster old" and ?cs = "sb_cluster_size (sco_sb s)"
    and ?len = "sco_cluster_stored_length (sco_sb s) i"
  have un: "\<forall>j. sco_present s j \<longrightarrow> sco_phys s j \<noteq> ?q" using assms(3) True by blast
  define t where "t = sco_data_allocator_release s ?q"
  note t = sco_release_result [OF assms(1) un, of "{}", folded t_def]
  have tb: "sco_sb t = sco_sb s" using t sco_staticD(1) [of t s] by (simp add: sco_data_frame_def)
  obtain fd r where p: "scorpi_host_punch_hole (sco_fd s) (?q * ?cs) ?len = (fd, r)" by fastforce
  have s': "s' = t\<lparr>sco_fd := fd\<rparr>"
    using True p t tb by (simp add: s'_def sco_drop_old_cluster_def t_def [symmetric] sco_io_def)
  note fr = punch_hole_frame [OF p]
  have invt: "sco_inv t" using t by (simp add: sco_data_frame_def)
  have inv': "sco_inv s'"
    unfolding s' using sco_invD [OF invt] invt fr(1) t by (intro sco_inv_mono [OF invt]) (auto simp: sco_inv_def)
  have len: "?len \<le> ?cs" by (rule sco_stored_length_bounds(2) [OF sco_invD(1) [OF assms(1)] assms(2)])
  have "h_bytes fd a = h_bytes (sco_fd s) a" if a: "sco_live s a" for a
  proof (rule fr(2))
    from a show "a < ?q * ?cs \<or> ?q * ?cs + ?len \<le> a"
      unfolding sco_live_def
    proof (elim disjE exE conjE)
      assume "a < sb_data_area_offset (sco_sb s)"
      moreover have "sco_data_cluster_base s * ?cs \<le> ?q * ?cs" using assms(4) True by (intro mult_le_mono1) simp
      ultimately show ?thesis using sco_invD(3) [OF assms(1)] by linarith
    next
      fix j assume "sco_present s j" "a \<in> sco_cluster_bytes s j"
      from sco_cluster_bytes_disjoint [OF assms(1) this(1) _ this(2), of ?q] un len \<open>sco_present s j\<close>
      show ?thesis by auto
    qed
  qed
  then show ?thesis using inv' t fr(1) by (auto simp: sco_data_frame_def s')
qed

lemma sco_inv_set_entry:
  assumes "sco_inv s" "i < length (sco_table s)"
    and "te_state e \<le> 3" "te_generation e \<le> UINT32_MAX" "te_active_slot e \<le> 1"
    and "te_state e = SCO_MAP_STATE_PRESENT \<Longrightarrow>
      sco_data_cluster_base s \<le> te_physical_cluster e \<and>
      te_physical_cluster e < sco_data_cluster_base s + sco_data_cluster_count s \<and>
      te_physical_cluster e \<le> UINT32_MAX \<and>
      sco_data_cluster_used s ! (te_physical_cluster e - sco_data_cluster_base s) \<and>
      te_physical_cluster e * sb_cluster_size (sco_sb s) + sco_cluster_stored_length (sco_sb s) i \<le> sco_file_size s \<and>
      (\<forall>j. sco_present s j \<longrightarrow> sco_phys s j \<noteq> te_physical_cluster e)"
  shows "sco_inv (s\<lparr>sco_table := (sco_table s)[i := e]\<rparr>)"
proof -
  let ?s = "s\<lparr>sco_table := (sco_table s)[i := e]\<rparr>"
  have pr: "sco_present ?s j = (if j = i then te_state e = SCO_MAP_STATE_PRESENT else sco_present s j)"
    "sco_phys ?s j = (if j = i then te_physical_cluster e else sco_phys s j)" for j
    using assms(2) by (auto simp: sco_present_def sco_phys_def nth_list_update)
  have "sco_entry_ok ?s j" if "j < length (sco_table s)" for j
  proof (cases "j = i")
    case True
    then show ?thesis using assms(2-6) by (auto simp: sco_entry_ok_def Let_def)
  next
    case False
    have "sco_entry_ok s j" using assms(1) that by (simp add: sco_inv_def)
    then show ?thesis using False by (simp add: sco_entry_ok_def Let_def)
  qed
  moreover have "sco_phys ?s j \<noteq> sco_phys ?s k" if "sco_present ?s j" "sco_present ?s k" "j \<noteq> k" for j k
    using that assms(1,6) by (auto simp: pr sco_inv_def split: if_splits)
  ultimately show ?thesis using assms(1) by (simp add: sco_inv_def)
qed

definition sco_commit_args_ok :: "sco_image \<Rightarrow> nat \<Rightarrow> nat \<Rightarrow> nat \<Rightarrow> nat \<Rightarrow> bool" where
  "sco_commit_args_ok s i st po pc \<longleftrightarrow> i < sb_cluster_count (sco_sb s) \<and> st \<le> 3 \<and>
     (if st = SCO_MAP_STATE_PRESENT then
        po = pc * sb_cluster_size (sco_sb s) \<and> sco_data_cluster_base s \<le> pc \<and>
        pc < sco_data_cluster_base s + sco_data_cluster_count s \<and> pc \<le> UINT32_MAX \<and>
        sco_data_cluster_used s ! (pc - sco_data_cluster_base s) \<and>
        po + sco_cluster_stored_length (sco_sb s) i \<le> sco_file_size s \<and>
        (\<forall>j. sco_present s j \<longrightarrow> sco_phys s j \<noteq> pc)
      else po = 0 \<and> pc = 0)"

definition sco_new_entry :: "sco_table_entry \<Rightarrow> nat \<Rightarrow> nat \<Rightarrow> sco_table_entry" where
  "sco_new_entry old st pc =
     \<lparr>te_generation = te_generation old + 1, te_physical_cluster = pc, te_state = st,
      te_active_slot = sco_next_slot old, te_flags = 0\<rparr>"

definition sco_commit_slot :: "sco_image \<Rightarrow> nat \<Rightarrow> nat \<Rightarrow> nat \<Rightarrow> byte list" where
  "sco_commit_slot s i st pc =
     sco_build_slot (sco_sb s) i (sco_next_slot (sco_table s ! i)) (te_generation (sco_table s ! i) + 1) st pc"

lemma sco_commit_eq:
  assumes "sco_inv s" "sco_commit_args_ok s i st po pc" "te_generation (sco_table s ! i) \<noteq> UINT32_MAX"
  shows "sco_commit_table_entry s i st po =
    and_then (sco_io s (write_exact (sco_fd s)
        (sco_table_slot_offset (sco_sb s) i (sco_next_slot (sco_table s ! i))) (sco_commit_slot s i st pc)))
      (\<lambda>t _. and_then (sco_trace_fsync t)
      (\<lambda>t _. (sco_drop_old_cluster (t\<lparr>sco_table := (sco_table t)[i := sco_new_entry (sco_table s ! i) st pc]\<rparr>)
               i (sco_table s ! i) pc, Inr ())))"
proof -
  have st: "sco_state_valid st" and i: "i < sb_cluster_count (sco_sb s)"
    using assms(2) by (auto simp: sco_commit_args_ok_def sco_state_valid_def)
  have pres: "sb_data_area_offset (sco_sb s) \<le> po" "po mod sb_cluster_size (sco_sb s) = 0"
    "po div sb_cluster_size (sco_sb s) = pc" "pc \<noteq> 0" "pc \<le> UINT32_MAX" if "st = SCO_MAP_STATE_PRESENT"
    using that assms(2) sco_invD(3,7,8) [OF assms(1)]
      mult_le_mono1 [of "sco_data_cluster_base s" pc "sb_cluster_size (sco_sb s)"]
    by (auto simp: sco_commit_args_ok_def)
  have abs: "po = 0" "pc = 0" if "st \<noteq> SCO_MAP_STATE_PRESENT"
    using that assms(2) by (auto simp: sco_commit_args_ok_def)
  show ?thesis
    using st i pres abs assms(3)
    by (cases "st = SCO_MAP_STATE_PRESENT")
       (simp_all add: sco_commit_table_entry_def sco_commit_slot_def sco_new_entry_def sco_next_slot_def Let_def
          split del: if_split cong: if_cong)
qed

lemma sco_inv_distinct:
  "sco_inv s \<Longrightarrow> sco_present s i \<Longrightarrow> sco_present s j \<Longrightarrow> i \<noteq> j \<Longrightarrow> sco_phys s i \<noteq> sco_phys s j"
  by (simp add: sco_inv_def)

text \<open>Replacing the entry in memory and dropping the old cluster.\<close>

lemma sco_install_entry:
  assumes "sco_inv s" "sco_commit_args_ok s i st po pc" "te_generation (sco_table s ! i) < UINT32_MAX"
  defines "s' \<equiv> sco_drop_old_cluster (s\<lparr>sco_table := (sco_table s)[i := sco_new_entry (sco_table s ! i) st pc]\<rparr>)
             i (sco_table s ! i) pc"
  shows "sco_inv s' \<and> sco_static s' = sco_static s \<and> sco_file_size s' = sco_file_size s \<and>
    h_size (sco_fd s') = h_size (sco_fd s) \<and>
    sco_table s' = (sco_table s)[i := sco_new_entry (sco_table s ! i) st pc] \<and>
    (\<forall>a. sco_live s' a \<longrightarrow> a < h_size (sco_fd s) \<and> h_bytes (sco_fd s') a = h_bytes (sco_fd s) a)"
proof -
  let ?old = "sco_table s ! i"
  define t where "t = s\<lparr>sco_table := (sco_table s)[i := sco_new_entry ?old st pc]\<rparr>"
  have i: "i < sb_cluster_count (sco_sb s)" "i < length (sco_table s)"
    using assms(2) sco_invD(2) [OF assms(1)] by (auto simp: sco_commit_args_ok_def)
  have inv: "sco_inv t"
    unfolding t_def using assms(2,3) i
    by (intro sco_inv_set_entry [OF assms(1)]) (auto simp: sco_new_entry_def sco_commit_args_ok_def)
  have pr: "sco_present t j = (if j = i then st = SCO_MAP_STATE_PRESENT else sco_present s j)"
    "sco_phys t j = (if j = i then pc else sco_phys s j)" for j
    using i(2) by (auto simp: t_def sco_present_def sco_phys_def nth_list_update sco_new_entry_def)
  have d: "sco_data_frame {} t s' \<and> sco_file_size s' = sco_file_size t \<and> h_size (sco_fd s') = h_size (sco_fd t)"
    unfolding s'_def t_def [symmetric]
  proof (rule sco_drop_old_result [OF inv])
    show "i < sb_cluster_count (sco_sb t)" using i by (simp add: t_def)
    assume "te_state ?old = SCO_MAP_STATE_PRESENT"
    then have p: "sco_present s i" using i(2) by (simp add: sco_present_def)
    show "sco_data_cluster_base t \<le> te_physical_cluster ?old"
      using sco_inv_present(2) [OF assms(1) p] by (simp add: t_def sco_phys_def)
    assume "te_physical_cluster ?old \<noteq> pc"
    then show "\<forall>j. sco_present t j \<longrightarrow> sco_phys t j \<noteq> te_physical_cluster ?old"
      using sco_inv_distinct [OF assms(1) _ p] by (auto simp: pr sco_phys_def [of s i, symmetric])
  qed
  have "sco_live s' = sco_live t"
    using d sco_live_cong [of s' t] sco_staticD(1) [of s' t] by (simp add: sco_data_frame_def)
  then show ?thesis
    using d sco_live_size [OF inv] by (simp add: sco_data_frame_def t_def)
qed

text \<open>
  What a commit leaves behind.  If it fails, the old table still stands and only the slot
  that is not in use may have changed on disk; if it succeeds, the entry is replaced, the
  new slot is on disk, and every byte the new table refers to is intact.
\<close>

lemma sco_commit_cases:
  assumes "sco_inv s" "sco_commit_args_ok s i st po pc" "sco_commit_table_entry s i st po = (s', r)"
  defines "R \<equiv> sco_slot_range (sco_sb s) i (sco_next_slot (sco_table s ! i))"
  obtains (fail) e where "r = Inl e" "sco_data_frame R s s'" "sco_file_size s' = sco_file_size s"
      "h_size (sco_fd s') = h_size (sco_fd s)"
  | (ok) "r = Inr ()" "sco_inv s'" "sco_static s' = sco_static s" "sco_file_size s' = sco_file_size s"
      "h_size (sco_fd s') = h_size (sco_fd s)" "te_generation (sco_table s ! i) < UINT32_MAX"
      "sco_table s' = (sco_table s)[i := sco_new_entry (sco_table s ! i) st pc]"
      "\<And>a. sco_live s' a \<Longrightarrow> a \<notin> R \<Longrightarrow> h_bytes (sco_fd s') a = h_bytes (sco_fd s) a"
      "sco_slot_bytes s' i (sco_next_slot (sco_table s ! i)) = sco_commit_slot s i st pc"
proof (cases "te_generation (sco_table s ! i) = UINT32_MAX")
  case True
  then have "s' = s \<and> (\<exists>e. r = Inl e)"
    using assms(3) by (auto simp: sco_commit_table_entry_def Let_def split: if_splits)
  then show ?thesis using fail assms(1) by auto
next
  case False
  let ?old = "sco_table s ! i" and ?sb = "sco_sb s"
  let ?new = "sco_new_entry ?old st pc"
  note g = sco_invD(1) [OF assms(1)]
  have i: "i < sb_cluster_count ?sb" "i < length (sco_table s)"
    using assms(2) sco_invD(2) [OF assms(1)] by (auto simp: sco_commit_args_ok_def)
  have gen: "te_generation ?old < UINT32_MAX"
    using sco_inv_entry(2) [OF assms(1) i(2)] False by simp
  obtain fd wr where w: "write_exact (sco_fd s) (sco_table_slot_offset ?sb i (sco_next_slot ?old))
      (sco_commit_slot s i st pc) = (fd, wr)" by fastforce
  define s1 where "s1 = s\<lparr>sco_fd := fd\<rparr>"
  note w1 = sco_write_slot [OF assms(1) i(1) sco_next_slot_le(1) _ w, folded R_def s1_def]
  have f1: "sco_data_frame R s s1" and h1: "h_size fd = h_size (sco_fd s)"
    and b1: "\<And>a. a < h_size (sco_fd s) \<Longrightarrow> a \<notin> R \<Longrightarrow> h_bytes fd a = h_bytes (sco_fd s) a"
    using w1(1,2,4) by (simp_all add: sco_commit_slot_def)
  from assms(3) sco_commit_eq [OF assms(1,2) False]
  have c: "and_then (s1, wr) (\<lambda>t _. and_then (sco_trace_fsync t)
      (\<lambda>t _. (sco_drop_old_cluster (t\<lparr>sco_table := (sco_table t)[i := ?new]\<rparr>) i ?old pc, Inr ()))) = (s', r)"
    by (simp add: w sco_io_def s1_def)
  then show ?thesis
  proof (cases rule: and_then_cases)
    case (fail e)
    then show ?thesis using that(1) f1 h1 by (auto simp: s1_def)
  next
    case (ok t u)
    then have wr: "wr = Inr ()" and t: "t = s1" by auto
    obtain s2 fr where s2: "sco_trace_fsync s1 = (s2, fr)" by fastforce
    note os = sco_only_scriptD [OF sco_fsync_only_script [OF s2]]
    have inv1: "sco_inv s1" using f1 by (simp add: sco_data_frame_def)
    have f2: "sco_data_frame R s s2"
      using sco_data_frame_trans [OF f1 sco_only_script_data_frame [OF inv1 sco_fsync_only_script [OF s2]]] .
    have h2: "h_size (sco_fd s2) = h_size (sco_fd s)" "h_bytes (sco_fd s2) = h_bytes fd"
      "sco_file_size s2 = sco_file_size s" "sco_static s2 = sco_static s" "sco_table s2 = sco_table s"
      using os(1-4) h1 by (auto simp: same_data_def s1_def)
    have alloc2: "sco_data_cluster_count s2 = sco_data_cluster_count s"
      "sco_data_cluster_used s2 = sco_data_cluster_used s"
      using s2 by (auto simp: sco_trace_fsync_def sco_io_fd s1_def)
    from ok(2) [unfolded t s2] show ?thesis
    proof (cases rule: and_then_cases)
      case (fail e)
      then show ?thesis using that(1) [of e] f2 h2 by auto
    next
      case ok': (ok s2' v)
      have inv2: "sco_inv s2" using f2 by (simp add: sco_data_frame_def)
      note sb2 = sco_staticD [OF h2(4)]
      have args2: "sco_commit_args_ok s2 i st po pc"
        using assms(2) sb2 h2(3) alloc2 sco_present_cong [OF h2(5)] sco_phys_cong [OF h2(5)]
        by (auto simp: sco_commit_args_ok_def split: if_splits)
      have s': "s' = sco_drop_old_cluster (s2\<lparr>sco_table := (sco_table s2)[i := ?new]\<rparr>) i ?old pc" "r = Inr ()"
        using ok' by auto
      note d = sco_install_entry [OF inv2 args2, unfolded h2(5), OF gen, folded s'(1) [unfolded h2(5)]]
      have live: "h_bytes (sco_fd s') a = h_bytes (sco_fd s) a" if "sco_live s' a" "a \<notin> R" for a
        using d that b1 [OF _ that(2)] h2(1,2) by simp
      have "h_bytes (sco_fd s') a = h_bytes fd a" if "a \<in> R" for a
        using d sco_slot_range_metadata [OF g i(1) sco_next_slot_le(1) that [unfolded R_def]] sb2(1) h2(2)
          sco_staticD(1) [of s' s2] by (simp add: sco_live_def)
      then have "sco_slot_bytes s' i (sco_next_slot ?old) = get_bytes (h_bytes fd) (sco_slot_addr ?sb i (sco_next_slot ?old)) 16"
        using d sb2(1) sco_staticD(1) [of s' s2]
        by (auto simp: sco_slot_bytes_def R_def sco_slot_range_def intro!: get_bytes_cong)
      with w1(3) [OF _ wr] have "sco_slot_bytes s' i (sco_next_slot ?old) = sco_commit_slot s i st pc"
        by (simp add: sco_commit_slot_def)
      then show ?thesis
        using that(2) [OF s'(2)] d h2 gen live by simp
    qed
  qed
qed

text \<open>The content after a commit: cluster \<open>i\<close> reads as the new entry says, the rest as before.\<close>

definition sco_entry_cell :: "sco_image \<Rightarrow> nat \<Rightarrow> nat \<Rightarrow> nat \<Rightarrow> byte option" where
  "sco_entry_cell s st po k =
     (if st = SCO_MAP_STATE_PRESENT then Some (h_bytes (sco_fd s) (po + k))
      else if st = SCO_MAP_STATE_ABSENT then None else Some 0)"

lemma sco_commit_cells:
  assumes "sco_inv s" "sco_commit_args_ok s i st po pc" "sco_commit_table_entry s i st po = (s', r)"
  defines "cs \<equiv> sb_cluster_size (sco_sb s)"
  shows "sco_inv s'" "sco_static s' = sco_static s"
    and "\<not> is_ok r \<Longrightarrow> sco_cell s' = sco_cell s"
    and "is_ok r \<Longrightarrow> sco_cell s' x =
      (if x < sb_virtual_size (sco_sb s) \<and> x div cs = i then sco_entry_cell s st po (x mod cs) else sco_cell s x)"
proof -
  note g = sco_invD(1) [OF assms(1)]
  have i: "i < sb_cluster_count (sco_sb s)" "i < length (sco_table s)"
    using assms(2) sco_invD(2) [OF assms(1)] by (auto simp: sco_commit_args_ok_def)
  let ?R = "sco_slot_range (sco_sb s) i (sco_next_slot (sco_table s ! i))"
  have R: "a < sb_data_area_offset (sco_sb s)" if "a \<in> ?R" for a
    by (rule sco_slot_range_metadata [OF g i(1) _ that]) simp
  from assms(1-3) have "sco_inv s' \<and> sco_static s' = sco_static s \<and> (\<not> is_ok r \<longrightarrow> sco_cell s' = sco_cell s) \<and>
      (is_ok r \<longrightarrow> sco_cell s' x =
        (if x < sb_virtual_size (sco_sb s) \<and> x div cs = i then sco_entry_cell s st po (x mod cs) else sco_cell s x))"
  proof (cases rule: sco_commit_cases)
    case (fail e)
    then show ?thesis using sco_data_frame_cell [OF assms(1) _ R] by (auto simp: sco_data_frame_def)
  next
    case ok
    have sb: "sco_sb s' = sco_sb s" using sco_staticD(1) [OF ok(3)] .
    have "sco_cell s' x =
        (if x < sb_virtual_size (sco_sb s) \<and> x div cs = i then sco_entry_cell s st po (x mod cs) else sco_cell s x)"
    proof (cases "x < sb_virtual_size (sco_sb s) \<and> te_state (sco_table s' ! (x div cs)) = SCO_MAP_STATE_PRESENT")
      case True
      let ?j = "x div cs"
      have j: "?j < length (sco_table s')" "?j < sb_cluster_count (sco_sb s)"
        using sco_cluster_index_less [OF g] True ok(7) sco_invD(2) [OF assms(1)] by (simp_all add: cs_def)
      then have p: "sco_present s' ?j" using True by (simp add: sco_present_def)
      have "sco_phys s' ?j * cs + x mod cs \<in> sco_cluster_bytes s' ?j"
        using sco_offset_in_cluster [OF g] True by (simp add: sco_cluster_bytes_def sb cs_def)
      then have live: "sco_live s' (sco_phys s' ?j * cs + x mod cs)" using p by (auto simp: sco_live_def)
      have "sb_data_area_offset (sco_sb s) \<le> sco_phys s' ?j * cs + x mod cs"
        using sco_inv_present(7) [OF ok(2) p] by (simp add: sb cs_def)
      then have "h_bytes (sco_fd s') (sco_phys s' ?j * cs + x mod cs) = h_bytes (sco_fd s) (sco_phys s' ?j * cs + x mod cs)"
        using R by (intro ok(8) [OF live]) (metis linorder_not_le)
      then have "sco_cell s' x = Some (h_bytes (sco_fd s) (sco_phys s' ?j * cs + x mod cs))"
        using True by (simp add: sco_cell_def sb cs_def Let_def sco_phys_def)
      moreover have "st = SCO_MAP_STATE_PRESENT \<and> sco_phys s' ?j * cs = po" if "?j = i"
        using True that i(2) assms(2) by (simp add: ok(7) sco_phys_def sco_new_entry_def sco_commit_args_ok_def cs_def)
      moreover have "sco_cell s x = Some (h_bytes (sco_fd s) (sco_phys s' ?j * cs + x mod cs))" if "?j \<noteq> i"
        using True that by (simp add: ok(7) sco_phys_def sco_cell_def cs_def Let_def)
      ultimately show ?thesis using True by (simp add: sco_entry_cell_def)
    next
      case False
      then show ?thesis
        using i(2) by (auto simp: sco_cell_def sb cs_def [symmetric] Let_def ok(7) sco_entry_cell_def sco_new_entry_def)
    qed
    then show ?thesis using ok by auto
  qed
  then show "sco_inv s'" "sco_static s' = sco_static s" "\<not> is_ok r \<Longrightarrow> sco_cell s' = sco_cell s"
    "is_ok r \<Longrightarrow> sco_cell s' x =
      (if x < sb_virtual_size (sco_sb s) \<and> x div cs = i then sco_entry_cell s st po (x mod cs) else sco_cell s x)"
    by blast+
qed

section \<open>Writing and discarding within a cluster\<close>

text \<open>What an update of the range at \<open>off\<close> with the bytes \<open>buf\<close> owes its caller.\<close>

definition sco_update_post :: "sco_image \<Rightarrow> nat \<Rightarrow> byte list \<Rightarrow> sco_image \<Rightarrow> unit res \<Rightarrow> bool" where
  "sco_update_post s off buf s' r \<longleftrightarrow> sco_inv s' \<and> sco_static s' = sco_static s \<and>
     cells_outside (sco_has_base s) (sco_cell s) off (length buf) (sco_cell s') \<and>
     (is_ok r \<longrightarrow> cells_updated (sco_has_base s) (sco_cell s) off buf (sco_cell s'))"

lemma sco_update_post_fail:
  "sco_inv s' \<Longrightarrow> sco_static s' = sco_static s \<Longrightarrow> sco_cell s' = sco_cell s \<Longrightarrow> sco_update_post s off buf s' (Inl e)"
  by (simp add: sco_update_post_def)

lemma sco_update_postI:
  "sco_inv s' \<Longrightarrow> sco_static s' = sco_static s \<Longrightarrow>
     cells_updated (sco_has_base s) (sco_cell s) off buf (sco_cell s') \<Longrightarrow> sco_update_post s off buf s' r"
  unfolding sco_update_post_def using cells_updated_outside by blast

lemma sco_update_post_refl [simp]: "sco_inv s \<Longrightarrow> sco_update_post s off buf s (Inl e)"
  by (simp add: sco_update_post_def)

text \<open>
  Replacing the content of a whole cluster by \<open>cl\<close> is an update of a range of it, when
  \<open>cl\<close> agrees with what the rest of the cluster held before.
\<close>

lemma set_cluster_updates:
  assumes "sco_geometry sb" "i < sb_cluster_count sb" "coff + length buf \<le> sco_cluster_stored_length sb i"
    and "\<And>x. c' x = (if x < sb_virtual_size sb \<and> x div sb_cluster_size sb = i
                        then Some (cl ! (x mod sb_cluster_size sb)) else c x)"
    and "\<And>k. coff \<le> k \<Longrightarrow> k < coff + length buf \<Longrightarrow> cl ! k = buf ! (k - coff)"
    and "\<And>k. k < sco_cluster_stored_length sb i \<Longrightarrow> k < coff \<or> coff + length buf \<le> k \<Longrightarrow>
      c (i * sb_cluster_size sb + k) = Some (cl ! k) \<or>
      (\<not> hb \<and> c (i * sb_cluster_size sb + k) = None \<and> cl ! k = 0)"
  shows "cells_updated hb c (i * sb_cluster_size sb + coff) buf c'"
  unfolding cells_updated_def
proof
  fix x
  let ?cs = "sb_cluster_size sb" and ?off = "i * sb_cluster_size sb + coff"
  note b = sco_stored_length_bounds [OF assms(1,2)]
  show "if ?off \<le> x \<and> x < ?off + length buf then c' x = Some (buf ! (x - ?off))
        else c' x = c x \<or> (\<not> hb \<and> c x = None \<and> c' x = Some 0)"
  proof (cases "?off \<le> x \<and> x < ?off + length buf")
    case True
    then have x: "i * ?cs \<le> x" "x < i * ?cs + sco_cluster_stored_length sb i" using assms(3) by linarith+
    then have d: "x div ?cs = i" using b(2) by (intro div_eq_of_bounds) (auto simp: algebra_simps)
    have m: "x = i * ?cs + x mod ?cs" using d by (metis div_mult_mod_eq)
    have "x < sb_virtual_size sb" using x b(3) by linarith
    moreover have "cl ! (x mod ?cs) = buf ! (x - ?off)"
      using assms(5) [of "x mod ?cs"] m True by (metis (no_types, lifting) add_diff_cancel_left add_le_cancel_left
        diff_diff_left group_cancel.add1 nat_add_left_cancel_less)
    ultimately show ?thesis using assms(4) [of x] d True by simp
  next
    case False
    show ?thesis
    proof (cases "x < sb_virtual_size sb \<and> x div ?cs = i")
      case True
      have m: "x = i * ?cs + x mod ?cs" using True by (metis div_mult_mod_eq)
      have k: "x mod ?cs < sco_cluster_stored_length sb i" using sco_offset_in_cluster [OF assms(1)] True by blast
      have "x mod ?cs < coff \<or> coff + length buf \<le> x mod ?cs" using False m by linarith
      from assms(6) [OF k this] m assms(4) [of x] True False show ?thesis by auto
    qed (use assms(4) [of x] False in auto)
  qed
qed

lemma sco_commit_zero_post:
  assumes "sco_inv s" "i < sb_cluster_count (sco_sb s)" "st = SCO_MAP_STATE_ZERO \<or> st = SCO_MAP_STATE_DISCARDED"
    and "coff + n \<le> sco_cluster_stored_length (sco_sb s) i"
    and "\<And>k. k < sco_cluster_stored_length (sco_sb s) i \<Longrightarrow> k < coff \<or> coff + n \<le> k \<Longrightarrow>
      sco_cell s (i * sb_cluster_size (sco_sb s) + k) = Some 0 \<or>
      (\<not> sco_has_base s \<and> sco_cell s (i * sb_cluster_size (sco_sb s) + k) = None)"
    and "sco_commit_table_entry s i st 0 = (s', r)"
  shows "sco_update_post s (i * sb_cluster_size (sco_sb s) + coff) (zeros n) s' r"
proof -
  let ?sb = "sco_sb s" and ?len = "sco_cluster_stored_length (sco_sb s) i"
  have args: "sco_commit_args_ok s i st 0 0" using assms(2,3) by (auto simp: sco_commit_args_ok_def)
  note c = sco_commit_cells [OF assms(1) args assms(6)]
  show ?thesis
  proof (cases "is_ok r")
    case False
    then show ?thesis using c by (auto simp: sco_update_post_def)
  next
    case True
    have "cells_updated (sco_has_base s) (sco_cell s) (i * sb_cluster_size ?sb + coff) (zeros n) (sco_cell s')"
    proof (rule set_cluster_updates [OF sco_invD(1) [OF assms(1)] assms(2), where cl = "zeros ?len"])
      show "coff + length (zeros n) \<le> ?len" using assms(4) by simp
      fix x
      show "sco_cell s' x = (if x < sb_virtual_size ?sb \<and> x div sb_cluster_size ?sb = i
          then Some (zeros ?len ! (x mod sb_cluster_size ?sb)) else sco_cell s x)"
        using c(4) [OF True, of x] assms(3) sco_offset_in_cluster [OF sco_invD(1) [OF assms(1)], of x]
        by (auto simp: sco_entry_cell_def)
    next
      fix k assume "coff \<le> k" "k < coff + length (zeros n)"
      then show "zeros ?len ! k = zeros n ! (k - coff)" using assms(4) by simp
    next
      fix k assume "k < ?len" "k < coff \<or> coff + length (zeros n) \<le> k"
      with assms(5) [of k] show "sco_cell s (i * sb_cluster_size ?sb + k) = Some (zeros ?len ! k) \<or>
          (\<not> sco_has_base s \<and> sco_cell s (i * sb_cluster_size ?sb + k) = None \<and> zeros ?len ! k = 0)" by auto
    qed
    then show ?thesis using c(1,2) by (intro sco_update_postI)
  qed
qed

lemma sco_alloc_commit_args:
  assumes "sco_inv s" "i < sb_cluster_count (sco_sb s)" "sco_data_frame {} s s1" "sco_alloc_post s i cl s1 po"
    and "sco_only_script s1 s2"
  obtains pc where "sco_commit_args_ok s2 i SCO_MAP_STATE_PRESENT po pc"
    "\<And>k. k < sco_cluster_stored_length (sco_sb s) i \<Longrightarrow> h_bytes (sco_fd s2) (po + k) = cl ! k"
proof -
  from assms(5) obtain fd where s2: "s2 = s1\<lparr>sco_fd := fd\<rparr>" "same_data (sco_fd s1) fd"
    by (auto simp: sco_only_script_def)
  have t: "sco_static s1 = sco_static s" "sco_table s1 = sco_table s" using assms(3) by (simp_all add: sco_data_frame_def)
  note sb = sco_staticD [OF t(1)]
  from assms(4) obtain pc where pc: "po = pc * sb_cluster_size (sco_sb s)" "sco_data_cluster_base s \<le> pc"
    "pc \<le> UINT32_MAX" "pc < sco_data_cluster_base s + sco_data_cluster_count s1"
    "sco_data_cluster_used s1 ! (pc - sco_data_cluster_base s)" "\<forall>j. sco_present s j \<longrightarrow> sco_phys s j \<noteq> pc"
    by (auto simp: sco_alloc_post_def)
  have "sco_present s2 = sco_present s" "sco_phys s2 = sco_phys s"
    using t(2) s2(1) by (simp_all add: sco_present_def sco_phys_def fun_eq_iff)
  then have "sco_commit_args_ok s2 i SCO_MAP_STATE_PRESENT po pc"
    using pc assms(2,4) sb by (simp add: sco_commit_args_ok_def s2(1) sco_alloc_post_def)
  then show ?thesis
    using that assms(4) s2 by (simp add: sco_alloc_post_def same_data_def)
qed

lemma sco_new_cluster_post:
  assumes "sco_inv s" "i < sb_cluster_count (sco_sb s)" "length cl = sco_cluster_stored_length (sco_sb s) i"
    and "coff + length buf \<le> sco_cluster_stored_length (sco_sb s) i"
    and "\<And>k. coff \<le> k \<Longrightarrow> k < coff + length buf \<Longrightarrow> cl ! k = buf ! (k - coff)"
    and "\<And>k. k < sco_cluster_stored_length (sco_sb s) i \<Longrightarrow> k < coff \<or> coff + length buf \<le> k \<Longrightarrow>
      sco_cell s (i * sb_cluster_size (sco_sb s) + k) = Some (cl ! k) \<or>
      (\<not> sco_has_base s \<and> sco_cell s (i * sb_cluster_size (sco_sb s) + k) = None \<and> cl ! k = 0)"
    and "sco_write_new_cluster s i cl = (s', r)"
  shows "sco_update_post s (i * sb_cluster_size (sco_sb s) + coff) buf s' r"
proof -
  let ?sb = "sco_sb s"
  obtain s1 r1 where al: "sco_alloc_data_cluster s i cl = (s1, r1)" by fastforce
  note a = sco_alloc_result [OF assms(1-3) al]
  have fail1: "sco_update_post s off buf s1 (Inl e)" for off e
    using a sco_data_frame_cell [OF assms(1), of "{}" s1] by (intro sco_update_post_fail) (auto simp: sco_data_frame_def)
  from assms(7) [unfolded sco_write_new_cluster_def al] show ?thesis
  proof (cases rule: and_then_cases)
    case (fail e)
    then show ?thesis using fail1 by simp
  next
    case (ok s1' po)
    then have po: "s1' = s1" "r1 = Inr po" by auto
    obtain s2 r2 where fs: "sco_trace_fsync s1 = (s2, r2)" by fastforce
    note os = sco_fsync_only_script [OF fs]
    have f1: "sco_data_frame {} s s1" and inv1: "sco_inv s1" using a by (simp_all add: sco_data_frame_def)
    have f2: "sco_data_frame {} s s2"
      by (rule sco_data_frame_trans [OF f1 sco_only_script_data_frame [OF inv1 os]])
    have c2: "sco_cell s2 = sco_cell s" using sco_data_frame_cell [OF assms(1) f2] by simp
    have s2: "sco_inv s2" "sco_static s2 = sco_static s" using f2 by (simp_all add: sco_data_frame_def)
    note sb2 = sco_staticD [OF s2(2)]
    from ok(2) [unfolded po(1) fs] show ?thesis
    proof (cases rule: and_then_cases)
      case (fail e)
      then show ?thesis using s2 c2 by (auto intro: sco_update_post_fail)
    next
      case ok': (ok s2' u)
      then have cm: "sco_commit_table_entry s2 i SCO_MAP_STATE_PRESENT po = (s', r)" by auto
      obtain pc where args: "sco_commit_args_ok s2 i SCO_MAP_STATE_PRESENT po pc"
        and by2: "\<And>k. k < sco_cluster_stored_length ?sb i \<Longrightarrow> h_bytes (sco_fd s2) (po + k) = cl ! k"
        using sco_alloc_commit_args [OF assms(1,2) _ _ os, of cl po] a po(2) by blast
      note c = sco_commit_cells [OF s2(1) args cm, unfolded sb2 s2(2) c2]
      have "cells_updated (sco_has_base s) (sco_cell s) (i * sb_cluster_size ?sb + coff) buf (sco_cell s')"
        if r: "is_ok r"
      proof (rule set_cluster_updates [OF sco_invD(1) [OF assms(1)] assms(2,4) _ assms(5,6)])
        fix x
        show "sco_cell s' x = (if x < sb_virtual_size ?sb \<and> x div sb_cluster_size ?sb = i
            then Some (cl ! (x mod sb_cluster_size ?sb)) else sco_cell s x)"
          using c(4) [OF r, of x] sco_offset_in_cluster [OF sco_invD(1) [OF assms(1)], of x] by2
          by (auto simp: sco_entry_cell_def)
      qed
      then show ?thesis
        using c(1-3) sco_update_postI [of s' s] by (cases "is_ok r") (auto simp: sco_update_post_def)
    qed
  qed
qed

lemma sco_inplace_post:
  assumes "sco_inv s" "sco_present s i" "coff + length buf \<le> sco_cluster_stored_length (sco_sb s) i"
    and "write_exact (sco_fd s) (sco_phys s i * sb_cluster_size (sco_sb s) + coff) buf = (fd, r)"
  shows "sco_update_post s (i * sb_cluster_size (sco_sb s) + coff) buf (s\<lparr>sco_fd := fd\<rparr>) r"
proof -
  let ?sb = "sco_sb s" and ?cs = "sb_cluster_size (sco_sb s)"
  let ?po = "sco_phys s i * ?cs" and ?off = "i * ?cs + coff"
  note g = sco_invD(1) [OF assms(1)] and p = sco_inv_present [OF assms(1,2)]
  note len = sco_stored_length_bounds [OF g p(1)]
  have bnd: "?po + coff + length buf \<le> UINT64_MAX"
    using sco_phys_bound [OF assms(1,2), of "coff + length buf"] assms(3) len(4) by linarith
  note fr = write_exact_frame [OF assms(4) bnd]
  have inv: "sco_inv (s\<lparr>sco_fd := fd\<rparr>)"
    using fr(1) sco_invD [OF assms(1)] write_exact_size_le [OF assms(4)] assms(1)
    by (intro sco_inv_mono [OF assms(1)]) (auto simp: sco_inv_def)
  have out: "sco_cell (s\<lparr>sco_fd := fd\<rparr>) x = sco_cell s x" if x: "\<not> (?off \<le> x \<and> x < ?off + length buf)" for x
  proof (cases "x < sb_virtual_size ?sb \<and> te_state (sco_table s ! (x div ?cs)) = SCO_MAP_STATE_PRESENT")
    case True
    let ?j = "x div ?cs"
    have j: "sco_present s ?j"
      using True sco_cluster_index_less [OF g, of x] sco_invD(2) [OF assms(1)] by (simp add: sco_present_def)
    let ?a = "sco_phys s ?j * ?cs + x mod ?cs"
    have a: "?a \<in> sco_cluster_bytes s ?j" using sco_offset_in_cluster [OF g, of x] True by (simp add: sco_cluster_bytes_def)
    have "?a < ?po + coff \<or> ?po + coff + length buf \<le> ?a"
    proof (cases "?j = i")
      case eq: True
      then have "x = i * ?cs + x mod ?cs" by (metis div_mult_mod_eq)
      then show ?thesis unfolding eq using x by linarith
    next
      case False
      from sco_cluster_bytes_disjoint [OF assms(1) j sco_inv_distinct [OF assms(1) j assms(2) False] a]
      show ?thesis using assms(3) len(2) by linarith
    qed
    moreover have "?a < h_size (sco_fd s)" using sco_live_size [OF assms(1)] a j by (auto simp: sco_live_def)
    ultimately have "h_bytes fd ?a = h_bytes (sco_fd s) ?a" by (rule fr(3))
    then show ?thesis using True by (simp add: sco_cell_def Let_def sco_phys_def)
  qed (simp add: sco_cell_def Let_def)
  have upd: "sco_cell (s\<lparr>sco_fd := fd\<rparr>) x = Some (buf ! (x - ?off))"
    if "r = Inr ()" and x: "?off \<le> x" "x < ?off + length buf" for x
  proof -
    have xb: "i * ?cs \<le> x" "x < i * ?cs + sco_cluster_stored_length ?sb i" using x assms(3) by linarith+
    then have d: "x div ?cs = i" using len(2) by (intro div_eq_of_bounds) (auto simp: algebra_simps)
    have m: "x = i * ?cs + x mod ?cs" using d by (metis div_mult_mod_eq)
    have "h_bytes fd (?po + x mod ?cs) = buf ! (?po + x mod ?cs - (?po + coff))"
      using that m by (intro write_exact_stored(2) [OF assms(4) [unfolded \<open>r = Inr ()\<close>] bnd]) auto
    moreover have "?po + x mod ?cs - (?po + coff) = x - ?off" using m by linarith
    moreover have "x < sb_virtual_size ?sb" using xb len(3) by linarith
    ultimately show ?thesis using d assms(2) by (simp add: sco_cell_def Let_def sco_present_def sco_phys_def)
  qed
  have "cells_outside (sco_has_base s) (sco_cell s) ?off (length buf) (sco_cell (s\<lparr>sco_fd := fd\<rparr>))"
    using out unfolding cells_outside_def by metis
  moreover have "cells_updated (sco_has_base s) (sco_cell s) ?off buf (sco_cell (s\<lparr>sco_fd := fd\<rparr>))" if "is_ok r"
    using that upd out unfolding cells_updated_def is_ok_iff by auto
  ultimately show ?thesis using inv by (simp add: sco_update_post_def)
qed

end
