(* ===== verification/Sco_Ops.thy ===== *)
theory Sco_Ops
  imports Sco_Data
begin

text \<open>
  The operations of \<open>scorpi_sco_ops\<close> on the content of an image: writes and discards of
  arbitrary ranges, built from the per-cluster steps, and the backend contract.
\<close>

section \<open>One cluster\<close>

lemma zeros_of_all_zero: "buffer_all_zero buf \<Longrightarrow> buf = zeros (length buf)"
  by (intro nth_equalityI) (auto simp: buffer_all_zero_nth)

lemma sco_lookup_cluster:
  assumes "sco_inv s" "i < sb_cluster_count (sco_sb s)"
  shows "mul64 i (sb_cluster_size (sco_sb s)) = i * sb_cluster_size (sco_sb s)"
    and "sco_lookup_extent s (i * sb_cluster_size (sco_sb s)) (sco_cluster_stored_length (sco_sb s) i) = Inr
      \<lparr>lk_extent = \<lparr>ext_offset = i * sb_cluster_size (sco_sb s), ext_length = sco_cluster_stored_length (sco_sb s) i,
         ext_state = sco_extent_of_state (te_state (sco_table s ! i))\<rparr>,
       lk_physical_offset = (if sco_present s i then sco_phys s i * sb_cluster_size (sco_sb s) else 0)\<rparr>"
proof -
  note g = sco_invD(1) [OF assms(1)]
  have lt: "i * sb_cluster_size (sco_sb s) < sb_virtual_size (sco_sb s)"
    by (rule sco_cluster_start_less [OF g assms(2)])
  then show "mul64 i (sb_cluster_size (sco_sb s)) = i * sb_cluster_size (sco_sb s)"
    using sco_geometryD(5) [OF g] by (intro mul64_exact) linarith
  show "sco_lookup_extent s (i * sb_cluster_size (sco_sb s)) (sco_cluster_stored_length (sco_sb s) i) = Inr
      \<lparr>lk_extent = \<lparr>ext_offset = i * sb_cluster_size (sco_sb s), ext_length = sco_cluster_stored_length (sco_sb s) i,
         ext_state = sco_extent_of_state (te_state (sco_table s ! i))\<rparr>,
       lk_physical_offset = (if sco_present s i then sco_phys s i * sb_cluster_size (sco_sb s) else 0)\<rparr>"
    using sco_lookup_extent_eq [OF assms(1) sco_stored_length_bounds(1) [OF g assms(2)] lt] sco_geometryD(1) [OF g]
    by simp
qed

lemma sco_cluster_cell:
  assumes "sco_inv s" "i < sb_cluster_count (sco_sb s)" "k < sco_cluster_stored_length (sco_sb s) i"
  shows "sco_cell s (i * sb_cluster_size (sco_sb s) + k) =
    sco_entry_cell s (te_state (sco_table s ! i)) (sco_phys s i * sb_cluster_size (sco_sb s)) k"
proof -
  note b = sco_stored_length_bounds [OF sco_invD(1) [OF assms(1)] assms(2)]
  have k: "k < sb_cluster_size (sco_sb s)" using assms(3) b(2) by linarith
  have "i * sb_cluster_size (sco_sb s) + k < sb_virtual_size (sco_sb s)" using assms(3) b(3) by linarith
  then show ?thesis using k by (simp add: sco_cell_def sco_entry_cell_def Let_def sco_phys_def)
qed

lemma sco_write_data_post:
  assumes "sco_inv s" "sco_present s i" "coff + length buf \<le> sco_cluster_stored_length (sco_sb s) i"
    and "sco_io s (write_exact (sco_fd s) (add64 (sco_phys s i * sb_cluster_size (sco_sb s)) coff) buf) = (s', r)"
  shows "sco_update_post s (i * sb_cluster_size (sco_sb s) + coff) buf s' r"
proof -
  have "coff \<le> 4194304"
    using assms(3) sco_stored_length_bounds(4) [OF sco_invD(1) [OF assms(1)] sco_inv_present(1) [OF assms(1,2)]]
    by linarith
  then have "add64 (sco_phys s i * sb_cluster_size (sco_sb s)) coff = sco_phys s i * sb_cluster_size (sco_sb s) + coff"
    using sco_phys_bound [OF assms(1,2), of coff] by (intro add64_exact) linarith
  with assms(4) sco_inplace_post [OF assms(1-3)] show ?thesis by (auto simp: sco_io_fd)
qed

text \<open>A whole cluster of zeros becomes a table entry without data.\<close>

lemma sco_zero_cluster_post:
  assumes "sco_inv s" "i < sb_cluster_count (sco_sb s)" "length buf = sco_cluster_stored_length (sco_sb s) i"
    and "buffer_all_zero buf" "st = SCO_MAP_STATE_ZERO \<or> st = SCO_MAP_STATE_DISCARDED"
    and "sco_commit_table_entry s i st 0 = (s', r)"
  shows "sco_update_post s (i * sb_cluster_size (sco_sb s)) buf s' r"
  using sco_commit_zero_post [OF assms(1,2,5) _ _ assms(6), of 0 "length buf"] assms(3)
    zeros_of_all_zero [OF assms(4)] by simp

lemma sco_write_present_post:
  assumes "sco_inv s" "sco_present s i" "buf \<noteq> []" "coff + length buf \<le> sco_cluster_stored_length (sco_sb s) i"
    and "ext_offset (lk_extent lk) = i * sb_cluster_size (sco_sb s)"
    and "lk_physical_offset lk = sco_phys s i * sb_cluster_size (sco_sb s)"
    and "sco_write_present_cluster s lk coff buf = (s', r)"
  shows "sco_update_post s (i * sb_cluster_size (sco_sb s) + coff) buf s' r"
proof -
  have cs: "0 < sb_cluster_size (sco_sb s)" using sco_invD(8) [OF assms(1)] .
  note eq = assms(7) [unfolded sco_write_present_cluster_def Let_def assms(5,6)]
  show ?thesis
  proof (cases "coff = 0 \<and> length buf = sco_cluster_stored_length (sco_sb s) i \<and> buffer_all_zero buf")
    case True
    with eq assms(3,4) cs have "sco_commit_table_entry s i SCO_MAP_STATE_ZERO 0 = (s', r)" by simp
    with sco_zero_cluster_post [OF assms(1) sco_inv_present(1) [OF assms(1,2)], of buf SCO_MAP_STATE_ZERO s' r] True
    show ?thesis by simp
  next
    case False
    with eq assms(3,4) cs
    have "sco_io s (write_exact (sco_fd s) (add64 (sco_phys s i * sb_cluster_size (sco_sb s)) coff) buf) = (s', r)"
      by (auto split: if_splits)
    then show ?thesis by (rule sco_write_data_post [OF assms(1,2,4)])
  qed
qed

lemma sco_write_materialized_post:
  assumes "sco_inv s" "i < sb_cluster_count (sco_sb s)" "buf \<noteq> []"
    and "coff + length buf \<le> sco_cluster_stored_length (sco_sb s) i"
    and "\<And>k. k < sco_cluster_stored_length (sco_sb s) i \<Longrightarrow> k < coff \<or> coff + length buf \<le> k \<Longrightarrow>
      sco_cell s (i * sb_cluster_size (sco_sb s) + k) = Some 0 \<or>
      (\<not> sco_has_base s \<and> sco_cell s (i * sb_cluster_size (sco_sb s) + k) = None)"
    and "sco_write_materialized_cluster s i coff buf = (s', r)"
  shows "sco_update_post s (i * sb_cluster_size (sco_sb s) + coff) buf s' r"
proof -
  let ?len = "sco_cluster_stored_length (sco_sb s) i"
  note b = sco_stored_length_bounds [OF sco_invD(1) [OF assms(1)] assms(2)]
  have ok: "\<not> (?len = 0 \<or> SIZE_MAX < ?len \<or> ?len < coff \<or> ?len - coff < length buf)"
    using b assms(4) by auto
  have eq: "sco_write_materialized_cluster s i coff buf =
      (if coff = 0 \<and> length buf = ?len then
         (if buffer_all_zero buf then sco_commit_table_entry s i SCO_MAP_STATE_ZERO 0 else sco_write_new_cluster s i buf)
       else sco_write_new_cluster s i (overwrite coff buf (zeros ?len)))"
    using assms(3) unfolding sco_write_materialized_cluster_def Let_def if_not_P [OF ok] by simp
  consider (zero) "coff = 0" "length buf = ?len" "buffer_all_zero buf"
    | (full) "coff = 0" "length buf = ?len" "\<not> buffer_all_zero buf"
    | (part) "\<not> (coff = 0 \<and> length buf = ?len)" by blast
  then show ?thesis
  proof cases
    case zero
    with assms(6) eq have "sco_commit_table_entry s i SCO_MAP_STATE_ZERO 0 = (s', r)" by simp
    with sco_zero_cluster_post [OF assms(1,2), of buf SCO_MAP_STATE_ZERO s' r] zero show ?thesis by simp
  next
    case full
    with assms(6) eq have "sco_write_new_cluster s i buf = (s', r)" by simp
    with sco_new_cluster_post [OF assms(1,2), of buf coff buf] full assms(4) show ?thesis by simp
  next
    case part
    with assms(6) eq have w: "sco_write_new_cluster s i (overwrite coff buf (zeros ?len)) = (s', r)" by (auto split: if_splits)
    show ?thesis
    proof (rule sco_new_cluster_post [OF assms(1,2) _ assms(4) _ _ w])
      fix k assume "k < ?len" "k < coff \<or> coff + length buf \<le> k"
      with assms(5) [of k] assms(4)
      show "sco_cell s (i * sb_cluster_size (sco_sb s) + k) = Some (overwrite coff buf (zeros ?len) ! k) \<or>
          (\<not> sco_has_base s \<and> sco_cell s (i * sb_cluster_size (sco_sb s) + k) = None \<and>
           overwrite coff buf (zeros ?len) ! k = 0)"
        by (auto simp: nth_overwrite)
    qed (use assms(4) in \<open>auto simp: nth_overwrite\<close>)
  qed
qed

lemma sco_state_cases:
  assumes "sco_inv s" "i < sb_cluster_count (sco_sb s)"
  obtains (absent) "te_state (sco_table s ! i) = SCO_MAP_STATE_ABSENT" "\<not> sco_present s i"
      "sco_extent_of_state (te_state (sco_table s ! i)) = SCORPI_IMAGE_EXTENT_ABSENT"
      "\<And>k. k < sco_cluster_stored_length (sco_sb s) i \<Longrightarrow> sco_cell s (i * sb_cluster_size (sco_sb s) + k) = None"
  | (present) "sco_present s i"
      "sco_extent_of_state (te_state (sco_table s ! i)) = SCORPI_IMAGE_EXTENT_PRESENT"
  | (zero) "\<not> sco_present s i"
      "sco_extent_of_state (te_state (sco_table s ! i)) = SCORPI_IMAGE_EXTENT_ZERO \<or>
       sco_extent_of_state (te_state (sco_table s ! i)) = SCORPI_IMAGE_EXTENT_DISCARDED"
      "\<And>k. k < sco_cluster_stored_length (sco_sb s) i \<Longrightarrow> sco_cell s (i * sb_cluster_size (sco_sb s) + k) = Some 0"
proof -
  have len: "i < length (sco_table s)" using assms(2) sco_invD(2) [OF assms(1)] by simp
  have "te_state (sco_table s ! i) \<le> 3" by (rule sco_inv_entry(1) [OF assms(1) len])
  then consider "te_state (sco_table s ! i) = 0" | "te_state (sco_table s ! i) = 1" |
    "te_state (sco_table s ! i) = 2" | "te_state (sco_table s ! i) = 3" by linarith
  then show ?thesis
  proof cases
    case 1
    then show ?thesis using sco_cluster_cell [OF assms] len
      by (intro absent) (simp_all add: sco_present_def sco_extent_of_state_def sco_entry_cell_def)
  next
    case 2
    then show ?thesis using len by (intro present) (simp_all add: sco_present_def sco_extent_of_state_def)
  next
    case 3
    then show ?thesis using sco_cluster_cell [OF assms] len
      by (intro zero) (simp_all add: sco_present_def sco_extent_of_state_def sco_entry_cell_def)
  next
    case 4
    then show ?thesis using sco_cluster_cell [OF assms] len
      by (intro zero) (simp_all add: sco_present_def sco_extent_of_state_def sco_entry_cell_def)
  qed
qed

lemma sco_write_cluster_range_post:
  assumes "sco_inv s" "i < sb_cluster_count (sco_sb s)" "buf \<noteq> []"
    and "coff + length buf \<le> sco_cluster_stored_length (sco_sb s) i"
    and "sco_write_cluster_range s i coff buf = (s', r)"
  shows "sco_update_post s (i * sb_cluster_size (sco_sb s) + coff) buf s' r"
proof -
  let ?len = "sco_cluster_stored_length (sco_sb s) i"
  have ok: "\<not> (?len = 0 \<or> sub64 ?len coff < length buf)"
    using assms(4) sco_stored_length_bounds(1) [OF sco_invD(1) [OF assms(1)] assms(2)] by (auto simp: sub64_exact)
  note eq = assms(5) [unfolded sco_write_cluster_range_def Let_def sco_lookup_cluster [OF assms(1,2)]]
  from assms(1,2) show ?thesis
  proof (cases rule: sco_state_cases)
    case absent
    show ?thesis
    proof (cases "sco_has_base s \<and> (coff \<noteq> 0 \<or> length buf \<noteq> ?len)")
      case True
      with eq ok assms(3) absent show ?thesis using assms(1) by auto
    next
      case False
      with eq ok assms(3) absent have "sco_write_materialized_cluster s i coff buf = (s', r)" by auto
      with sco_write_materialized_post [OF assms(1-4)] absent(4) False show ?thesis by auto
    qed
  next
    case present
    with eq ok assms(3) have "sco_write_present_cluster s \<lparr>lk_extent = \<lparr>ext_offset = i * sb_cluster_size (sco_sb s),
        ext_length = ?len, ext_state = SCORPI_IMAGE_EXTENT_PRESENT\<rparr>,
        lk_physical_offset = sco_phys s i * sb_cluster_size (sco_sb s)\<rparr> coff buf = (s', r)" by simp
    then show ?thesis by (rule sco_write_present_post [OF assms(1) present(1) assms(3,4), rotated 2]) simp_all
  next
    case zero
    with eq ok assms(3) have "sco_write_materialized_cluster s i coff buf = (s', r)" by auto
    with sco_write_materialized_post [OF assms(1-4)] zero(3) show ?thesis by auto
  qed
qed

lemma sco_discard_cluster_range_post:
  assumes "sco_inv s" "i < sb_cluster_count (sco_sb s)" "0 < len"
    and "coff + len \<le> sco_cluster_stored_length (sco_sb s) i"
    and "sco_discard_cluster_range s i coff len = (s', r)"
  shows "sco_update_post s (i * sb_cluster_size (sco_sb s) + coff) (zeros len) s' r"
proof -
  let ?len = "sco_cluster_stored_length (sco_sb s) i"
  have "len \<le> 4194304" using assms(4) sco_stored_length_bounds(4) [OF sco_invD(1) [OF assms(1)] assms(2)] by linarith
  then have ok: "\<not> (len = 0 \<or> SIZE_MAX < len)" "\<not> (?len = 0 \<or> ?len \<le> coff \<or> ?len - coff < len)"
    using assms(3,4) by auto
  note eq = assms(5) [unfolded sco_discard_cluster_range_def Let_def sco_lookup_cluster [OF assms(1,2)]
      if_not_P [OF ok(1)] if_not_P [OF ok(2)] sum.case]
  have zero_post: "sco_update_post s (i * sb_cluster_size (sco_sb s) + coff) (zeros len) s' r"
    if "sco_commit_table_entry s i SCO_MAP_STATE_DISCARDED 0 = (s', r)"
      "\<And>k. k < ?len \<Longrightarrow> k < coff \<or> coff + len \<le> k \<Longrightarrow>
        sco_cell s (i * sb_cluster_size (sco_sb s) + k) = Some 0 \<or>
        (\<not> sco_has_base s \<and> sco_cell s (i * sb_cluster_size (sco_sb s) + k) = None)"
    by (rule sco_commit_zero_post [OF assms(1,2) _ assms(4) that(2) that(1)]) simp_all
  show ?thesis
  proof (cases "coff = 0 \<and> len = ?len")
    case True
    then show ?thesis using eq by (intro zero_post) auto
  next
    case part: False
    from assms(1,2) show ?thesis
    proof (cases rule: sco_state_cases)
      case absent
      then show ?thesis using eq part assms(1) zero_post by (cases "sco_has_base s") auto
    next
      case present
      with eq part have "sco_write_present_cluster s \<lparr>lk_extent = \<lparr>ext_offset = i * sb_cluster_size (sco_sb s),
          ext_length = ?len, ext_state = SCORPI_IMAGE_EXTENT_PRESENT\<rparr>,
          lk_physical_offset = sco_phys s i * sb_cluster_size (sco_sb s)\<rparr> coff (zeros len) = (s', r)" by auto
      then show ?thesis
        by (rule sco_write_present_post [OF assms(1) present(1) _ _ _ _, rotated 4]) (use assms(3,4) in \<open>auto simp: zeros_def\<close>)
    next
      case zero
      then show ?thesis using eq part zero_post by auto
    qed
  qed
qed

section \<open>Ranges\<close>

lemma sco_update_post_weaken:
  assumes "sco_update_post s off (take n p) s' (Inl e)"
  shows "sco_update_post s off p s' (Inl e)"
  using assms cells_outside_mono [of "sco_has_base s" "sco_cell s" off "length (take n p)" "sco_cell s'" off "length p"]
  by (auto simp: sco_update_post_def)

lemma sco_update_post_append:
  assumes "sco_update_post s off (take n p) t (Inr ())" "sco_update_post t (off + n) (drop n p) s' r" "n \<le> length p"
  shows "sco_update_post s off p s' r"
proof -
  have hb: "sco_has_base t = sco_has_base s" "sco_static t = sco_static s"
    using assms(1) sco_staticD(3) [of t s] by (simp_all add: sco_update_post_def)
  have n: "length (take n p) = n" using assms(3) by simp
  have u1: "cells_updated (sco_has_base s) (sco_cell s) off (take n p) (sco_cell t)"
    using assms(1) by (simp add: sco_update_post_def)
  have o1: "cells_outside (sco_has_base s) (sco_cell s) off (length p) (sco_cell t)"
    using cells_outside_mono [OF cells_updated_outside [OF u1], of off "length p"] by simp
  have o2: "cells_outside (sco_has_base s) (sco_cell t) off (length p) (sco_cell s')"
    using assms(2,3) hb cells_outside_mono [of "sco_has_base s" "sco_cell t" "off + n" "length (drop n p)" "sco_cell s'" off "length p"]
    by (simp add: sco_update_post_def)
  have "cells_updated (sco_has_base s) (sco_cell s) off p (sco_cell s')" if "is_ok r"
    using cells_updated_append [OF u1, of "drop n p" "sco_cell s'"] assms(2) that hb n
    by (simp add: sco_update_post_def)
  then show ?thesis
    using assms(2) hb cells_outside_trans [OF o1 o2] by (simp add: sco_update_post_def)
qed

text \<open>The data-only path either does nothing or writes in place.\<close>

lemma sco_try_write_cases:
  assumes "sco_inv s" "i < sb_cluster_count (sco_sb s)" "buf \<noteq> []"
    and "coff + length buf \<le> sco_cluster_stored_length (sco_sb s) i"
    and "sco_try_write_present_data_only s i coff buf = (t, d)"
  obtains (skip) "t = s" "d = Inr False"
  | (fail) e where "d = Inl e" "sco_update_post s (i * sb_cluster_size (sco_sb s) + coff) buf t (Inl e)"
  | (written) "d = Inr True" "sco_update_post s (i * sb_cluster_size (sco_sb s) + coff) buf t (Inr ())"
proof -
  let ?cs = "sb_cluster_size (sco_sb s)" and ?len = "sco_cluster_stored_length (sco_sb s) i"
  let ?st = "sco_extent_of_state (te_state (sco_table s ! i))"
  let ?v = "sco_validate_write_locked s (add64 (i * ?cs) coff) (length buf)"
  let ?phys = "if sco_present s i then sco_phys s i * ?cs else 0"
  let ?lk = "\<lparr>lk_extent = \<lparr>ext_offset = i * ?cs, ext_length = ?len, ext_state = ?st\<rparr>, lk_physical_offset = ?phys\<rparr>"
  have g: "\<not> (?len = 0 \<or> ?len \<le> coff \<or> ?len - coff < length buf)"
    using assms(3,4) by (cases buf) auto
  note eq = assms(5) [unfolded sco_try_write_present_data_only_def Let_def sco_lookup_cluster [OF assms(1,2)]
      if_not_P [OF assms(3)] if_not_P [OF g] sum.case]
  consider (v) e where "?v = Inl e" | (s) "?v = Inr ()" "\<not> sco_write_is_data_only ?lk coff buf ?len"
    | (w) "?v = Inr ()" "sco_write_is_data_only ?lk coff buf ?len" by (cases ?v) auto
  then show ?thesis
  proof cases
    case v
    then have "t = s" "d = Inl e" using eq by simp_all
    then show ?thesis using fail assms(1) by simp
  next
    case s
    then show ?thesis using eq skip by simp
  next
    case w
    then have "?st = SCORPI_IMAGE_EXTENT_PRESENT" by (simp add: sco_write_is_data_only_def)
    then have p: "sco_present s i"
      using assms(2) sco_invD(2) [OF assms(1)] by (auto simp: sco_present_def sco_extent_of_state_def split: if_splits)
    have "sco_write_present_cluster_data s ?lk coff buf =
        sco_io s (write_exact (sco_fd s) (add64 (sco_phys s i * ?cs) coff) buf)"
      using assms(3) g sco_invD(8) [OF assms(1)] p by (simp add: sco_write_present_cluster_data_def Let_def)
    with eq w have "and_then (sco_io s (write_exact (sco_fd s) (add64 (sco_phys s i * ?cs) coff) buf))
        (\<lambda>sco _. (sco, Inr True)) = (t, d)" by simp
    then show ?thesis
    proof (cases rule: and_then_cases)
      case (fail e)
      then show ?thesis using that(2) sco_write_data_post [OF assms(1) p assms(4)] by blast
    next
      case (ok t' u)
      then show ?thesis using that(3) sco_write_data_post [OF assms(1) p assms(4), of t "Inr ()"] by simp
    qed
  qed
qed

lemma sco_write_chunk_post:
  assumes "sco_inv s" "i < sb_cluster_count (sco_sb s)" "buf \<noteq> []"
    and "coff + length buf \<le> sco_cluster_stored_length (sco_sb s) i" "sco_write_chunk s i coff buf = (s', r)"
  shows "sco_update_post s (i * sb_cluster_size (sco_sb s) + coff) buf s' r"
proof -
  let ?cs = "sb_cluster_size (sco_sb s)"
  obtain t d where tr: "sco_try_write_present_data_only s i coff buf = (t, d)" by fastforce
  from assms(1-4) tr show ?thesis
  proof (cases rule: sco_try_write_cases)
    case skip
    then have m: "sco_write_metadata_cluster s i coff buf = (s', r)" using assms(5) tr by (simp add: sco_write_chunk_def)
    show ?thesis
    proof (cases "sco_validate_write_locked s (add64 (mul64 i ?cs) coff) (length buf)")
      case (Inl e)
      with m have "s' = s" "r = Inl e" by (simp_all add: sco_write_metadata_cluster_def)
      with assms(1) show ?thesis by simp
    next
      case (Inr u)
      with m sco_write_cluster_range_post [OF assms(1-4)] show ?thesis by (simp add: sco_write_metadata_cluster_def)
    qed
  next
    case (fail e)
    then show ?thesis using assms(5) tr by (simp add: sco_write_chunk_def)
  next
    case written
    then show ?thesis using assms(5) tr by (simp add: sco_write_chunk_def)
  qed
qed

text \<open>The chunk arithmetic shared by the write and the discard loop.\<close>

lemma sco_chunk_bounds:
  assumes "sco_geometry sb" "off < end'" "end' \<le> sb_virtual_size sb"
  defines "i \<equiv> off div sb_cluster_size sb" and "coff \<equiv> off mod sb_cluster_size sb"
  defines "len \<equiv> sco_cluster_stored_length sb i"
  shows "i < sb_cluster_count sb" "coff < len" "i * sb_cluster_size sb + coff = off"
    and "(if end' - off < len - coff then end' - off else len - coff) = min (end' - off) (len - coff)"
    and "0 < min (end' - off) (len - coff)" "coff + min (end' - off) (len - coff) \<le> len"
    and "min (end' - off) (len - coff) \<le> 4194304"
proof -
  have vs: "off < sb_virtual_size sb" using assms(2,3) by simp
  show i: "i < sb_cluster_count sb" unfolding i_def by (rule sco_cluster_index_less [OF assms(1) vs])
  show c: "coff < len" unfolding len_def coff_def i_def by (rule sco_offset_in_cluster [OF assms(1) vs])
  show "i * sb_cluster_size sb + coff = off" by (simp add: i_def coff_def)
  show "(if end' - off < len - coff then end' - off else len - coff) = min (end' - off) (len - coff)"
    by (simp add: min_def)
  show "0 < min (end' - off) (len - coff)" "coff + min (end' - off) (len - coff) \<le> len"
    using c assms(2) by auto
  show "min (end' - off) (len - coff) \<le> 4194304"
    using sco_stored_length_bounds(4) [OF assms(1) i, folded len_def] by linarith
qed

lemma sco_write_loop_post:
  "sco_write_loop cs vs s p off end' = (s', r) \<Longrightarrow> sco_inv s \<Longrightarrow> cs = sb_cluster_size (sco_sb s) \<Longrightarrow>
     vs = sb_virtual_size (sco_sb s) \<Longrightarrow> off + length p = end' \<Longrightarrow> end' \<le> vs \<Longrightarrow> sco_update_post s off p s' r"
proof (induction cs vs s p off end' arbitrary: s' r rule: sco_write_loop.induct)
  case (1 cs vs s p off end')
  note inv = "1.prems"(2) and geo = sco_invD(1) [OF "1.prems"(2)]
  show ?case
  proof (cases "off < end'")
    case False
    with "1.prems" show ?thesis by (auto simp: sco_write_loop.simps intro: sco_update_postI)
  next
    case True
    let ?i = "off div cs" and ?coff = "off mod cs"
    let ?len = "sco_cluster_stored_length (sco_sb s) ?i"
    define n where "n = min (end' - off) (?len - ?coff)"
    note b = sco_chunk_bounds [OF geo True "1.prems"(6) [unfolded "1.prems"(4)], folded "1.prems"(3), folded n_def]
    have len: "(if cs < sub64 vs (mul64 ?i cs) then cs else sub64 vs (mul64 ?i cs)) = ?len"
      by (simp add: sco_cluster_stored_length_def Let_def "1.prems"(3,4))
    have n: "n \<le> length p" using "1.prems"(5) by (simp add: n_def)
    obtain t cr where c: "sco_write_chunk s ?i ?coff (take n p) = (t, cr)" by fastforce
    have ne: "take n p \<noteq> []" using n b(5) by auto
    have post: "sco_update_post s off (take n p) t cr"
      using sco_write_chunk_post [OF inv b(1) ne _ c] b(3,6) n "1.prems"(3) by simp
    have guards: "\<not> (?len = 0 \<or> ?len \<le> ?coff)" "\<not> SIZE_MAX < n" using b(2,7) by auto
    have eq: "sco_write_loop cs vs s p off end' =
        and_then (t, cr) (\<lambda>sco _. sco_write_loop cs vs sco (drop n p) (off + n) end')"
      by (subst sco_write_loop.simps) (simp only: Let_def len b(4) guards True c if_False if_True not_True_eq_False)
    from "1.prems"(1) [unfolded eq] show ?thesis
    proof (cases rule: and_then_cases)
      case (fail e)
      then have f: "cr = Inl e" "t = s'" "r = Inl e" by auto
      show ?thesis using sco_update_post_weaken [OF post [unfolded f]] by (simp only: f)
    next
      case (ok t' u)
      then have ok: "cr = Inr ()" and lp: "sco_write_loop cs vs t (drop n p) (off + n) end' = (s', r)" by auto
      have t: "sco_inv t" "sco_sb t = sco_sb s"
        using post sco_staticD(1) [of t s] by (simp_all add: sco_update_post_def)
      have nn: "\<not> \<not> off < end'" and e: "off + n + length (drop n p) = end'" using True n "1.prems"(5) by simp_all
      have "sco_update_post t (off + n) (drop n p) s' r"
        by (rule "1.IH" [OF nn refl refl refl len [symmetric] guards(1) b(4) [symmetric] guards(2) c [unfolded ok] lp t(1)
              _ _ e "1.prems"(6)]) (simp_all only: t(2) "1.prems"(3,4))
      then show ?thesis by (rule sco_update_post_append [OF post [unfolded ok] _ n])
    qed
  qed
qed

lemma sco_write_post:
  assumes "sco_inv s" "off + length buf \<le> sco_vsize s" "sco_write s buf off = (s', r)"
  shows "sco_update_post s off buf s' r"
proof (cases "sco_validate_write_locked s off (length buf)")
  case (Inl e)
  with assms(3) have "s' = s" "r = Inl e" by (simp_all add: sco_write_def)
  with assms(1) show ?thesis by simp
next
  case (Inr u)
  show ?thesis
  proof (cases "buf = []")
    case True
    with assms Inr show ?thesis by (auto simp: sco_write_def intro: sco_update_postI)
  next
    case False
    with assms(3) Inr have "sco_write_loop (sb_cluster_size (sco_sb s)) (sb_virtual_size (sco_sb s)) s buf
        off (off + length buf) = (s', r)" by (simp add: sco_write_def)
    from sco_write_loop_post [OF this assms(1) refl refl refl] assms(2) show ?thesis by (simp add: sco_vsize_def)
  qed
qed

lemma sco_discard_loop_post:
  "sco_discard_loop s off end' = (s', r) \<Longrightarrow> sco_inv s \<Longrightarrow> off \<le> end' \<Longrightarrow> end' \<le> sb_virtual_size (sco_sb s) \<Longrightarrow>
     sco_update_post s off (zeros (end' - off)) s' r"
proof (induction s off end' arbitrary: s' r rule: sco_discard_loop.induct)
  case (1 s off end')
  note inv = "1.prems"(2) and geo = sco_invD(1) [OF "1.prems"(2)]
  show ?case
  proof (cases "off < end'")
    case False
    with "1.prems" show ?thesis by (auto simp: sco_discard_loop.simps zeros_def intro: sco_update_postI)
  next
    case True
    let ?i = "off div sb_cluster_size (sco_sb s)" and ?coff = "off mod sb_cluster_size (sco_sb s)"
    let ?len = "sco_cluster_stored_length (sco_sb s) ?i"
    define n where "n = min (end' - off) (?len - ?coff)"
    note b = sco_chunk_bounds [OF geo True "1.prems"(4), folded n_def]
    have n: "n \<le> end' - off" by (simp add: n_def)
    have z: "take n (zeros (end' - off)) = zeros n" "drop n (zeros (end' - off)) = zeros (end' - (off + n))"
      using n by (simp_all add: zeros_def)
    obtain t cr where c: "sco_discard_cluster_range s ?i ?coff n = (t, cr)" by fastforce
    have post: "sco_update_post s off (take n (zeros (end' - off))) t cr"
      using sco_discard_cluster_range_post [OF inv b(1,5,6) c] b(3) z(1) by simp
    have guards: "\<not> (?len = 0 \<or> ?len \<le> ?coff)" using b(2) by auto
    have eq: "sco_discard_loop s off end' = and_then (t, cr) (\<lambda>sco _. sco_discard_loop sco (off + n) end')"
      by (subst sco_discard_loop.simps) (simp only: Let_def b(4) guards True c if_False if_True not_True_eq_False)
    from "1.prems"(1) [unfolded eq] show ?thesis
    proof (cases rule: and_then_cases)
      case (fail e)
      then have f: "cr = Inl e" "t = s'" "r = Inl e" by auto
      show ?thesis using sco_update_post_weaken [OF post [unfolded f]] by (simp only: f)
    next
      case (ok t' u)
      then have ok: "cr = Inr ()" and lp: "sco_discard_loop t (off + n) end' = (s', r)" by auto
      have t: "sco_inv t" "sco_sb t = sco_sb s"
        using post sco_staticD(1) [of t s] by (simp_all add: sco_update_post_def)
      have nn: "\<not> \<not> off < end'" and le: "off + n \<le> end'" using True n by simp_all
      have "sco_update_post t (off + n) (zeros (end' - (off + n))) s' r"
        by (rule "1.IH" [OF nn refl refl refl guards(1) b(4) [symmetric] c [unfolded ok] lp t(1) le])
           (simp only: t(2) "1.prems"(4))
      then show ?thesis by (intro sco_update_post_append [OF post [unfolded ok]]) (simp_all add: z(2) n)
    qed
  qed
qed

lemma sco_discard_post:
  assumes "sco_inv s" "off + len \<le> sco_vsize s" "sco_discard s off len = (s', r)"
  shows "sco_update_post s off (zeros len) s' r"
  using assms sco_discard_loop_post [of s off "off + len" s' r]
  by (auto simp: sco_discard_def sco_vsize_def zeros_def split: if_splits intro: sco_update_postI)

section \<open>The SCO backend meets the contract\<close>

interpretation sco: image_backend_rw sco_inv sco_vsize sco_cell sco_map sco_read sco_has_base sco_write sco_discard
proof (unfold_locales, goal_cases)
  case (1 s)
  then show ?case using sco_geometryD(5) [OF sco_invD(1) [OF 1]] by (simp add: sco_vsize_def)
next
  case (2 s len off s' e)
  then show ?case by (rule sco_map_ok)
next
  case (3 s off len s' bs)
  then show ?case using sco_read_ok [OF 3] sco_only_scriptD [of s s'] by blast
next
  case (4 s off len s' r)
  then show ?case by (auto simp: sco_map_def split: sum.splits)
next
  case (5 s off len s' r)
  then show ?case using sco_only_scriptD [OF sco_read_any [OF 5]] by blast
next
  case (6 s off buf s')
  then show ?case using sco_write_post [OF 6] sco_staticD [of s' s] by (simp add: sco_update_post_def sco_vsize_def)
next
  case (7 s off buf s' r)
  then show ?case using sco_write_post [OF 7] sco_staticD [of s' s] by (simp add: sco_update_post_def sco_vsize_def)
next
  case (8 s off len s')
  then show ?case
    using sco_discard_post [OF 8] sco_staticD [of s' s] by (simp add: sco_update_post_def sco_vsize_def zeros_def)
next
  case (9 s off len s' r)
  then show ?case
    using sco_discard_post [OF 9] sco_staticD [of s' s] by (simp add: sco_update_post_def sco_vsize_def)
qed

section \<open>Progress on a host that does not fail\<close>

definition sco_quiet :: "sco_image \<Rightarrow> bool" where
  "sco_quiet s \<longleftrightarrow> h_script (sco_fd s) = []"

lemma sco_read_extent_quiet:
  assumes "sco_inv s" "sco_quiet s" "off < sb_virtual_size (sco_sb s)" "0 < len"
    and "sco_lookup_extent s off len = Inr lk"
  shows "\<exists>bs. sco_read_extent s lk off = (s, Inr bs)"
proof -
  let ?cs = "sb_cluster_size (sco_sb s)"
  let ?i = "off div ?cs"
  note g = sco_invD(1) [OF assms(1)]
  note lk = sco_lookup_extent_eq [OF assms(1,4,3), unfolded assms(5) sum.inject]
  show ?thesis
  proof (cases "sco_present s ?i")
    case True
    let ?n = "min len (sco_cluster_stored_length (sco_sb s) ?i - off mod ?cs)"
    have n: "off mod ?cs + ?n \<le> sco_cluster_stored_length (sco_sb s) ?i"
      using sco_offset_in_cluster [OF g assms(3)] by linarith
    then have b: "sco_phys s ?i * ?cs + off mod ?cs + ?n \<le> h_size (sco_fd s)"
      using sco_inv_present(6) [OF assms(1) True] sco_invD(6) [OF assms(1)] by linarith
    then have "add64 (sco_phys s ?i * ?cs) (off mod ?cs) = sco_phys s ?i * ?cs + off mod ?cs"
      using sco_invD(9) [OF assms(1)] by (intro add64_exact) linarith
    then have "sco_read_extent s lk off = sco_io s (read_exact (sco_fd s) (sco_phys s ?i * ?cs + off mod ?cs) ?n)"
      using True by (simp add: lk sco_read_extent_def sco_extent_of_state_def sco_present_def)
    with read_exact_no_fault [OF assms(2) [unfolded sco_quiet_def] b sco_invD(9) [OF assms(1)]] show ?thesis
      by (simp add: sco_io_def)
  next
    case False
    then have "te_state (sco_table s ! ?i) \<noteq> SCO_MAP_STATE_PRESENT"
      using sco_cluster_index_less [OF g assms(3)] sco_invD(2) [OF assms(1)] by (simp add: sco_present_def)
    then show ?thesis by (auto simp: lk sco_read_extent_def sco_extent_of_state_def)
  qed
qed

lemma sco_read_loop_quiet:
  "sco_inv s \<Longrightarrow> sco_quiet s \<Longrightarrow> off + len \<le> sb_virtual_size (sco_sb s) \<Longrightarrow>
     \<exists>bs. sco_read_loop s off len = (s, Inr bs)"
proof (induction len arbitrary: off rule: less_induct)
  case (less len)
  show ?case
  proof (cases "len = 0")
    case True
    then show ?thesis by (simp add: sco_read_loop.simps)
  next
    case False
    then have vs: "off < sb_virtual_size (sco_sb s)" "0 < len" using less.prems(3) by auto
    obtain lk where lk: "sco_lookup_extent s off len = Inr lk"
      using sco_lookup_extent_eq [OF less.prems(1) vs(2,1)] by blast
    obtain p where p: "sco_read_extent s lk off = (s, Inr p)"
      using sco_read_extent_quiet [OF less.prems(1,2) vs lk] by blast
    note n = sco_read_extent_result(1,2) [OF less.prems(1) vs lk p]
    let ?n = "ext_length (lk_extent lk)"
    have add: "add64 off ?n = off + ?n" and nmax: "\<not> (?n = 0 \<or> SIZE_MAX < ?n)"
      using n less.prems(3) sco_geometryD(5) [OF sco_invD(1) [OF less.prems(1)]] by (auto intro: add64_exact)
    obtain q where "sco_read_loop s (off + ?n) (len - ?n) = (s, Inr q)"
      using less.IH [of "len - ?n" "off + ?n"] less.prems n by auto
    then show ?thesis
      using False nmax add by (subst sco_read_loop.simps) (simp add: lk p Let_def)
  qed
qed

lemma sco_read_quiet:
  assumes "sco_inv s" "sco_quiet s" "off + len \<le> sco_vsize s"
  shows "sco_read s off len = (s, Inr (map (\<lambda>i. cell_byte (sco_cell s (off + i))) [0..<len]))"
proof -
  have le: "off + len \<le> sb_virtual_size (sco_sb s)" using assms(3) by (simp add: sco_vsize_def)
  then have "sco_read s off len = sco_read_loop s off len" unfolding sco_read_def by (intro if_not_P) linarith
  then obtain bs where "sco_read s off len = (s, Inr bs)"
    using sco_read_loop_quiet [OF assms(1,2) le] by auto
  with sco_read_ok(2) [OF assms(1,3)] show ?thesis by simp
qed

lemma sco_pick_quiet:
  assumes "sco_inv s" "sco_data_cluster_base s + sco_data_cluster_count s \<le> UINT32_MAX"
  obtains s1 pc where "sco_pick_data_cluster s = (s1, Inr pc)" "pc \<noteq> 0" "pc \<le> UINT32_MAX"
    "sco_data_cluster_count s1 \<le> sco_data_cluster_count s + 1"
proof (cases "sco_find_free s")
  case (Some k)
  with sco_find_free_result(1) [OF Some] sco_invD(7) [OF assms(1)] assms(2) that show ?thesis
    by (simp add: sco_pick_data_cluster_def)
next
  case None
  let ?b = "sco_data_cluster_base s" and ?c = "sco_data_cluster_count s"
  have ok: "\<not> UINT64_MAX - ?c < ?b" "\<not> (?b + ?c = 0 \<or> UINT32_MAX < ?b + ?c)" "\<not> ?c + 1 \<le> ?c" "\<not> SIZE_MAX < ?c + 1"
    using assms(2) sco_invD(7) [OF assms(1)] by auto
  have "sco_pick_data_cluster s = (s\<lparr>sco_data_cluster_used := take ?c (sco_data_cluster_used s) @ [False],
      sco_data_cluster_count := ?c + 1, sco_data_alloc_cursor := 0\<rparr>, Inr (?b + ?c))"
    unfolding sco_pick_data_cluster_def None Let_def sco_data_allocator_grow_def if_not_P [OF ok(1)] if_not_P [OF ok(2)]
      if_not_P [OF ok(3)] if_not_P [OF ok(4)]
    using ok by simp
  then show ?thesis using that ok(2) by simp
qed

lemma sco_alloc_quiet:
  assumes "sco_inv s" "sco_quiet s" "i < sb_cluster_count (sco_sb s)"
    and "length buf = sco_cluster_stored_length (sco_sb s) i"
    and "sco_data_cluster_base s + sco_data_cluster_count s \<le> UINT32_MAX"
  obtains s' po where "sco_alloc_data_cluster s i buf = (s', Inr po)" "sco_quiet s'"
    "sco_data_cluster_count s' \<le> sco_data_cluster_count s + 1"
proof -
  obtain s1 pc where p: "sco_pick_data_cluster s = (s1, Inr pc)" "pc \<noteq> 0" "pc \<le> UINT32_MAX"
    "sco_data_cluster_count s1 \<le> sco_data_cluster_count s + 1"
    using sco_pick_quiet [OF assms(1,5)] by blast
  note p1 = sco_pick_result [OF assms(1) p(1)]
  have sb: "sco_sb s1 = sco_sb s" "sco_fd s1 = sco_fd s" using p1 sco_staticD(1) [of s1 s] by auto
  note b = sco_stored_length_bounds [OF sco_invD(1) [OF assms(1)] assms(3)]
  have "pc * sb_cluster_size (sco_sb s) + length buf \<le> 4294967295 * 4194304 + 4194304"
    using p(3) sco_invD(1) [OF assms(1)] b(4) assms(4)
    by (intro add_le_mono mult_le_mono) (auto simp: sco_geometry_def)
  then have bnd: "pc * sb_cluster_size (sco_sb s) + length buf \<le> INT64_MAX"
    and nw: "\<not> UINT64_MAX - pc * sb_cluster_size (sco_sb s) < sco_cluster_stored_length (sco_sb s) i"
    using assms(4) by linarith+
  note w = write_exact_no_fault [OF assms(2) [unfolded sco_quiet_def] bnd]
  have "sco_alloc_data_cluster s i buf = (s1\<lparr>sco_data_cluster_used :=
        (sco_data_cluster_used s1)[pc - sco_data_cluster_base s1 := True],
      sco_fd := store_bytes (sco_fd s) (pc * sb_cluster_size (sco_sb s)) buf,
      sco_file_size := max (sco_file_size s1) (pc * sb_cluster_size (sco_sb s) + sco_cluster_stored_length (sco_sb s) i)\<rparr>,
      Inr (pc * sb_cluster_size (sco_sb s)))"
    using b p nw by (simp add: sco_alloc_data_cluster_def Let_def sb w assms(4) sco_io_def)
  then show ?thesis by (rule that) (use p assms(2) in \<open>simp_all add: sco_quiet_def\<close>)
qed

lemma sco_commit_quiet:
  assumes "sco_inv s" "sco_quiet s" "sco_commit_args_ok s i st po pc" "te_generation (sco_table s ! i) < UINT32_MAX"
  obtains s' where "sco_commit_table_entry s i st po = (s', Inr ())" "sco_quiet s'"
    "sco_data_cluster_count s' = sco_data_cluster_count s"
    "\<And>j. j \<noteq> i \<Longrightarrow> sco_table s' ! j = sco_table s ! j"
proof -
  let ?k = "sco_next_slot (sco_table s ! i)"
  have i: "i < sb_cluster_count (sco_sb s)" using assms(3) by (simp add: sco_commit_args_ok_def)
  note so = sco_table_slot_offset_eq [OF sco_invD(1) [OF assms(1)] i sco_next_slot_le(1) [of "sco_table s ! i"]]
  have "sco_table_slot_offset (sco_sb s) i ?k + length (sco_commit_slot s i st pc) \<le> INT64_MAX"
    using so sco_invD(1) [OF assms(1)] by (simp add: sco_geometry_def sco_commit_slot_def)
  note w = write_exact_no_fault [OF assms(2) [unfolded sco_quiet_def] this]
  define fd where "fd = store_bytes (sco_fd s) (sco_table_slot_offset (sco_sb s) i ?k) (sco_commit_slot s i st pc)"
  have q: "h_script fd = []" using assms(2) by (simp add: fd_def sco_quiet_def)
  define t where "t = s\<lparr>sco_fd := fd, sco_table := (sco_table s)[i := sco_new_entry (sco_table s ! i) st pc]\<rparr>"
  define s' where "s' = sco_drop_old_cluster t i (sco_table s ! i) pc"
  have "sco_commit_table_entry s i st po = (s', Inr ())"
    using assms(4) q by (subst sco_commit_eq [OF assms(1,3)])
      (simp_all add: w sco_io_def sco_trace_fsync_def fd_def [symmetric] s'_def t_def)
  moreover have "h_script x = []" if "scorpi_host_punch_hole fd a l = (x, y)" for a l x y
    using punch_hole_script [OF q, of a l] that by simp
  then have "sco_quiet s'" "sco_data_cluster_count s' = sco_data_cluster_count s" "sco_table s' = sco_table t"
    using q
    by (auto simp: s'_def sco_drop_old_cluster_def sco_data_allocator_release_def sco_data_allocator_mark_def
        sco_io_def sco_quiet_def t_def Let_def split: prod.splits)
  ultimately show ?thesis by (intro that [of s']) (simp_all add: t_def)
qed

text \<open>One step that succeeds, and what later steps need of it.\<close>

definition sco_step_ok :: "sco_image \<Rightarrow> nat \<Rightarrow> sco_image \<times> unit res \<Rightarrow> bool" where
  "sco_step_ok s i m \<longleftrightarrow> snd m = Inr () \<and> sco_quiet (fst m) \<and>
     sco_data_cluster_count (fst m) \<le> sco_data_cluster_count s + 1 \<and>
     (\<forall>j. j \<noteq> i \<longrightarrow> sco_table (fst m) ! j = sco_table s ! j)"

lemma sco_commit_step_ok:
  assumes "sco_inv s" "sco_quiet s" "sco_commit_args_ok s i st po pc" "te_generation (sco_table s ! i) < UINT32_MAX"
  shows "sco_step_ok s i (sco_commit_table_entry s i st po)"
  by (rule sco_commit_quiet [OF assms]) (simp add: sco_step_ok_def)

lemma sco_zero_step_ok:
  assumes "sco_inv s" "sco_quiet s" "i < sb_cluster_count (sco_sb s)" "te_generation (sco_table s ! i) < UINT32_MAX"
    and "st = SCO_MAP_STATE_ZERO \<or> st = SCO_MAP_STATE_DISCARDED"
  shows "sco_step_ok s i (sco_commit_table_entry s i st 0)"
  using assms by (intro sco_commit_step_ok [where pc = 0]) (auto simp: sco_commit_args_ok_def)

lemma sco_new_cluster_step_ok:
  assumes "sco_inv s" "sco_quiet s" "i < sb_cluster_count (sco_sb s)" "te_generation (sco_table s ! i) < UINT32_MAX"
    and "length cl = sco_cluster_stored_length (sco_sb s) i"
    and "sco_data_cluster_base s + sco_data_cluster_count s \<le> UINT32_MAX"
  shows "sco_step_ok s i (sco_write_new_cluster s i cl)"
proof -
  obtain s1 po where a: "sco_alloc_data_cluster s i cl = (s1, Inr po)" "sco_quiet s1"
    "sco_data_cluster_count s1 \<le> sco_data_cluster_count s + 1"
    using sco_alloc_quiet [OF assms(1,2,3,5,6)] by blast
  note r = sco_alloc_result [OF assms(1,3,5) a(1)]
  have s1: "sco_inv s1" "sco_table s1 = sco_table s" "sco_data_frame {} s s1" "sco_alloc_post s i cl s1 po"
    using r by (simp_all add: sco_data_frame_def)
  have fs: "sco_trace_fsync s1 = (s1, Inr ())"
    using a(2) by (simp add: sco_trace_fsync_def sco_io_def sco_quiet_def)
  obtain pc where "sco_commit_args_ok s1 i SCO_MAP_STATE_PRESENT po pc"
    using sco_alloc_commit_args [OF assms(1,3) s1(3,4) sco_only_script_refl] by blast
  then obtain s' where "sco_commit_table_entry s1 i SCO_MAP_STATE_PRESENT po = (s', Inr ())" "sco_quiet s'"
    "sco_data_cluster_count s' = sco_data_cluster_count s1" "\<And>j. j \<noteq> i \<Longrightarrow> sco_table s' ! j = sco_table s1 ! j"
    using sco_commit_quiet [OF s1(1) a(2)] assms(4) s1(2) by metis
  then show ?thesis using a s1(2) fs by (simp add: sco_write_new_cluster_def sco_step_ok_def)
qed

lemma sco_data_step_ok:
  assumes "sco_inv s" "sco_quiet s" "sco_present s i" "coff + length buf \<le> sco_cluster_stored_length (sco_sb s) i"
  shows "sco_step_ok s i (sco_io s (write_exact (sco_fd s)
    (add64 (sco_phys s i * sb_cluster_size (sco_sb s)) coff) buf))"
proof -
  have "coff + length buf \<le> 4194304"
    using assms(4) sco_stored_length_bounds(4) [OF sco_invD(1) [OF assms(1)] sco_inv_present(1) [OF assms(1,3)]]
    by linarith
  from sco_phys_bound [OF assms(1,3) this]
  have "add64 (sco_phys s i * sb_cluster_size (sco_sb s)) coff = sco_phys s i * sb_cluster_size (sco_sb s) + coff"
    "sco_phys s i * sb_cluster_size (sco_sb s) + coff + length buf \<le> INT64_MAX"
    by (auto intro: add64_exact)
  with write_exact_no_fault [of "sco_fd s" "sco_phys s i * sb_cluster_size (sco_sb s) + coff" buf] assms(2)
  show ?thesis by (simp add: sco_step_ok_def sco_io_def sco_quiet_def)
qed

lemma sco_cluster_range_step_ok:
  assumes "sco_inv s" "sco_quiet s" "i < sb_cluster_count (sco_sb s)" "te_generation (sco_table s ! i) < UINT32_MAX"
    and "buf \<noteq> []" "coff + length buf \<le> sco_cluster_stored_length (sco_sb s) i"
    and "sco_data_cluster_base s + sco_data_cluster_count s \<le> UINT32_MAX"
    and "sco_has_base s \<Longrightarrow> te_state (sco_table s ! i) = SCO_MAP_STATE_ABSENT \<Longrightarrow>
      coff = 0 \<and> length buf = sco_cluster_stored_length (sco_sb s) i"
  shows "sco_step_ok s i (sco_write_cluster_range s i coff buf)"
proof -
  let ?len = "sco_cluster_stored_length (sco_sb s) i" and ?cs = "sb_cluster_size (sco_sb s)"
  note b = sco_stored_length_bounds [OF sco_invD(1) [OF assms(1)] assms(3)]
  have ok: "\<not> (?len = 0 \<or> sub64 ?len coff < length buf)" using b(1) assms(6) by (auto simp: sub64_exact)
  have ok2: "\<not> (?len = 0 \<or> SIZE_MAX < ?len \<or> ?len < coff \<or> ?len - coff < length buf)"
    using b assms(6) by auto
  have ok3: "\<not> (?len < coff \<or> ?len - coff < length buf)" using ok2 by blast
  note zero = sco_zero_step_ok [OF assms(1-4), of SCO_MAP_STATE_ZERO, simplified]
  have mat: "sco_step_ok s i (sco_write_materialized_cluster s i coff buf)"
    unfolding sco_write_materialized_cluster_def Let_def if_not_P [OF ok2] if_not_P [OF assms(5)]
    using zero sco_new_cluster_step_ok [OF assms(1-4) _ assms(7)] assms(6) by auto
  note eq = sco_write_cluster_range_def [of s i coff buf, unfolded Let_def sco_lookup_cluster [OF assms(1,3)]
      if_not_P [OF assms(5)] if_not_P [OF ok] sum.case]
  from assms(1,3) show ?thesis
  proof (cases rule: sco_state_cases)
    case absent
    then show ?thesis using mat assms(8) by (auto simp: eq)
  next
    case present
    let ?lk = "\<lparr>lk_extent = \<lparr>ext_offset = i * ?cs, ext_length = ?len, ext_state = SCORPI_IMAGE_EXTENT_PRESENT\<rparr>,
      lk_physical_offset = sco_phys s i * ?cs\<rparr>"
    have "ext_offset (lk_extent ?lk) div ?cs = i" using sco_invD(8) [OF assms(1)] by simp
    then have "sco_step_ok s i (sco_write_present_cluster s ?lk coff buf)"
      unfolding sco_write_present_cluster_def Let_def
      using zero sco_data_step_ok [OF assms(1,2) present(1) assms(6)] assms(5) ok3 by simp
    then show ?thesis using present by (simp add: eq)
  next
    case zero
    then show ?thesis using mat by (auto simp: eq)
  qed
qed

definition sco_writable :: "sco_image \<Rightarrow> bool" where
  "sco_writable s \<longleftrightarrow> \<not> sco_readonly s \<and> \<not> sco_is_sealed (sco_sb s)"

lemma sco_chunk_step_ok:
  assumes "sco_inv s" "sco_quiet s" "sco_writable s" "i < sb_cluster_count (sco_sb s)"
    and "te_generation (sco_table s ! i) < UINT32_MAX"
    and "buf \<noteq> []" "coff + length buf \<le> sco_cluster_stored_length (sco_sb s) i"
    and "sco_data_cluster_base s + sco_data_cluster_count s \<le> UINT32_MAX"
    and "sco_has_base s \<Longrightarrow> te_state (sco_table s ! i) = SCO_MAP_STATE_ABSENT \<Longrightarrow>
      coff = 0 \<and> length buf = sco_cluster_stored_length (sco_sb s) i"
  shows "sco_step_ok s i (sco_write_chunk s i coff buf)"
proof -
  let ?len = "sco_cluster_stored_length (sco_sb s) i" and ?cs = "sb_cluster_size (sco_sb s)"
  let ?st = "sco_extent_of_state (te_state (sco_table s ! i))"
  let ?lk = "\<lparr>lk_extent = \<lparr>ext_offset = i * ?cs, ext_length = ?len, ext_state = ?st\<rparr>,
      lk_physical_offset = (if sco_present s i then sco_phys s i * ?cs else 0)\<rparr>"
  note geo = sco_invD(1) [OF assms(1)] and b = sco_stored_length_bounds [OF sco_invD(1) [OF assms(1)] assms(4)]
  have "add64 (i * ?cs) coff = i * ?cs + coff"
    using b(3) assms(7) sco_geometryD(5) [OF geo] by (intro add64_exact) linarith
  then have v: "sco_validate_write_locked s (add64 (i * ?cs) coff) (length buf) = Inr ()"
    using assms(3,7) b(3) by (simp add: sco_validate_write_locked_def sco_writable_def)
  have g: "\<not> (?len = 0 \<or> ?len \<le> coff \<or> ?len - coff < length buf)" using assms(6,7) by (cases buf) auto
  have tr: "sco_try_write_present_data_only s i coff buf =
      (if \<not> sco_write_is_data_only ?lk coff buf ?len then (s, Inr False)
       else and_then (sco_write_present_cluster_data s ?lk coff buf) (\<lambda>s _. (s, Inr True)))"
    unfolding sco_try_write_present_data_only_def Let_def sco_lookup_cluster [OF assms(1,4)]
      if_not_P [OF assms(6)] if_not_P [OF g] v sum.case by (rule refl)
  show ?thesis
  proof (cases "sco_write_is_data_only ?lk coff buf ?len")
    case True
    then have p: "sco_present s i"
      using assms(4) sco_invD(2) [OF assms(1)]
      by (auto simp: sco_write_is_data_only_def sco_present_def sco_extent_of_state_def split: if_splits)
    have "sco_write_present_cluster_data s ?lk coff buf =
        sco_io s (write_exact (sco_fd s) (add64 (sco_phys s i * ?cs) coff) buf)"
      using assms(6) g sco_invD(8) [OF assms(1)] p by (simp add: sco_write_present_cluster_data_def Let_def)
    with sco_data_step_ok [OF assms(1,2) p assms(7)] tr True show ?thesis
      by (auto simp: sco_write_chunk_def sco_step_ok_def and_then_def split: prod.splits sum.splits)
  next
    case False
    then have "sco_write_chunk s i coff buf = sco_write_cluster_range s i coff buf"
      using tr v sco_lookup_cluster(1) [OF assms(1,4)] by (simp add: sco_write_chunk_def sco_write_metadata_cluster_def)
    with sco_cluster_range_step_ok [OF assms(1,2,4-9)] show ?thesis by simp
  qed
qed

text \<open>
  When a write of the range from \<open>off\<close> to \<open>end'\<close> cannot fail on such a host: no cluster it touches
  has used up its generations, there is a cluster number left for each of them, and none of them
  that belongs to a base image is covered in part.
\<close>

definition sco_touches :: "sco_image \<Rightarrow> nat \<Rightarrow> nat \<Rightarrow> nat \<Rightarrow> bool" where
  "sco_touches s off end' j \<longleftrightarrow>
     off div sb_cluster_size (sco_sb s) \<le> j \<and> j * sb_cluster_size (sco_sb s) < end'"

definition sco_write_ready :: "sco_image \<Rightarrow> nat \<Rightarrow> nat \<Rightarrow> bool" where
  "sco_write_ready s off end' \<longleftrightarrow>
     (\<forall>j. sco_touches s off end' j \<longrightarrow> te_generation (sco_table s ! j) < UINT32_MAX) \<and>
     sco_data_cluster_base s + sco_data_cluster_count s +
       ((end' + sb_cluster_size (sco_sb s) - 1) div sb_cluster_size (sco_sb s) - off div sb_cluster_size (sco_sb s))
       \<le> UINT32_MAX + 1 \<and>
     (sco_has_base s \<longrightarrow> (\<forall>j. sco_touches s off end' j \<longrightarrow> te_state (sco_table s ! j) = SCO_MAP_STATE_ABSENT \<longrightarrow>
        off \<le> j * sb_cluster_size (sco_sb s) \<and>
        min ((j + 1) * sb_cluster_size (sco_sb s)) (sb_virtual_size (sco_sb s)) \<le> end'))"

lemma chunk_covers_cluster:
  assumes "sco_geometry sb" "off < end'" "end' \<le> sb_virtual_size sb" "off \<le> off div sb_cluster_size sb * sb_cluster_size sb"
    and "min ((off div sb_cluster_size sb + 1) * sb_cluster_size sb) (sb_virtual_size sb) \<le> end'"
  shows "off mod sb_cluster_size sb = 0" "sco_cluster_stored_length sb (off div sb_cluster_size sb) \<le> end' - off"
proof -
  let ?cs = "sb_cluster_size sb"
  have "off div ?cs * ?cs + off mod ?cs = off" by simp
  then show m: "off mod ?cs = 0" using assms(4) by linarith
  then have off: "off div ?cs * ?cs = off" by auto
  have i: "off div ?cs < sb_cluster_count sb" using assms(2,3) by (intro sco_cluster_index_less [OF assms(1)]) simp
  show "sco_cluster_stored_length sb (off div ?cs) \<le> end' - off"
    using sco_stored_length [OF assms(1) i] off assms(5) by (auto simp: algebra_simps)
qed

lemma next_chunk_aligned:
  assumes "sco_geometry sb" "off < end'" "end' \<le> sb_virtual_size sb"
  defines "i \<equiv> off div sb_cluster_size sb"
  defines "n \<equiv> min (end' - off) (sco_cluster_stored_length sb i - off mod sb_cluster_size sb)"
  assumes "off + n < end'"
  shows "off + n = (i + 1) * sb_cluster_size sb"
proof -
  note b = sco_chunk_bounds [OF assms(1-3), folded i_def]
  have "n = sco_cluster_stored_length sb i - off mod sb_cluster_size sb" using assms(6) by (simp add: n_def min_def split: if_splits)
  then have e: "off + n = i * sb_cluster_size sb + sco_cluster_stored_length sb i" using b(2,3) by linarith
  have "sco_cluster_stored_length sb i = min (sb_cluster_size sb) (sb_virtual_size sb - i * sb_cluster_size sb)"
    by (rule sco_stored_length [OF assms(1) b(1)])
  then have "sco_cluster_stored_length sb i = sb_cluster_size sb" using e assms(3,6) by linarith
  with e show ?thesis by simp
qed

lemma sco_write_loop_quiet:
  "sco_inv s \<Longrightarrow> sco_quiet s \<Longrightarrow> sco_writable s \<Longrightarrow> off + length p = end' \<Longrightarrow> end' \<le> sb_virtual_size (sco_sb s) \<Longrightarrow>
     sco_write_ready s off end' \<Longrightarrow>
     \<exists>s'. sco_write_loop (sb_cluster_size (sco_sb s)) (sb_virtual_size (sco_sb s)) s p off end' = (s', Inr ()) \<and> sco_quiet s'"
proof (induction "length p" arbitrary: s p off rule: less_induct)
  case less
  let ?cs = "sb_cluster_size (sco_sb s)" and ?vs = "sb_virtual_size (sco_sb s)"
  note geo = sco_invD(1) [OF less.prems(1)]
  show ?case
  proof (cases "off < end'")
    case False
    then show ?thesis using less.prems(2) by (simp add: sco_write_loop.simps)
  next
    case True
    let ?i = "off div ?cs" and ?coff = "off mod ?cs"
    let ?len = "sco_cluster_stored_length (sco_sb s) ?i"
    define n where "n = min (end' - off) (?len - ?coff)"
    note b = sco_chunk_bounds [OF geo True less.prems(5), folded n_def]
    have n: "n \<le> length p" "take n p \<noteq> []" "length (take n p) = n"
      using less.prems(4) b(5) True by (auto simp: n_def)
    note rdy = less.prems(6) [unfolded sco_write_ready_def]
    have tch: "sco_touches s off end' ?i"
      using True le_less_trans [OF div_times_less_eq_dividend True] by (simp add: sco_touches_def)
    have full: "?coff = 0 \<and> length (take n p) = ?len"
      if "sco_has_base s" "te_state (sco_table s ! ?i) = SCO_MAP_STATE_ABSENT"
    proof -
      have a: "off \<le> ?i * ?cs" "min ((?i + 1) * ?cs) ?vs \<le> end'" using rdy that tch by blast+
      show ?thesis using chunk_covers_cluster [OF geo True less.prems(5) a] n(3) by (simp add: n_def)
    qed
    have more1: "?i + 1 \<le> (end' + ?cs - 1) div ?cs"
    proof -
      have "(off + ?cs) div ?cs \<le> (end' + ?cs - 1) div ?cs" using True by (intro div_le_mono) simp
      moreover have "(off + ?cs) div ?cs = ?i + 1" using sco_geometryD(1) [OF geo] by (intro div_add_self2) simp
      ultimately show ?thesis by linarith
    qed
    have stp: "sco_step_ok s ?i (sco_write_chunk s ?i ?coff (take n p))"
    proof (rule sco_chunk_step_ok [OF less.prems(1-3) b(1) _ n(2)])
      show "te_generation (sco_table s ! ?i) < UINT32_MAX" using rdy tch by simp
      show "?coff + length (take n p) \<le> ?len" using b(6) n(3) by simp
      show "sco_data_cluster_base s + sco_data_cluster_count s \<le> UINT32_MAX" using rdy more1 by linarith
    qed (rule full)
    obtain t cr where c': "sco_write_chunk s ?i ?coff (take n p) = (t, cr)" by fastforce
    with stp have c: "sco_write_chunk s ?i ?coff (take n p) = (t, Inr ())" and q: "sco_quiet t"
      "sco_data_cluster_count t \<le> sco_data_cluster_count s + 1" "\<forall>j. j \<noteq> ?i \<longrightarrow> sco_table t ! j = sco_table s ! j"
      by (simp_all add: sco_step_ok_def)
    have post: "sco_update_post s off (take n p) t (Inr ())"
      using sco_write_chunk_post [OF less.prems(1) b(1) n(2) _ c] b(3,6) n(3) by simp
    have t: "sco_inv t" "sco_static t = sco_static s" using post by (simp_all add: sco_update_post_def)
    note sb = sco_staticD [OF t(2)]
    have ready: "sco_write_ready t (off + n) end'" if more: "off + n < end'"
    proof -
      have next': "off + n = (?i + 1) * ?cs"
        using next_chunk_aligned [OF geo True less.prems(5)] more by (simp add: n_def)
      then have al: "(off + n) div ?cs = ?i + 1" using sco_geometryD(1) [OF geo] by simp
      have tt: "sco_touches s off end' j \<and> sco_table t ! j = sco_table s ! j" "off + n \<le> j * ?cs" if "sco_touches t (off + n) end' j" for j
        using that q(3) mult_le_mono1 [of "?i + 1" j ?cs] next' unfolding sco_touches_def sb al by auto
      have 2: "sco_data_cluster_base s + sco_data_cluster_count t + ((end' + ?cs - 1) div ?cs - (?i + 1)) \<le> UINT32_MAX + 1"
        using rdy q(2) more1 by linarith
      show ?thesis using rdy tt 2 unfolding sco_write_ready_def sb al by auto
    qed
    have "\<exists>s'. sco_write_loop ?cs ?vs t (drop n p) (off + n) end' = (s', Inr ()) \<and> sco_quiet s'"
    proof (cases "off + n < end'")
      case more: True
      have "length (drop n p) < length p" "off + n + length (drop n p) = end'" "sco_writable t"
        using less.prems(3,4) n b(5) sb by (auto simp: sco_writable_def)
      from less.hyps [OF this(1) t(1) q(1) this(3,2)] less.prems(5) ready [OF more] show ?thesis by (simp only: sb)
    next
      case False
      then show ?thesis using q(1) by (subst sco_write_loop.simps) simp
    qed
    moreover have len: "(if ?cs < sub64 ?vs (mul64 ?i ?cs) then ?cs else sub64 ?vs (mul64 ?i ?cs)) = ?len"
      by (simp add: sco_cluster_stored_length_def Let_def)
    moreover have guards: "\<not> (?len = 0 \<or> ?len \<le> ?coff)" "\<not> SIZE_MAX < n" using b(2,7) by auto
    ultimately show ?thesis
      by (subst sco_write_loop.simps)
         (simp only: Let_def len b(4) guards True c sb and_then_simps if_False if_True not_True_eq_False)
  qed
qed

lemma sco_write_quiet:
  assumes "sco_inv s" "sco_quiet s" "sco_writable s" "off + length buf \<le> sco_vsize s"
    and "sco_write_ready s off (off + length buf)"
  obtains s' where "sco_write s buf off = (s', Inr ())" "sco_quiet s'"
proof -
  have "sco_validate_write_locked s off (length buf) = Inr ()"
    using assms(3,4) by (auto simp: sco_validate_write_locked_def sco_writable_def sco_vsize_def)
  with sco_write_loop_quiet [OF assms(1-3) refl _ assms(5)] assms(2,4) that show ?thesis
    by (cases "buf = []") (auto simp: sco_write_def sco_vsize_def)
qed

section \<open>A concrete image\<close>

text \<open>
  A one-cluster image of 512 bytes, as it is right after creation: the table and both data
  cluster lists are empty.
\<close>

definition sco_demo_sb :: sco_superblock where
  "sco_demo_sb =
     \<lparr>sb_generation = 1, sb_virtual_size = 512, sb_logical_sector_size = 512, sb_physical_sector_size = 0,
      sb_cluster_size = 65536, sb_cluster_count = 1, sb_data_area_offset = 131072,
      sb_base_descriptor_offset = 0, sb_base_descriptor_length = 0, sb_table_offset = 65536,
      sb_table_length = 4096, sb_incompatible_features = 1, sb_readonly_compatible_features = 0,
      sb_compatible_features = 0, sb_image_uuid = zeros 16, sb_image_digest = zeros 32,
      sb_has_image_digest = False\<rparr>"

definition sco_demo :: sco_image where
  "sco_demo =
     \<lparr>sco_fd = \<lparr>h_size = 131072, h_bytes = (\<lambda>_. 0), h_script = []\<rparr>, sco_readonly = False,
      sco_file_size = 131072, sco_active_superblock_offset = 4096, sco_sb = sco_demo_sb,
      sco_table = [\<lparr>te_generation = 0, te_physical_cluster = 0, te_state = 0, te_active_slot = 1, te_flags = 0\<rparr>],
      sco_data_cluster_used = [], sco_data_cluster_base = 2, sco_data_cluster_count = 0,
      sco_data_alloc_cursor = 0, sco_has_base = False, sco_base_uri = [], sco_base_uuid = zeros 16,
      sco_has_base_uuid = False, sco_base_digest = zeros 32, sco_has_base_digest = False\<rparr>"

lemma sco_demo_geometry: "sco_geometry sco_demo_sb"
  by (simp add: sco_geometry_def sco_demo_sb_def)

lemma sco_demo_inv: "sco_inv sco_demo"
  using sco_demo_geometry
  by (simp add: sco_inv_def sco_demo_def sco_entry_ok_def sco_present_def) (simp add: sco_demo_sb_def)

lemma sco_demo_ready: "sco_quiet sco_demo" "sco_writable sco_demo" "sco_vsize sco_demo = 512"
  "off \<le> end' \<Longrightarrow> end' \<le> 512 \<Longrightarrow> sco_write_ready sco_demo off end'"
proof -
  show "sco_quiet sco_demo" "sco_writable sco_demo" "sco_vsize sco_demo = 512"
    by (simp_all add: sco_quiet_def sco_writable_def sco_is_sealed_def sco_vsize_def sco_demo_def sco_demo_sb_def)
  assume "off \<le> end'" "end' \<le> 512"
  then have 0: "sco_touches sco_demo off end' j \<Longrightarrow> te_generation (sco_table sco_demo ! j) = 0" for j
    by (cases j) (auto simp: sco_touches_def sco_demo_def sco_demo_sb_def)
  have "(end' + 65535) div 65536 \<le> 1" using \<open>end' \<le> 512\<close> by simp
  then have 1: "(end' + 65535) div 65536 - off div 65536 \<le> 1" by linarith
  have 2: "sco_data_cluster_base sco_demo = 2" "sco_data_cluster_count sco_demo = 0" "sb_cluster_size (sco_sb sco_demo) = 65536"
    "\<not> sco_has_base sco_demo" by (simp_all add: sco_demo_def sco_demo_sb_def)
  show "sco_write_ready sco_demo off end'" unfolding sco_write_ready_def using 0 1 by (simp add: 2)
qed

lemma sco_demo_write:
  assumes "off + length buf \<le> 512"
  obtains s' where "sco_write sco_demo buf off = (s', Inr ())" "sco_quiet s'"
proof -
  have "off + length buf \<le> sco_vsize sco_demo" "sco_write_ready sco_demo off (off + length buf)"
    using assms by (simp_all add: sco_demo_ready(3,4))
  from sco_write_quiet [OF sco_demo_inv sco_demo_ready(1,2) this] that show ?thesis by blast
qed

section \<open>Properties\<close>

text \<open>The operations of an image, with any arguments and whatever their result, and those that update nothing of a range.\<close>

datatype image_call =
  Call_map u64 u64 | Call_read u64 nat | Call_write "byte list" u64 | Call_discard u64 u64 | Call_flush

fun sco_call :: "sco_image \<Rightarrow> image_call \<Rightarrow> sco_image" where
  "sco_call s (Call_map off len) = fst (sco_map s off len)"
| "sco_call s (Call_read off len) = fst (sco_read s off len)"
| "sco_call s (Call_write buf off) = fst (sco_write s buf off)"
| "sco_call s (Call_discard off len) = fst (sco_discard s off len)"
| "sco_call s Call_flush = fst (sco_flush s)"

fun call_apart :: "u64 \<Rightarrow> nat \<Rightarrow> image_call \<Rightarrow> bool" where
  "call_apart off n (Call_write buf o2) = (o2 + length buf \<le> off \<or> off + n \<le> o2)"
| "call_apart off n (Call_discard o2 len) = (o2 + len \<le> off \<or> off + n \<le> o2)"
| "call_apart off n _ = True"

definition sco_holds :: "sco_image \<Rightarrow> u64 \<Rightarrow> byte list \<Rightarrow> bool" where
  "sco_holds s off buf \<longleftrightarrow> sco_inv s \<and> off + length buf \<le> sco_vsize s \<and>
     (\<forall>i < length buf. sco_cell s (off + i) = Some (buf ! i))"

lemma holds_outside:
  assumes "sco_holds s off buf" "sco_inv s'" "sco_vsize s' = sco_vsize s"
    and "cells_outside hb (sco_cell s) o2 n (sco_cell s')" "o2 + n \<le> off \<or> off + length buf \<le> o2"
  shows "sco_holds s' off buf"
proof -
  have "sco_cell s' (off + i) = Some (buf ! i)" if "i < length buf" for i
  proof -
    have "\<not> (o2 \<le> off + i \<and> off + i < o2 + n)" using assms(5) that by auto
    with assms(1,4) that show ?thesis unfolding sco_holds_def cells_outside_def by (metis option.distinct(1))
  qed
  with assms(1-3) show ?thesis by (simp add: sco_holds_def)
qed

lemma holds_call:
  assumes "sco_holds s off buf" "call_apart off (length buf) c"
  shows "sco_holds (sco_call s c) off buf"
proof -
  have inv: "sco_inv s" using assms(1) by (simp add: sco_holds_def)
  have same: "sco_holds s' off buf" if "sco_inv s' \<and> sco_vsize s' = sco_vsize s \<and> sco_cell s' = sco_cell s" for s'
    using that assms(1) by (simp add: sco_holds_def)
  show ?thesis
  proof (cases c)
    case (Call_map o2 n)
    then show ?thesis using same sco.map_frame [OF inv, of o2 n] by (metis prod.collapse sco_call.simps(1))
  next
    case (Call_read o2 n)
    then show ?thesis using same sco.read_frame [OF inv, of o2 n] by (metis prod.collapse sco_call.simps(2))
  next
    case (Call_write b o2)
    show ?thesis
    proof (cases "o2 + length b \<le> sco_vsize s")
      case True
      obtain s' r where "sco_write s b o2 = (s', r)" by fastforce
      with sco.write_frame [OF inv True this] holds_outside [OF assms(1), of s' "sco_has_base s" o2 "length b"] assms(2) Call_write
      show ?thesis by simp
    next
      case False
      then have "fst (sco_write s b o2) = s"
        by (auto simp: sco_write_def sco_validate_write_locked_def sco_vsize_def split: sum.splits)
      with assms(1) Call_write show ?thesis by simp
    qed
  next
    case (Call_discard o2 n)
    show ?thesis
    proof (cases "o2 + n \<le> sco_vsize s")
      case True
      obtain s' r where "sco_discard s o2 n = (s', r)" by fastforce
      with sco.discard_frame [OF inv True this] holds_outside [OF assms(1), of s' "sco_has_base s" o2 n] assms(2) Call_discard
      show ?thesis by simp
    next
      case False
      then have "fst (sco_discard s o2 n) = s" by (auto simp: sco_discard_def sco_vsize_def)
      with assms(1) Call_discard show ?thesis by simp
    qed
  next
    case Call_flush
    obtain s' r where f: "sco_flush s = (s', r)" by fastforce
    then have "sco_only_script s s'" by (auto simp: sco_flush_def dest: sco_fsync_only_script)
    with sco_only_scriptD(5-7) [OF this] inv Call_flush f show ?thesis using same by simp
  qed
qed

lemma holds_calls:
  "sco_holds s off buf \<Longrightarrow> \<forall>c\<in>set cs. call_apart off (length buf) c \<Longrightarrow> sco_holds (foldl sco_call s cs) off buf"
  by (induction cs arbitrary: s) (simp_all add: holds_call)

lemma holds_write:
  assumes "sco_inv s" "off + length buf \<le> sco_vsize s" "sco_write s buf off = (s1, Inr ())"
  shows "sco_holds s1 off buf"
  using sco.write_ok [OF assms] assms(2) by (auto simp: sco_holds_def cells_updated_def)

text \<open>
  Property C21: what a successful write on an SCO image stored stays there.  After it, any
  sequence of calls follows, reads, writes, discards and flushes with any arguments, that may
  succeed or fail half-way, as long as no write and no discard overlaps the range.  Then every
  successful read inside the range returns the bytes written, on any host behaviour.
\<close>

theorem sco_read_your_writes:
  assumes "sco_inv s" "off + length buf \<le> sco_vsize s" "sco_write s buf off = (s1, Inr ())"
    and "\<forall>c\<in>set cs. call_apart off (length buf) c" "k + n \<le> length buf"
    and "sco_read (foldl sco_call s1 cs) (off + k) n = (s2, Inr bs)"
  shows "bs = take n (drop k buf)"
proof -
  have h: "sco_holds (foldl sco_call s1 cs) off buf"
    by (rule holds_calls [OF holds_write [OF assms(1-3)] assms(4)])
  then have "sco_inv (foldl sco_call s1 cs)" "off + k + n \<le> sco_vsize (foldl sco_call s1 cs)"
    using assms(5) by (simp_all add: sco_holds_def)
  from sco.read_ok [OF this assms(6)] h assms(5) show ?thesis
    by (intro nth_equalityI) (auto simp: sco_holds_def add.assoc)
qed

theorem sco_read_your_writes_witness:
  "\<exists>s1 s2. sco_write sco_demo [7, 8] 3 = (s1, Inr ()) \<and>
     sco_read (foldl sco_call s1 [Call_read 0 512, Call_write [1] 700]) 4 1 = (s2, Inr [8])"
proof -
  let ?cs = "[Call_read 0 512, Call_write [1] 700]"
  obtain s1 where w: "sco_write sco_demo [7, 8] 3 = (s1, Inr ())" "sco_quiet s1"
    by (rule sco_demo_write [of 3 "[7, 8]"]) simp_all
  have le: "3 + length [7, 8::byte] \<le> sco_vsize sco_demo" by (simp add: sco_demo_ready(3))
  have h: "sco_holds (foldl sco_call s1 ?cs) 3 [7, 8]"
    by (rule holds_calls [OF holds_write [OF sco_demo_inv le w(1)]]) simp
  have s1: "sco_vsize s1 = 512" "sco_inv s1"
    using sco.write_ok [OF sco_demo_inv le w(1)] sco_demo_ready(3) by simp_all
  have "fst (sco_read s1 0 512) = s1" using sco_read_quiet [OF s1(2) w(2), of 0 512] s1(1) by simp
  then have "foldl sco_call s1 ?cs = s1"
    using s1(1) by (simp add: sco_write_def sco_validate_write_locked_def sco_vsize_def split: sum.splits)
  then have "sco_quiet (foldl sco_call s1 ?cs)" using w(2) by simp
  then obtain s2 bs where r: "sco_read (foldl sco_call s1 ?cs) (3 + 1) 1 = (s2, Inr bs)"
    using sco_read_quiet [of "foldl sco_call s1 ?cs" "3 + 1" 1] h by (auto simp: sco_holds_def)
  from sco_read_your_writes [OF sco_demo_inv le w(1) _ _ r] w(1) r show ?thesis by auto
qed

text \<open>
  Property C3: \<open>sco_write\<close> refines an update of the layer's byte map.  Whether it succeeds
  or fails, the invariant of the image is kept and no byte outside the requested range
  changes its meaning; if it succeeds, exactly the bytes of the range have the new values.
\<close>

theorem sco_write_refines_update:
  assumes "sco_inv s" "off + length buf \<le> sco_vsize s" "sco_write s buf off = (s', r)"
  shows "sco_inv s' \<and> sco_vsize s' = sco_vsize s \<and>
    cells_outside (sco_has_base s) (sco_cell s) off (length buf) (sco_cell s') \<and>
    (r = Inr () \<longrightarrow> cells_updated (sco_has_base s) (sco_cell s) off buf (sco_cell s'))"
  using sco_write_post [OF assms] sco_staticD(1) [of s' s] by (auto simp: sco_update_post_def sco_vsize_def)

theorem sco_write_refines_update_witness:
  "\<exists>s'. sco_write sco_demo [7, 8] 3 = (s', Inr ()) \<and> sco_inv s' \<and>
     sco_cell s' 3 = Some 7 \<and> sco_cell s' 4 = Some 8"
proof -
  obtain s' where w: "sco_write sco_demo [7, 8] 3 = (s', Inr ())"
    by (rule sco_demo_write [of 3 "[7, 8]"]) simp_all
  from sco_write_refines_update [OF sco_demo_inv _ w]
  have "sco_inv s'" and u: "cells_updated (sco_has_base sco_demo) (sco_cell sco_demo) 3 [7, 8] (sco_cell s')"
    by (simp_all add: sco_demo_ready(3))
  from u [unfolded cells_updated_def, rule_format, of 3] u [unfolded cells_updated_def, rule_format, of 4]
  show ?thesis using w \<open>sco_inv s'\<close> by simp
qed

text \<open>
  \<open>sco_discard\<close> refines an update of the range with zeros, with the same
  guarantees on failure.  A cluster without base data may become a zero cluster as a whole.
\<close>

theorem sco_discard_refines_zeroing:
  assumes "sco_inv s" "off + len \<le> sco_vsize s" "sco_discard s off len = (s', r)"
  shows "sco_inv s' \<and> sco_vsize s' = sco_vsize s \<and>
    cells_outside (sco_has_base s) (sco_cell s) off len (sco_cell s') \<and>
    (r = Inr () \<longrightarrow> cells_updated (sco_has_base s) (sco_cell s) off (replicate len 0) (sco_cell s'))"
  using sco_discard_post [OF assms] sco_staticD(1) [of s' s]
  by (auto simp: sco_update_post_def sco_vsize_def zeros_def)

theorem sco_discard_refines_zeroing_witness:
  "\<exists>s' r. sco_discard sco_demo 0 512 = (s', r) \<and> sco_inv s' \<and> sco_vsize s' = 512"
proof -
  obtain s' r where "sco_discard sco_demo 0 512 = (s', r)" by fastforce
  with sco_discard_refines_zeroing [OF sco_demo_inv _ this] show ?thesis by (auto simp: sco_demo_ready(3))
qed

text \<open>
  Property C22: on a host that does not fail, a write inside a disk that is not read-only or sealed
  succeeds, as long as the clusters it touches have generations left, there are cluster numbers
  for them, and none of them that still belongs to a base image is covered in part; a cluster
  counts as covered when the write contains all of it that lies on the disk.
\<close>

theorem sco_write_progress:
  assumes "sco_inv s" "h_script (sco_fd s) = []" "\<not> sco_readonly s" "\<not> sco_is_sealed (sco_sb s)"
    and "off + length buf \<le> sco_vsize s" "sco_write_ready s off (off + length buf)"
  shows "\<exists>s'. sco_write s buf off = (s', Inr ())"
  using sco_write_quiet [OF assms(1) _ _ assms(5,6)] assms(2-4) by (auto simp: sco_quiet_def sco_writable_def)

theorem sco_write_progress_witness:
  "\<exists>s'. sco_write sco_demo [1, 2, 3] 509 = (s', Inr ())"
  using sco_demo_ready
  by (intro sco_write_progress sco_demo_inv) (simp_all add: sco_quiet_def sco_writable_def)

text \<open>
  On a host that does not fail, a read inside the disk returns exactly the
  bytes the layer holds, with zeros where the layer holds none, and changes nothing.
\<close>

theorem sco_read_returns_content:
  assumes "sco_inv s" "h_script (sco_fd s) = []" "off + len \<le> sco_vsize s"
  shows "sco_read s off len = (s, Inr (map (\<lambda>i. cell_byte (sco_cell s (off + i))) [0..<len]))"
  using sco_read_quiet [OF assms(1) _ assms(3)] assms(2) by (simp add: sco_quiet_def)

theorem sco_read_returns_content_witness:
  "sco_read sco_demo 10 3 = (sco_demo, Inr [0, 0, 0])"
proof -
  have "h_script (sco_fd sco_demo) = []" "10 + 3 \<le> sco_vsize sco_demo"
    using sco_demo_ready(1,3) by (simp_all add: sco_quiet_def)
  from sco_read_returns_content [OF sco_demo_inv this]
  show ?thesis by (simp add: upt_rec sco_cell_def sco_demo_def sco_demo_sb_def)
qed

text \<open>
  Property C23: a data cluster handed out by the allocator is owned by no table entry, and
  writing it, completely or in part, changes no byte that the table or the metadata refers
  to.
\<close>

theorem sco_alloc_never_aliases:
  assumes "sco_inv s" "i < sb_cluster_count (sco_sb s)" "length buf = sco_cluster_stored_length (sco_sb s) i"
    and "sco_alloc_data_cluster s i buf = (s', r)"
  shows "sco_inv s' \<and> sco_table s' = sco_table s \<and> sco_cell s' = sco_cell s \<and>
    (\<forall>a < sb_data_area_offset (sco_sb s). h_bytes (sco_fd s') a = h_bytes (sco_fd s) a) \<and>
    (\<forall>po j. r = Inr po \<and> sco_present s j \<longrightarrow> po \<noteq> sco_phys s j * sb_cluster_size (sco_sb s))"
proof -
  note a = sco_alloc_result [OF assms]
  have "po \<noteq> sco_phys s j * sb_cluster_size (sco_sb s)" if "r = Inr po" "sco_present s j" for po j
    using a that sco_invD(8) [OF assms(1)] by (auto simp: sco_alloc_post_def)
  with a sco_data_frame_cell [OF assms(1), of "{}" s'] show ?thesis
    by (auto simp: sco_data_frame_def sco_live_def)
qed

theorem sco_alloc_never_aliases_witness:
  "\<exists>s' r. sco_alloc_data_cluster sco_demo 0 (replicate 512 1) = (s', r) \<and> sco_cell s' = sco_cell sco_demo"
proof -
  obtain s' r where a: "sco_alloc_data_cluster sco_demo 0 (replicate 512 1) = (s', r)" by fastforce
  have "0 < sb_cluster_count (sco_sb sco_demo)"
    "length (replicate 512 (1::byte)) = sco_cluster_stored_length (sco_sb sco_demo) 0"
    by (simp_all add: sco_demo_def sco_demo_sb_def sco_cluster_stored_length_def mul64_def sub64_def)
  from sco_alloc_never_aliases [OF sco_demo_inv this a] a show ?thesis by blast
qed

text \<open>
  Property C24: committing a table entry is failure-atomic.  If any system call of the commit
  fails, the table and the content are as before, and of the metadata only the entry's
  inactive slot can have changed on disk.
\<close>

theorem sco_commit_failure_atomic:
  assumes "sco_inv s" "sco_commit_args_ok s i st po pc" "sco_commit_table_entry s i st po = (s', Inl e)"
  shows "sco_inv s' \<and> sco_table s' = sco_table s \<and> sco_cell s' = sco_cell s \<and>
    (\<forall>a < sb_data_area_offset (sco_sb s). a \<notin> sco_slot_range (sco_sb s) i (sco_next_slot (sco_table s ! i)) \<longrightarrow>
       h_bytes (sco_fd s') a = h_bytes (sco_fd s) a)"
  using assms(1,2,3)
proof (cases rule: sco_commit_cases)
  case (fail e')
  then show ?thesis
    using sco_commit_cells(3) [OF assms] by (auto simp: sco_data_frame_def sco_live_def)
qed simp

theorem sco_commit_failure_atomic_witness:
  "\<exists>s' e. sco_commit_table_entry (sco_demo\<lparr>sco_fd := \<lparr>h_size = 131072, h_bytes = (\<lambda>_. 0), h_script = [IoErr EIO]\<rparr>\<rparr>)
      0 SCO_MAP_STATE_ZERO 0 = (s', Inl e) \<and> sco_table s' = sco_table sco_demo"
proof -
  let ?s = "sco_demo\<lparr>sco_fd := \<lparr>h_size = 131072, h_bytes = (\<lambda>_. 0), h_script = [IoErr EIO]\<rparr>\<rparr>"
  have inv: "sco_inv ?s"
    by (rule sco_inv_same_data(1) [OF sco_demo_inv]) (simp add: same_data_def sco_demo_def)
  have args: "sco_commit_args_ok ?s 0 SCO_MAP_STATE_ZERO 0 0"
    by (simp add: sco_commit_args_ok_def sco_demo_def sco_demo_sb_def)
  have len: "sco_build_slot sb i k g st p \<noteq> []" for sb i k g st p
    by (metis length_sco_build_slot list.size(3) zero_neq_numeral)
  have "\<exists>s'. sco_commit_table_entry ?s 0 SCO_MAP_STATE_ZERO 0 = (s', Inl EIO)"
    using len by (simp add: sco_commit_table_entry_def Let_def sco_demo_def sco_demo_sb_def sco_state_valid_def
        sco_io_def write_exact.simps pwrite_def sco_table_slot_offset_def add64_def mul64_def)
  then obtain s' where c: "sco_commit_table_entry ?s 0 SCO_MAP_STATE_ZERO 0 = (s', Inl EIO)" by blast
  from sco_commit_failure_atomic [OF inv args c] c show ?thesis by auto
qed

text \<open>
  A table slot that the encoder writes is decoded to the same entry, for every
  cluster, either slot, every generation and every mapping inside the file.
\<close>

theorem sco_slot_codec_roundtrip:
  assumes "sco_geometry sb" "0 < g" "g \<le> UINT32_MAX" "st \<le> 3"
    and "if st = SCO_MAP_STATE_PRESENT then
        ph \<le> UINT32_MAX \<and> sb_data_area_offset sb \<le> ph * sb_cluster_size sb \<and>
        ph * sb_cluster_size sb + sco_cluster_stored_length sb i \<le> file_size
      else ph = 0"
  shows "sco_slot_valid sb file_size i k (sco_build_slot sb i k g st ph) =
    Some \<lparr>te_generation = g, te_physical_cluster = ph, te_state = st, te_active_slot = k, te_flags = 0\<rparr>"
proof (rule sco_slot_roundtrip)
  have cs: "0 < sb_cluster_size sb" "sb_cluster_size sb \<le> 4194304" "65536 \<le> sb_data_area_offset sb"
    using assms(1) sco_geometryD(1) [OF assms(1)] by (auto simp: sco_geometry_def)
  show "ph \<le> UINT32_MAX" using assms(5) by (auto split: if_splits)
  assume st: "st = SCO_MAP_STATE_PRESENT"
  have "ph * sb_cluster_size sb \<le> 4294967295 * 4194304"
    using assms(5) st cs by (intro mult_le_mono) auto
  then have "ph \<le> UINT64_MAX div sb_cluster_size sb"
    using cs(1) by (simp add: less_eq_div_iff_mult_less_eq)
  then show "ph \<noteq> 0 \<and> ph \<le> UINT64_MAX div sb_cluster_size sb \<and> sb_data_area_offset sb \<le> ph * sb_cluster_size sb \<and>
      ph * sb_cluster_size sb + sco_cluster_stored_length sb i \<le> file_size"
    using assms(5) st cs by (auto intro: gr0I)
qed (use assms in \<open>auto simp: sco_state_valid_def split: if_splits\<close>)

theorem sco_slot_codec_roundtrip_witness:
  "sco_slot_valid sco_demo_sb 131584 0 0 (sco_build_slot sco_demo_sb 0 0 5 SCO_MAP_STATE_PRESENT 2) =
     Some \<lparr>te_generation = 5, te_physical_cluster = 2, te_state = 1, te_active_slot = 0, te_flags = 0\<rparr>"
  by (rule sco_slot_codec_roundtrip [OF sco_demo_geometry])
     (simp_all add: sco_demo_sb_def sco_cluster_stored_length_def mul64_def sub64_def)

text \<open>
  A superblock page built from a superblock with a valid layout is accepted by
  the decoder and yields the same superblock, checksum and reserved bytes included.
\<close>

theorem sco_superblock_codec_roundtrip:
  assumes "sco_superblock_fits sb" "sco_superblock_layout_valid sb file_size"
    and "sb_incompatible_features sb = SCO_INCOMPAT_FIXED_TABLE_V2"
    and "sb_readonly_compatible_features sb AND NOT SCO_RO_COMPAT_SUPPORTED = 0"
  shows "sco_decode_superblock (sco_build_superblock sb) readonly (sb_image_uuid sb) file_size = Inr sb"
  using assms by (intro sco_decode_build_superblock) auto

lemma sco_demo_sb_valid: "sco_superblock_fits sco_demo_sb" "sco_superblock_layout_valid sco_demo_sb 131072"
  by (simp_all add: sco_superblock_fits_def sco_superblock_layout_valid_def sco_demo_sb_def is_power_of_two_u64_def
      range_before_data_def range_fits_def add64_def sub64_def mul64_def)

theorem sco_superblock_codec_roundtrip_witness:
  "sco_decode_superblock (sco_build_superblock sco_demo_sb) False (zeros 16) 131072 = Inr sco_demo_sb"
  using sco_superblock_codec_roundtrip [OF sco_demo_sb_valid, of False] by (simp add: sco_demo_sb_def)

text \<open>
  Property C25: a superblock layout that passes validation has no wrapped arithmetic behind
  it.  The cluster count covers the disk exactly, the disk is at most 8 TiB, every table slot
  lies between the metadata area and the data area, and every cluster's stored bytes end
  inside the disk.
\<close>

theorem sco_layout_no_wrap:
  assumes "sco_superblock_layout_valid sb file_size" "sb_virtual_size sb \<le> UINT64_MAX" "file_size \<le> INT64_MAX"
    and "i < sb_cluster_count sb" "k \<le> 1"
  shows "sb_virtual_size sb \<le> sb_cluster_count sb * sb_cluster_size sb \<and>
    (sb_cluster_count sb - 1) * sb_cluster_size sb < sb_virtual_size sb \<and> sb_virtual_size sb \<le> 8796093022208 \<and>
    65536 \<le> sco_table_slot_offset sb i k \<and>
    sco_table_slot_offset sb i k + SCO_TABLE_SLOT_SIZE \<le> sb_data_area_offset sb \<and>
    0 < sco_cluster_stored_length sb i \<and>
    i * sb_cluster_size sb + sco_cluster_stored_length sb i \<le> sb_virtual_size sb"
proof -
  note g = sco_layout_geometry(1) [OF assms(1-3)]
  show ?thesis
    using sco_geometryD(3-5) [OF g] sco_table_slot_offset_eq [OF g assms(4,5)] sco_stored_length_bounds(1,3) [OF g assms(4)]
    by simp
qed

theorem sco_layout_no_wrap_witness:
  "65536 \<le> sco_table_slot_offset sco_demo_sb 0 1 \<and> 0 < sco_cluster_stored_length sco_demo_sb 0"
  using sco_layout_no_wrap [OF sco_demo_sb_valid(2), of 0 1] by (simp add: sco_demo_sb_def)

end
