(* ===== verification/Image_Uri.thy ===== *)
theory Image_Uri
  imports Prelude "HOL-Library.Sublist"
begin

text \<open>
  Base-image locations, \<^verbatim>\<open>src/scorpi_image_uri.c\<close>: how the \<open>file:\<close> URI stored in an image
  is turned into the path of its base, and the policy on where that path may lie.

  Paths are strings.  The working directory that \<open>getcwd\<close> returns is a parameter.
\<close>

section \<open>Base-image URIs\<close>

abbreviation (input) MAXPATHLEN :: nat where "MAXPATHLEN \<equiv> 1024"

datatype scorpi_image_uri_scheme = SCORPI_IMAGE_URI_FILE

record scorpi_image_uri_policy =
  allow_absolute_file_uri :: bool
  allowed_root :: "string option"

record scorpi_image_base_location =
  loc_scheme :: scorpi_image_uri_scheme
  loc_original_uri :: string
  loc_resolved_path :: string

definition path_is_absolute :: "string \<Rightarrow> bool" where
  "path_is_absolute path \<longleftrightarrow> path \<noteq> [] \<and> hd path = CHR ''/''"

definition make_absolute_path :: "string res \<Rightarrow> string \<Rightarrow> nat \<Rightarrow> string res" where
  "make_absolute_path cwd path buflen =
     (if path = [] then Inl EINVAL
      else if path_is_absolute path then (if buflen \<le> length path then Inl ENAMETOOLONG else Inr path)
      else case cwd of
          Inl e \<Rightarrow> Inl e
        | Inr d \<Rightarrow> if buflen \<le> length (d @ ''/'' @ path) then Inl ENAMETOOLONG else Inr (d @ ''/'' @ path))"

text \<open>\<open>strrchr\<close> for the slash: the part before the last slash, if there is one.\<close>

fun before_last_slash :: "string \<Rightarrow> string option" where
  "before_last_slash [] = None"
| "before_last_slash (c # cs) =
     (case before_last_slash cs of
        Some p \<Rightarrow> Some (c # p)
      | None \<Rightarrow> if c = CHR ''/'' then Some [] else None)"

definition dirname_of_path :: "string \<Rightarrow> nat \<Rightarrow> string res" where
  "dirname_of_path path buflen =
     (case before_last_slash path of
        None \<Rightarrow> if buflen \<le> 1 then Inl ENAMETOOLONG else Inr ''.''
      | Some p \<Rightarrow>
          let d = (if p = [] then ''/'' else p)
          in if buflen < length d + 1 then Inl ENAMETOOLONG else Inr d)"

text \<open>The tokens \<open>strsep(&cursor, "/")\<close> delivers, empty ones included.\<close>

fun path_tokens :: "string \<Rightarrow> string list" where
  "path_tokens [] = [[]]"
| "path_tokens (c # cs) =
     (if c = CHR ''/'' then [] # path_tokens cs
      else case path_tokens cs of [] \<Rightarrow> [[c]] | t # ts \<Rightarrow> (c # t) # ts)"

fun normalize_tokens :: "string list \<Rightarrow> string list \<Rightarrow> string list res" where
  "normalize_tokens [] components = Inr components"
| "normalize_tokens (token # rest) components =
     (if token = [] \<or> token = ''.'' then normalize_tokens rest components
      else if token = ''..'' then normalize_tokens rest (butlast components)
      else if length components = MAXPATHLEN div 2 then Inl ENAMETOOLONG
      else normalize_tokens rest (components @ [token]))"

definition join_components :: "string list \<Rightarrow> string" where
  "join_components components = concat (map (\<lambda>c. CHR ''/'' # c) components)"

definition normalize_absolute_path :: "string \<Rightarrow> string res" where
  "normalize_absolute_path path =
     (if \<not> path_is_absolute path then Inl EINVAL
      else case normalize_tokens (path_tokens path) [] of
          Inl e \<Rightarrow> Inl e
        | Inr components \<Rightarrow> Inr (if components = [] then ''/'' else join_components components))"

definition path_is_under_root :: "string \<Rightarrow> string \<Rightarrow> bool" where
  "path_is_under_root path root \<longleftrightarrow>
     (if root = ''/'' then path_is_absolute path
      else take (length root) path = root \<and>
        (length path = length root \<or> path ! length root = CHR ''/''))"

definition normalize_policy_root :: "string res \<Rightarrow> string \<Rightarrow> string res" where
  "normalize_policy_root cwd root =
     (case make_absolute_path cwd root MAXPATHLEN of
        Inl e \<Rightarrow> Inl e
      | Inr abs_root \<Rightarrow> normalize_absolute_path abs_root)"

definition default_uri_policy :: scorpi_image_uri_policy where
  "default_uri_policy = \<lparr>allow_absolute_file_uri = True, allowed_root = None\<rparr>"

text \<open>The scheme and absoluteness checks, then the path before normalisation.\<close>

definition uri_joined_path :: "string res \<Rightarrow> string \<Rightarrow> string \<Rightarrow> scorpi_image_uri_policy \<Rightarrow> string res" where
  "uri_joined_path cwd image_path base_uri policy =
     (if take 5 base_uri \<noteq> ''file:'' then Inl ENOTSUP
      else let rest = drop 5 base_uri in
        if rest = [] then Inl EINVAL
        else if take 3 rest = ''///'' then
          (if \<not> allow_absolute_file_uri policy then Inl EACCES
           else if MAXPATHLEN \<le> length (drop 2 rest) then Inl ENAMETOOLONG
           else Inr (drop 2 rest))
        else if hd rest = CHR ''/'' then Inl EINVAL
        else case make_absolute_path cwd image_path MAXPATHLEN of
            Inl e \<Rightarrow> Inl e
          | Inr abs_child \<Rightarrow>
              (case dirname_of_path abs_child MAXPATHLEN of
                 Inl e \<Rightarrow> Inl e
               | Inr base_dir \<Rightarrow>
                   if MAXPATHLEN \<le> length (base_dir @ ''/'' @ rest) then Inl ENAMETOOLONG
                   else Inr (base_dir @ ''/'' @ rest)))"

definition scorpi_image_base_location_resolve ::
  "string res \<Rightarrow> string \<Rightarrow> string \<Rightarrow> scorpi_image_uri_policy option \<Rightarrow> scorpi_image_base_location res" where
  "scorpi_image_base_location_resolve cwd image_path base_uri policy_opt =
     (let policy = (case policy_opt of None \<Rightarrow> default_uri_policy | Some p \<Rightarrow> p) in
      case uri_joined_path cwd image_path base_uri policy of
        Inl e \<Rightarrow> Inl e
      | Inr joined \<Rightarrow>
          (case normalize_absolute_path joined of
             Inl e \<Rightarrow> Inl e
           | Inr normalized \<Rightarrow>
               let location = \<lparr>loc_scheme = SCORPI_IMAGE_URI_FILE, loc_original_uri = base_uri,
                               loc_resolved_path = normalized\<rparr>
               in (case allowed_root policy of
                     None \<Rightarrow> Inr location
                   | Some root \<Rightarrow>
                       (case normalize_policy_root cwd root of
                          Inl e \<Rightarrow> Inl e
                        | Inr normalized_root \<Rightarrow>
                            if path_is_under_root normalized normalized_root then Inr location
                            else Inl EACCES))))"

section \<open>Normal forms\<close>

text \<open>A component of a normalised path: a name, not a step.\<close>

definition plain_component :: "string \<Rightarrow> bool" where
  "plain_component c \<longleftrightarrow> c \<noteq> [] \<and> c \<noteq> ''.'' \<and> c \<noteq> ''..'' \<and> CHR ''/'' \<notin> set c"

lemma path_tokens_not_Nil [simp]: "path_tokens p \<noteq> []"
  by (cases p) (auto split: list.splits)

lemma path_tokens_no_slash: "t \<in> set (path_tokens p) \<Longrightarrow> CHR ''/'' \<notin> set t"
  by (induction p arbitrary: t) (auto split: list.splits if_splits)

lemma path_tokens_append_slash: "path_tokens (a @ CHR ''/'' # b) = path_tokens a @ path_tokens b"
  by (induction a) (auto split: list.splits)

lemma path_tokens_plain: "CHR ''/'' \<notin> set c \<Longrightarrow> path_tokens c = [c]"
  by (induction c) auto

lemma path_tokens_join:
  "cs \<noteq> [] \<Longrightarrow> \<forall>c \<in> set cs. CHR ''/'' \<notin> set c \<Longrightarrow> path_tokens (join_components cs) = [] # cs"
proof (induction cs)
  case (Cons c cs)
  show ?case
  proof (cases "cs = []")
    case True
    then show ?thesis using Cons.prems by (simp add: join_components_def path_tokens_plain)
  next
    case False
    then have "join_components (c # cs) = CHR ''/'' # c @ CHR ''/'' # drop 1 (join_components cs)"
      by (cases cs) (simp_all add: join_components_def)
    moreover have "join_components cs = CHR ''/'' # drop 1 (join_components cs)"
      using False by (cases cs) (simp_all add: join_components_def)
    then have "path_tokens (join_components cs) = [] # path_tokens (drop 1 (join_components cs))"
      by (metis path_tokens.simps(2))
    ultimately show ?thesis
      using Cons False by (simp add: path_tokens_append_slash path_tokens_plain)
  qed
qed simp

lemma normalize_tokens_result:
  "normalize_tokens ts acc = Inr cs \<Longrightarrow> \<forall>t \<in> set ts. CHR ''/'' \<notin> set t \<Longrightarrow> list_all plain_component acc \<Longrightarrow>
     length acc \<le> 512 \<Longrightarrow> list_all plain_component cs \<and> length cs \<le> 512"
proof (induction ts arbitrary: acc)
  case (Cons token rest)
  have rest: "\<forall>t \<in> set rest. CHR ''/'' \<notin> set t" using Cons.prems(2) by simp
  consider (skip) "token = [] \<or> token = ''.''" | (up) "token = ''..''"
    | (name) "token \<noteq> []" "token \<noteq> ''.''" "token \<noteq> ''..''" by blast
  then show ?case
  proof cases
    case skip
    with Cons.prems(1) have "normalize_tokens rest acc = Inr cs" by auto
    from Cons.IH [OF this rest Cons.prems(3,4)] show ?thesis .
  next
    case up
    with Cons.prems(1) have n: "normalize_tokens rest (butlast acc) = Inr cs" by simp
    have "list_all plain_component (butlast acc)"
      using Cons.prems(3) by (auto simp: list_all_iff dest: in_set_butlastD)
    from Cons.IH [OF n rest this] Cons.prems(4) show ?thesis by simp
  next
    case name
    with Cons.prems(1) have n: "normalize_tokens rest (acc @ [token]) = Inr cs" "length acc \<noteq> 512"
      by (auto split: if_splits)
    have "list_all plain_component (acc @ [token])"
      using Cons.prems(2,3) name by (simp add: plain_component_def [of token])
    from Cons.IH [OF n(1) rest this] Cons.prems(4) n(2) show ?thesis by simp
  qed
qed simp

lemma normalize_tokens_plain:
  "list_all plain_component ts \<Longrightarrow> length acc + length ts \<le> 512 \<Longrightarrow> normalize_tokens ts acc = Inr (acc @ ts)"
  by (induction ts arbitrary: acc) (auto simp: plain_component_def)

lemma normalize_absolute_cases:
  assumes "normalize_absolute_path p = Inr q"
  obtains cs where "normalize_tokens (path_tokens p) [] = Inr cs" "list_all plain_component cs" "length cs \<le> 512"
    "q = (if cs = [] then ''/'' else join_components cs)"
  using assms normalize_tokens_result [of "path_tokens p" "[]"] path_tokens_no_slash [of _ p]
  by (auto simp: normalize_absolute_path_def split: if_splits sum.splits)

text \<open>The components of a path in normal form.\<close>

definition path_components :: "string \<Rightarrow> string list" where
  "path_components p = filter (\<lambda>t. t \<noteq> []) (path_tokens p)"

lemma path_components_root [simp]: "path_components ''/'' = []"
  by (simp add: path_components_def)

lemma path_components_join: "list_all plain_component cs \<Longrightarrow> cs \<noteq> [] \<Longrightarrow> path_components (join_components cs) = cs"
  by (auto simp: path_components_def path_tokens_join plain_component_def list_all_iff filter_id_conv)

lemma normalize_absolute_components:
  assumes "normalize_absolute_path p = Inr q"
  shows "list_all plain_component (path_components q)" "length (path_components q) \<le> 512"
    "q = (if path_components q = [] then ''/'' else join_components (path_components q))"
  using assms by (elim normalize_absolute_cases; auto simp: path_components_join split: if_splits)+

lemma normalize_absolute_idem:
  assumes "normalize_absolute_path p = Inr q"
  shows "normalize_absolute_path q = Inr q"
proof -
  obtain cs where cs: "list_all plain_component cs" "length cs \<le> 512"
    "q = (if cs = [] then ''/'' else join_components cs)" using assms by (rule normalize_absolute_cases)
  show ?thesis
  proof (cases "cs = []")
    case True
    then show ?thesis using cs by (simp add: normalize_absolute_path_def path_is_absolute_def)
  next
    case False
    have "path_tokens q = [] # cs"
      using cs False by (simp add: path_tokens_join plain_component_def list_all_iff)
    moreover have "path_is_absolute q"
      using cs False by (cases cs) (simp_all add: path_is_absolute_def join_components_def)
    ultimately show ?thesis
      using cs False normalize_tokens_plain [OF cs(1), of "[]"] by (simp add: normalize_absolute_path_def)
  qed
qed

lemma join_components_append: "join_components (a @ b) = join_components a @ join_components b"
  by (simp add: join_components_def)

text \<open>On normal forms, the string test is the containment of directories.\<close>

lemma path_is_under_root_components:
  assumes "list_all plain_component cs" "list_all plain_component rs"
    and "p = (if cs = [] then ''/'' else join_components cs)" "r = (if rs = [] then ''/'' else join_components rs)"
  shows "path_is_under_root p r \<longleftrightarrow> prefix rs cs"
proof (cases "rs = []")
  case True
  then show ?thesis using assms(3,4)
    by (cases cs) (simp_all add: path_is_under_root_def path_is_absolute_def join_components_def)
next
  case False
  have sl: "\<forall>c \<in> set cs. CHR ''/'' \<notin> set c" "\<forall>c \<in> set rs. CHR ''/'' \<notin> set c"
    using assms(1,2) by (auto simp: plain_component_def list_all_iff)
  have r: "r = join_components rs" "r \<noteq> ''/''" "r \<noteq> []"
    using False assms(2,4) by (auto simp: join_components_def plain_component_def neq_Nil_conv)
  show ?thesis
  proof
    assume u: "path_is_under_root p r"
    then have t: "take (length r) p = r" "length p = length r \<or> p ! length r = CHR ''/''"
      using r by (auto simp: path_is_under_root_def)
    define q where "q = drop (length r) p"
    have p: "p = r @ q" unfolding q_def by (metis append_take_drop_id t(1))
    have "cs \<noteq> []"
    proof
      assume "cs = []"
      then have "r @ q = ''/''" using assms(3) p by simp
      with r(2,3) show False by (metis append_is_Nil_conv append_eq_Cons_conv append_Nil2)
    qed
    then have tok: "path_tokens p = [] # cs" using assms(3) sl by (simp add: path_tokens_join)
    show "prefix rs cs"
    proof (cases q)
      case Nil
      then have "[] # cs = [] # rs" using tok p r path_tokens_join [OF False sl(2)] by simp
      then show ?thesis by simp
    next
      case (Cons x q')
      then have "x = CHR ''/''" using t(2) p by (auto simp: nth_append)
      then have "path_tokens p = path_tokens r @ path_tokens q'"
        using p Cons by (simp add: path_tokens_append_slash)
      then have "[] # cs = ([] # rs) @ path_tokens q'" using tok r path_tokens_join [OF False sl(2)] by simp
      then show ?thesis by simp
    qed
  next
    assume "prefix rs cs"
    then obtain ts where cs: "cs = rs @ ts" by (auto simp: prefix_def)
    then have "p = r @ join_components ts" using assms(3) r False by (simp add: join_components_append)
    then show "path_is_under_root p r"
      using r by (cases ts) (auto simp: path_is_under_root_def join_components_def nth_append)
  qed
qed

section \<open>Properties\<close>

text \<open>
  Normalisation is total on short absolute paths up to the component limit,
  and its result is a normal form: absolute, free of empty, \<open>.\<close> and \<open>..\<close> components, and a
  fixed point of normalisation.
\<close>

theorem normalize_absolute_path_normal:
  assumes "normalize_absolute_path p = Inr q"
  shows "path_is_absolute q \<and> list_all plain_component (path_components q) \<and> normalize_absolute_path q = Inr q"
  using normalize_absolute_components(1) [OF assms] normalize_absolute_idem [OF assms]
  by (auto simp: normalize_absolute_path_def split: if_splits)

theorem normalize_absolute_path_normal_witness:
  "normalize_absolute_path ''/vm/./disks/../base//a.sco'' = Inr ''/vm/base/a.sco'' \<and> path_is_absolute ''/vm/base/a.sco''"
proof -
  have n: "normalize_absolute_path ''/vm/./disks/../base//a.sco'' = Inr ''/vm/base/a.sco''"
    by (simp add: normalize_absolute_path_def path_is_absolute_def join_components_def)
  from normalize_absolute_path_normal [OF n] n show ?thesis by blast
qed

text \<open>
  Property C4: the location policy confines base images.  When a policy names an allowed
  root, every location the resolver returns lies in that directory tree: the components of
  the normalised root are a prefix of the components of the resolved path, so neither
  \<open>..\<close> steps, nor absolute URIs, nor sibling names that merely share a string prefix escape.
\<close>

theorem base_location_confined:
  assumes "scorpi_image_base_location_resolve cwd image_path base_uri (Some policy) = Inr location"
    and "allowed_root policy = Some root"
  shows "\<exists>nroot. normalize_policy_root cwd root = Inr nroot \<and>
    prefix (path_components nroot) (path_components (loc_resolved_path location)) \<and>
    list_all plain_component (path_components (loc_resolved_path location))"
proof -
  from assms obtain joined n nroot where j: "normalize_absolute_path joined = Inr n"
    and r: "normalize_policy_root cwd root = Inr nroot" and u: "path_is_under_root n nroot"
    and l: "loc_resolved_path location = n"
    by (auto simp: scorpi_image_base_location_resolve_def Let_def split: sum.splits if_splits)
  from r obtain ar where ar: "normalize_absolute_path ar = Inr nroot"
    by (auto simp: normalize_policy_root_def split: sum.splits)
  note cn = normalize_absolute_components [OF j] and cr = normalize_absolute_components [OF ar]
  from u have "prefix (path_components nroot) (path_components n)"
    using path_is_under_root_components [OF cn(1) cr(1) cn(3) cr(3)] by simp
  with r l cn(1) show ?thesis by blast
qed

theorem base_location_confined_witness:
  "\<exists>location nroot. scorpi_image_base_location_resolve (Inl EIO) ''/vm/disks/top.sco'' ''file:../base.sco''
      (Some \<lparr>allow_absolute_file_uri = False, allowed_root = Some ''/vm''\<rparr>) = Inr location \<and>
    normalize_policy_root (Inl EIO) ''/vm'' = Inr nroot \<and>
    prefix (path_components nroot) (path_components (loc_resolved_path location))"
proof -
  have "\<exists>location. scorpi_image_base_location_resolve (Inl EIO) ''/vm/disks/top.sco'' ''file:../base.sco''
      (Some \<lparr>allow_absolute_file_uri = False, allowed_root = Some ''/vm''\<rparr>) = Inr location"
    by (simp add: scorpi_image_base_location_resolve_def uri_joined_path_def make_absolute_path_def
        dirname_of_path_def normalize_absolute_path_def path_is_absolute_def join_components_def
        normalize_policy_root_def path_is_under_root_def)
  then obtain location where l: "scorpi_image_base_location_resolve (Inl EIO) ''/vm/disks/top.sco'' ''file:../base.sco''
      (Some \<lparr>allow_absolute_file_uri = False, allowed_root = Some ''/vm''\<rparr>) = Inr location" by blast
  from base_location_confined [OF l, of "''/vm''"] l show ?thesis by auto
qed

end
