(* ===== verification/Image_Chain.thy ===== *)
theory Image_Chain
  imports Image_Types Image_Uri
begin

text \<open>
  The layer chain of \<^verbatim>\<open>src/scorpi_image_chain.c\<close>: an image and the base images below it, read
  through a cache of the last resolved extent and written copy-on-write into the top layer.

  The chain is generic in the backends' state.  Locks do not appear: every operation holds
  the chain lock from its first access to its last.
\<close>

section \<open>Chains\<close>

record 's scorpi_image =
  img_ops :: "'s scorpi_image_ops"
  img_state :: 's
  img_path :: "string option"
  img_source_uri :: "string option"
  img_dev :: nat
  img_ino :: nat
  img_has_file_id :: bool
  img_info :: scorpi_image_info

record scorpi_image_read_cache =
  rc_valid :: bool
  rc_offset :: u64
  rc_length :: u64
  rc_state :: scorpi_image_extent_state
  rc_image_index :: nat

record 's scorpi_image_chain =
  images :: "'s scorpi_image list"
  read_cache :: scorpi_image_read_cache

record scorpi_image_chain_open_options =
  opt_raw_fallback :: bool
  opt_max_depth :: nat
  opt_uri_policy :: scorpi_image_uri_policy
  opt_has_uri_policy :: bool

abbreviation (input) img_vsize :: "'s scorpi_image \<Rightarrow> u64" where
  "img_vsize im \<equiv> info_virtual_size (img_info im)"

definition scorpi_image_chain_alloc :: "'s scorpi_image_chain" where
  "scorpi_image_chain_alloc =
     \<lparr>images = [], read_cache = \<lparr>rc_valid = False, rc_offset = 0, rc_length = 0,
        rc_state = SCORPI_IMAGE_EXTENT_ABSENT, rc_image_index = 0\<rparr>\<rparr>"

definition scorpi_image_chain_read_cache_invalidate :: "'s scorpi_image_chain \<Rightarrow> 's scorpi_image_chain" where
  "scorpi_image_chain_read_cache_invalidate chain = chain\<lparr>read_cache := (read_cache chain)\<lparr>rc_valid := False\<rparr>\<rparr>"

definition scorpi_image_close_image :: "'s scorpi_image \<Rightarrow> unit res" where
  "scorpi_image_close_image img = ops_close (img_ops img) (img_state img)"

text \<open>The identity of a file, \<open>st_dev\<close> and \<open>st_ino\<close>, and a descriptor together with it.\<close>

type_synonym file_id = "nat \<times> nat"
type_synonym host_fd = "hfile \<times> file_id"

definition scorpi_image_alloc ::
  "'s scorpi_image_ops \<Rightarrow> 's \<Rightarrow> string option \<Rightarrow> string option \<Rightarrow> file_id option \<Rightarrow> 's scorpi_image res" where
  "scorpi_image_alloc ops state path source_uri sb =
     (case ops_get_info ops state of
        Inl e \<Rightarrow> Inl e
      | Inr info \<Rightarrow> Inr
          \<lparr>img_ops = ops, img_state = state, img_path = path, img_source_uri = source_uri,
           img_dev = (case sb of None \<Rightarrow> 0 | Some (dev, ino) \<Rightarrow> dev),
           img_ino = (case sb of None \<Rightarrow> 0 | Some (dev, ino) \<Rightarrow> ino),
           img_has_file_id = (sb \<noteq> None), img_info = info\<rparr>)"

definition scorpi_image_chain_add_image :: "'s scorpi_image_chain \<Rightarrow> 's scorpi_image \<Rightarrow> 's scorpi_image_chain" where
  "scorpi_image_chain_add_image chain img = chain\<lparr>images := images chain @ [img]\<rparr>"

definition scorpi_image_chain_has_file_id :: "'s scorpi_image_chain \<Rightarrow> file_id \<Rightarrow> bool" where
  "scorpi_image_chain_has_file_id chain sb \<longleftrightarrow>
     list_ex (\<lambda>im. img_has_file_id im \<and> img_dev im = fst sb \<and> img_ino im = snd sb) (images chain)"

text \<open>
  Opening one layer: the registered backends are probed, the raw backend is the fallback.
  On failure the descriptor is closed.
\<close>

definition scorpi_image_open_one ::
  "'s scorpi_image_ops list \<Rightarrow> 's scorpi_image_ops \<Rightarrow> string \<Rightarrow> host_fd \<Rightarrow> bool \<Rightarrow> bool \<Rightarrow> string \<Rightarrow>
     ('s scorpi_image \<times> file_id) res" where
  "scorpi_image_open_one be_set raw_backend path fd readonly raw_fallback source_uri =
     (case fstat_size (fst fd) of
        (f, Inl e) \<Rightarrow> Inl e
      | (f, Inr _) \<Rightarrow>
          let (f, probed) = scorpi_image_backend_probe be_set f in
          if (case probed of Inl e \<Rightarrow> e \<noteq> ENOENT | Inr _ \<Rightarrow> False)
          then (case probed of Inl e \<Rightarrow> Inl e | Inr _ \<Rightarrow> Inl ENOENT)
          else let found = (case probed of Inl _ \<Rightarrow> None | Inr (ops, score) \<Rightarrow> Some ops);
                   score = (case probed of Inl _ \<Rightarrow> 0 | Inr (ops, score) \<Rightarrow> score);
                   ops_opt = (if (probed = Inl ENOENT \<or> score = 0) \<and> raw_fallback then Some raw_backend else found)
            in (case ops_opt of
                  None \<Rightarrow> Inl ENOENT
                | Some ops \<Rightarrow>
                    (case ops_open ops path f readonly of
                       (f, Inl e) \<Rightarrow> Inl e
                     | (f, Inr state) \<Rightarrow>
                         (case scorpi_image_alloc ops state (Some path) (Some source_uri) (Some (snd fd)) of
                            Inl e \<Rightarrow> Inl e
                          | Inr img \<Rightarrow> Inr (img, snd fd)))))"

definition scorpi_image_chain_max_depth :: "scorpi_image_chain_open_options \<Rightarrow> nat" where
  "scorpi_image_chain_max_depth options = (if opt_max_depth options = 0 then 32 else opt_max_depth options)"

text \<open>One iteration of the validation loop: image \<open>i\<close> with its neighbours.\<close>

definition chain_validate_image :: "'s scorpi_image list \<Rightarrow> nat \<Rightarrow> unit res" where
  "chain_validate_image ims i =
     (let top_info = img_info (ims ! 0); info = img_info (ims ! i) in
      if info_virtual_size info = 0 then Inl EINVAL
      else if 0 < i \<and> info_virtual_size (img_info (ims ! (i - 1))) < info_virtual_size info then Inl EINVAL
      else if info_logical_sector_size info \<noteq> info_logical_sector_size top_info then Inl EINVAL
      else if 0 < i \<and> \<not> info_readonly info \<and> \<not> info_sealed info then Inl EROFS
      else if i + 1 < length ims \<and> info_has_base_uuid info \<and>
              (\<not> info_has_image_uuid (img_info (ims ! (i + 1))) \<or>
               info_base_uuid info \<noteq> info_image_uuid (img_info (ims ! (i + 1)))) then Inl EINVAL
      else if i + 1 < length ims \<and> info_has_base_digest info \<and>
              (\<not> info_has_image_digest (img_info (ims ! (i + 1))) \<or>
               info_base_digest info \<noteq> info_image_digest (img_info (ims ! (i + 1)))) then Inl EINVAL
      else Inr ())"

fun chain_validate_loop :: "'s scorpi_image list \<Rightarrow> nat list \<Rightarrow> nat \<Rightarrow> nat res" where
  "chain_validate_loop ims [] writable_count = Inr writable_count"
| "chain_validate_loop ims (i # is) writable_count =
     (case chain_validate_image ims i of
        Inl e \<Rightarrow> Inl e
      | Inr _ \<Rightarrow> chain_validate_loop ims is
          (if \<not> info_readonly (img_info (ims ! i)) \<and> \<not> info_sealed (img_info (ims ! i))
           then Suc writable_count else writable_count))"

definition scorpi_image_chain_validate :: "'s scorpi_image_chain \<Rightarrow> bool \<Rightarrow> unit res" where
  "scorpi_image_chain_validate chain require_writable_top =
     (if images chain = [] then Inl EINVAL
      else let top_info = img_info (images chain ! 0) in
        if info_virtual_size top_info = 0 \<or> info_logical_sector_size top_info = 0 then Inl EINVAL
        else if require_writable_top \<and> (info_readonly top_info \<or> info_sealed top_info) then Inl EROFS
        else case chain_validate_loop (images chain) [0..<length (images chain)] 0 of
            Inl e \<Rightarrow> Inl e
          | Inr writable_count \<Rightarrow> if 1 < writable_count then Inl EROFS else Inr ())"

definition scorpi_image_extent_cover :: "scorpi_image_extent \<Rightarrow> u64 \<Rightarrow> u64 \<Rightarrow> u64 res" where
  "scorpi_image_extent_cover extent offset max_length =
     (if max_length = 0 then Inl EINVAL
      else if ext_length extent = 0 \<or> offset < ext_offset extent then Inl EINVAL
      else if UINT64_MAX - ext_offset extent < ext_length extent then Inl EINVAL
      else let extent_end = ext_offset extent + ext_length extent in
        if extent_end \<le> offset then Inl EINVAL
        else Inr (min (extent_end - offset) max_length))"

definition chain_set_state :: "'s scorpi_image_chain \<Rightarrow> nat \<Rightarrow> 's \<Rightarrow> 's scorpi_image_chain" where
  "chain_set_state chain i state =
     chain\<lparr>images := (images chain)[i := (images chain ! i)\<lparr>img_state := state\<rparr>]\<rparr>"

definition scorpi_image_chain_cache_read ::
  "'s scorpi_image_chain \<Rightarrow> u64 \<Rightarrow> nat \<Rightarrow> 's scorpi_image_chain \<times> byte list res" where
  "scorpi_image_chain_cache_read chain offset len =
     (let cache = read_cache chain in
      if \<not> rc_valid cache then (chain, Inl ENOENT)
      else if offset < rc_offset cache then (chain, Inl ENOENT)
      else if UINT64_MAX - rc_offset cache < rc_length cache then (chain, Inl ENOENT)
      else let cache_end = rc_offset cache + rc_length cache in
        if cache_end \<le> offset then (chain, Inl ENOENT)
        else let length' = min (cache_end - offset) len in
          case rc_state cache of
            SCORPI_IMAGE_EXTENT_PRESENT \<Rightarrow>
              if length (images chain) \<le> rc_image_index cache then (chain, Inl ENOENT)
              else let img = images chain ! rc_image_index cache in
                (case ops_read (img_ops img) (img_state img) offset length' of
                   (st, Inl e) \<Rightarrow>
                     (scorpi_image_chain_read_cache_invalidate (chain_set_state chain (rc_image_index cache) st), Inl e)
                 | (st, Inr bs) \<Rightarrow> (chain_set_state chain (rc_image_index cache) st, Inr bs))
          | _ \<Rightarrow> (chain, Inr (replicate length' 0)))"

text \<open>
  The loop over the layers: \<open>i\<close> is the index of the first layer of the list.  It returns
  the layers, the bytes and the extent to be cached.
\<close>

fun resolve_layers ::
  "'s scorpi_image list \<Rightarrow> nat \<Rightarrow> u64 \<Rightarrow> u64 \<Rightarrow> 's scorpi_image list \<times> (byte list \<times> scorpi_image_read_cache) res" where
  "resolve_layers [] i offset limit =
     ([], Inr (replicate limit 0, \<lparr>rc_valid = True, rc_offset = offset, rc_length = limit,
                                   rc_state = SCORPI_IMAGE_EXTENT_ABSENT, rc_image_index = 0\<rparr>))"
| "resolve_layers (img # rest) i offset limit =
     (if info_virtual_size (img_info img) \<le> offset then
        (case resolve_layers rest (Suc i) offset limit of (rest', r) \<Rightarrow> (img # rest', r))
      else case ops_map (img_ops img) (img_state img) offset limit of
          (st, Inl e) \<Rightarrow> (img\<lparr>img_state := st\<rparr> # rest, Inl e)
        | (st, Inr extent) \<Rightarrow>
            (case scorpi_image_extent_cover extent offset limit of
               Inl e \<Rightarrow> (img\<lparr>img_state := st\<rparr> # rest, Inl e)
             | Inr covered \<Rightarrow>
                 (case ext_state extent of
                    SCORPI_IMAGE_EXTENT_PRESENT \<Rightarrow>
                      (case ops_read (img_ops img) st offset covered of
                         (st, Inl e) \<Rightarrow> (img\<lparr>img_state := st\<rparr> # rest, Inl e)
                       | (st, Inr bs) \<Rightarrow>
                           (img\<lparr>img_state := st\<rparr> # rest,
                            Inr (bs, \<lparr>rc_valid = True, rc_offset = offset, rc_length = covered,
                                      rc_state = SCORPI_IMAGE_EXTENT_PRESENT, rc_image_index = i\<rparr>)))
                  | SCORPI_IMAGE_EXTENT_ABSENT \<Rightarrow>
                      (case resolve_layers rest (Suc i) offset covered of
                         (rest', r) \<Rightarrow> (img\<lparr>img_state := st\<rparr> # rest', r))
                  | state \<Rightarrow>
                      (img\<lparr>img_state := st\<rparr> # rest,
                       Inr (replicate covered 0, \<lparr>rc_valid = True, rc_offset = offset, rc_length = covered,
                                                  rc_state = state, rc_image_index = 0\<rparr>)))))"

definition scorpi_image_chain_resolve_read ::
  "'s scorpi_image_chain \<Rightarrow> u64 \<Rightarrow> nat \<Rightarrow> 's scorpi_image_chain \<times> byte list res" where
  "scorpi_image_chain_resolve_read chain offset len =
     (case resolve_layers (images chain) 0 offset len of
        (ims, Inl e) \<Rightarrow> (chain\<lparr>images := ims\<rparr>, Inl e)
      | (ims, Inr (bs, cache)) \<Rightarrow> (chain\<lparr>images := ims, read_cache := cache\<rparr>, Inr bs))"

text \<open>One round of the read loop: the cache first, then the layers.\<close>

definition chain_read_step ::
  "'s scorpi_image_chain \<Rightarrow> u64 \<Rightarrow> nat \<Rightarrow> 's scorpi_image_chain \<times> byte list res" where
  "chain_read_step chain offset len =
     (case scorpi_image_chain_cache_read chain offset len of
        (chain, Inl ENOENT) \<Rightarrow> scorpi_image_chain_resolve_read chain offset len
      | (chain, r) \<Rightarrow> (chain, r))"

function chain_read_loop ::
  "'s scorpi_image_chain \<Rightarrow> u64 \<Rightarrow> u64 \<Rightarrow> 's scorpi_image_chain \<times> byte list res" where
  "chain_read_loop chain offset end' =
     (if \<not> offset < end' then (chain, Inr [])
      else case chain_read_step chain offset (end' - offset) of
          (chain, Inl e) \<Rightarrow> (chain, Inl e)
        | (chain, Inr bs) \<Rightarrow>
            if bs = [] then (chain, Inl EIO)
            else (case chain_read_loop chain (offset + length bs) end' of
                    (chain, Inl e) \<Rightarrow> (chain, Inl e)
                  | (chain, Inr rest) \<Rightarrow> (chain, Inr (bs @ rest))))"
  by pat_completeness auto
termination
  by (relation "measure (\<lambda>(chain, offset, end'). end' - offset)") (auto simp: neq_Nil_conv)

definition scorpi_image_chain_read_nolock ::
  "'s scorpi_image_chain \<Rightarrow> u64 \<Rightarrow> nat \<Rightarrow> 's scorpi_image_chain \<times> byte list res" where
  "scorpi_image_chain_read_nolock chain offset len =
     (if images chain = [] then (chain, Inl EINVAL)
      else if len = 0 then (chain, Inr [])
      else let virtual_size = info_virtual_size (img_info (images chain ! 0)) in
        if virtual_size < offset \<or> virtual_size - offset < len \<or> UINT64_MAX - len < offset
        then (chain, Inl EINVAL)
        else chain_read_loop chain offset (offset + len))"

text \<open>Calls into the top layer.\<close>

definition top_write :: "'s scorpi_image_chain \<Rightarrow> byte list \<Rightarrow> u64 \<Rightarrow> 's scorpi_image_chain \<times> unit res" where
  "top_write chain buf offset =
     (case ops_write (img_ops (images chain ! 0)) (img_state (images chain ! 0)) buf offset of
        (st, r) \<Rightarrow> (chain_set_state chain 0 st, r))"

definition top_discard :: "'s scorpi_image_chain \<Rightarrow> u64 \<Rightarrow> u64 \<Rightarrow> 's scorpi_image_chain \<times> unit res" where
  "top_discard chain offset len =
     (case ops_discard (img_ops (images chain ! 0)) (img_state (images chain ! 0)) offset len of
        (st, r) \<Rightarrow> (chain_set_state chain 0 st, r))"

definition scorpi_image_chain_sco_partial_write_direct ::
  "'s scorpi_image_chain \<Rightarrow> u64 \<Rightarrow> nat \<Rightarrow> 's scorpi_image_chain \<times> bool res" where
  "scorpi_image_chain_sco_partial_write_direct chain offset len =
     (if len = 0 then (chain, Inl EINVAL)
      else case ops_map (img_ops (images chain ! 0)) (img_state (images chain ! 0)) offset len of
          (st, Inl e) \<Rightarrow> (chain_set_state chain 0 st, Inl e)
        | (st, Inr extent) \<Rightarrow>
            (chain_set_state chain 0 st,
             case scorpi_image_extent_cover extent offset len of
               Inl e \<Rightarrow> Inl e
             | Inr covered \<Rightarrow>
                 if covered < len then Inl EINVAL
                 else Inr (case ext_state extent of
                             SCORPI_IMAGE_EXTENT_ABSENT \<Rightarrow> length (images chain) = 1
                           | _ \<Rightarrow> True)))"

text \<open>The part of a request that lies in the cluster of \<open>offset\<close>: the cluster's start and
  length and the length of the part.\<close>

definition cluster_part :: "u64 \<Rightarrow> u64 \<Rightarrow> u64 \<Rightarrow> u64 \<Rightarrow> u64 \<times> u64 \<times> u64" where
  "cluster_part cluster_size virtual_size offset end' =
     (let cluster_start = offset - offset mod cluster_size;
          cluster_len = min (virtual_size - cluster_start) cluster_size;
          part_end = min (cluster_start + cluster_len) end'
      in (cluster_start, cluster_len, part_end - offset))"

definition chain_write_chunk ::
  "'s scorpi_image_chain \<Rightarrow> byte list \<Rightarrow> u64 \<Rightarrow> u64 \<Rightarrow> u64 \<Rightarrow> 's scorpi_image_chain \<times> unit res" where
  "chain_write_chunk chain p write_start cluster_start cluster_len =
     (if write_start = cluster_start \<and> length p = cluster_len then top_write chain p cluster_start
      else and_then (scorpi_image_chain_sco_partial_write_direct chain write_start (length p))
        (\<lambda>chain direct.
           if direct then top_write chain p write_start
           else and_then (scorpi_image_chain_read_nolock chain cluster_start cluster_len)
             (\<lambda>chain cluster. top_write chain (overwrite (write_start - cluster_start) p cluster) cluster_start)))"

text \<open>
  The part is never empty when the request lies within the image (lemma
  \<open>cluster_part_bounds\<close> below), so the test for an empty part only makes the recursion
  well-founded for arbitrary arguments.
\<close>

function chain_write_loop ::
  "'s scorpi_image_chain \<Rightarrow> u64 \<Rightarrow> u64 \<Rightarrow> byte list \<Rightarrow> u64 \<Rightarrow> 's scorpi_image_chain \<times> unit res" where
  "chain_write_loop chain cluster_size virtual_size p offset =
     (if p = [] then (chain, Inr ())
      else let (cluster_start, cluster_len, chunk_len) =
                 cluster_part cluster_size virtual_size offset (offset + length p)
        in if chunk_len = 0 then (chain, Inl EINVAL)
           else and_then (chain_write_chunk chain (take chunk_len p) offset cluster_start cluster_len)
             (\<lambda>chain _. chain_write_loop chain cluster_size virtual_size (drop chunk_len p) (offset + chunk_len)))"
  by pat_completeness auto
termination
  by (relation "measure (\<lambda>(chain, cs, vs, p, offset). length p)") auto

definition scorpi_image_chain_write_nolock ::
  "'s scorpi_image_chain \<Rightarrow> byte list \<Rightarrow> u64 \<Rightarrow> 's scorpi_image_chain \<times> unit res" where
  "scorpi_image_chain_write_nolock chain buf offset =
     (if images chain = [] then (chain, Inl EINVAL)
      else if buf = [] then (chain, Inr ())
      else let top = images chain ! 0; top_info = img_info top in
        if info_virtual_size top_info < offset \<or> info_virtual_size top_info - offset < length buf \<or>
           UINT64_MAX - length buf < offset then (chain, Inl EINVAL)
        else if info_readonly top_info \<or> info_sealed top_info then (chain, Inl EROFS)
        else if info_cluster_size top_info = 0 \<or> ops_name (img_ops top) \<noteq> ''sco'' then top_write chain buf offset
        else chain_write_loop chain (info_cluster_size top_info) (info_virtual_size top_info) buf offset)"

definition chain_discard_chunk ::
  "'s scorpi_image_chain \<Rightarrow> u64 \<Rightarrow> u64 \<Rightarrow> u64 \<Rightarrow> u64 \<Rightarrow> 's scorpi_image_chain \<times> unit res" where
  "chain_discard_chunk chain discard_start chunk_len cluster_start cluster_len =
     (if discard_start = cluster_start \<and> chunk_len = cluster_len then top_discard chain cluster_start cluster_len
      else and_then (scorpi_image_chain_read_nolock chain cluster_start cluster_len)
        (\<lambda>chain cluster.
           top_write chain (overwrite (discard_start - cluster_start) (replicate chunk_len 0) cluster) cluster_start))"

function chain_discard_loop ::
  "'s scorpi_image_chain \<Rightarrow> u64 \<Rightarrow> u64 \<Rightarrow> u64 \<Rightarrow> u64 \<Rightarrow> 's scorpi_image_chain \<times> unit res" where
  "chain_discard_loop chain cluster_size virtual_size offset end' =
     (if \<not> offset < end' then (chain, Inr ())
      else let (cluster_start, cluster_len, chunk_len) = cluster_part cluster_size virtual_size offset end'
        in if chunk_len = 0 then (chain, Inl EINVAL)
           else and_then (chain_discard_chunk chain offset chunk_len cluster_start cluster_len)
             (\<lambda>chain _. chain_discard_loop chain cluster_size virtual_size (offset + chunk_len) end'))"
  by pat_completeness auto
termination
  by (relation "measure (\<lambda>(chain, cs, vs, offset, end'). end' - offset)") auto

definition scorpi_image_chain_discard_nolock ::
  "'s scorpi_image_chain \<Rightarrow> u64 \<Rightarrow> u64 \<Rightarrow> 's scorpi_image_chain \<times> unit res" where
  "scorpi_image_chain_discard_nolock chain offset len =
     (if images chain = [] then (chain, Inl EINVAL)
      else if len = 0 then (chain, Inr ())
      else let top = images chain ! 0; top_info = img_info top in
        if info_virtual_size top_info < offset \<or> info_virtual_size top_info - offset < len \<or>
           UINT64_MAX - len < offset then (chain, Inl EINVAL)
        else if info_readonly top_info \<or> info_sealed top_info then (chain, Inl EROFS)
        else if info_cluster_size top_info = 0 \<or> ops_name (img_ops top) \<noteq> ''sco'' then top_discard chain offset len
        else chain_discard_loop chain (info_cluster_size top_info) (info_virtual_size top_info) offset (offset + len))"

declare chain_read_loop.simps [simp del] chain_write_loop.simps [simp del] chain_discard_loop.simps [simp del]

subsection \<open>Opening and closing\<close>

text \<open>What opening uses of the host: the working directory, and \<open>open(path, O_RDONLY)\<close>.\<close>

record host_env =
  env_cwd :: "string res"
  env_open :: "string \<Rightarrow> host_fd res"

definition scorpi_image_chain_open_single_backend ::
  "'s scorpi_image_ops \<Rightarrow> 's \<Rightarrow> 's scorpi_image_chain res" where
  "scorpi_image_chain_open_single_backend ops state =
     (case scorpi_image_alloc ops state None None None of
        Inl e \<Rightarrow> Inl e
      | Inr img \<Rightarrow>
          let chain = scorpi_image_chain_add_image scorpi_image_chain_alloc img in
          (case scorpi_image_chain_validate chain False of
             Inl e \<Rightarrow> Inl e
           | Inr _ \<Rightarrow> Inr chain))"

function open_chain_loop ::
  "host_env \<Rightarrow> 's scorpi_image_ops list \<Rightarrow> 's scorpi_image_ops \<Rightarrow> scorpi_image_chain_open_options \<Rightarrow>
     's scorpi_image_chain \<Rightarrow> string \<Rightarrow> string \<Rightarrow> host_fd \<Rightarrow> bool \<Rightarrow> 's scorpi_image_chain res" where
  "open_chain_loop env be_set raw_backend options chain current_path current_source_uri fd readonly =
     (case scorpi_image_open_one be_set raw_backend current_path fd readonly (opt_raw_fallback options)
             current_source_uri of
        Inl e \<Rightarrow> Inl e
      | Inr (img, sb) \<Rightarrow>
          if scorpi_image_chain_has_file_id chain sb then Inl ELOOP
          else let chain = scorpi_image_chain_add_image chain img in
            if \<not> info_has_base (img_info img) then Inr chain
            else if scorpi_image_chain_max_depth options \<le> length (images chain) then Inl E2BIG
            else case (img_path img, info_base_uri (img_info img)) of
                (Some path, Some base_uri) \<Rightarrow>
                  (case scorpi_image_base_location_resolve (env_cwd env) path base_uri
                          (if opt_has_uri_policy options then Some (opt_uri_policy options) else None) of
                     Inl e \<Rightarrow> Inl e
                   | Inr location \<Rightarrow>
                       (case env_open env (loc_resolved_path location) of
                          Inl e \<Rightarrow> Inl e
                        | Inr fd \<Rightarrow> open_chain_loop env be_set raw_backend options chain
                            (loc_resolved_path location) (loc_original_uri location) fd True))
              | _ \<Rightarrow> Inl EINVAL)"
  by pat_completeness auto
termination
  by (relation "measure (\<lambda>(env, be_set, raw, options, chain, p, u, fd, ro).
        scorpi_image_chain_max_depth options - length (images chain))")
     (auto simp: scorpi_image_chain_add_image_def)

declare open_chain_loop.simps [simp del]

definition scorpi_image_chain_open_single ::
  "host_env \<Rightarrow> 's scorpi_image_ops list \<Rightarrow> 's scorpi_image_ops \<Rightarrow> string \<Rightarrow> host_fd \<Rightarrow> bool \<Rightarrow>
     scorpi_image_chain_open_options option \<Rightarrow> 's scorpi_image_chain res" where
  "scorpi_image_chain_open_single env be_set raw_backend path fd readonly options_opt =
     (let options = (case options_opt of
                       None \<Rightarrow> \<lparr>opt_raw_fallback = False, opt_max_depth = 0,
                               opt_uri_policy = \<lparr>allow_absolute_file_uri = False, allowed_root = None\<rparr>,
                               opt_has_uri_policy = False\<rparr>
                     | Some options \<Rightarrow> options)
      in case open_chain_loop env be_set raw_backend options scorpi_image_chain_alloc path path fd readonly of
          Inl e \<Rightarrow> Inl e
        | Inr chain \<Rightarrow>
            (case scorpi_image_chain_validate chain (\<not> readonly) of
               Inl e \<Rightarrow> Inl e
             | Inr _ \<Rightarrow> Inr chain))"

fun close_images :: "'s scorpi_image list \<Rightarrow> unit res \<Rightarrow> unit res" where
  "close_images [] first_error = first_error"
| "close_images (im # ims) first_error =
     close_images ims (case first_error of Inl e \<Rightarrow> Inl e | Inr _ \<Rightarrow> scorpi_image_close_image im)"

definition scorpi_image_chain_close :: "'s scorpi_image_chain \<Rightarrow> unit res" where
  "scorpi_image_chain_close chain = close_images (images chain) (Inr ())"

subsection \<open>Entry points\<close>

definition scorpi_image_chain_top_info :: "'s scorpi_image_chain \<Rightarrow> scorpi_image_info option" where
  "scorpi_image_chain_top_info chain = (if images chain = [] then None else Some (img_info (images chain ! 0)))"

definition scorpi_image_chain_layer_count :: "'s scorpi_image_chain \<Rightarrow> nat" where
  "scorpi_image_chain_layer_count chain = length (images chain)"

definition scorpi_image_chain_layer_info :: "'s scorpi_image_chain \<Rightarrow> nat \<Rightarrow> scorpi_image_info option" where
  "scorpi_image_chain_layer_info chain index =
     (if length (images chain) \<le> index then None else Some (img_info (images chain ! index)))"

fun scorpi_image_format_name :: "scorpi_image_format \<Rightarrow> string" where
  "scorpi_image_format_name SCORPI_IMAGE_FORMAT_RAW = ''raw''"
| "scorpi_image_format_name SCORPI_IMAGE_FORMAT_QCOW2 = ''qcow2''"
| "scorpi_image_format_name SCORPI_IMAGE_FORMAT_SCO = ''sco''"

record scorpi_image_chain_layer_diagnostic =
  diag_index :: nat
  diag_chain_depth :: nat
  diag_format :: scorpi_image_format
  diag_format_name :: string
  diag_readonly :: bool
  diag_sealed :: bool
  diag_virtual_size :: u64
  diag_logical_sector_size :: u32
  diag_physical_sector_size :: u32
  diag_cluster_size :: u32
  diag_has_base :: bool
  diag_base_uri :: "string option"
  diag_source_uri :: "string option"
  diag_resolved_path :: "string option"

definition layer_diagnostic :: "nat \<Rightarrow> nat \<Rightarrow> 's scorpi_image \<Rightarrow> scorpi_image_chain_layer_diagnostic" where
  "layer_diagnostic depth i img =
     (let info = img_info img in
      \<lparr>diag_index = i, diag_chain_depth = depth, diag_format = info_format info,
       diag_format_name = scorpi_image_format_name (info_format info),
       diag_readonly = info_readonly info, diag_sealed = info_sealed info,
       diag_virtual_size = info_virtual_size info,
       diag_logical_sector_size = info_logical_sector_size info,
       diag_physical_sector_size = info_physical_sector_size info,
       diag_cluster_size = info_cluster_size info, diag_has_base = info_has_base info,
       diag_base_uri = info_base_uri info, diag_source_uri = img_source_uri img,
       diag_resolved_path = img_path img\<rparr>)"

definition scorpi_image_chain_get_diagnostics ::
  "'s scorpi_image_chain \<Rightarrow> scorpi_image_chain_layer_diagnostic list res" where
  "scorpi_image_chain_get_diagnostics chain =
     (if images chain = [] then Inl EINVAL
      else Inr (map (\<lambda>i. layer_diagnostic (length (images chain)) i (images chain ! i)) [0..<length (images chain)]))"

definition scorpi_image_chain_read ::
  "'s scorpi_image_chain \<Rightarrow> u64 \<Rightarrow> nat \<Rightarrow> 's scorpi_image_chain \<times> byte list res" where
  "scorpi_image_chain_read chain offset len = scorpi_image_chain_read_nolock chain offset len"

definition scorpi_image_chain_write ::
  "'s scorpi_image_chain \<Rightarrow> byte list \<Rightarrow> u64 \<Rightarrow> 's scorpi_image_chain \<times> unit res" where
  "scorpi_image_chain_write chain buf offset =
     (if images chain = [] then (chain, Inl EINVAL)
      else if info_readonly (img_info (images chain ! 0)) \<or> info_sealed (img_info (images chain ! 0))
        then (chain, Inl EROFS)
      else case scorpi_image_chain_write_nolock (scorpi_image_chain_read_cache_invalidate chain) buf offset of
          (chain, r) \<Rightarrow> (scorpi_image_chain_read_cache_invalidate chain, r))"

definition scorpi_image_chain_discard ::
  "'s scorpi_image_chain \<Rightarrow> u64 \<Rightarrow> u64 \<Rightarrow> 's scorpi_image_chain \<times> unit res" where
  "scorpi_image_chain_discard chain offset len =
     (if images chain = [] then (chain, Inl EINVAL)
      else if info_readonly (img_info (images chain ! 0)) \<or> info_sealed (img_info (images chain ! 0))
        then (chain, Inl EROFS)
      else case scorpi_image_chain_discard_nolock (scorpi_image_chain_read_cache_invalidate chain) offset len of
          (chain, r) \<Rightarrow> (scorpi_image_chain_read_cache_invalidate chain, r))"

definition scorpi_image_chain_flush :: "'s scorpi_image_chain \<Rightarrow> 's scorpi_image_chain \<times> unit res" where
  "scorpi_image_chain_flush chain =
     (if images chain = [] then (chain, Inl EINVAL)
      else case ops_flush (img_ops (images chain ! 0)) (img_state (images chain ! 0)) of
          (st, r) \<Rightarrow> (chain_set_state chain 0 st, r))"

end
