(* ===== verification/Chain_Overlay.thy ===== *)
theory Chain_Overlay
  imports Image_Chain
begin

text \<open>
  What a chain of layers means and that the chain operations implement it.

  The content of a chain at an offset is decided by the first layer that covers the offset
  and stores something there; where no layer does, the byte is zero.  The locales
  \<open>image_layers\<close> and \<open>image_layers_rw\<close> state what the chain relies on of the layers it calls
  through their operation tables.  In them a read returns the content whether it is served
  from the cache or resolved through the layers, and a write or a discard updates exactly
  the requested bytes of the content.
\<close>

section \<open>The content of a chain\<close>

fun overlay :: "(u64 \<times> cells) list \<Rightarrow> cells" where
  "overlay [] x = None"
| "overlay ((vs, c) # ls) x = (if x < vs \<and> c x \<noteq> None then c x else overlay ls x)"

definition layers_byte :: "('s scorpi_image \<Rightarrow> cells) \<Rightarrow> 's scorpi_image list \<Rightarrow> nat \<Rightarrow> byte" where
  "layers_byte lcell ims x = cell_byte (overlay (map (\<lambda>im. (img_vsize im, lcell im)) ims) x)"

lemma layers_byte_Nil [simp]: "layers_byte lcell [] x = 0"
  by (simp add: layers_byte_def)

lemma layers_byte_Cons:
  "layers_byte lcell (im # ims) x =
     (if x < img_vsize im \<and> lcell im x \<noteq> None then cell_byte (lcell im x) else layers_byte lcell ims x)"
  by (auto simp: layers_byte_def)

text \<open>Two lists of layers with the same tables, information and content, layer by layer.\<close>

definition layers_same :: "('s scorpi_image \<Rightarrow> cells) \<Rightarrow> 's scorpi_image list \<Rightarrow> 's scorpi_image list \<Rightarrow> bool" where
  "layers_same lcell ims ims' \<longleftrightarrow>
     list_all2 (\<lambda>a b. img_ops b = img_ops a \<and> img_info b = img_info a \<and> lcell b = lcell a) ims ims'"

definition layers_shape :: "'s scorpi_image list \<Rightarrow> ('s scorpi_image_ops \<times> scorpi_image_info) list" where
  "layers_shape ims = map (\<lambda>im. (img_ops im, img_info im)) ims"

lemma layers_same_refl [simp]: "layers_same lcell ims ims"
  by (simp add: layers_same_def list_all2_same)

lemma layers_same_trans: "layers_same lcell a b \<Longrightarrow> layers_same lcell b c \<Longrightarrow> layers_same lcell a c"
  unfolding layers_same_def by (erule (1) list_all2_trans [rotated]) auto

lemma layers_same_Cons [simp]:
  "layers_same lcell (a # as) (b # bs) \<longleftrightarrow>
     img_ops b = img_ops a \<and> img_info b = img_info a \<and> lcell b = lcell a \<and> layers_same lcell as bs"
  by (auto simp: layers_same_def)

lemma layers_sameD:
  assumes "layers_same lcell ims ims'"
  shows "length ims' = length ims" "layers_shape ims' = layers_shape ims"
    "layers_byte lcell ims' = layers_byte lcell ims"
    "i < length ims \<Longrightarrow> img_info (ims' ! i) = img_info (ims ! i)"
    "i < length ims \<Longrightarrow> lcell (ims' ! i) = lcell (ims ! i)"
proof -
  show l: "length ims' = length ims" using assms by (simp add: layers_same_def list_all2_lengthD)
  have n: "img_ops (ims' ! i) = img_ops (ims ! i) \<and> img_info (ims' ! i) = img_info (ims ! i) \<and> lcell (ims' ! i) = lcell (ims ! i)"
    if "i < length ims" for i
    using assms that by (simp add: layers_same_def list_all2_conv_all_nth)
  then show "i < length ims \<Longrightarrow> img_info (ims' ! i) = img_info (ims ! i)"
    "i < length ims \<Longrightarrow> lcell (ims' ! i) = lcell (ims ! i)" by auto
  show "layers_shape ims' = layers_shape ims"
    unfolding layers_shape_def using l n by (intro nth_equalityI) auto
  have "map (\<lambda>im. (img_vsize im, lcell im)) ims' = map (\<lambda>im. (img_vsize im, lcell im)) ims"
    using l n by (intro nth_equalityI) auto
  then show "layers_byte lcell ims' = layers_byte lcell ims" by (simp add: layers_byte_def fun_eq_iff)
qed

lemma layers_shapeD:
  assumes "layers_shape ims' = layers_shape ims"
  shows "length ims' = length ims" "i < length ims \<Longrightarrow> img_info (ims' ! i) = img_info (ims ! i)"
proof -
  show l: "length ims' = length ims" using assms unfolding layers_shape_def by (metis length_map)
  show "img_info (ims' ! i) = img_info (ims ! i)" if "i < length ims"
    using arg_cong [OF assms, of "\<lambda>l. l ! i"] that l by (simp add: layers_shape_def)
qed

subsection \<open>The read cache\<close>

text \<open>What the cache says of the offsets from \<open>lo\<close> on is true of the layers.\<close>

definition cache_ok ::
  "('s scorpi_image \<Rightarrow> cells) \<Rightarrow> nat \<Rightarrow> 's scorpi_image list \<Rightarrow> scorpi_image_read_cache \<Rightarrow> bool" where
  "cache_ok lcell lo ims rc \<longleftrightarrow>
     (rc_valid rc \<longrightarrow>
      (\<forall>x. lo \<le> x \<longrightarrow> rc_offset rc \<le> x \<longrightarrow> x < rc_offset rc + rc_length rc \<longrightarrow>
        (if rc_state rc = SCORPI_IMAGE_EXTENT_PRESENT
         then rc_image_index rc < length ims \<longrightarrow>
           x < img_vsize (ims ! rc_image_index rc) \<and>
           cell_byte (lcell (ims ! rc_image_index rc) x) = layers_byte lcell ims x
         else layers_byte lcell ims x = 0)))"

definition cache_below :: "nat \<Rightarrow> scorpi_image_read_cache \<Rightarrow> bool" where
  "cache_below B rc \<longleftrightarrow> (rc_valid rc \<longrightarrow> rc_offset rc + rc_length rc \<le> B)"

lemma cache_ok_invalid [simp]: "\<not> rc_valid rc \<Longrightarrow> cache_ok lcell lo ims rc"
  by (simp add: cache_ok_def)

lemma cache_below_ok: "cache_below lo rc \<Longrightarrow> cache_ok lcell lo ims rc"
  by (auto simp: cache_ok_def cache_below_def)

lemma cache_below_mono: "cache_below a rc \<Longrightarrow> a \<le> b \<Longrightarrow> cache_below b rc"
  by (auto simp: cache_below_def)

lemma cache_ok_same:
  assumes "cache_ok lcell lo ims rc" "layers_same lcell ims ims'"
  shows "cache_ok lcell lo ims' rc"
  using assms(1) unfolding cache_ok_def layers_sameD(1) [OF assms(2)] layers_sameD(3) [OF assms(2)]
  by (metis layers_sameD(4) [OF assms(2)] layers_sameD(5) [OF assms(2)])

text \<open>The outcome of resolving a read in the layers from index \<open>i\<close> on.\<close>

definition resolved ::
  "('s scorpi_image \<Rightarrow> cells) \<Rightarrow> 's scorpi_image list \<Rightarrow> nat \<Rightarrow> nat \<Rightarrow> nat \<Rightarrow> byte list \<Rightarrow> scorpi_image_read_cache \<Rightarrow> bool" where
  "resolved lcell ims i off limit bs rc \<longleftrightarrow>
     0 < length bs \<and> length bs \<le> limit \<and> bs = get_bytes (layers_byte lcell ims) off (length bs) \<and>
     rc_valid rc \<and> rc_offset rc = off \<and> rc_length rc = length bs \<and>
     (\<forall>x. off \<le> x \<longrightarrow> x < off + length bs \<longrightarrow>
       (if rc_state rc = SCORPI_IMAGE_EXTENT_PRESENT
        then i \<le> rc_image_index rc \<and> rc_image_index rc - i < length ims \<and>
          x < img_vsize (ims ! (rc_image_index rc - i)) \<and>
          cell_byte (lcell (ims ! (rc_image_index rc - i)) x) = layers_byte lcell ims x
        else layers_byte lcell ims x = 0))"

lemma resolved_below:
  assumes "resolved lcell ims (Suc i) off limit bs rc" "limit \<le> limit'"
    and eq: "\<And>x. off \<le> x \<Longrightarrow> x < off + limit \<Longrightarrow> layers_byte lcell (im # ims) x = layers_byte lcell ims x"
  shows "resolved lcell (im # ims) i off limit' bs rc"
proof -
  note r = assms(1) [unfolded resolved_def]
  have e: "layers_byte lcell (im # ims) x = layers_byte lcell ims x" if "off \<le> x" "x < off + length bs" for x
    using that r eq [of x] by linarith
  have "bs = get_bytes (layers_byte lcell (im # ims)) off (length bs)"
  proof (rule nth_equalityI)
    fix k assume k: "k < length bs"
    have "bs ! k = get_bytes (layers_byte lcell ims) off (length bs) ! k" using r by simp
    also have "\<dots> = layers_byte lcell (im # ims) (off + k)" using e [of "off + k"] k by simp
    finally show "bs ! k = get_bytes (layers_byte lcell (im # ims)) off (length bs) ! k" using k by simp
  qed simp
  moreover have "(im # ims) ! (n - i) = ims ! (n - Suc i)" if "Suc i \<le> n" for n
    using that by (simp add: nth_Cons' Suc_diff_le)
  moreover have "n - i < length (im # ims)" if "n - Suc i < length ims" for n
    using that by simp
  ultimately show ?thesis using r assms(2) e unfolding resolved_def
    by (auto simp del: length_Cons)
qed

lemma resolved_cache_ok: "resolved lcell ims 0 off limit bs rc \<Longrightarrow> cache_ok lcell lo ims rc"
  by (auto simp: resolved_def cache_ok_def)

lemma extent_cover_describes:
  assumes "extent_describes c vs off limit e" "vs \<le> UINT64_MAX"
  shows "scorpi_image_extent_cover e off limit = Inr (ext_length e)"
  using assms by (auto simp: extent_describes_def scorpi_image_extent_cover_def Let_def min_def)

text \<open>The outcomes of a lookup in the cache.\<close>

lemma cache_read_cases [case_names miss zero present]:
  assumes "scorpi_image_chain_cache_read c off len = (c, Inl ENOENT) \<Longrightarrow> thesis"
    and "scorpi_image_chain_cache_read c off len =
          (c, Inr (replicate (min (rc_offset (read_cache c) + rc_length (read_cache c) - off) len) 0)) \<Longrightarrow>
        rc_valid (read_cache c) \<Longrightarrow> rc_offset (read_cache c) \<le> off \<Longrightarrow>
        off < rc_offset (read_cache c) + rc_length (read_cache c) \<Longrightarrow>
        rc_state (read_cache c) \<noteq> SCORPI_IMAGE_EXTENT_PRESENT \<Longrightarrow> thesis"
    and "\<And>st r. ops_read (img_ops (images c ! rc_image_index (read_cache c)))
          (img_state (images c ! rc_image_index (read_cache c))) off
          (min (rc_offset (read_cache c) + rc_length (read_cache c) - off) len) = (st, r) \<Longrightarrow>
        rc_valid (read_cache c) \<Longrightarrow> rc_offset (read_cache c) \<le> off \<Longrightarrow>
        off < rc_offset (read_cache c) + rc_length (read_cache c) \<Longrightarrow>
        rc_state (read_cache c) = SCORPI_IMAGE_EXTENT_PRESENT \<Longrightarrow>
        rc_image_index (read_cache c) < length (images c) \<Longrightarrow>
        scorpi_image_chain_cache_read c off len =
           (case r of Inl e \<Rightarrow> (scorpi_image_chain_read_cache_invalidate
                                (chain_set_state c (rc_image_index (read_cache c)) st), Inl e)
            | Inr bs \<Rightarrow> (chain_set_state c (rc_image_index (read_cache c)) st, Inr bs)) \<Longrightarrow> thesis"
  shows thesis
proof -
  let ?rc = "read_cache c"
  consider (out) "\<not> (rc_valid ?rc \<and> rc_offset ?rc \<le> off \<and> \<not> UINT64_MAX - rc_offset ?rc < rc_length ?rc \<and>
        off < rc_offset ?rc + rc_length ?rc) \<or>
      rc_state ?rc = SCORPI_IMAGE_EXTENT_PRESENT \<and> length (images c) \<le> rc_image_index ?rc"
    | (hit) "rc_valid ?rc" "rc_offset ?rc \<le> off" "\<not> UINT64_MAX - rc_offset ?rc < rc_length ?rc"
        "off < rc_offset ?rc + rc_length ?rc"
        "rc_state ?rc = SCORPI_IMAGE_EXTENT_PRESENT \<Longrightarrow> rc_image_index ?rc < length (images c)"
    by linarith
  then show thesis
  proof cases
    case out
    then show thesis by (intro assms(1)) (auto simp: scorpi_image_chain_cache_read_def Let_def not_le)
  next
    case hit
    note defs = scorpi_image_chain_cache_read_def Let_def
    show thesis
    proof (cases "rc_state ?rc = SCORPI_IMAGE_EXTENT_PRESENT")
      case True
      obtain st r where r: "ops_read (img_ops (images c ! rc_image_index ?rc)) (img_state (images c ! rc_image_index ?rc))
        off (min (rc_offset ?rc + rc_length ?rc - off) len) = (st, r)" by fastforce
      show thesis
        by (rule assms(3) [OF r hit(1,2,4) True hit(5) [OF True]])
          (use hit True r in \<open>cases r; simp add: defs\<close>)
    next
      case False
      show thesis
        by (rule assms(2) [OF _ hit(1,2,4) False])
          (use hit False in \<open>cases "rc_state ?rc"; simp add: defs\<close>)
    qed
  qed
qed

section \<open>Reads\<close>

locale image_layers =
  fixes linv :: "'s scorpi_image \<Rightarrow> bool" and lcell :: "'s scorpi_image \<Rightarrow> cells"
  assumes lsize: "linv im \<Longrightarrow> img_vsize im \<le> UINT64_MAX"
    and lmap: "linv im \<Longrightarrow> 0 < len \<Longrightarrow> off < img_vsize im \<Longrightarrow>
      ops_map (img_ops im) (img_state im) off len = (st, Inr e) \<Longrightarrow>
      linv (im\<lparr>img_state := st\<rparr>) \<and> lcell (im\<lparr>img_state := st\<rparr>) = lcell im \<and>
      extent_describes (lcell im) (img_vsize im) off len e"
    and lread: "linv im \<Longrightarrow> off + len \<le> img_vsize im \<Longrightarrow>
      ops_read (img_ops im) (img_state im) off len = (st, Inr bs) \<Longrightarrow>
      linv (im\<lparr>img_state := st\<rparr>) \<and> lcell (im\<lparr>img_state := st\<rparr>) = lcell im \<and>
      bs = map (\<lambda>i. cell_byte (lcell im (off + i))) [0..<len]"
    and lread_noent: "linv im \<Longrightarrow> off + len \<le> img_vsize im \<Longrightarrow>
      ops_read (img_ops im) (img_state im) off len = (st, Inl ENOENT) \<Longrightarrow>
      linv (im\<lparr>img_state := st\<rparr>) \<and> lcell (im\<lparr>img_state := st\<rparr>) = lcell im"
begin

lemma resolve_layers_ok:
  "list_all linv ims \<Longrightarrow> 0 < limit \<Longrightarrow> resolve_layers ims i off limit = (ims', Inr (bs, rc)) \<Longrightarrow>
     list_all linv ims' \<and> layers_same lcell ims ims' \<and> resolved lcell ims i off limit bs rc"
proof (induction ims i off limit arbitrary: ims' rule: resolve_layers.induct)
  case (1 i off limit)
  then show ?case by (auto simp: resolved_def get_bytes_def map_replicate_const)
next
  case (2 im rest i off limit)
  have im: "linv im" and rest: "list_all linv rest" using "2.prems"(1) by auto
  show ?case
  proof (cases "img_vsize im \<le> off")
    case True
    with "2.prems"(3) obtain rest' where r: "resolve_layers rest (Suc i) off limit = (rest', Inr (bs, rc))"
      and ims': "ims' = im # rest'" by (auto split: prod.splits)
    have eq: "layers_byte lcell (im # rest) x = layers_byte lcell rest x" if "off \<le> x" for x
      using True that by (simp add: layers_byte_Cons)
    from "2.IH"(1) [OF True rest "2.prems"(2) r] im ims' resolved_below [of lcell rest i off limit bs rc limit im] eq
    show ?thesis by auto
  next
    case False
    then have "off < img_vsize im" by simp
    from "2.prems"(3) False obtain st e where m: "ops_map (img_ops im) (img_state im) off limit = (st, Inr e)"
      by (cases "ops_map (img_ops im) (img_state im) off limit"; cases "snd (ops_map (img_ops im) (img_state im) off limit)") auto
    let ?im = "im\<lparr>img_state := st\<rparr>"
    from lmap [OF im "2.prems"(2) \<open>off < img_vsize im\<close> m]
    have m1: "linv ?im" "lcell ?im = lcell im" and d: "extent_describes (lcell im) (img_vsize im) off limit e" by auto
    have c: "scorpi_image_extent_cover e off limit = Inr (ext_length e)"
      by (rule extent_cover_describes [OF d lsize [OF im]])
    have el: "0 < ext_length e" "ext_length e \<le> limit" "off + ext_length e \<le> img_vsize im"
      using d by (auto simp: extent_describes_def)
    have step: "resolve_layers (im # rest) i off limit =
      (case ext_state e of
         SCORPI_IMAGE_EXTENT_PRESENT \<Rightarrow>
           (case ops_read (img_ops im) st off (ext_length e) of
              (st, Inl e) \<Rightarrow> (im\<lparr>img_state := st\<rparr> # rest, Inl e)
            | (st, Inr bs) \<Rightarrow>
                (im\<lparr>img_state := st\<rparr> # rest,
                 Inr (bs, \<lparr>rc_valid = True, rc_offset = off, rc_length = ext_length e,
                           rc_state = SCORPI_IMAGE_EXTENT_PRESENT, rc_image_index = i\<rparr>)))
       | SCORPI_IMAGE_EXTENT_ABSENT \<Rightarrow>
           (case resolve_layers rest (Suc i) off (ext_length e) of (rest', r) \<Rightarrow> (?im # rest', r))
       | state \<Rightarrow>
           (?im # rest, Inr (replicate (ext_length e) 0, \<lparr>rc_valid = True, rc_offset = off, rc_length = ext_length e,
                                                  rc_state = state, rc_image_index = 0\<rparr>)))"
      using False by (simp add: m c)
    show ?thesis
    proof (cases "ext_state e")
      case SCORPI_IMAGE_EXTENT_ABSENT
      with "2.prems"(3) step obtain rest' where r: "resolve_layers rest (Suc i) off (ext_length e) = (rest', Inr (bs, rc))"
        and ims': "ims' = ?im # rest'" by (auto split: prod.splits)
      have "layers_byte lcell (im # rest) x = layers_byte lcell rest x" if "off \<le> x" "x < off + ext_length e" for x
        using d that SCORPI_IMAGE_EXTENT_ABSENT by (auto simp: layers_byte_Cons extent_describes_def)
      with "2.IH"(2) [OF False m [symmetric] refl c SCORPI_IMAGE_EXTENT_ABSENT rest el(1) r] m1 ims' el(2)
        resolved_below [of lcell rest i off "ext_length e" bs rc limit im]
      show ?thesis by auto
    next
      case SCORPI_IMAGE_EXTENT_PRESENT
      with "2.prems"(3) step obtain st' where r: "ops_read (img_ops im) st off (ext_length e) = (st', Inr bs)"
        and ims': "ims' = im\<lparr>img_state := st'\<rparr> # rest"
        and rc: "rc = \<lparr>rc_valid = True, rc_offset = off, rc_length = ext_length e,
                       rc_state = SCORPI_IMAGE_EXTENT_PRESENT, rc_image_index = i\<rparr>"
        by (auto split: prod.splits sum.splits)
      from lread [OF m1(1), of off "ext_length e" st' bs] r el(3) m1(2)
      have r1: "linv (im\<lparr>img_state := st'\<rparr>)" "lcell (im\<lparr>img_state := st'\<rparr>) = lcell im"
        and bs: "bs = map (\<lambda>i. cell_byte (lcell im (off + i))) [0..<ext_length e]" by auto
      have top: "layers_byte lcell (im # rest) x = cell_byte (lcell im x)" if "off \<le> x" "x < off + ext_length e" for x
        using d that SCORPI_IMAGE_EXTENT_PRESENT el by (auto simp: layers_byte_Cons extent_describes_def)
      have "bs = get_bytes (layers_byte lcell (im # rest)) off (length bs)"
        using top by (auto simp: bs get_bytes_def)
      then show ?thesis using r1 ims' rest top el bs by (auto simp: resolved_def rc)
    next
      case SCORPI_IMAGE_EXTENT_ZERO
      have "layers_byte lcell (im # rest) x = 0" if "off \<le> x" "x < off + ext_length e" for x
        using d that SCORPI_IMAGE_EXTENT_ZERO el by (auto simp: layers_byte_Cons extent_describes_def)
      with "2.prems"(3) step SCORPI_IMAGE_EXTENT_ZERO m1 rest el show ?thesis
        by (auto simp: resolved_def intro!: nth_equalityI)
    next
      case SCORPI_IMAGE_EXTENT_DISCARDED
      have "layers_byte lcell (im # rest) x = 0" if "off \<le> x" "x < off + ext_length e" for x
        using d that SCORPI_IMAGE_EXTENT_DISCARDED el by (auto simp: layers_byte_Cons extent_describes_def)
      with "2.prems"(3) step SCORPI_IMAGE_EXTENT_DISCARDED m1 rest el show ?thesis
        by (auto simp: resolved_def intro!: nth_equalityI)
    qed
  qed
qed

text \<open>A chain whose layers are consistent and whose cache is right from \<open>lo\<close> on and ends by \<open>B\<close>.\<close>

definition readable :: "nat \<Rightarrow> nat \<Rightarrow> 's scorpi_image_chain \<Rightarrow> bool" where
  "readable lo B c \<longleftrightarrow>
     list_all linv (images c) \<and> cache_ok lcell lo (images c) (read_cache c) \<and> cache_below B (read_cache c)"

lemma set_state_same:
  assumes "list_all linv (images c)" "i < length (images c)"
    and "linv ((images c ! i)\<lparr>img_state := st\<rparr>)" "lcell ((images c ! i)\<lparr>img_state := st\<rparr>) = lcell (images c ! i)"
  shows "list_all linv (images (chain_set_state c i st)) \<and> layers_same lcell (images c) (images (chain_set_state c i st))"
  using assms
  by (auto simp: chain_set_state_def layers_same_def list_all_length list_all2_conv_all_nth nth_list_update)

lemma read_step_ok:
  assumes "readable lo B c" "lo \<le> off" "0 < len" "off + len \<le> B" "chain_read_step c off len = (c', Inr bs)"
  shows "readable lo B c' \<and> layers_same lcell (images c) (images c') \<and> 0 < length bs \<and> length bs \<le> len \<and>
    bs = get_bytes (layers_byte lcell (images c)) off (length bs)"
proof -
  note inv = assms(1) [unfolded readable_def]
  have resolve: ?thesis
    if r: "scorpi_image_chain_resolve_read c1 off len = (c', Inr bs)"
      and c1: "list_all linv (images c1)" "layers_same lcell (images c) (images c1)" for c1
  proof -
    from r obtain ims rc where rl: "resolve_layers (images c1) 0 off len = (ims, Inr (bs, rc))"
      and c': "c' = c1\<lparr>images := ims, read_cache := rc\<rparr>"
      by (auto simp: scorpi_image_chain_resolve_read_def split: prod.splits sum.splits)
    from resolve_layers_ok [OF c1(1) assms(3) rl]
    have 1: "list_all linv ims" "layers_same lcell (images c1) ims" "resolved lcell (images c1) 0 off len bs rc" by auto
    have "cache_ok lcell lo ims rc" by (rule cache_ok_same [OF resolved_cache_ok [OF 1(3)] 1(2)])
    then show ?thesis
      using 1 c' layers_same_trans [OF c1(2) 1(2)] assms(4) layers_sameD(3) [OF c1(2)]
      by (auto simp: readable_def resolved_def cache_below_def)
  qed
  let ?rc = "read_cache c" and ?im = "images c ! rc_image_index (read_cache c)"
  let ?len = "min (rc_offset ?rc + rc_length ?rc - off) len"
  show ?thesis
  proof (cases rule: cache_read_cases [of c off len])
    case miss
    then have "scorpi_image_chain_resolve_read c off len = (c', Inr bs)"
      using assms(5) by (simp add: chain_read_step_def)
    from resolve [OF this] inv show ?thesis by simp
  next
    case zero
    then have b: "c' = c" "bs = replicate ?len 0" using assms(5) by (auto simp: chain_read_step_def)
    have "layers_byte lcell (images c) x = 0" if "off \<le> x" "x < off + ?len" for x
      using inv zero(2-5) assms(2) that by (auto simp: cache_ok_def)
    then have "bs = get_bytes (layers_byte lcell (images c)) off (length bs)"
      unfolding b by (intro nth_equalityI) auto
    then show ?thesis using b assms(1,3) zero(4) by auto
  next
    case (present st r)
    let ?i = "rc_image_index ?rc" and ?c = "chain_set_state c (rc_image_index ?rc) st"
    have ok: "x < img_vsize ?im \<and> cell_byte (lcell ?im x) = layers_byte lcell (images c) x"
      if "off \<le> x" "x < off + ?len" for x
      using inv present(2-6) assms(2) that by (auto simp: cache_ok_def)
    have pos: "0 < ?len" using present(4) assms(3) by simp
    have im: "linv ?im" using inv present(6) by (simp add: list_all_length)
    have le: "off + ?len \<le> img_vsize ?im" using ok [of "off + ?len - 1"] pos by linarith
    show ?thesis
    proof (cases r)
      case (Inl e)
      have e: "e = ENOENT"
      proof (rule ccontr)
        assume "e \<noteq> ENOENT"
        then have "snd (chain_read_step c off len) = Inl e"
          using present(7) Inl by (cases e) (simp_all add: chain_read_step_def)
        then show False using assms(5) by simp
      qed
      then have s: "scorpi_image_chain_resolve_read (scorpi_image_chain_read_cache_invalidate ?c) off len = (c', Inr bs)"
        using assms(5) present(7) Inl by (simp add: chain_read_step_def)
      from lread_noent [OF im le, of st] present(1) Inl e set_state_same [of c ?i st] inv present(6)
      have "list_all linv (images ?c)" "layers_same lcell (images c) (images ?c)" by auto
      with resolve [OF s] show ?thesis by (simp add: scorpi_image_chain_read_cache_invalidate_def)
    next
      case (Inr bs')
      then have b: "c' = ?c" "bs' = bs" using assms(5) present(7) by (auto simp: chain_read_step_def)
      from lread [OF im le, of st bs] present(1) Inr b set_state_same [of c ?i st] inv present(6)
      have 1: "list_all linv (images ?c)" "layers_same lcell (images c) (images ?c)"
        "bs = map (\<lambda>i. cell_byte (lcell ?im (off + i))) [0..<?len]" by auto
      have "read_cache ?c = ?rc" by (simp add: chain_set_state_def)
      moreover have "bs = get_bytes (layers_byte lcell (images c)) off (length bs)"
        using ok 1(3) by (auto simp: get_bytes_def)
      moreover have "length bs = ?len" using 1(3) by simp
      ultimately show ?thesis
        using 1(1,2) b inv cache_ok_same [OF _ 1(2)] pos by (auto simp: readable_def)
    qed
  qed
qed

lemma read_loop_ok:
  "readable lo B c \<Longrightarrow> lo \<le> off \<Longrightarrow> off \<le> end' \<Longrightarrow> end' \<le> B \<Longrightarrow> chain_read_loop c off end' = (c', Inr bs) \<Longrightarrow>
     readable lo B c' \<and> layers_same lcell (images c) (images c') \<and>
     bs = get_bytes (layers_byte lcell (images c)) off (end' - off)"
proof (induction c off end' arbitrary: bs rule: chain_read_loop.induct)
  case (1 c off end')
  show ?case
  proof (cases "off < end'")
    case False
    then have "chain_read_loop c off end' = (c, Inr [])" by (subst chain_read_loop.simps) simp
    then show ?thesis using "1.prems" False by simp
  next
    case True
    from "1.prems"(5) True obtain c1 b1 b2 where s: "chain_read_step c off (end' - off) = (c1, Inr b1)"
      and b1: "b1 \<noteq> []" and l: "chain_read_loop c1 (off + length b1) end' = (c', Inr b2)" and bs: "bs = b1 @ b2"
      by (subst (asm) chain_read_loop.simps) (auto split: prod.splits sum.splits if_splits)
    from read_step_ok [OF "1.prems"(1,2) _ _ s] True "1.prems"(4)
    have 2: "readable lo B c1" "layers_same lcell (images c) (images c1)" "length b1 \<le> end' - off"
      "b1 = get_bytes (layers_byte lcell (images c)) off (length b1)" by auto
    have "readable lo B c' \<and> layers_same lcell (images c1) (images c') \<and>
      b2 = get_bytes (layers_byte lcell (images c1)) (off + length b1) (end' - (off + length b1))"
      by (rule "1.IH" [OF _ s [symmetric] refl b1 2(1) _ _ "1.prems"(4) l]) (use True 2(3) "1.prems"(2) in auto)
    moreover have "bs = get_bytes (layers_byte lcell (images c)) off (end' - off)"
      if b2: "b2 = get_bytes (layers_byte lcell (images c)) (off + length b1) (end' - (off + length b1))"
    proof (rule nth_equalityI)
      show "length bs = length (get_bytes (layers_byte lcell (images c)) off (end' - off))"
        using 2(3) True by (simp add: bs b2)
      fix k assume "k < length bs"
      then show "bs ! k = get_bytes (layers_byte lcell (images c)) off (end' - off) ! k"
        using 2(3) arg_cong [OF 2(4), of "\<lambda>l. l ! k"] by (auto simp: bs b2 nth_append)
    qed
    ultimately show ?thesis
      using layers_same_trans [OF 2(2)] layers_sameD(3) [OF 2(2)] by auto
  qed
qed

lemma read_nolock_ok:
  assumes "readable lo B c" "lo \<le> off" "off + len \<le> B" "scorpi_image_chain_read_nolock c off len = (c', Inr bs)"
  shows "readable lo B c' \<and> layers_same lcell (images c) (images c') \<and> bs = get_bytes (layers_byte lcell (images c)) off len"
proof (cases "len = 0")
  case True
  then show ?thesis using assms by (auto simp: scorpi_image_chain_read_nolock_def split: if_splits)
next
  case False
  then have "chain_read_loop c off (off + len) = (c', Inr bs)"
    using assms(4) by (auto simp: scorpi_image_chain_read_nolock_def Let_def split: if_splits)
  from read_loop_ok [OF assms(1,2) _ assms(3) this] show ?thesis by simp
qed

end

section \<open>Writes\<close>

text \<open>Writing back a range in which a part was replaced is writing the part.\<close>

lemma put_bytes_overwrite:
  assumes "start \<le> off" "off + length p \<le> start + len"
  shows "put_bytes m start (overwrite (off - start) p (get_bytes m start len)) = put_bytes m off p"
proof
  fix x
  have l: "length (overwrite (off - start) p (get_bytes m start len)) = len" using assms by simp
  show "put_bytes m start (overwrite (off - start) p (get_bytes m start len)) x = put_bytes m off p x"
    using assms unfolding put_bytes_def l by (auto simp: nth_overwrite)
qed

lemma cluster_part_bounds:
  assumes "cluster_part csz vs off end' = (cs, cl, ch)" "0 < csz" "off < end'" "end' \<le> vs"
  shows "cs = off - off mod csz" "cs \<le> off" "0 < ch" "off + ch \<le> end'" "off + ch \<le> cs + cl" "cs + cl \<le> vs"
    "off + ch < end' \<Longrightarrow> off + ch = cs + cl \<and> (off + ch) mod csz = 0"
proof -
  define r where "r = off mod csz"
  have m: "r < csz" "r \<le> off" using assms(2) by (simp_all add: r_def)
  have d: "cs = off - r" "cl = min (vs - cs) csz" "ch = min (cs + cl) end' - off"
    using assms(1) by (auto simp: cluster_part_def Let_def r_def)
  show "cs = off - off mod csz" "cs \<le> off" by (simp_all add: d(1) r_def)
  have cl: "cl = vs - cs \<or> cl = csz" "cl \<le> vs - cs" "cl \<le> csz" by (auto simp: d(2) min_def)
  have ch: "off + ch = cs + cl \<or> off + ch = end'" "off + ch \<le> cs + cl" "off + ch \<le> end'"
    using cl(1) d(1) m assms(3,4) by (cases "cs + cl \<le> end'"; simp add: d(3); linarith)+
  show p: "0 < ch" "off + ch \<le> end'" "off + ch \<le> cs + cl" "cs + cl \<le> vs"
    using d(1) m assms(3,4) cl ch by linarith+
  show "off + ch = cs + cl \<and> (off + ch) mod csz = 0" if "off + ch < end'"
  proof -
    have e: "off + ch = cs + cl" "cl = csz" using that ch(1) cl(1) d(1) m assms(4) by linarith+
    moreover have "cs mod csz = 0" by (simp add: d(1) r_def minus_mod_eq_mult_div)
    ultimately show ?thesis by simp
  qed
qed

locale image_layers_rw = image_layers linv lcell
  for linv :: "'s scorpi_image \<Rightarrow> bool" and lcell :: "'s scorpi_image \<Rightarrow> cells" +
  assumes lwrite: "linv im \<Longrightarrow> off + length buf \<le> img_vsize im \<Longrightarrow>
      ops_write (img_ops im) (img_state im) buf off = (st, Inr ()) \<Longrightarrow>
      linv (im\<lparr>img_state := st\<rparr>) \<and>
      cells_updated (info_has_base (img_info im)) (lcell im) off buf (lcell (im\<lparr>img_state := st\<rparr>))"
    and ldiscard: "linv im \<Longrightarrow> off + n \<le> img_vsize im \<Longrightarrow>
      ops_discard (img_ops im) (img_state im) off n = (st, Inr ()) \<Longrightarrow>
      linv (im\<lparr>img_state := st\<rparr>) \<and>
      cells_updated (info_has_base (img_info im)) (lcell im) off (replicate n 0) (lcell (im\<lparr>img_state := st\<rparr>))"
begin

text \<open>
  A chain that can be updated: there is a top layer, and it knows that it has a base when
  there is one.
\<close>

definition stacked :: "'s scorpi_image_chain \<Rightarrow> bool" where
  "stacked c \<longleftrightarrow> images c \<noteq> [] \<and> (1 < length (images c) \<longrightarrow> info_has_base (img_info (images c ! 0)))"

lemma stacked_shape: "layers_shape (images c') = layers_shape (images c) \<Longrightarrow> stacked c' = stacked c"
proof -
  assume s: "layers_shape (images c') = layers_shape (images c)"
  note l = layers_shapeD(1) [OF s]
  then have "images c' = [] \<longleftrightarrow> images c = []" by (metis length_0_conv)
  then show ?thesis unfolding stacked_def using l layers_shapeD(2) [OF s, of 0] by fastforce
qed

text \<open>Updating the top layer updates the content of the chain in the same place.\<close>

lemma top_update:
  assumes "stacked c" "list_all linv (images c)" "off + length buf \<le> img_vsize (images c ! 0)"
    and "linv ((images c ! 0)\<lparr>img_state := st\<rparr>)"
    and u: "cells_updated (info_has_base (img_info (images c ! 0))) (lcell (images c ! 0)) off buf
           (lcell ((images c ! 0)\<lparr>img_state := st\<rparr>))"
  shows "list_all linv (images (chain_set_state c 0 st)) \<and>
    layers_shape (images (chain_set_state c 0 st)) = layers_shape (images c) \<and>
    layers_byte lcell (images (chain_set_state c 0 st)) = put_bytes (layers_byte lcell (images c)) off buf \<and>
    tl (images (chain_set_state c 0 st)) = tl (images c) \<and> read_cache (chain_set_state c 0 st) = read_cache c"
proof -
  obtain top rest where ims: "images c = top # rest" using assms(1) by (cases "images c") (auto simp: stacked_def)
  let ?top = "top\<lparr>img_state := st\<rparr>"
  have c': "images (chain_set_state c 0 st) = ?top # rest" "read_cache (chain_set_state c 0 st) = read_cache c"
    by (simp_all add: chain_set_state_def ims)
  have "layers_byte lcell (?top # rest) x = put_bytes (layers_byte lcell (top # rest)) off buf x" for x
  proof (cases "off \<le> x \<and> x < off + length buf")
    case True
    then have "lcell ?top x = Some (buf ! (x - off))" "x < img_vsize top"
      using u assms(3) by (auto simp: cells_updated_def ims)
    then show ?thesis using True by (simp add: layers_byte_Cons put_bytes_def)
  next
    case False
    then consider "lcell ?top x = lcell top x" | "\<not> info_has_base (img_info top)" "lcell top x = None" "lcell ?top x = Some 0"
      using u [unfolded cells_updated_def, rule_format, of x] by (auto simp: ims)
    then show ?thesis
    proof cases
      case 1
      then show ?thesis using False by (auto simp: layers_byte_Cons put_bytes_def)
    next
      case 2
      then have "rest = []" using assms(1) by (cases rest) (auto simp: stacked_def ims)
      then show ?thesis using False 2 by (auto simp: layers_byte_Cons put_bytes_def)
    qed
  qed
  then show ?thesis using assms(2,4) by (simp add: c' ims layers_shape_def fun_eq_iff)
qed

text \<open>What one update of the content does to a chain.\<close>

definition updated :: "'s scorpi_image_chain \<Rightarrow> nat \<Rightarrow> byte list \<Rightarrow> 's scorpi_image_chain \<Rightarrow> bool" where
  "updated c off buf c' \<longleftrightarrow>
     list_all linv (images c') \<and> layers_shape (images c') = layers_shape (images c) \<and>
     layers_byte lcell (images c') = put_bytes (layers_byte lcell (images c)) off buf \<and>
     layers_same lcell (tl (images c)) (tl (images c'))"

lemma updated_append:
  "updated c off a c1 \<Longrightarrow> updated c1 (off + length a) b c2 \<Longrightarrow> updated c off (a @ b) c2"
  by (auto simp: updated_def put_bytes_append intro: layers_same_trans)

lemma layers_same_tl: "layers_same lcell ims ims' \<Longrightarrow> layers_same lcell (tl ims) (tl ims')"
  by (cases ims; cases ims') (auto simp: layers_same_def)

text \<open>Calls that only look at the layers can precede an update.\<close>

lemma updated_after_same:
  assumes "layers_same lcell (images c) (images c1)" "updated c1 off buf c'"
  shows "updated c off buf c'"
  using assms layers_same_trans [OF layers_same_tl [OF assms(1)], of "tl (images c')"]
  by (simp add: updated_def layers_sameD(2,3) [OF assms(1)])

lemma top_write_ok:
  assumes "stacked c" "list_all linv (images c)" "off + length buf \<le> img_vsize (images c ! 0)"
    and "top_write c buf off = (c', Inr ())"
  shows "updated c off buf c' \<and> read_cache c' = read_cache c"
proof -
  from assms(4) obtain st where w: "ops_write (img_ops (images c ! 0)) (img_state (images c ! 0)) buf off = (st, Inr ())"
    and c': "c' = chain_set_state c 0 st" by (auto simp: top_write_def split: prod.splits)
  have "linv (images c ! 0)" using assms(1,2) by (auto simp: stacked_def list_all_length)
  from lwrite [OF this assms(3) w] top_update [OF assms(1-3), of st] c' show ?thesis by (simp add: updated_def)
qed

lemma top_discard_ok:
  assumes "stacked c" "list_all linv (images c)" "off + n \<le> img_vsize (images c ! 0)"
    and "top_discard c off n = (c', Inr ())"
  shows "updated c off (replicate n 0) c' \<and> read_cache c' = read_cache c"
proof -
  from assms(4) obtain st where w: "ops_discard (img_ops (images c ! 0)) (img_state (images c ! 0)) off n = (st, Inr ())"
    and c': "c' = chain_set_state c 0 st" by (auto simp: top_discard_def split: prod.splits)
  have "linv (images c ! 0)" using assms(1,2) by (auto simp: stacked_def list_all_length)
  from ldiscard [OF this assms(3) w] top_update [OF assms(1,2), of off "replicate n 0" st] assms(3) c'
  show ?thesis by (simp add: updated_def)
qed

text \<open>Read, modify and write back a cluster.\<close>

lemma rmw_ok:
  assumes "stacked c" "list_all linv (images c)" "cache_below cs (read_cache c)"
    and "cs + cl \<le> img_vsize (images c ! 0)" "cs \<le> off" "off + length p \<le> cs + cl"
    and "and_then (scorpi_image_chain_read_nolock c cs cl)
           (\<lambda>c cluster. top_write c (overwrite (off - cs) p cluster) cs) = (c', Inr ())"
  shows "updated c off p c' \<and> cache_below (cs + cl) (read_cache c')"
proof -
  from assms(7) obtain c1 cluster where r: "scorpi_image_chain_read_nolock c cs cl = (c1, Inr cluster)"
    and w: "top_write c1 (overwrite (off - cs) p cluster) cs = (c', Inr ())" by (auto simp: and_then_ok_iff)
  have "readable cs (cs + cl) c"
    using assms(2) cache_below_ok [OF assms(3)] cache_below_mono [OF assms(3)] by (simp add: readable_def)
  from read_nolock_ok [OF this order_refl order_refl r]
  have 1: "readable cs (cs + cl) c1" "layers_same lcell (images c) (images c1)"
    and cluster: "cluster = get_bytes (layers_byte lcell (images c)) cs cl" by auto
  note same = layers_sameD [OF 1(2)]
  have ne: "0 < length (images c)" using assms(1) by (simp add: stacked_def)
  have "stacked c1" using stacked_shape [OF same(2)] assms(1) by simp
  moreover have "cs + length (overwrite (off - cs) p cluster) \<le> img_vsize (images c1 ! 0)"
    using assms(4-6) same(4) [OF ne] by (simp add: cluster)
  ultimately have u: "updated c1 cs (overwrite (off - cs) p cluster) c' \<and> read_cache c' = read_cache c1"
    using top_write_ok [of c1 cs _ c'] 1(1) w by (simp add: readable_def)
  then show ?thesis
    using 1(1) put_bytes_overwrite [OF assms(5,6), of "layers_byte lcell (images c)"]
      updated_after_same [OF 1(2), of off p c'] same(3)
    by (simp add: updated_def [of c1] cluster readable_def)
qed

lemma write_chunk_ok:
  assumes "stacked c" "list_all linv (images c)" "cache_below cs (read_cache c)"
    and "cs + cl \<le> img_vsize (images c ! 0)" "cs \<le> off" "off + length p \<le> cs + cl"
    and "chain_write_chunk c p off cs cl = (c', Inr ())"
  shows "updated c off p c' \<and> cache_below (cs + cl) (read_cache c')"
proof (cases "off = cs \<and> length p = cl")
  case True
  then have "top_write c p off = (c', Inr ())" using assms(7) by (auto simp: chain_write_chunk_def)
  from top_write_ok [OF assms(1,2) _ this] assms(4,6) cache_below_mono [OF assms(3)] show ?thesis by auto
next
  case False
  then obtain c1 direct where d: "scorpi_image_chain_sco_partial_write_direct c off (length p) = (c1, Inr direct)"
    and k: "(if direct then top_write c1 p off
             else and_then (scorpi_image_chain_read_nolock c1 cs cl)
               (\<lambda>c cluster. top_write c (overwrite (off - cs) p cluster) cs)) = (c', Inr ())"
    using assms(7) by (auto simp: chain_write_chunk_def and_then_ok_iff)
  have ne: "0 < length (images c)" using assms(1) by (simp add: stacked_def)
  from d obtain st e where m: "ops_map (img_ops (images c ! 0)) (img_state (images c ! 0)) off (length p) = (st, Inr e)"
    and p: "p \<noteq> []" and c1: "c1 = chain_set_state c 0 st"
    by (auto simp: scorpi_image_chain_sco_partial_write_direct_def split: if_splits prod.splits sum.splits)
  have im: "linv (images c ! 0)" using assms(2) ne by (simp add: list_all_length)
  have "off < img_vsize (images c ! 0)" using p assms(4-6) by (cases p) auto
  from lmap [OF im _ this m] p set_state_same [OF assms(2) ne, of st] c1
  have s: "list_all linv (images c1)" "layers_same lcell (images c) (images c1)" by auto
  note same = layers_sameD [OF s(2)]
  have 1: "stacked c1" "read_cache c1 = read_cache c" "img_info (images c1 ! 0) = img_info (images c ! 0)"
    using stacked_shape [OF same(2)] assms(1) same(4) [OF ne] by (auto simp: c1 chain_set_state_def)
  have "updated c1 off p c' \<and> cache_below (cs + cl) (read_cache c')"
  proof (cases direct)
    case True
    then have "top_write c1 p off = (c', Inr ())" using k by simp
    from top_write_ok [OF 1(1) s(1) _ this] 1 assms(4,6) cache_below_mono [OF assms(3)] show ?thesis by auto
  next
    case False
    then have k: "and_then (scorpi_image_chain_read_nolock c1 cs cl)
        (\<lambda>c cluster. top_write c (overwrite (off - cs) p cluster) cs) = (c', Inr ())" using k by simp
    show ?thesis by (rule rmw_ok [OF 1(1) s(1) _ _ assms(5,6) k]) (use 1 assms(3,4) in auto)
  qed
  then show ?thesis using updated_after_same [OF s(2)] by blast
qed

lemma write_loop_ok:
  "stacked c \<Longrightarrow> list_all linv (images c) \<Longrightarrow> cache_below (off - off mod csz) (read_cache c) \<Longrightarrow> 0 < csz \<Longrightarrow>
     vs = img_vsize (images c ! 0) \<Longrightarrow> off + length p \<le> vs \<Longrightarrow> chain_write_loop c csz vs p off = (c', Inr ()) \<Longrightarrow>
     updated c off p c'"
proof (induction c csz vs p off rule: chain_write_loop.induct)
  case (1 c csz vs p off)
  show ?case
  proof (cases "p = []")
    case True
    then have "chain_write_loop c csz vs p off = (c, Inr ())" by (subst chain_write_loop.simps) simp
    with "1.prems"(2,7) True show ?thesis by (simp add: updated_def)
  next
    case False
    obtain cs cl ch where pt: "cluster_part csz vs off (off + length p) = (cs, cl, ch)" by (metis prod_cases3)
    note b = cluster_part_bounds [OF pt "1.prems"(4) _ "1.prems"(6)]
    have lt: "off < off + length p" using False by simp
    from "1.prems"(7) False pt b(3) [OF lt] obtain c1 where w: "chain_write_chunk c (take ch p) off cs cl = (c1, Inr ())"
      and l: "chain_write_loop c1 csz vs (drop ch p) (off + ch) = (c', Inr ())"
      by (subst (asm) chain_write_loop.simps) (auto simp: and_then_ok_iff)
    have ch: "length (take ch p) = ch" using b(4) [OF lt] by simp
    have "updated c off (take ch p) c1 \<and> cache_below (cs + cl) (read_cache c1)"
      by (rule write_chunk_ok [OF "1.prems"(1,2) _ _ _ _ w]) (use "1.prems"(3,5) b(1,2,5,6) lt ch in auto)
    then have u: "updated c off (take ch p) c1" and cb: "cache_below (cs + cl) (read_cache c1)" by auto
    note sh = u [unfolded updated_def]
    have st: "stacked c1" using stacked_shape [of c1 c] sh "1.prems"(1) by simp
    have vs1: "vs = img_vsize (images c1 ! 0)"
      using layers_shapeD(2) [of "images c1" "images c" 0] sh "1.prems"(1,5) by (simp add: stacked_def)
    have "updated c1 (off + ch) (drop ch p) c'"
    proof (cases "off + ch < off + length p")
      case True
      with b(7) [OF lt] have e: "off + ch = cs + cl" "(off + ch) mod csz = 0" by auto
      have g: "\<not> p = []" "\<not> ch = 0" using False b(3) [OF lt] by auto
      have cb': "cache_below (off + ch - (off + ch) mod csz) (read_cache c1)" using cb e by simp
      have le: "off + ch + length (drop ch p) \<le> vs" using True "1.prems"(6) by simp
      show ?thesis
        by (rule "1.IH" [OF g(1) refl pt [symmetric] refl g(2) w st _ cb' "1.prems"(4) vs1 le l]) (use sh in simp)
    next
      case False
      then have "drop ch p = []" by simp
      moreover have "chain_write_loop c1 csz vs [] (off + ch) = (c1, Inr ())" by (subst chain_write_loop.simps) simp
      ultimately show ?thesis using l sh by (simp add: updated_def)
    qed
    from updated_append [OF u, of "drop ch p" c'] this ch show ?thesis by simp
  qed
qed

lemma discard_chunk_ok:
  assumes "stacked c" "list_all linv (images c)" "cache_below cs (read_cache c)"
    and "cs + cl \<le> img_vsize (images c ! 0)" "cs \<le> off" "off + n \<le> cs + cl"
    and "chain_discard_chunk c off n cs cl = (c', Inr ())"
  shows "updated c off (replicate n 0) c' \<and> cache_below (cs + cl) (read_cache c')"
proof (cases "off = cs \<and> n = cl")
  case True
  then have "top_discard c off n = (c', Inr ())" using assms(7) by (auto simp: chain_discard_chunk_def)
  from top_discard_ok [OF assms(1,2) _ this] assms(4,6) cache_below_mono [OF assms(3)] show ?thesis by auto
next
  case False
  then have k: "and_then (scorpi_image_chain_read_nolock c cs cl)
      (\<lambda>c cluster. top_write c (overwrite (off - cs) (replicate n 0) cluster) cs) = (c', Inr ())"
    using assms(7) by (simp only: chain_discard_chunk_def if_False)
  show ?thesis by (rule rmw_ok [OF assms(1-5) _ k]) (use assms(6) in simp)
qed

lemma discard_loop_ok:
  "stacked c \<Longrightarrow> list_all linv (images c) \<Longrightarrow> cache_below (off - off mod csz) (read_cache c) \<Longrightarrow> 0 < csz \<Longrightarrow>
     vs = img_vsize (images c ! 0) \<Longrightarrow> off \<le> end' \<Longrightarrow> end' \<le> vs \<Longrightarrow>
     chain_discard_loop c csz vs off end' = (c', Inr ()) \<Longrightarrow> updated c off (replicate (end' - off) 0) c'"
proof (induction c csz vs off end' rule: chain_discard_loop.induct)
  case (1 c csz vs off end')
  show ?case
  proof (cases "off < end'")
    case False
    then have "chain_discard_loop c csz vs off end' = (c, Inr ())" by (subst chain_discard_loop.simps) simp
    with "1.prems"(2,8) False show ?thesis by (simp add: updated_def)
  next
    case lt: True
    obtain cs cl ch where pt: "cluster_part csz vs off end' = (cs, cl, ch)" by (metis prod_cases3)
    note b = cluster_part_bounds [OF pt "1.prems"(4) lt "1.prems"(7)]
    from "1.prems"(8) lt pt b(3) obtain c1 where w: "chain_discard_chunk c off ch cs cl = (c1, Inr ())"
      and l: "chain_discard_loop c1 csz vs (off + ch) end' = (c', Inr ())"
      by (subst (asm) chain_discard_loop.simps) (auto simp: and_then_ok_iff)
    have "updated c off (replicate ch 0) c1 \<and> cache_below (cs + cl) (read_cache c1)"
      by (rule discard_chunk_ok [OF "1.prems"(1,2) _ _ _ _ w]) (use "1.prems"(3,5) b(1,2,5,6) in auto)
    then have u: "updated c off (replicate ch 0) c1" and cb: "cache_below (cs + cl) (read_cache c1)" by auto
    note sh = u [unfolded updated_def]
    have st: "stacked c1" using stacked_shape [of c1 c] sh "1.prems"(1) by simp
    have vs1: "vs = img_vsize (images c1 ! 0)"
      using layers_shapeD(2) [of "images c1" "images c" 0] sh "1.prems"(1,5) by (simp add: stacked_def)
    have "updated c1 (off + ch) (replicate (end' - (off + ch)) 0) c'"
    proof (cases "off + ch < end'")
      case True
      with b(7) have e: "off + ch = cs + cl" "(off + ch) mod csz = 0" by auto
      have g: "\<not> \<not> off < end'" "\<not> ch = 0" using lt b(3) by auto
      have cb': "cache_below (off + ch - (off + ch) mod csz) (read_cache c1)" using cb e by simp
      show ?thesis
        by (rule "1.IH" [OF g(1) refl pt [symmetric] refl g(2) w st _ cb' "1.prems"(4) vs1 b(4) "1.prems"(7) l]) (use sh in simp)
    next
      case False
      then have "chain_discard_loop c1 csz vs (off + ch) end' = (c1, Inr ())" by (subst chain_discard_loop.simps) simp
      then show ?thesis using l sh False by (simp add: updated_def)
    qed
    with updated_append [OF u, of "replicate (end' - (off + ch)) 0" c'] show ?thesis
      using b(4) by (simp flip: replicate_add)
  qed
qed

subsection \<open>The entry points\<close>

definition chain_inv :: "'s scorpi_image_chain \<Rightarrow> bool" where
  "chain_inv c \<longleftrightarrow> stacked c \<and> list_all linv (images c) \<and> cache_ok lcell 0 (images c) (read_cache c)"

lemma chain_read_content:
  assumes "chain_inv c" "scorpi_image_chain_read c off len = (c', Inr bs)"
  shows "bs = get_bytes (layers_byte lcell (images c)) off len" "chain_inv c'"
    "layers_same lcell (images c) (images c')"
proof -
  let ?B = "max (off + len) (rc_offset (read_cache c) + rc_length (read_cache c))"
  have "readable 0 ?B c" using assms(1) by (simp add: chain_inv_def readable_def cache_below_def)
  from read_nolock_ok [OF this _ _ assms(2) [unfolded scorpi_image_chain_read_def]]
  have 1: "readable 0 ?B c'" "layers_same lcell (images c) (images c')"
    "bs = get_bytes (layers_byte lcell (images c)) off len" by auto
  then show "bs = get_bytes (layers_byte lcell (images c)) off len" "layers_same lcell (images c) (images c')" by auto
  show "chain_inv c'"
    using 1 assms(1) stacked_shape [OF layers_sameD(2) [OF 1(2)]] by (simp add: chain_inv_def readable_def)
qed

lemma updated_chain_inv:
  assumes "stacked c" "updated c off buf c'"
  shows "chain_inv (scorpi_image_chain_read_cache_invalidate c')"
    "layers_byte lcell (images (scorpi_image_chain_read_cache_invalidate c')) = put_bytes (layers_byte lcell (images c)) off buf"
    "layers_shape (images (scorpi_image_chain_read_cache_invalidate c')) = layers_shape (images c)"
    "layers_same lcell (tl (images c)) (tl (images (scorpi_image_chain_read_cache_invalidate c')))"
  using assms stacked_shape [of c' c]
  by (simp_all add: chain_inv_def updated_def scorpi_image_chain_read_cache_invalidate_def stacked_def)

lemma write_nolock_ok:
  assumes "stacked c" "list_all linv (images c)" "\<not> rc_valid (read_cache c)"
    and "scorpi_image_chain_write_nolock c buf off = (c', Inr ())"
  shows "updated c off buf c'"
proof (cases "buf = []")
  case True
  then show ?thesis using assms by (auto simp: scorpi_image_chain_write_nolock_def stacked_def updated_def split: if_splits)
next
  case False
  let ?info = "img_info (images c ! 0)"
  from assms(4) False have le: "off + length buf \<le> info_virtual_size ?info"
    and w: "(if info_cluster_size ?info = 0 \<or> ops_name (img_ops (images c ! 0)) \<noteq> ''sco'' then top_write c buf off
       else chain_write_loop c (info_cluster_size ?info) (info_virtual_size ?info) buf off) = (c', Inr ())"
    by (auto simp: scorpi_image_chain_write_nolock_def Let_def split: if_splits)
  show ?thesis
  proof (cases "info_cluster_size ?info = 0 \<or> ops_name (img_ops (images c ! 0)) \<noteq> ''sco''")
    case True
    then have w: "top_write c buf off = (c', Inr ())" using w by auto
    show ?thesis using top_write_ok [OF assms(1,2) le w] by simp
  next
    case False
    then have w: "chain_write_loop c (info_cluster_size ?info) (info_virtual_size ?info) buf off = (c', Inr ())"
      using w by auto
    show ?thesis
      by (rule write_loop_ok [OF assms(1,2) _ _ refl le w]) (use False assms(3) in \<open>simp_all add: cache_below_def\<close>)
  qed
qed

lemma discard_nolock_ok:
  assumes "stacked c" "list_all linv (images c)" "\<not> rc_valid (read_cache c)"
    and "scorpi_image_chain_discard_nolock c off len = (c', Inr ())"
  shows "updated c off (replicate len 0) c'"
proof (cases "len = 0")
  case True
  then show ?thesis using assms by (auto simp: scorpi_image_chain_discard_nolock_def stacked_def updated_def split: if_splits)
next
  case False
  let ?info = "img_info (images c ! 0)"
  from assms(4) False have le: "off + len \<le> info_virtual_size ?info"
    and w: "(if info_cluster_size ?info = 0 \<or> ops_name (img_ops (images c ! 0)) \<noteq> ''sco'' then top_discard c off len
       else chain_discard_loop c (info_cluster_size ?info) (info_virtual_size ?info) off (off + len)) = (c', Inr ())"
    by (auto simp: scorpi_image_chain_discard_nolock_def Let_def split: if_splits)
  show ?thesis
  proof (cases "info_cluster_size ?info = 0 \<or> ops_name (img_ops (images c ! 0)) \<noteq> ''sco''")
    case True
    then have w: "top_discard c off len = (c', Inr ())" using w by auto
    show ?thesis using top_discard_ok [OF assms(1,2) le w] by simp
  next
    case False
    then have w: "chain_discard_loop c (info_cluster_size ?info) (info_virtual_size ?info) off (off + len) = (c', Inr ())"
      using w by auto
    have "updated c off (replicate (off + len - off) 0) c'"
      by (rule discard_loop_ok [OF assms(1,2) _ _ refl _ le w]) (use False assms(3) in \<open>simp_all add: cache_below_def\<close>)
    then show ?thesis by simp
  qed
qed

lemma invalidate_simps [simp]:
  "images (scorpi_image_chain_read_cache_invalidate c) = images c"
  "\<not> rc_valid (read_cache (scorpi_image_chain_read_cache_invalidate c))"
  "stacked (scorpi_image_chain_read_cache_invalidate c) = stacked c"
  by (simp_all add: scorpi_image_chain_read_cache_invalidate_def stacked_def)

lemma chain_write_content:
  assumes "chain_inv c" "scorpi_image_chain_write c buf off = (c', Inr ())"
  shows "chain_inv c'" "layers_byte lcell (images c') = put_bytes (layers_byte lcell (images c)) off buf"
    "layers_shape (images c') = layers_shape (images c)" "layers_same lcell (tl (images c)) (tl (images c'))"
proof -
  let ?c = "scorpi_image_chain_read_cache_invalidate c"
  from assms(2) obtain c1 where w: "scorpi_image_chain_write_nolock ?c buf off = (c1, Inr ())"
    and c': "c' = scorpi_image_chain_read_cache_invalidate c1"
    by (auto simp: scorpi_image_chain_write_def split: if_splits prod.splits)
  have "updated ?c off buf c1" by (rule write_nolock_ok [OF _ _ _ w]) (use assms(1) in \<open>simp_all add: chain_inv_def\<close>)
  from updated_chain_inv [OF _ this] assms(1) c'
  show "chain_inv c'" "layers_byte lcell (images c') = put_bytes (layers_byte lcell (images c)) off buf"
    "layers_shape (images c') = layers_shape (images c)" "layers_same lcell (tl (images c)) (tl (images c'))"
    by (simp_all add: chain_inv_def)
qed

lemma chain_discard_content:
  assumes "chain_inv c" "scorpi_image_chain_discard c off len = (c', Inr ())"
  shows "chain_inv c'" "layers_byte lcell (images c') = put_bytes (layers_byte lcell (images c)) off (replicate len 0)"
    "layers_shape (images c') = layers_shape (images c)" "layers_same lcell (tl (images c)) (tl (images c'))"
proof -
  let ?c = "scorpi_image_chain_read_cache_invalidate c"
  from assms(2) obtain c1 where w: "scorpi_image_chain_discard_nolock ?c off len = (c1, Inr ())"
    and c': "c' = scorpi_image_chain_read_cache_invalidate c1"
    by (auto simp: scorpi_image_chain_discard_def split: if_splits prod.splits)
  have "updated ?c off (replicate len 0) c1"
    by (rule discard_nolock_ok [OF _ _ _ w]) (use assms(1) in \<open>simp_all add: chain_inv_def\<close>)
  from updated_chain_inv [OF _ this] assms(1) c'
  show "chain_inv c'" "layers_byte lcell (images c') = put_bytes (layers_byte lcell (images c)) off (replicate len 0)"
    "layers_shape (images c') = layers_shape (images c)" "layers_same lcell (tl (images c)) (tl (images c'))"
    by (simp_all add: chain_inv_def)
qed

end

end
