(* ===== verification/Image_Layers.thy ===== *)
theory Image_Layers
  imports Image_Raw Image_Qcow2 Sco_Ops Chain_Overlay
begin

text \<open>
  The registered backends as operation tables over one state type, the discharge of the
  chain's assumptions on its layers for them, and the properties of chains of raw, QCOW2 and
  SCO images.
\<close>

section \<open>The operation tables\<close>

text \<open>
  The \<open>void *\<close> state of a layer.  A table is only called with the states its own \<open>open\<close>
  returned; the branch for a foreign state is never reached.
\<close>

datatype image_state = Raw_State scorpi_raw_image | Sco_State sco_image | Qcow2_State qcow2_image

fun on_raw :: "(scorpi_raw_image \<Rightarrow> scorpi_raw_image \<times> 'r res) \<Rightarrow> image_state \<Rightarrow> image_state \<times> 'r res" where
  "on_raw f (Raw_State r) = (case f r of (r', x) \<Rightarrow> (Raw_State r', x))"
| "on_raw f s = (s, Inl EINVAL)"

fun on_sco :: "(sco_image \<Rightarrow> sco_image \<times> 'r res) \<Rightarrow> image_state \<Rightarrow> image_state \<times> 'r res" where
  "on_sco f (Sco_State s) = (case f s of (s', x) \<Rightarrow> (Sco_State s', x))"
| "on_sco f s = (s, Inl EINVAL)"

fun on_qcow2 :: "(qcow2_image \<Rightarrow> qcow2_image \<times> 'r res) \<Rightarrow> image_state \<Rightarrow> image_state \<times> 'r res" where
  "on_qcow2 f (Qcow2_State q) = (case f q of (q', x) \<Rightarrow> (Qcow2_State q', x))"
| "on_qcow2 f s = (s, Inl EINVAL)"

definition opened :: "('a \<Rightarrow> image_state) \<Rightarrow> hfile \<times> 'a res \<Rightarrow> hfile \<times> image_state res" where
  "opened wrap r = (case r of (f, Inl e) \<Rightarrow> (f, Inl e) | (f, Inr s) \<Rightarrow> (f, Inr (wrap s)))"

definition scorpi_raw_ops :: "image_state scorpi_image_ops" where
  "scorpi_raw_ops =
     \<lparr>ops_name = ''raw'', ops_probe = raw_probe, ops_open = (\<lambda>path fd ro. opened Raw_State (raw_open path fd ro)),
      ops_get_info = (\<lambda>s. case s of Raw_State r \<Rightarrow> raw_get_info r | _ \<Rightarrow> Inl EINVAL),
      ops_map = (\<lambda>s off len. on_raw (\<lambda>r. raw_map r off len) s),
      ops_read = (\<lambda>s off len. on_raw (\<lambda>r. raw_read r off len) s),
      ops_write = (\<lambda>s buf off. on_raw (\<lambda>r. raw_write r buf off) s),
      ops_discard = (\<lambda>s off len. on_raw (\<lambda>r. raw_discard_range r off len) s),
      ops_flush = on_raw raw_flush,
      ops_close = (\<lambda>s. case s of Raw_State r \<Rightarrow> raw_close r | _ \<Rightarrow> Inl EINVAL)\<rparr>"

definition scorpi_sco_ops :: "image_state scorpi_image_ops" where
  "scorpi_sco_ops =
     \<lparr>ops_name = ''sco'', ops_probe = sco_probe, ops_open = (\<lambda>path fd ro. opened Sco_State (sco_open path fd ro)),
      ops_get_info = (\<lambda>s. case s of Sco_State s \<Rightarrow> sco_get_info s | _ \<Rightarrow> Inl EINVAL),
      ops_map = (\<lambda>s off len. on_sco (\<lambda>s. sco_map s off len) s),
      ops_read = (\<lambda>s off len. on_sco (\<lambda>s. sco_read s off len) s),
      ops_write = (\<lambda>s buf off. on_sco (\<lambda>s. sco_write s buf off) s),
      ops_discard = (\<lambda>s off len. on_sco (\<lambda>s. sco_discard s off len) s),
      ops_flush = on_sco sco_flush,
      ops_close = (\<lambda>s. case s of Sco_State s \<Rightarrow> sco_close s | _ \<Rightarrow> Inl EINVAL)\<rparr>"

text \<open>The QCOW2 table depends on zlib and on the content of fresh memory, which \<open>qcow2_open\<close> hands on.\<close>

definition scorpi_qcow2_ops :: "inflate \<Rightarrow> (nat \<Rightarrow> byte) \<Rightarrow> image_state scorpi_image_ops" where
  "scorpi_qcow2_ops inflate garbage =
     \<lparr>ops_name = ''qcow2'', ops_probe = qcow2_probe,
      ops_open = (\<lambda>path fd ro. opened Qcow2_State (qcow2_open inflate garbage path fd ro)),
      ops_get_info = (\<lambda>s. case s of Qcow2_State q \<Rightarrow> qcow2_get_info q | _ \<Rightarrow> Inl EINVAL),
      ops_map = (\<lambda>s off len. on_qcow2 (\<lambda>q. qcow2_map q off len) s),
      ops_read = (\<lambda>s off len. on_qcow2 (\<lambda>q. qcow2_read q off len) s),
      ops_write = (\<lambda>s buf off. on_qcow2 (\<lambda>q. qcow2_write q buf off) s),
      ops_discard = (\<lambda>s off len. on_qcow2 (\<lambda>q. qcow2_discard q off len) s),
      ops_flush = on_qcow2 qcow2_flush,
      ops_close = (\<lambda>s. case s of Qcow2_State q \<Rightarrow> qcow2_close q | _ \<Rightarrow> Inl EINVAL)\<rparr>"

lemmas ops_defs = scorpi_raw_ops_def scorpi_sco_ops_def scorpi_qcow2_ops_def

section \<open>Layers\<close>

fun state_ok :: "image_state \<Rightarrow> image_state scorpi_image_ops \<Rightarrow> scorpi_image_info \<Rightarrow> bool" where
  "state_ok (Raw_State r) ops info \<longleftrightarrow>
     ops = scorpi_raw_ops \<and> raw_inv r \<and> info_virtual_size info = raw_size r \<and> \<not> info_has_base info"
| "state_ok (Sco_State s) ops info \<longleftrightarrow>
     ops = scorpi_sco_ops \<and> sco_inv s \<and> info_virtual_size info = sco_vsize s \<and> info_has_base info = sco_has_base s"
| "state_ok (Qcow2_State q) ops info \<longleftrightarrow>
     (\<exists>inflate garbage. ops = scorpi_qcow2_ops inflate garbage) \<and> qcow2_inv q \<and>
     info_virtual_size info = q_virtual_size q \<and> info_has_base info = (q_base_uri q \<noteq> None)"

definition layer_inv :: "image_state scorpi_image \<Rightarrow> bool" where
  "layer_inv im \<longleftrightarrow> state_ok (img_state im) (img_ops im) (img_info im)"

fun state_cell :: "image_state \<Rightarrow> cells" where
  "state_cell (Raw_State r) = raw_cell r"
| "state_cell (Sco_State s) = sco_cell s"
| "state_cell (Qcow2_State q) = qcow2_cell q"

definition layer_cell :: "image_state scorpi_image \<Rightarrow> cells" where
  "layer_cell im = state_cell (img_state im)"

lemma sco_map_keeps: "sco_map s off len = (s', r) \<Longrightarrow> s' = s"
  by (auto simp: sco_map_def split: sum.splits)

lemma qcow2_layer_same:
  "qcow2_same q q' \<Longrightarrow> q_virtual_size q' = q_virtual_size q \<and> q_base_uri q' = q_base_uri q \<and> qcow2_cell q' = qcow2_cell q"
  by (simp add: same_fields [of q q'] cell_same [of q q'])

interpretation layers: image_layers_rw layer_inv layer_cell
proof (unfold_locales, goal_cases)
  case (1 im)
  then show ?case
    using raw.vsize_le sco.vsize_le qcow2.vsize_le by (cases "img_state im") (auto simp: layer_inv_def)
next
  case (2 im len off st e)
  show ?case
  proof (cases "img_state im")
    case (Qcow2_State q)
    with 2 obtain q' where "qcow2_map q off len = (q', Inr e)" "st = Qcow2_State q'"
      by (auto simp: layer_inv_def ops_defs split: prod.splits)
    then show ?thesis using 2 Qcow2_State qcow2_map_ok [of q off len q' e] qcow2_layer_same [of q q']
      by (auto simp: layer_inv_def layer_cell_def)
  qed (use 2 in \<open>auto simp: layer_inv_def layer_cell_def ops_defs split: prod.splits
        dest: raw.map_ok [of _ len off] sco.map_ok [of _ len off] sco_map_keeps\<close>)
next
  case (3 im off len st bs)
  show ?case
  proof (cases "img_state im")
    case (Raw_State r)
    with 3 obtain r' where "raw_read r off len = (r', Inr bs)" "st = Raw_State r'"
      by (auto simp: layer_inv_def ops_defs split: prod.splits)
    then show ?thesis using 3 Raw_State raw.read_ok [of r off len r' bs] by (auto simp: layer_inv_def layer_cell_def)
  next
    case (Sco_State s)
    with 3 obtain s' where s': "sco_read s off len = (s', Inr bs)" "st = Sco_State s'"
      by (auto simp: layer_inv_def ops_defs split: prod.splits)
    then show ?thesis using 3 Sco_State sco.read_ok [of s off len s' bs] sco_read_ok(1) [of s off len s' "Inr bs"]
      by (auto simp: layer_inv_def layer_cell_def sco_only_script_def)
  next
    case (Qcow2_State q)
    with 3 obtain q' where "qcow2_read q off len = (q', Inr bs)" "st = Qcow2_State q'"
      by (auto simp: layer_inv_def ops_defs split: prod.splits)
    then show ?thesis using 3 Qcow2_State qcow2_read_ok [of q off len q' "Inr bs"] qcow2_layer_same [of q q']
      by (auto simp: layer_inv_def layer_cell_def)
  qed
next
  case (4 im off len st)
  show ?case
  proof (cases "img_state im")
    case (Raw_State r)
    with 4 obtain r' where "raw_read r off len = (r', Inl ENOENT)" "st = Raw_State r'"
      by (auto simp: layer_inv_def ops_defs split: prod.splits)
    then show ?thesis using 4 Raw_State raw.read_frame [of r off len r'] by (auto simp: layer_inv_def layer_cell_def)
  next
    case (Sco_State s)
    with 4 obtain s' where s': "sco_read s off len = (s', Inl ENOENT)" "st = Sco_State s'"
      by (auto simp: layer_inv_def ops_defs split: prod.splits)
    then show ?thesis using 4 Sco_State sco.read_frame [of s off len s'] sco_read_ok(1) [of s off len s' "Inl ENOENT"]
      by (auto simp: layer_inv_def layer_cell_def sco_only_script_def)
  next
    case (Qcow2_State q)
    with 4 obtain q' where "qcow2_read q off len = (q', Inl ENOENT)" "st = Qcow2_State q'"
      by (auto simp: layer_inv_def ops_defs split: prod.splits)
    then show ?thesis using 4 Qcow2_State qcow2_read_ok [of q off len q' "Inl ENOENT"] qcow2_layer_same [of q q']
      by (auto simp: layer_inv_def layer_cell_def)
  qed
next
  case (5 im off buf st)
  show ?case
  proof (cases "img_state im")
    case (Raw_State r)
    with 5 obtain r' where "raw_write r buf off = (r', Inr ())" "st = Raw_State r'"
      by (auto simp: layer_inv_def ops_defs split: prod.splits)
    then show ?thesis using 5 Raw_State raw.write_ok [of r off buf r'] by (auto simp: layer_inv_def layer_cell_def)
  next
    case (Sco_State s)
    with 5 obtain s' where "sco_write s buf off = (s', Inr ())" "st = Sco_State s'"
      by (auto simp: layer_inv_def ops_defs split: prod.splits)
    then show ?thesis using 5 Sco_State sco.write_ok [of s off buf s'] by (auto simp: layer_inv_def layer_cell_def)
  next
    case (Qcow2_State q)
    with 5 show ?thesis by (auto simp: layer_inv_def ops_defs qcow2_write_def)
  qed
next
  case (6 im off n st)
  show ?case
  proof (cases "img_state im")
    case (Raw_State r)
    with 6 show ?thesis by (auto simp: layer_inv_def ops_defs raw_discard_range_def raw_discard_def)
  next
    case (Sco_State s)
    with 6 obtain s' where "sco_discard s off n = (s', Inr ())" "st = Sco_State s'"
      by (auto simp: layer_inv_def ops_defs split: prod.splits)
    then show ?thesis using 6 Sco_State sco.discard_ok [of s off n s'] by (auto simp: layer_inv_def layer_cell_def)
  next
    case (Qcow2_State q)
    with 6 show ?thesis by (auto simp: layer_inv_def ops_defs qcow2_discard_def)
  qed
qed

section \<open>A concrete chain\<close>

text \<open>An empty SCO image over a read-only raw image of 512 bytes, all of them 9.\<close>

definition demo_base :: scorpi_raw_image where
  "demo_base = \<lparr>raw_fd = \<lparr>h_size = 512, h_bytes = (\<lambda>_. 9), h_script = []\<rparr>, raw_readonly = True, raw_size = 512\<rparr>"

definition demo_top :: sco_image where
  "demo_top = sco_demo\<lparr>sco_has_base := True\<rparr>"

definition demo_chain :: "image_state scorpi_image_chain" where
  "demo_chain = scorpi_image_chain_alloc\<lparr>images :=
     [\<lparr>img_ops = scorpi_sco_ops, img_state = Sco_State demo_top, img_path = None, img_source_uri = None,
       img_dev = 0, img_ino = 0, img_has_file_id = False, img_info = projr (sco_get_info demo_top)\<rparr>,
      \<lparr>img_ops = scorpi_raw_ops, img_state = Raw_State demo_base, img_path = None, img_source_uri = None,
       img_dev = 0, img_ino = 0, img_has_file_id = False, img_info = projr (raw_get_info demo_base)\<rparr>]\<rparr>"

lemma demo_top_facts:
  "sco_inv demo_top" "sco_quiet demo_top" "sco_writable demo_top" "sco_vsize demo_top = 512" "sco_has_base demo_top"
  "sco_write_ready demo_top 0 512"
proof -
  show "sco_inv demo_top" "sco_quiet demo_top" "sco_writable demo_top" "sco_vsize demo_top = 512" "sco_has_base demo_top"
    using sco_demo_inv
    by (simp_all add: demo_top_def sco_inv_def sco_entry_ok_def sco_present_def sco_phys_def sco_quiet_def sco_writable_def
        sco_vsize_def sco_demo_def sco_demo_sb_def sco_is_sealed_def)
  have t: "sco_touches demo_top 0 512 j \<longleftrightarrow> j = 0" for j
    by (cases j) (simp_all add: sco_touches_def demo_top_def sco_demo_def sco_demo_sb_def)
  show "sco_write_ready demo_top 0 512" unfolding sco_write_ready_def t
    by (simp add: demo_top_def sco_demo_def sco_demo_sb_def)
qed

lemma demo_top_map:
  "0 < len \<Longrightarrow> off + len \<le> 512 \<Longrightarrow> sco_map demo_top off len =
     (demo_top, Inr \<lparr>ext_offset = off, ext_length = len, ext_state = SCORPI_IMAGE_EXTENT_ABSENT\<rparr>)"
  by (simp add: sco_map_def sco_lookup_extent_def Let_def demo_top_def sco_demo_def sco_demo_sb_def
      sco_cluster_stored_length_def mul64_def sub64_def)

lemma demo_base_ops:
  "raw_inv demo_base"
  "0 < len \<Longrightarrow> off + len \<le> 512 \<Longrightarrow> raw_map demo_base off len =
     (demo_base, Inr \<lparr>ext_offset = off, ext_length = len, ext_state = SCORPI_IMAGE_EXTENT_PRESENT\<rparr>)"
  "off + len \<le> 512 \<Longrightarrow> raw_read demo_base off len = (demo_base, Inr (replicate len 9))"
proof -
  show i: "raw_inv demo_base" by (simp add: raw_inv_def demo_base_def)
  show "0 < len \<Longrightarrow> off + len \<le> 512 \<Longrightarrow> raw_map demo_base off len =
     (demo_base, Inr \<lparr>ext_offset = off, ext_length = len, ext_state = SCORPI_IMAGE_EXTENT_PRESENT\<rparr>)"
    by (simp add: raw_map_def demo_base_def)
  show "off + len \<le> 512 \<Longrightarrow> raw_read demo_base off len = (demo_base, Inr (replicate len 9))"
    using raw_read_succeeds [OF i, of off len] by (simp add: demo_base_def get_bytes_def map_replicate_const)
qed

lemma demo_chain_inv: "layers.chain_inv demo_chain"
  using demo_top_facts demo_base_ops(1)
  by (simp add: layers.chain_inv_def layers.stacked_def demo_chain_def layer_inv_def sco_get_info_def raw_get_info_def
      scorpi_image_chain_alloc_def sco_vsize_def)

lemma demo_resolve:
  assumes "0 < len" "off + len \<le> 512" "images c = images demo_chain"
  shows "\<exists>rc. scorpi_image_chain_resolve_read c off len = (c\<lparr>read_cache := rc\<rparr>, Inr (replicate len 9))"
proof -
  have "img_vsize (images demo_chain ! 0) = 512" "img_vsize (images demo_chain ! 1) = 512"
    using demo_top_facts(4) by (simp_all add: demo_chain_def sco_get_info_def raw_get_info_def sco_vsize_def demo_base_def)
  then have "resolve_layers (images demo_chain) 0 off len = (images demo_chain,
      Inr (replicate len 9, \<lparr>rc_valid = True, rc_offset = off, rc_length = len,
        rc_state = SCORPI_IMAGE_EXTENT_PRESENT, rc_image_index = 1\<rparr>))"
    using assms(1,2) by (simp add: demo_chain_def ops_defs demo_top_map demo_base_ops scorpi_image_extent_cover_def)
  then show ?thesis using assms(3) by (cases c) (auto simp: scorpi_image_chain_resolve_read_def)
qed

lemma demo_read:
  assumes "0 < len" "off + len \<le> 512" "images c = images demo_chain" "\<not> rc_valid (read_cache c)"
  shows "\<exists>rc. scorpi_image_chain_read_nolock c off len = (c\<lparr>read_cache := rc\<rparr>, Inr (replicate len 9))"
proof -
  obtain rc where r: "scorpi_image_chain_resolve_read c off len = (c\<lparr>read_cache := rc\<rparr>, Inr (replicate len 9))"
    using demo_resolve [OF assms(1-3)] by blast
  have s: "chain_read_step c off len = (c\<lparr>read_cache := rc\<rparr>, Inr (replicate len 9))"
    using r assms(4) by (simp add: chain_read_step_def scorpi_image_chain_cache_read_def)
  have "chain_read_loop c off (off + len) = (c\<lparr>read_cache := rc\<rparr>, Inr (replicate len 9))"
    by (subst chain_read_loop.simps, simp add: s assms(1), subst chain_read_loop.simps) simp
  moreover have "img_vsize (images demo_chain ! 0) = 512" "images demo_chain \<noteq> []"
    using demo_top_facts(4) by (simp_all add: demo_chain_def sco_get_info_def sco_vsize_def)
  moreover have "\<not> 512 - off < len" "\<not> 512 < off" "\<not> UINT64_MAX - len < off" using assms(2) by linarith+
  ultimately show ?thesis using assms(1,3) by (auto simp: scorpi_image_chain_read_nolock_def)
qed

lemma demo_info:
  "img_vsize (images demo_chain ! 0) = 512" "info_cluster_size (img_info (images demo_chain ! 0)) = 65536"
  "\<not> info_readonly (img_info (images demo_chain ! 0))" "\<not> info_sealed (img_info (images demo_chain ! 0))"
  "images demo_chain \<noteq> []" "ops_name (img_ops (images demo_chain ! 0)) = ''sco''"
  using demo_top_facts(3,4)
  by (simp_all add: demo_chain_def sco_get_info_def sco_vsize_def sco_writable_def ops_defs)
     (simp add: demo_top_def sco_demo_def sco_demo_sb_def)

lemma demo_rmw:
  assumes "length p = 2"
  shows "\<exists>c. and_then (scorpi_image_chain_read_nolock (scorpi_image_chain_read_cache_invalidate demo_chain) 0 512)
    (\<lambda>chain cluster. top_write chain (overwrite 3 p cluster) 0) = (c, Inr ())"
proof -
  let ?c = "scorpi_image_chain_read_cache_invalidate demo_chain" and ?buf = "overwrite 3 p (replicate 512 (9::byte))"
  obtain rc where r: "scorpi_image_chain_read_nolock ?c 0 512 = (?c\<lparr>read_cache := rc\<rparr>, Inr (replicate 512 9))"
    using demo_read [of 512 0 ?c] by auto
  have "length ?buf = 512" using assms by simp
  then obtain s' where w: "sco_write demo_top ?buf 0 = (s', Inr ())"
    using sco_write_quiet [OF demo_top_facts(1-3), of 0 ?buf] demo_top_facts(4,6) by auto
  have "\<exists>c. top_write (?c\<lparr>read_cache := rc\<rparr>) ?buf 0 = (c, Inr ())"
    using w by (simp add: top_write_def demo_chain_def ops_defs)
  then show ?thesis by (simp add: r)
qed

lemma demo_write: "\<exists>c. scorpi_image_chain_write demo_chain [7, 8] 3 = (c, Inr ())"
proof -
  let ?c = "scorpi_image_chain_read_cache_invalidate demo_chain"
  have same: "chain_set_state ?c 0 (Sco_State demo_top) = ?c"
    by (simp add: chain_set_state_def demo_chain_def scorpi_image_chain_read_cache_invalidate_def)
  have d: "scorpi_image_chain_sco_partial_write_direct ?c 3 (length [7, 8::byte]) = (?c, Inr False)"
    using demo_top_map [of "length [7, 8::byte]" 3] same
    by (simp add: scorpi_image_chain_sco_partial_write_direct_def scorpi_image_extent_cover_def ops_defs demo_chain_def)
  obtain c where r: "and_then (scorpi_image_chain_read_nolock ?c 0 512)
    (\<lambda>chain cluster. top_write chain (overwrite 3 [7, 8] cluster) 0) = (c, Inr ())" using demo_rmw [of "[7, 8]"] by auto
  have "chain_write_chunk ?c [7, 8] 3 0 512 = (c, Inr ())"
    using r by (simp only: chain_write_chunk_def d and_then_simps) simp
  then have "chain_write_loop ?c 65536 512 [7, 8] 3 = (c, Inr ())"
    by (subst chain_write_loop.simps, simp add: cluster_part_def Let_def, subst chain_write_loop.simps) simp
  then show ?thesis
    using demo_info by (simp add: scorpi_image_chain_write_def scorpi_image_chain_write_nolock_def)
qed

lemma demo_discard: "\<exists>c. scorpi_image_chain_discard demo_chain 3 2 = (c, Inr ())"
proof -
  let ?c = "scorpi_image_chain_read_cache_invalidate demo_chain"
  obtain c where r: "and_then (scorpi_image_chain_read_nolock ?c 0 512)
    (\<lambda>chain cluster. top_write chain (overwrite 3 (replicate 2 0) cluster) 0) = (c, Inr ())"
    using demo_rmw [of "replicate 2 0"] by auto
  have "chain_discard_chunk ?c 3 2 0 512 = (c, Inr ())" using r by (simp add: chain_discard_chunk_def)
  then have "chain_discard_loop ?c 65536 512 3 5 = (c, Inr ())"
    by (subst chain_discard_loop.simps, simp add: cluster_part_def Let_def, subst chain_discard_loop.simps) simp
  then show ?thesis
    using demo_info by (simp add: scorpi_image_chain_discard_def scorpi_image_chain_discard_nolock_def)
qed

section \<open>Properties\<close>

text \<open>
  Property C2: a read of a chain returns its content.  For a chain whose layers satisfy
  their invariants and whose read cache is right, a successful read, whether served from
  the cache or resolved through the layers, returns for every offset the byte of the first
  layer that stores something there, zero where none does; it leaves the content and the
  chain's invariant as they were.
\<close>

theorem chain_read_returns_overlay:
  assumes "layers.chain_inv c" "scorpi_image_chain_read c off len = (c', Inr bs)"
  shows "bs = get_bytes (layers_byte layer_cell (images c)) off len \<and> layers.chain_inv c' \<and>
    layers_byte layer_cell (images c') = layers_byte layer_cell (images c)"
  using layers.chain_read_content [OF assms] layers_sameD(3) by blast

theorem chain_read_returns_overlay_witness:
  "\<exists>c'. scorpi_image_chain_read demo_chain 10 2 = (c', Inr [9, 9]) \<and> layers.chain_inv c' \<and>
    get_bytes (layers_byte layer_cell (images demo_chain)) 10 2 = [9, 9]"
proof -
  have "\<not> rc_valid (read_cache demo_chain)" by (simp add: demo_chain_def scorpi_image_chain_alloc_def)
  then obtain c' where r: "scorpi_image_chain_read demo_chain 10 2 = (c', Inr [9, 9])"
    using demo_read [of 2 10 demo_chain] by (auto simp: scorpi_image_chain_read_def numeral_2_eq_2)
  from chain_read_returns_overlay [OF demo_chain_inv r] r show ?thesis by auto
qed

text \<open>
  Property C1: a write to a chain is copy-on-write.  A successful write changes the content
  of the chain at exactly the written range, keeps the chain's invariant, and leaves every
  layer below the top with the content it had, whether the top layer is written in place or
  a cluster is first completed from the layers below.
\<close>

theorem chain_write_updates_overlay:
  assumes "layers.chain_inv c" "scorpi_image_chain_write c buf off = (c', Inr ())"
  shows "layers_byte layer_cell (images c') = put_bytes (layers_byte layer_cell (images c)) off buf \<and>
    layers.chain_inv c' \<and> layers_same layer_cell (tl (images c)) (tl (images c'))"
  using layers.chain_write_content [OF assms] by blast

theorem chain_write_updates_overlay_witness:
  "\<exists>c'. scorpi_image_chain_write demo_chain [7, 8] 3 = (c', Inr ()) \<and>
    layers_byte layer_cell (images c') = put_bytes (layers_byte layer_cell (images demo_chain)) 3 [7, 8]"
proof -
  obtain c' where w: "scorpi_image_chain_write demo_chain [7, 8] 3 = (c', Inr ())" using demo_write by blast
  from chain_write_updates_overlay [OF demo_chain_inv w] w show ?thesis by blast
qed

text \<open>
  Property C5: a discard zeroes the content of a chain at exactly the discarded range, so
  data of a base image does not reappear, and leaves the layers below the top alone.
\<close>

theorem chain_discard_zeroes_overlay:
  assumes "layers.chain_inv c" "scorpi_image_chain_discard c off len = (c', Inr ())"
  shows "layers_byte layer_cell (images c') = put_bytes (layers_byte layer_cell (images c)) off (replicate len 0) \<and>
    layers.chain_inv c' \<and> layers_same layer_cell (tl (images c)) (tl (images c'))"
  using layers.chain_discard_content [OF assms] by blast

theorem chain_discard_zeroes_overlay_witness:
  "\<exists>c'. scorpi_image_chain_discard demo_chain 3 2 = (c', Inr ()) \<and>
    layers_byte layer_cell (images c') = put_bytes (layers_byte layer_cell (images demo_chain)) 3 [0, 0]"
proof -
  obtain c' where w: "scorpi_image_chain_discard demo_chain 3 2 = (c', Inr ())" using demo_discard by blast
  from chain_discard_zeroes_overlay [OF demo_chain_inv w] w show ?thesis by (auto simp: numeral_2_eq_2)
qed

text \<open>
  The read cache is transparent.  Whatever the cache of a consistent chain
  holds, a read through it and a read after it was invalidated return the same bytes.
\<close>

theorem chain_read_cache_transparent:
  assumes "layers.chain_inv c" "scorpi_image_chain_read c off len = (c1, Inr bs)"
    and "scorpi_image_chain_read (scorpi_image_chain_read_cache_invalidate c) off len = (c2, Inr bs')"
  shows "bs = bs'"
proof -
  have "layers.chain_inv (scorpi_image_chain_read_cache_invalidate c)"
    using assms(1) by (simp add: layers.chain_inv_def)
  from layers.chain_read_content(1) [OF this assms(3)] layers.chain_read_content(1) [OF assms(1,2)]
  show ?thesis by simp
qed

theorem chain_read_cache_transparent_witness:
  "\<exists>c1 c2 bs. scorpi_image_chain_read demo_chain 0 4 = (c1, Inr bs) \<and>
    scorpi_image_chain_read (scorpi_image_chain_read_cache_invalidate demo_chain) 0 4 = (c2, Inr bs)"
proof -
  have "\<not> rc_valid (read_cache demo_chain)" by (simp add: demo_chain_def scorpi_image_chain_alloc_def)
  then obtain c1 where 1: "scorpi_image_chain_read demo_chain 0 4 = (c1, Inr (replicate 4 9))"
    using demo_read [of 4 0 demo_chain] by (auto simp: scorpi_image_chain_read_def)
  obtain c2 where 2: "scorpi_image_chain_read (scorpi_image_chain_read_cache_invalidate demo_chain) 0 4 = (c2, Inr (replicate 4 9))"
    using demo_read [of 4 0 "scorpi_image_chain_read_cache_invalidate demo_chain"] by (auto simp: scorpi_image_chain_read_def)
  from chain_read_cache_transparent [OF demo_chain_inv 1 2] 1 2 show ?thesis by blast
qed

end
