(* ===== verification/Sco_Open.thy ===== *)
theory Sco_Open
  imports Sco_Ops
begin

text \<open>
  Opening an SCO image: whatever the file holds, an image that \<open>sco_open\<close> accepts satisfies
  the invariant on which the operations rely, and its content is the one the file describes.
\<close>

section \<open>What loading establishes\<close>

lemma sco_read_superblock_result:
  assumes "sco_read_superblock fd off ro uuid fs = (fd', r)" "off + SCO_SUPERBLOCK_SIZE \<le> UINT64_MAX"
  shows "same_data fd fd'" "r = Inr sb \<Longrightarrow> sco_superblock_layout_valid sb fs \<and> sb_virtual_size sb \<le> UINT64_MAX"
proof -
  obtain r0 where e: "read_exact fd off SCO_SUPERBLOCK_SIZE = (fd', r0)"
    using assms by (auto simp: sco_read_superblock_def split: prod.splits sum.splits)
  with read_exact_result [OF e assms(2)] show "same_data fd fd'" by simp
  assume "r = Inr sb"
  with assms(1) e obtain buf where "sco_decode_superblock buf ro uuid fs = Inr sb"
    by (auto simp: sco_read_superblock_def split: sum.splits)
  then show "sco_superblock_layout_valid sb fs \<and> sb_virtual_size sb \<le> UINT64_MAX"
    by (auto simp: sco_decode_superblock_def Let_def sco_superblock_of_page_def le64dec_le split: if_splits)
qed

lemma sco_select_superblock_result:
  assumes "sco_select_superblock fd ro uuid fs = (fd', r)"
  shows "same_data fd fd'"
    "r = Inr (sb, off) \<Longrightarrow> sco_superblock_layout_valid sb fs \<and> sb_virtual_size sb \<le> UINT64_MAX"
proof -
  obtain fd1 ra where a: "sco_read_superblock fd SCO_SUPERBLOCK_A_OFFSET ro uuid fs = (fd1, ra)" by fastforce
  obtain fd2 rb where b: "sco_read_superblock fd1 SCO_SUPERBLOCK_B_OFFSET ro uuid fs = (fd2, rb)" by fastforce
  note s = assms [unfolded sco_select_superblock_def a b Let_def prod.case]
  from s have "fd' = fd2" by simp
  moreover have "same_data fd fd1" "same_data fd1 fd2"
    using sco_read_superblock_result(1) [OF a] sco_read_superblock_result(1) [OF b] by simp_all
  ultimately show "same_data fd fd'" using same_data_trans by blast
  assume "r = Inr (sb, off)"
  with s have "ra = Inr sb \<or> rb = Inr sb" by (auto split: sum.splits if_splits)
  then show "sco_superblock_layout_valid sb fs \<and> sb_virtual_size sb \<le> UINT64_MAX"
    using sco_read_superblock_result(2) [OF a, of sb] sco_read_superblock_result(2) [OF b, of sb] by auto
qed

text \<open>An entry taken from a valid slot points inside the file.\<close>

definition loaded_entry_ok :: "sco_superblock \<Rightarrow> u64 \<Rightarrow> nat \<Rightarrow> sco_table_entry \<Rightarrow> bool" where
  "loaded_entry_ok sb fs i e \<longleftrightarrow>
     te_state e \<le> 3 \<and> te_generation e \<le> UINT32_MAX \<and> te_active_slot e \<le> 1 \<and>
     (te_state e = SCO_MAP_STATE_PRESENT \<longrightarrow>
        te_physical_cluster e \<le> UINT32_MAX \<and>
        te_physical_cluster e * sb_cluster_size sb + sco_cluster_stored_length sb i \<le> fs)"

lemma sco_slot_valid_ok:
  assumes "sco_slot_valid sb fs i k slot = Some e" "k \<le> 1" "0 < sb_cluster_size sb"
  shows "loaded_entry_ok sb fs i e"
proof -
  let ?pc = "le32dec slot 4"
  have e: "te_generation e = le32dec slot 0" "te_active_slot e = k" "te_physical_cluster e = ?pc"
    and st: "sco_state_valid (te_state e)"
    using assms(1) by (auto simp: sco_slot_valid_def Let_def split: if_splits)
  have p: "\<not> UINT64_MAX div sb_cluster_size sb < ?pc \<and> \<not> fs < mul64 ?pc (sb_cluster_size sb) \<and>
      \<not> fs - mul64 ?pc (sb_cluster_size sb) < sco_cluster_stored_length sb i"
    if "te_state e = SCO_MAP_STATE_PRESENT"
    using assms(1) that by (auto simp: sco_slot_valid_def Let_def split: if_splits)
  have "mul64 ?pc (sb_cluster_size sb) = ?pc * sb_cluster_size sb"
    if "\<not> UINT64_MAX div sb_cluster_size sb < ?pc"
  proof -
    have "?pc * sb_cluster_size sb \<le> UINT64_MAX div sb_cluster_size sb * sb_cluster_size sb" using that by simp
    also have "\<dots> \<le> UINT64_MAX" by simp
    finally show ?thesis by (simp add: mul64_def)
  qed
  with p have "te_state e = SCO_MAP_STATE_PRESENT \<Longrightarrow> ?pc * sb_cluster_size sb + sco_cluster_stored_length sb i \<le> fs"
    by fastforce
  then show ?thesis
    using st assms(2) le32dec_le by (auto simp: loaded_entry_ok_def e sco_state_valid_def)
qed

lemma sco_load_entry_ok:
  assumes "0 < sb_cluster_size sb"
  shows "loaded_entry_ok sb fs i (sco_load_entry sb fs i a b)"
proof -
  have n: "loaded_entry_ok sb fs i
      \<lparr>te_generation = 0, te_physical_cluster = 0, te_state = SCO_MAP_STATE_ABSENT, te_active_slot = SCO_SLOT_B, te_flags = 0\<rparr>"
    by (simp add: loaded_entry_ok_def)
  show ?thesis
    using sco_slot_valid_ok [of sb fs i SCO_SLOT_A a, OF _ _ assms] sco_slot_valid_ok [of sb fs i SCO_SLOT_B b, OF _ _ assms] n
    by (auto simp: sco_load_entry_def split: option.splits)
qed

text \<open>Marking succeeds only when every present entry has a data cluster of its own.\<close>

lemma sco_mark_entries_ok:
  "sco_mark_entries base count es used = Inr used' \<Longrightarrow> length used = count \<Longrightarrow>
     length used' = count \<and> (\<forall>k < count. used ! k \<longrightarrow> used' ! k) \<and>
     (\<forall>i < length es. te_state (es ! i) = SCO_MAP_STATE_PRESENT \<longrightarrow>
        base \<le> te_physical_cluster (es ! i) \<and> te_physical_cluster (es ! i) < base + count \<and>
        used' ! (te_physical_cluster (es ! i) - base) \<and> \<not> used ! (te_physical_cluster (es ! i) - base)) \<and>
     (\<forall>i < length es. \<forall>j < length es. te_state (es ! i) = SCO_MAP_STATE_PRESENT \<longrightarrow>
        te_state (es ! j) = SCO_MAP_STATE_PRESENT \<longrightarrow> i \<noteq> j \<longrightarrow> te_physical_cluster (es ! i) \<noteq> te_physical_cluster (es ! j))"
proof (induction es arbitrary: used)
  case (Cons e es)
  show ?case
  proof (cases "te_state e = SCO_MAP_STATE_PRESENT")
    case False
    with Cons.prems have "sco_mark_entries base count es used = Inr used'" by simp
    from Cons.IH [OF this Cons.prems(2)] False show ?thesis
      by (auto simp: nth_Cons split: nat.splits)
  next
    case True
    let ?k = "te_physical_cluster e - base"
    from True Cons.prems(1) have g: "base \<le> te_physical_cluster e" "?k < count" "\<not> used ! ?k"
      and m: "sco_mark_entries base count es (used[?k := True]) = Inr used'"
      by (auto simp: Let_def split: if_splits)
    have l: "length (used[?k := True]) = count" using Cons.prems(2) by simp
    note ih = Cons.IH [OF m l]
    have u: "used ! k \<longrightarrow> used[?k := True] ! k" "used[?k := True] ! ?k" if "k < count" for k
      using that Cons.prems(2) g(2) by (auto simp: nth_list_update)
    have other: "te_physical_cluster (es ! i) \<noteq> te_physical_cluster e \<and> \<not> used ! (te_physical_cluster (es ! i) - base)"
      if "i < length es" "te_state (es ! i) = SCO_MAP_STATE_PRESENT" for i
      using ih that u(1) [of "te_physical_cluster (es ! i) - base"] u(2) [OF g(2)] by fastforce
    have here: "used' ! ?k" "te_physical_cluster e < base + count" using ih u(2) [OF g(2)] g by auto
    have keep: "\<forall>k < count. used ! k \<longrightarrow> used' ! k" using ih u(1) by blast
    show ?thesis
      using ih g(1,3) here keep other not_sym [OF conjunct1 [OF other]]
      by (auto simp: nth_Cons simp del: nth_list_update split: nat.splits)
  qed
qed simp

lemma sco_load_table_result:
  assumes "sco_load_table s = (s', Inr ())" "sco_geometry (sco_sb s)"
  shows "\<exists>fd t. same_data (sco_fd s) fd \<and> s' = s\<lparr>sco_fd := fd, sco_table := t\<rparr> \<and>
    length t = sb_cluster_count (sco_sb s) \<and>
    (\<forall>i < length t. loaded_entry_ok (sco_sb s) (sco_file_size s) i (t ! i))"
proof -
  note g = assms(2) [unfolded sco_geometry_def]
  let ?n = "sb_cluster_count (sco_sb s)"
  obtain fd slots where r: "read_exact (sco_fd s) (sb_table_offset (sco_sb s)) (?n * SCO_TABLE_ENTRY_SIZE) = (fd, Inr slots)"
    and s': "s' = s\<lparr>sco_fd := fd, sco_table := map (\<lambda>i. sco_load_entry (sco_sb s) (sco_file_size s) i
             (buf_slice (i * SCO_TABLE_ENTRY_SIZE) SCO_TABLE_SLOT_SIZE slots)
             (buf_slice (i * SCO_TABLE_ENTRY_SIZE + SCO_TABLE_SLOT_SIZE) SCO_TABLE_SLOT_SIZE slots)) [0..<?n]\<rparr>"
    using assms(1) by (auto simp: sco_load_table_def Let_def and_then_ok_iff sco_io_def split: if_splits prod.splits)
  have "sb_table_offset (sco_sb s) + ?n * SCO_TABLE_ENTRY_SIZE \<le> UINT64_MAX" using g by simp
  from read_exact_result [OF r this] have "same_data (sco_fd s) fd" by simp
  then show ?thesis
    using sco_load_entry_ok sco_geometryD(1) [OF assms(2)] by (intro exI conjI) (auto simp: s')
qed

lemma sco_data_allocator_grow_fresh:
  assumes "sco_data_allocator_grow s count = (s', Inr ())" "sco_data_cluster_used s = []" "sco_data_cluster_count s = 0"
  shows "s' = s\<lparr>sco_data_cluster_used := replicate count False, sco_data_cluster_count := count\<rparr>"
  using assms by (cases s) (auto simp: sco_data_allocator_grow_def split: if_splits)

lemma sco_data_allocator_init_result:
  assumes "sco_data_allocator_init s = (s', Inr ())" "sco_geometry (sco_sb s)"
    and "sco_data_cluster_used s = []" "sco_data_cluster_count s = 0" "sco_data_alloc_cursor s = 0"
    and "sco_file_size s \<le> INT64_MAX"
  shows "\<exists>used count base. s' = s\<lparr>sco_data_cluster_base := base, sco_data_cluster_used := used, sco_data_cluster_count := count\<rparr> \<and>
    base * sb_cluster_size (sco_sb s) = sb_data_area_offset (sco_sb s) \<and> base + count \<le> 281474976710656 \<and>
    sco_mark_entries base count (sco_table s) (replicate count False) = Inr used"
proof -
  note g = assms(2) [unfolded sco_geometry_def]
  let ?cs = "sb_cluster_size (sco_sb s)"
  let ?base = "sb_data_area_offset (sco_sb s) div ?cs" and ?fc = "(sco_file_size s + ?cs - 1) div ?cs"
  have b: "?base * ?cs = sb_data_area_offset (sco_sb s)" using g by (simp add: dvd_div_mult_self mod_0_imp_dvd)
  have "?base \<le> INT64_MAX div 65536"
    using g by (meson div_le_mono div_le_mono2 le_trans zero_less_numeral)
  then have base: "?base \<le> 281474976710656" by simp
  have "?fc \<le> (INT64_MAX + 4194304) div 65536"
  proof -
    have "?fc \<le> (INT64_MAX + 4194304) div ?cs" using g assms(6) by (intro div_le_mono) linarith
    also have "\<dots> \<le> (INT64_MAX + 4194304) div 65536" using g by (intro div_le_mono2) auto
    finally show ?thesis .
  qed
  then have fc: "?fc \<le> 281474976710656" by simp
  obtain count used where c: "count = 0 \<or> ?base \<le> ?fc \<and> count = ?fc - ?base"
    and m: "sco_mark_entries ?base count (sco_table s) (replicate count False) = Inr used"
    and s': "s' = s\<lparr>sco_data_cluster_base := ?base, sco_data_cluster_used := used, sco_data_cluster_count := count\<rparr>"
  proof -
    let ?s = "s\<lparr>sco_data_cluster_base := ?base\<rparr>"
    from assms(1) obtain count s1 where c: "count = 0 \<or> ?base \<le> ?fc \<and> count = ?fc - ?base"
      and gr: "sco_data_allocator_grow ?s count = (s1, Inr ())"
      and mk: "(case sco_mark_entries (sco_data_cluster_base s1) (sco_data_cluster_count s1) (sco_table s1)
           (sco_data_cluster_used s1) of Inl e \<Rightarrow> (s1, Inl e)
         | Inr used \<Rightarrow> (s1\<lparr>sco_data_cluster_used := used\<rparr>, Inr ())) = (s', Inr ())"
      by (auto simp: sco_data_allocator_init_def Let_def and_then_ok_iff split: if_splits)
    have s1: "s1 = ?s\<lparr>sco_data_cluster_used := replicate count False, sco_data_cluster_count := count\<rparr>"
      by (rule sco_data_allocator_grow_fresh [OF gr]) (simp_all add: assms(3,4))
    from mk obtain used where "sco_mark_entries ?base count (sco_table s) (replicate count False) = Inr used"
      "s' = s1\<lparr>sco_data_cluster_used := used\<rparr>" by (auto simp: s1 split: sum.splits)
    with c s1 that show thesis by simp
  qed
  show ?thesis using b base fc c m s' by (intro exI [of _ used] exI [of _ count] exI [of _ ?base]) auto
qed

lemma sco_set_base_fields:
  "sco_sb (sco_set_base s bd) = sco_sb s" "sco_table (sco_set_base s bd) = sco_table s"
  "sco_fd (sco_set_base s bd) = sco_fd s" "sco_readonly (sco_set_base s bd) = sco_readonly s"
  "sco_inv (sco_set_base s bd) = sco_inv s"
  by (cases "bd_uuid bd"; cases "bd_digest bd";
      simp add: sco_set_base_def sco_inv_def sco_entry_ok_def sco_present_def sco_phys_def)+

lemma sco_read_base_descriptor_result:
  assumes "sco_read_base_descriptor s = (s', Inr ())" "sco_inv s"
    and "sb_base_descriptor_offset (sco_sb s) + sb_base_descriptor_length (sco_sb s) \<le> UINT64_MAX"
  shows "sco_inv s' \<and> sco_sb s' = sco_sb s \<and> sco_table s' = sco_table s \<and> same_data (sco_fd s) (sco_fd s') \<and>
    sco_readonly s' = sco_readonly s"
proof (cases "sb_base_descriptor_offset (sco_sb s) = 0")
  case True
  then show ?thesis using assms by (simp add: sco_read_base_descriptor_def)
next
  case False
  then obtain fd buf bd where r: "read_exact (sco_fd s) (sb_base_descriptor_offset (sco_sb s))
      (sb_base_descriptor_length (sco_sb s)) = (fd, Inr buf)" and s': "s' = sco_set_base (s\<lparr>sco_fd := fd\<rparr>) bd"
  proof -
    obtain fd r where r: "read_exact (sco_fd s) (sb_base_descriptor_offset (sco_sb s))
      (sb_base_descriptor_length (sco_sb s)) = (fd, r)" by fastforce
    obtain buf where b: "r = Inr buf"
      using assms(1) False by (cases r) (simp_all add: sco_read_base_descriptor_def sco_io_def r)
    then obtain bd where "s' = sco_set_base (s\<lparr>sco_fd := fd\<rparr>) bd"
      using assms(1) False
      by (cases "sco_decode_base_descriptor buf (sb_base_descriptor_length (sco_sb s))")
         (auto simp: sco_read_base_descriptor_def sco_io_def r)
    with r b that show thesis by blast
  qed
  from read_exact_result [OF r assms(3)] have d: "same_data (sco_fd s) fd" by simp
  from sco_inv_same_data(1) [OF assms(2) d] d show ?thesis by (simp add: s' sco_set_base_fields)
qed

lemma sco_layout_descriptor:
  assumes "sco_superblock_layout_valid sb fs" "fs \<le> INT64_MAX"
  shows "sb_base_descriptor_offset sb + sb_base_descriptor_length sb \<le> UINT64_MAX"
proof (cases "sb_base_descriptor_offset sb = 0")
  case False
  then have "range_fits (sb_base_descriptor_offset sb) (sb_base_descriptor_length sb) (sb_data_area_offset sb)"
    "sb_data_area_offset sb \<le> fs"
    using assms(1) by (simp_all add: sco_superblock_layout_valid_def range_before_data_def Let_def)
  then show ?thesis using assms(2) by (auto simp: range_fits_def split: if_splits)
next
  case True
  then show ?thesis using assms(1) by (simp add: sco_superblock_layout_valid_def)
qed

text \<open>What an image opened from a file is: the invariant holds, the superblock is a valid one
  and the table is the one the slots of the file describe.\<close>

lemma sco_open_result:
  assumes "sco_open path fd ro = (fd', Inr s)" "h_size fd \<le> INT64_MAX"
  shows "sco_inv s" "same_data fd (sco_fd s)" "sco_readonly s = ro" "ro \<or> \<not> sco_is_sealed (sco_sb s)" "fd' = sco_fd s"
proof -
  obtain fd1 n where f1: "fstat_size fd = (fd1, Inr n)"
    and o1: "(if n < SCO_MIN_FILE_SIZE then (fd1, Inl EINVAL)
       else and_then (sco_read_file_id fd1) (\<lambda>fd file_id_uuid.
         and_then (sco_select_superblock fd ro file_id_uuid n) (\<lambda>fd (sb, active_offset).
           if \<not> ro \<and> sco_is_sealed sb then (fd, Inl EROFS)
           else case sco_load (sco_fresh_image fd ro n sb active_offset) of
               (sco, Inl e) \<Rightarrow> (sco_fd sco, Inl e)
             | (sco, Inr _) \<Rightarrow> (sco_fd sco, Inr sco)))) = (fd', Inr s)"
    using assms(1) by (auto simp: sco_open_def and_then_ok_iff)
  from fstat_frame [OF f1] have d1: "same_data fd fd1" "n = h_size fd" by auto
  from o1 obtain fd2 uuid fd3 sb off where f2: "sco_read_file_id fd1 = (fd2, Inr uuid)"
    and f3: "sco_select_superblock fd2 ro uuid n = (fd3, Inr (sb, off))"
    and o2: "(if \<not> ro \<and> sco_is_sealed sb then (fd3, Inl EROFS)
           else case sco_load (sco_fresh_image fd3 ro n sb off) of
               (sco, Inl e) \<Rightarrow> (sco_fd sco, Inl e)
             | (sco, Inr _) \<Rightarrow> (sco_fd sco, Inr sco)) = (fd', Inr s)"
    by (auto simp: and_then_ok_iff split: if_splits)
  let ?s0 = "sco_fresh_image fd3 ro n sb off"
  from o2 have sealed: "ro \<or> \<not> sco_is_sealed sb" and l: "sco_load ?s0 = (s, Inr ())" and fd': "fd' = sco_fd s"
    by (auto split: if_splits prod.splits sum.splits)
  obtain r2 where "read_exact fd1 SCO_FILE_ID_OFFSET SCO_FILE_ID_SIZE = (fd2, Inr r2)"
    using f2 by (auto simp: sco_read_file_id_def and_then_ok_iff)
  from read_exact_result [OF this] have d2: "same_data fd1 fd2" by simp
  have d3: "same_data fd2 fd3" by (rule sco_select_superblock_result(1) [OF f3])
  from sco_select_superblock_result(2) [OF f3, of sb off]
  have v: "sco_superblock_layout_valid sb n" "sb_virtual_size sb \<le> UINT64_MAX" by auto
  have n: "n \<le> INT64_MAX" using d1(2) assms(2) by simp
  note g = sco_layout_geometry [OF v n]
  have data: "same_data fd fd3" using d1(1) d2 d3 same_data_trans by blast
  obtain s1 s2 where l1: "sco_load_table ?s0 = (s1, Inr ())" and l2: "sco_data_allocator_init s1 = (s2, Inr ())"
    and l3: "sco_read_base_descriptor s2 = (s, Inr ())"
    using l by (auto simp: sco_load_def and_then_ok_iff)
  from sco_load_table_result [OF l1] g(1) obtain fd4 t where s1: "s1 = ?s0\<lparr>sco_fd := fd4, sco_table := t\<rparr>"
    and d4: "same_data fd3 fd4" and t: "length t = sb_cluster_count sb"
      "\<forall>i < length t. loaded_entry_ok sb n i (t ! i)"
    by (auto simp: sco_fresh_image_def)
  from sco_data_allocator_init_result [OF l2] s1 g(1) n obtain used count base where
    s2: "s2 = s1\<lparr>sco_data_cluster_base := base, sco_data_cluster_used := used, sco_data_cluster_count := count\<rparr>"
    and b: "base * sb_cluster_size sb = sb_data_area_offset sb" "base + count \<le> 281474976710656"
    and m: "sco_mark_entries base count t (replicate count False) = Inr used"
    by (auto simp: sco_fresh_image_def)
  note mk = sco_mark_entries_ok [OF m length_replicate]
  have size: "h_size fd4 = n" using data d4 d1(2) by (simp add: same_data_def)
  have i2: "sco_inv s2"
    using g t b mk n size
    by (auto simp: sco_inv_def s2 s1 sco_fresh_image_def sco_entry_ok_def sco_present_def sco_phys_def loaded_entry_ok_def Let_def)
  have "sco_sb s2 = sb" "sco_fd s2 = fd4" "sco_readonly s2 = ro" by (simp_all add: s2 s1 sco_fresh_image_def)
  with sco_read_base_descriptor_result [OF l3 i2] sco_layout_descriptor [OF v(1) n]
  have "sco_inv s \<and> sco_sb s = sb \<and> same_data fd4 (sco_fd s) \<and> sco_readonly s = ro" by simp
  with sealed fd' data d4 same_data_trans show "sco_inv s" "same_data fd (sco_fd s)" "sco_readonly s = ro"
    "ro \<or> \<not> sco_is_sealed (sco_sb s)" "fd' = sco_fd s" by blast+
qed

end
