(* ===== verification/Image_Tool.thy ===== *)
theory Image_Tool
  imports Image_Layers Sco_Open
begin

text \<open>
  The image tool of \<^verbatim>\<open>src/scorpi_image_tool.c\<close>: creation of SCO and raw images, sealing,
  checking, and copying a chain into one image.

  What a command gets from the host is a parameter: the results of \<open>open\<close>, the random
  bytes and the clock behind a new UUID, and the number parser of \<open>libutil\<close>.
\<close>

unbundle bit_operations_syntax

section \<open>Creating images\<close>

abbreviation (input) SCO_DEFAULT_CLUSTER_SIZE :: u32 where "SCO_DEFAULT_CLUSTER_SIZE \<equiv> 0x40000"

record sco_create_options =
  co_path :: "string option"
  co_base_uri :: "string option"
  co_virtual_size :: u64
  co_has_explicit_size :: bool
  co_cluster_size :: u32
  co_logical_sector_size :: u32
  co_physical_sector_size :: u32

definition align_up_u64 :: "u64 \<Rightarrow> u64 \<Rightarrow> u64" where
  "align_up_u64 value alignment = sub64 (add64 value alignment) 1 AND (UINT64_MAX - sub64 alignment 1)"

text \<open>
  The loop that doubles the cluster size up to the sector size.  A 32-bit value is zero after
  32 doublings, so 32 rounds decide whether the loop ends; it does for every sector size that
  is a power of two (lemma \<open>grow_to_sector_ends\<close>).
\<close>

fun grow_to_sector :: "nat \<Rightarrow> u32 \<Rightarrow> u32 \<Rightarrow> u32" where
  "grow_to_sector 0 cluster_size logical_sector_size = cluster_size"
| "grow_to_sector (Suc n) cluster_size logical_sector_size =
     (if cluster_size < logical_sector_size
      then grow_to_sector n (cluster_size * 2 mod 4294967296) logical_sector_size else cluster_size)"

lemma align_up_0 [simp]: "align_up_u64 0 4096 = 0"
  by (simp add: align_up_u64_def add64_def sub64_def)

function choose_cluster_loop :: "u64 \<Rightarrow> u32 \<Rightarrow> u32 \<Rightarrow> (u32 \<times> u64 \<times> u32) res" where
  "choose_cluster_loop virtual_size logical_sector_size cluster_size =
     (if SCO_MAX_CLUSTER_SIZE < cluster_size then Inl EFBIG
      else if cluster_size mod logical_sector_size \<noteq> 0 then Inl EINVAL
      else let cluster_count = sub64 (add64 virtual_size cluster_size) 1 div cluster_size in
        if UINT64_MAX div SCO_TABLE_SLOT_SIZE < cluster_count then Inl EFBIG
        else let table_length = align_up_u64 (mul64 cluster_count SCO_TABLE_SLOT_SIZE) SCO_METADATA_PAGE_SIZE in
          if table_length \<le> SCO_MAX_SINGLE_TABLE_BYTES then Inr (cluster_size, cluster_count, table_length)
          else choose_cluster_loop virtual_size logical_sector_size (cluster_size * 2 mod 4294967296))"
  by pat_completeness auto
termination
proof (relation "measure (\<lambda>(vs, lss, cs). 4194305 - cs)", simp, goal_cases)
  case (1 vs lss cs x y)
  have "cs \<noteq> 0"
  proof
    assume "cs = 0"
    then have "y = 0" using 1(3,5) by (simp add: mul64_def)
    with 1(6) show False by simp
  qed
  with 1 show ?case by simp
qed

declare choose_cluster_loop.simps [simp del]

definition sco_choose_cluster_size :: "sco_create_options \<Rightarrow> (u32 \<times> u64 \<times> u32) res" where
  "sco_choose_cluster_size opts =
     (if co_virtual_size opts = 0 \<or> co_logical_sector_size opts = 0 then Inl EINVAL
      else let cluster_size = grow_to_sector 32 SCO_DEFAULT_CLUSTER_SIZE (co_logical_sector_size opts);
               cluster_size = (if cluster_size < SCO_MIN_CLUSTER_SIZE then SCO_MIN_CLUSTER_SIZE else cluster_size)
        in choose_cluster_loop (co_virtual_size opts) (co_logical_sector_size opts) cluster_size)"

text \<open>
  \<open>urandom\<close> is what a read of 16 bytes from the random device gave, \<open>clock\<close> what the clock
  gave.  The version and variant bits of the UUID are set in both cases.
\<close>

definition set_uuid_version :: "byte list \<Rightarrow> byte list" where
  "set_uuid_version uuid =
     uuid[6 := (uuid ! 6 AND 0x0f) OR 0x40, 8 := (uuid ! 8 AND 0x3f) OR 0x80]"

definition fill_uuid :: "byte list option \<Rightarrow> (u64 \<times> u64) res \<Rightarrow> byte list res" where
  "fill_uuid urandom clock =
     (case urandom of
        Some bs \<Rightarrow> Inr (set_uuid_version bs)
      | None \<Rightarrow>
          (case clock of
             Inl e \<Rightarrow> Inl e
           | Inr (tv_sec, tv_nsec) \<Rightarrow> Inr (set_uuid_version (le64enc tv_sec @ le64enc tv_nsec))))"

definition build_file_id :: "byte list \<Rightarrow> byte list" where
  "build_file_id uuid =
     (let buf = put_fields
            [(0x08, le16enc SCO_FORMAT_MAJOR), (0x0c, le32enc SCO_FILE_ID_SIZE), (0x10, uuid),
             (0x20, le32enc SCO_CHECKSUM_CRC32C)] (overwrite 0 SCO_MAGIC (zeros SCO_FILE_ID_SIZE));
          crc = scorpi_crc32c buf
      in overwrite 0x24 (le32enc (unat crc)) buf)"

definition string_bytes :: "string \<Rightarrow> byte list" where
  "string_bytes s = map (\<lambda>c. of_nat (of_char c)) s"

definition build_base_descriptor :: "u32 \<Rightarrow> string \<Rightarrow> byte list" where
  "build_base_descriptor descriptor_size base_uri =
     (let buf = put_fields
            [(0x00, le32enc descriptor_size), (0x04, le32enc SCO_CHECKSUM_CRC32C),
             (0x10, le32enc (length base_uri mod 4294967296)), (0x50, string_bytes base_uri)] (zeros descriptor_size);
          crc = scorpi_crc32c buf
      in overwrite 0x08 (le32enc (unat crc)) buf)"

definition build_superblock ::
  "sco_create_options \<Rightarrow> byte list \<Rightarrow> u64 \<Rightarrow> u64 \<Rightarrow> u64 \<Rightarrow> u32 \<Rightarrow> u64 \<Rightarrow> u32 \<Rightarrow> byte list" where
  "build_superblock opts uuid cluster_count data_area_offset base_descriptor_offset base_descriptor_length
       table_offset table_length =
     (let buf = put_fields
            [(0x00, SCO_MAGIC), (0x08, le16enc SCO_FORMAT_MAJOR), (0x0c, le32enc SCO_SUPERBLOCK_SIZE),
             (0x10, le32enc SCO_CHECKSUM_CRC32C), (0x18, le64enc 1), (0x20, le64enc (co_virtual_size opts)),
             (0x28, le32enc (co_logical_sector_size opts)), (0x2c, le32enc (co_physical_sector_size opts)),
             (0x30, le32enc (co_cluster_size opts)), (0x38, le64enc cluster_count),
             (0x40, le64enc SCO_METADATA_AREA_OFFSET), (0x48, le64enc data_area_offset),
             (0x50, le64enc base_descriptor_offset), (0x58, le32enc base_descriptor_length),
             (0x60, le64enc table_offset), (0x68, le32enc table_length), (0x6c, le32enc SCO_TABLE_SLOT_SIZE),
             (0x70, le32enc (unat SCO_INCOMPAT_FIXED_TABLE_V2)), (0x80, uuid)] (zeros SCO_SUPERBLOCK_SIZE);
          crc = scorpi_crc32c buf
      in overwrite 0x14 (le32enc (unat crc)) buf)"

text \<open>The layout \<open>create_sco\<close> computes before it touches the file.\<close>

record sco_layout =
  lay_opts :: sco_create_options
  lay_cluster_count :: u64
  lay_base_descriptor_offset :: u64
  lay_base_descriptor_length :: u32
  lay_table_offset :: u64
  lay_table_length :: u32
  lay_data_area_offset :: u64

definition sco_create_layout :: "sco_create_options \<Rightarrow> sco_layout res" where
  "sco_create_layout opts =
     (if co_path opts = None \<or> co_virtual_size opts = 0 \<or> co_logical_sector_size opts = 0 then Inl EINVAL
      else if \<not> is_power_of_two_u64 (co_logical_sector_size opts) then Inl EINVAL
      else if co_physical_sector_size opts \<noteq> 0 \<and>
              (\<not> is_power_of_two_u64 (co_physical_sector_size opts) \<or>
               co_physical_sector_size opts < co_logical_sector_size opts) then Inl EINVAL
      else case sco_choose_cluster_size opts of
          Inl e \<Rightarrow> Inl e
        | Inr (cluster_size, cluster_count, table_length) \<Rightarrow>
            let actual_opts = opts\<lparr>co_cluster_size := cluster_size\<rparr>;
                (bd_offset, bd_length) =
                  (case co_base_uri opts of
                     None \<Rightarrow> (0, 0)
                   | Some uri \<Rightarrow> (SCO_METADATA_AREA_OFFSET,
                       align_up_u64 (add64 0x50 (length uri)) SCO_METADATA_PAGE_SIZE mod 4294967296));
                table_offset = SCO_METADATA_AREA_OFFSET + bd_length
            in if (UINT64_MAX - table_offset) div SCO_TABLE_SLOTS_PER_ENTRY < table_length then Inl EFBIG
               else let metadata_end = table_offset + table_length * SCO_TABLE_SLOTS_PER_ENTRY in
                 if UINT64_MAX - cluster_size + 1 < metadata_end then Inl EFBIG
                 else Inr \<lparr>lay_opts = actual_opts, lay_cluster_count = cluster_count,
                           lay_base_descriptor_offset = bd_offset, lay_base_descriptor_length = bd_length,
                           lay_table_offset = table_offset, lay_table_length = table_length,
                           lay_data_area_offset = align_up_u64 metadata_end cluster_size\<rparr>)"

definition create_sco_write :: "hfile \<Rightarrow> sco_layout \<Rightarrow> byte list \<Rightarrow> hfile \<times> unit res" where
  "create_sco_write fd lay uuid =
     and_then (write_exact fd 0 (build_file_id uuid)) (\<lambda>fd _.
     and_then (write_exact fd SCO_SUPERBLOCK_A_OFFSET
         (build_superblock (lay_opts lay) uuid (lay_cluster_count lay) (lay_data_area_offset lay)
            (lay_base_descriptor_offset lay) (lay_base_descriptor_length lay)
            (lay_table_offset lay) (lay_table_length lay))) (\<lambda>fd _.
     and_then (write_exact fd SCO_SUPERBLOCK_B_OFFSET (zeros SCO_METADATA_PAGE_SIZE)) (\<lambda>fd _.
     and_then (case co_base_uri (lay_opts lay) of
                 None \<Rightarrow> (fd, Inr ())
               | Some uri \<Rightarrow> write_exact fd (lay_base_descriptor_offset lay)
                   (build_base_descriptor (lay_base_descriptor_length lay) uri)) (\<lambda>fd _.
     and_then (ftruncate fd (lay_data_area_offset lay)) (\<lambda>fd _. fsync fd)))))"

text \<open>The final \<open>close\<close>, whose error counts only when there was none before.\<close>

definition close_after :: "hfile \<times> unit res \<Rightarrow> hfile \<times> unit res" where
  "close_after m = (case m of (fd, r) \<Rightarrow>
     (case close fd of (fd, cr) \<Rightarrow> (fd, case r of Inl e \<Rightarrow> Inl e | Inr _ \<Rightarrow> cr)))"

definition create_sco ::
  "sco_create_options \<Rightarrow> byte list res \<Rightarrow> hfile res \<Rightarrow> hfile option \<times> unit res" where
  "create_sco opts uuid opened_file =
     (case sco_create_layout opts of
        Inl e \<Rightarrow> (None, Inl e)
      | Inr lay \<Rightarrow>
          (case uuid of
             Inl e \<Rightarrow> (None, Inl e)
           | Inr uuid \<Rightarrow>
               (case opened_file of
                  Inl e \<Rightarrow> (None, Inl e)
                | Inr fd \<Rightarrow> (case close_after (create_sco_write fd lay uuid) of (fd, r) \<Rightarrow> (Some fd, r)))))"

definition create_raw :: "string option \<Rightarrow> u64 \<Rightarrow> hfile res \<Rightarrow> hfile option \<times> unit res" where
  "create_raw path virtual_size opened_file =
     (if path = None \<or> virtual_size = 0 \<or> INT64_MAX < virtual_size then (None, Inl EINVAL)
      else case opened_file of
          Inl e \<Rightarrow> (None, Inl e)
        | Inr fd \<Rightarrow>
            (case close_after (and_then (ftruncate fd virtual_size) (\<lambda>fd _. fsync fd)) of (fd, r) \<Rightarrow> (Some fd, r)))"

section \<open>Opening images\<close>

definition open_image_top ::
  "'s scorpi_image_ops list \<Rightarrow> string \<Rightarrow> hfile res \<Rightarrow> ('s scorpi_image_ops \<times> 's) res" where
  "open_image_top be_set path opened_file =
     (case opened_file of
        Inl e \<Rightarrow> Inl e
      | Inr fd \<Rightarrow>
          (case scorpi_image_backend_probe be_set fd of
             (fd, Inl e) \<Rightarrow> Inl e
           | (fd, Inr (ops, score)) \<Rightarrow>
               if score = 0 then Inl ENOENT
               else (case ops_open ops path fd True of
                       (fd, Inl e) \<Rightarrow> Inl e
                     | (fd, Inr state) \<Rightarrow> Inr (ops, state))))"

definition open_image_for_create_base ::
  "'s scorpi_image_ops list \<Rightarrow> 's scorpi_image_ops \<Rightarrow> string \<Rightarrow> hfile res \<Rightarrow> ('s scorpi_image_ops \<times> 's) res" where
  "open_image_for_create_base be_set raw_backend path opened_file =
     (case opened_file of
        Inl e \<Rightarrow> Inl e
      | Inr fd \<Rightarrow>
          let (fd, probed) = scorpi_image_backend_probe be_set fd;
              go = (\<lambda>ops. case ops_open ops path fd True of
                       (fd, Inl e) \<Rightarrow> Inl e
                     | (fd, Inr state) \<Rightarrow> Inr (ops, state))
          in (case probed of
                Inl e \<Rightarrow> if e \<noteq> ENOENT then Inl e else go raw_backend
              | Inr (ops, score) \<Rightarrow> go (if score = 0 then raw_backend else ops)))"

definition read_base_create_info ::
  "host_env \<Rightarrow> 's scorpi_image_ops list \<Rightarrow> 's scorpi_image_ops \<Rightarrow> string option \<Rightarrow> string \<Rightarrow> scorpi_image_info res" where
  "read_base_create_info env be_set raw_backend image_path base_uri =
     (case image_path of
        None \<Rightarrow> Inl EINVAL
      | Some image_path \<Rightarrow>
     (case scorpi_image_base_location_resolve (env_cwd env) image_path base_uri None of
        Inl e \<Rightarrow> Inl e
      | Inr location \<Rightarrow>
          (case open_image_for_create_base be_set raw_backend (loc_resolved_path location)
                  (map_sum id fst (env_open env (loc_resolved_path location))) of
             Inl e \<Rightarrow> Inl e
           | Inr (ops, state) \<Rightarrow>
               (case ops_get_info ops state of
                  Inl e \<Rightarrow> Inl e
                | Inr info \<Rightarrow> (case ops_close ops state of Inl e \<Rightarrow> Inl e | Inr _ \<Rightarrow> Inr info)))))"

definition open_sco_for_seal_state ::
  "'s scorpi_image_ops list \<Rightarrow> string \<Rightarrow> bool \<Rightarrow> hfile res \<Rightarrow> ('s scorpi_image_ops \<times> 's) res" where
  "open_sco_for_seal_state be_set path readonly_open opened_file =
     (case opened_file of
        Inl e \<Rightarrow> Inl e
      | Inr fd \<Rightarrow>
          (case scorpi_image_backend_probe be_set fd of
             (fd, Inl e) \<Rightarrow> Inl e
           | (fd, Inr (ops, score)) \<Rightarrow>
               if score = 0 \<or> ops_name ops \<noteq> ''sco'' then Inl ENOTSUP
               else (case ops_open ops path fd readonly_open of
                       (fd, Inl e) \<Rightarrow> Inl e
                     | (fd, Inr state) \<Rightarrow> Inr (ops, state))))"

section \<open>Commands\<close>

definition cmd_check :: "'s scorpi_image_ops list \<Rightarrow> string \<Rightarrow> hfile res \<Rightarrow> unit res" where
  "cmd_check be_set path opened_file =
     (case open_image_top be_set path opened_file of
        Inl e \<Rightarrow> Inl e
      | Inr (ops, state) \<Rightarrow> ops_close ops state)"

text \<open>The file is opened a second time, read-only, when sealing finds it sealed already.\<close>

definition cmd_set_sealed ::
  "image_state scorpi_image_ops list \<Rightarrow> string \<Rightarrow> bool \<Rightarrow> hfile res \<Rightarrow> hfile res \<Rightarrow> image_state option \<times> unit res" where
  "cmd_set_sealed be_set path sealed first_open second_open =
     (case (case open_sco_for_seal_state be_set path (\<not> sealed) first_open of
              Inl e \<Rightarrow> if e = EROFS \<and> sealed then open_sco_for_seal_state be_set path True second_open else Inl e
            | Inr r \<Rightarrow> Inr r) of
        Inl e \<Rightarrow> (None, Inl e)
      | Inr (ops, state) \<Rightarrow>
          (case on_sco (\<lambda>s. scorpi_image_sco_set_sealed s sealed) state of
             (state, r) \<Rightarrow> (Some state, case r of Inl e \<Rightarrow> Inl e | Inr _ \<Rightarrow> ops_close ops state)))"

definition make_file_uri :: "string \<Rightarrow> string res" where
  "make_file_uri base =
     (if base = [] then Inl EINVAL
      else if take 5 base = ''file:'' then Inr base
      else Inr ((if hd base = CHR ''/'' then ''file://'' else ''file:'') @ base))"

definition open_image_chain_path ::
  "host_env \<Rightarrow> 's scorpi_image_ops list \<Rightarrow> 's scorpi_image_ops \<Rightarrow> string \<Rightarrow> host_fd res \<Rightarrow> bool \<Rightarrow> 's scorpi_image_chain res" where
  "open_image_chain_path env be_set raw_backend path opened_file readonly =
     (case opened_file of
        Inl e \<Rightarrow> Inl e
      | Inr fd \<Rightarrow> scorpi_image_chain_open_single env be_set raw_backend path fd readonly
          (Some \<lparr>opt_raw_fallback = True, opt_max_depth = 0,
                 opt_uri_policy = \<lparr>allow_absolute_file_uri = False, allowed_root = None\<rparr>,
                 opt_has_uri_policy = False\<rparr>))"

text \<open>
  The copy loop.  The caller rejects a cluster size of zero, with which the loop would not
  advance.
\<close>

function squash_loop ::
  "'s scorpi_image_chain \<Rightarrow> 't scorpi_image_chain \<Rightarrow> u64 \<Rightarrow> u32 \<Rightarrow> u64 \<Rightarrow>
     ('s scorpi_image_chain \<times> 't scorpi_image_chain) \<times> unit res" where
  "squash_loop source target virtual_size cluster_size offset =
     (if \<not> (offset < virtual_size \<and> 0 < cluster_size) then ((source, target), Inr ())
      else let length' = min (virtual_size - offset) cluster_size in
        (case scorpi_image_chain_read source offset length' of
           (source, Inl e) \<Rightarrow> ((source, target), Inl e)
         | (source, Inr buf) \<Rightarrow>
             (case scorpi_image_chain_write target buf offset of
                (target, Inl e) \<Rightarrow> ((source, target), Inl e)
              | (target, Inr _) \<Rightarrow> squash_loop source target virtual_size cluster_size (offset + length'))))"
  by pat_completeness auto
termination
  by (relation "measure (\<lambda>(s, t, vs, cs, offset). vs - offset)") auto

declare squash_loop.simps [simp del]

definition cmd_squash_copy ::
  "'s scorpi_image_chain \<Rightarrow> 't scorpi_image_chain \<Rightarrow> u64 \<Rightarrow> u32 \<Rightarrow>
     ('s scorpi_image_chain \<times> 't scorpi_image_chain) \<times> unit res" where
  "cmd_squash_copy source target virtual_size cluster_size =
     (if virtual_size = 0 \<or> cluster_size = 0 then ((source, target), Inl EINVAL)
      else case squash_loop source target virtual_size cluster_size 0 of
          ((source, target), Inl e) \<Rightarrow> ((source, target), Inl e)
        | ((source, target), Inr _) \<Rightarrow>
            (case scorpi_image_chain_flush target of (target, r) \<Rightarrow> ((source, target), r)))"

text \<open>The options a squash creates its output with, and the check of the new base.\<close>

definition squash_options ::
  "host_env \<Rightarrow> 's scorpi_image_ops list \<Rightarrow> 's scorpi_image_ops \<Rightarrow> string \<Rightarrow> scorpi_image_info \<Rightarrow> string option \<Rightarrow>
     sco_create_options res" where
  "squash_options env be_set raw_backend output_path source_info base =
     (let opts = \<lparr>co_path = Some output_path, co_base_uri = None, co_virtual_size = info_virtual_size source_info,
                  co_has_explicit_size = True, co_cluster_size = 0,
                  co_logical_sector_size = info_logical_sector_size source_info,
                  co_physical_sector_size = info_physical_sector_size source_info\<rparr>
      in case base of
          None \<Rightarrow> Inr opts
        | Some base \<Rightarrow>
            (case make_file_uri base of
               Inl e \<Rightarrow> Inl e
             | Inr base_uri \<Rightarrow>
                 (case read_base_create_info env be_set raw_backend (Some output_path) base_uri of
                    Inl e \<Rightarrow> Inl e
                  | Inr base_info \<Rightarrow>
                      if info_virtual_size source_info < info_virtual_size base_info \<or>
                         info_logical_sector_size base_info \<noteq> info_logical_sector_size source_info \<or>
                         (info_physical_sector_size base_info \<noteq> 0 \<and> info_physical_sector_size source_info \<noteq> 0 \<and>
                          info_physical_sector_size base_info \<noteq> info_physical_sector_size source_info)
                      then Inl EINVAL
                      else Inr (opts\<lparr>co_base_uri := Some base_uri\<rparr>))))"

text \<open>\<open>argv\<close> after the command name; \<open>reopen\<close> opens the file just created.\<close>

definition cmd_squash ::
  "host_env \<Rightarrow> 's scorpi_image_ops list \<Rightarrow> 's scorpi_image_ops \<Rightarrow> string list \<Rightarrow> bool \<Rightarrow> host_fd res \<Rightarrow>
     byte list res \<Rightarrow> hfile res \<Rightarrow> (hfile \<Rightarrow> host_fd res) \<Rightarrow> 's scorpi_image_chain option \<times> unit res" where
  "cmd_squash env be_set raw_backend args same_file source_open uuid output_open reopen =
     (if length args \<noteq> 2 \<and> length args \<noteq> 3 then (None, Inl EINVAL)
      else let source_path = args ! 0; output_path = args ! 1;
               base = (if length args = 3 then Some (args ! 2) else None)
        in if source_path = output_path \<or> same_file then (None, Inl EINVAL)
           else case open_image_chain_path env be_set raw_backend source_path source_open True of
               Inl e \<Rightarrow> (None, Inl e)
             | Inr source \<Rightarrow>
                 (case scorpi_image_chain_top_info source of
                    None \<Rightarrow> (None, Inl EINVAL)
                  | Some source_info \<Rightarrow>
                      if info_virtual_size source_info = 0 \<or> info_logical_sector_size source_info = 0
                      then (None, Inl EINVAL)
                      else (case squash_options env be_set raw_backend output_path source_info base of
                          Inl e \<Rightarrow> (None, Inl e)
                        | Inr opts \<Rightarrow>
                            (case create_sco opts uuid output_open of
                               (Some fd, Inr _) \<Rightarrow>
                                 (case open_image_chain_path env be_set raw_backend output_path (reopen fd) False of
                                    Inl e \<Rightarrow> (None, Inl e)
                                  | Inr target \<Rightarrow>
                                      (case scorpi_image_chain_top_info target of
                                         None \<Rightarrow> (None, Inl EINVAL)
                                       | Some target_info \<Rightarrow>
                                           if info_cluster_size target_info = 0 then (None, Inl EINVAL)
                                           else (case cmd_squash_copy source target (info_virtual_size source_info)
                                                   (info_cluster_size target_info) of
                                               ((source, target), Inl e) \<Rightarrow> (Some target, Inl e)
                                             | ((source, target), Inr _) \<Rightarrow>
                                                 (Some target,
                                                  case scorpi_image_chain_close target of
                                                    Inl e \<Rightarrow> Inl e
                                                  | Inr _ \<Rightarrow> scorpi_image_chain_close source))))
                             | (_, Inl e) \<Rightarrow> (None, Inl e)
                             | (None, Inr _) \<Rightarrow> (None, Inl EINVAL)))))"

fun parse_create_args ::
  "(string \<Rightarrow> u64 res) \<Rightarrow> string list \<Rightarrow> string option \<Rightarrow> sco_create_options \<Rightarrow>
     (string option \<times> sco_create_options) res" where
  "parse_create_args expand_number [] format opts = Inr (format, opts)"
| "parse_create_args expand_number (arg # rest) format opts =
     (if arg = ''--format'' \<and> rest \<noteq> [] then parse_create_args expand_number (tl rest) (Some (hd rest)) opts
      else if arg = ''--size'' \<and> rest \<noteq> [] then
        (case expand_number (hd rest) of
           Inl e \<Rightarrow> Inl e
         | Inr n \<Rightarrow> parse_create_args expand_number (tl rest) format
             (opts\<lparr>co_virtual_size := n, co_has_explicit_size := True\<rparr>))
      else if arg \<noteq> [] \<and> hd arg = CHR ''-'' then Inl EINVAL
      else if co_path opts = None then parse_create_args expand_number rest format (opts\<lparr>co_path := Some arg\<rparr>)
      else if co_base_uri opts = None then
        (case make_file_uri arg of
           Inl e \<Rightarrow> Inl e
         | Inr uri \<Rightarrow> parse_create_args expand_number rest format (opts\<lparr>co_base_uri := Some uri\<rparr>))
      else Inl EINVAL)"

definition create_with_base :: "sco_create_options \<Rightarrow> scorpi_image_info \<Rightarrow> sco_create_options res" where
  "create_with_base opts base_info =
     (if co_has_explicit_size opts \<and> co_virtual_size opts < info_virtual_size base_info then Inl EINVAL
      else Inr (opts\<lparr>co_virtual_size :=
                   (if co_has_explicit_size opts then co_virtual_size opts else info_virtual_size base_info),
                 co_logical_sector_size := info_logical_sector_size base_info,
                 co_physical_sector_size :=
                   (if info_physical_sector_size base_info \<noteq> 0 then info_physical_sector_size base_info
                    else co_physical_sector_size opts)\<rparr>))"

definition cmd_create ::
  "host_env \<Rightarrow> 's scorpi_image_ops list \<Rightarrow> 's scorpi_image_ops \<Rightarrow> (string \<Rightarrow> u64 res) \<Rightarrow> string list \<Rightarrow>
     byte list res \<Rightarrow> (string \<Rightarrow> hfile res) \<Rightarrow> hfile option \<times> unit res" where
  "cmd_create env be_set raw_backend expand_number args uuid open_output =
     (case parse_create_args expand_number args None
             \<lparr>co_path = None, co_base_uri = None, co_virtual_size = 0, co_has_explicit_size = False,
              co_cluster_size = SCO_DEFAULT_CLUSTER_SIZE, co_logical_sector_size = 512,
              co_physical_sector_size = 4096\<rparr> of
        Inl e \<Rightarrow> (None, Inl e)
      | Inr (None, opts) \<Rightarrow> (None, Inl EINVAL)
      | Inr (Some format, opts) \<Rightarrow>
          let output = (case co_path opts of None \<Rightarrow> Inl EINVAL | Some p \<Rightarrow> open_output p) in
          if format = ''raw'' then
            (if \<not> co_has_explicit_size opts \<or> co_base_uri opts \<noteq> None \<or> co_path opts = None then (None, Inl EINVAL)
             else create_raw (co_path opts) (co_virtual_size opts) output)
          else if format \<noteq> ''sco'' then (None, Inl EINVAL)
          else case co_base_uri opts of
              None \<Rightarrow> create_sco opts uuid output
            | Some base_uri \<Rightarrow>
                (case read_base_create_info env be_set raw_backend (co_path opts) base_uri of
                   Inl e \<Rightarrow> (None, Inl e)
                 | Inr base_info \<Rightarrow>
                     (case create_with_base opts base_info of
                        Inl e \<Rightarrow> (None, Inl e)
                      | Inr opts \<Rightarrow> create_sco opts uuid output)))"

section \<open>Copying a chain\<close>

lemma layer_flush_ok:
  assumes "layer_inv im" "ops_flush (img_ops im) (img_state im) = (st, r)"
  shows "layer_inv (im\<lparr>img_state := st\<rparr>)" "layer_cell (im\<lparr>img_state := st\<rparr>) = layer_cell im"
proof -
  have "layer_inv (im\<lparr>img_state := st\<rparr>) \<and> layer_cell (im\<lparr>img_state := st\<rparr>) = layer_cell im"
  proof (cases "img_state im")
    case (Raw_State raw)
    with assms obtain fd where f: "fsync (raw_fd raw) = (fd, r)" "st = Raw_State (raw\<lparr>raw_fd := fd\<rparr>)"
      by (auto simp: layer_inv_def ops_defs raw_flush_def split: prod.splits)
    from fsync_frame [OF f(1)] assms(1) Raw_State f(2) show ?thesis
      by (auto simp: layer_inv_def layer_cell_def raw_inv_def raw_cell_def same_data_def)
  next
    case (Sco_State s)
    with assms obtain fd where f: "fsync (sco_fd s) = (fd, r)" "st = Sco_State (s\<lparr>sco_fd := fd\<rparr>)"
      by (auto simp: layer_inv_def ops_defs sco_flush_def sco_trace_fsync_def sco_io_def split: prod.splits)
    have i: "sco_inv s" using assms(1) Sco_State by (simp add: layer_inv_def)
    from sco_inv_same_data [OF i fsync_frame [OF f(1)]] assms(1) Sco_State f(2) show ?thesis
      by (simp add: layer_inv_def layer_cell_def sco_vsize_def)
  next
    case (Qcow2_State q)
    with assms have "st = img_state im" by (auto simp: layer_inv_def ops_defs qcow2_flush_def)
    with assms(1) show ?thesis by simp
  qed
  then show "layer_inv (im\<lparr>img_state := st\<rparr>)" "layer_cell (im\<lparr>img_state := st\<rparr>) = layer_cell im" by auto
qed

lemma chain_flush_content:
  assumes "layers.chain_inv c" "scorpi_image_chain_flush c = (c', r)"
  shows "layers.chain_inv c'" "layers_byte layer_cell (images c') = layers_byte layer_cell (images c)"
proof -
  note inv = assms(1) [unfolded layers.chain_inv_def]
  have ne: "0 < length (images c)" using inv by (simp add: layers.stacked_def)
  from assms(2) ne obtain st where f: "ops_flush (img_ops (images c ! 0)) (img_state (images c ! 0)) = (st, r)"
    and c': "c' = chain_set_state c 0 st"
    by (auto simp: scorpi_image_chain_flush_def split: prod.splits)
  have "layer_inv (images c ! 0)" using inv ne by (simp add: list_all_length)
  from layers.set_state_same [OF _ ne layer_flush_ok [OF this f]] inv c'
  have 1: "list_all layer_inv (images c')" "layers_same layer_cell (images c) (images c')" by auto
  then show "layers_byte layer_cell (images c') = layers_byte layer_cell (images c)" using layers_sameD(3) by blast
  have "read_cache c' = read_cache c" by (simp add: c' chain_set_state_def)
  then show "layers.chain_inv c'"
    using 1 inv cache_ok_same [OF _ 1(2)] layers.stacked_shape [OF layers_sameD(2) [OF 1(2)]]
    by (simp add: layers.chain_inv_def)
qed

lemma squash_loop_content:
  "layers.chain_inv s \<Longrightarrow> layers.chain_inv t \<Longrightarrow> 0 < cs \<Longrightarrow> off \<le> vs \<Longrightarrow>
     squash_loop s t vs cs off = ((s', t'), Inr ()) \<Longrightarrow>
     layers.chain_inv t' \<and> layers_byte layer_cell (images s') = layers_byte layer_cell (images s) \<and>
     layers_byte layer_cell (images t') =
       put_bytes (layers_byte layer_cell (images t)) off (get_bytes (layers_byte layer_cell (images s)) off (vs - off))"
proof (induction s t vs cs off rule: squash_loop.induct)
  case (1 s t vs cs off)
  show ?case
  proof (cases "off < vs")
    case False
    then have "squash_loop s t vs cs off = ((s, t), Inr ())" by (subst squash_loop.simps) simp
    with "1.prems" False show ?thesis by simp
  next
    case True
    let ?n = "min (vs - off) cs"
    have g: "\<not> \<not> (off < vs \<and> 0 < cs)" using True "1.prems"(3) by simp
    from "1.prems"(5) g obtain s1 buf t1 where r: "scorpi_image_chain_read s off ?n = (s1, Inr buf)"
      and w: "scorpi_image_chain_write t buf off = (t1, Inr ())"
      and l: "squash_loop s1 t1 vs cs (off + ?n) = ((s', t'), Inr ())"
      by (subst (asm) squash_loop.simps) (auto simp: Let_def split: prod.splits sum.splits)
    note rd = layers.chain_read_content [OF "1.prems"(1) r]
    note wr = layers.chain_write_content [OF "1.prems"(2) w]
    have sb: "layers_byte layer_cell (images s1) = layers_byte layer_cell (images s)" by (rule layers_sameD(3) [OF rd(3)])
    have le: "off + ?n \<le> vs" using True by simp
    have ih: "layers.chain_inv t' \<and> layers_byte layer_cell (images s') = layers_byte layer_cell (images s1) \<and>
       layers_byte layer_cell (images t') = put_bytes (layers_byte layer_cell (images t1)) (off + ?n)
         (get_bytes (layers_byte layer_cell (images s1)) (off + ?n) (vs - (off + ?n)))"
      by (rule "1.IH" [OF g refl r [symmetric] refl w [symmetric] refl rd(2) wr(1) "1.prems"(3) le l])
    have len: "length buf = ?n" by (simp add: rd(1))
    have "buf @ get_bytes (layers_byte layer_cell (images s)) (off + ?n) (vs - (off + ?n)) =
        get_bytes (layers_byte layer_cell (images s)) off (vs - off)"
      unfolding rd(1) by (rule nth_equalityI) (use le in \<open>auto simp: nth_append\<close>)
    with ih wr(2) sb put_bytes_append [of _ off buf] len show ?thesis by simp
  qed
qed

lemma squash_copy_content:
  assumes "layers.chain_inv s" "layers.chain_inv t" "cmd_squash_copy s t vs cs = ((s', t'), Inr ())"
  shows "layers.chain_inv t'"
    "layers_byte layer_cell (images t') =
       put_bytes (layers_byte layer_cell (images t)) 0 (get_bytes (layers_byte layer_cell (images s)) 0 vs)"
proof -
  from assms(3) obtain s1 t1 where cs: "0 < cs" and l: "squash_loop s t vs cs 0 = ((s1, t1), Inr ())"
    and f: "scorpi_image_chain_flush t1 = (t', Inr ())"
    by (auto simp: cmd_squash_copy_def split: if_splits prod.splits sum.splits)
  from squash_loop_content [OF assms(1,2) cs _ l] have
    1: "layers.chain_inv t1" "layers_byte layer_cell (images t1) =
       put_bytes (layers_byte layer_cell (images t)) 0 (get_bytes (layers_byte layer_cell (images s)) 0 vs)" by auto
  from chain_flush_content [OF 1(1) f] 1(2)
  show "layers.chain_inv t'" "layers_byte layer_cell (images t') =
       put_bytes (layers_byte layer_cell (images t)) 0 (get_bytes (layers_byte layer_cell (images s)) 0 vs)" by auto
qed

text \<open>A concrete copy: the demonstration chain into an empty SCO image without a base.\<close>

definition demo_target :: "image_state scorpi_image_chain" where
  "demo_target = scorpi_image_chain_alloc\<lparr>images :=
     [\<lparr>img_ops = scorpi_sco_ops, img_state = Sco_State sco_demo, img_path = None, img_source_uri = None,
       img_dev = 0, img_ino = 0, img_has_file_id = False, img_info = projr (sco_get_info sco_demo)\<rparr>]\<rparr>"

lemma demo_target_inv: "layers.chain_inv demo_target"
  using sco_demo_inv
  by (simp add: layers.chain_inv_def layers.stacked_def demo_target_def layer_inv_def sco_get_info_def
      scorpi_image_chain_alloc_def sco_vsize_def)

lemma demo_target_write:
  assumes "length buf = 512"
  shows "\<exists>c s'. scorpi_image_chain_write demo_target buf 0 = (c, Inr ()) \<and> sco_quiet s' \<and>
    images c = [(images demo_target ! 0)\<lparr>img_state := Sco_State s'\<rparr>]"
proof -
  let ?c = "scorpi_image_chain_read_cache_invalidate demo_target"
  obtain s' where w: "sco_write sco_demo buf 0 = (s', Inr ())" "sco_quiet s'"
    by (rule sco_demo_write [of 0 buf]) (use assms in simp_all)
  have info: "img_vsize (images demo_target ! 0) = 512" "info_cluster_size (img_info (images demo_target ! 0)) = 65536"
    "\<not> info_readonly (img_info (images demo_target ! 0))" "\<not> info_sealed (img_info (images demo_target ! 0))"
    "images demo_target \<noteq> []" "ops_name (img_ops (images demo_target ! 0)) = ''sco''"
    using sco_demo_ready(2,3)
    by (simp_all add: demo_target_def sco_get_info_def sco_vsize_def sco_writable_def ops_defs)
       (simp add: sco_demo_def sco_demo_sb_def)
  have t: "top_write ?c buf 0 = (chain_set_state ?c 0 (Sco_State s'), Inr ())"
    using w by (simp add: top_write_def demo_target_def ops_defs)
  have ne: "buf \<noteq> []" using assms by auto
  have "chain_write_loop ?c 65536 512 buf 0 = (chain_set_state ?c 0 (Sco_State s'), Inr ())"
    by (subst chain_write_loop.simps)
       (simp add: ne assms cluster_part_def chain_write_chunk_def t chain_write_loop.simps [of _ _ _ "[]"])
  then have "scorpi_image_chain_write demo_target buf 0 =
      (scorpi_image_chain_read_cache_invalidate (chain_set_state ?c 0 (Sco_State s')), Inr ())"
    using info ne assms by (simp add: scorpi_image_chain_write_def scorpi_image_chain_write_nolock_def)
  then show ?thesis using w(2) by (auto simp: chain_set_state_def demo_target_def)
qed

lemma demo_squash: "\<exists>s t. cmd_squash_copy demo_chain demo_target 512 65536 = ((s, t), Inr ())"
proof -
  have "\<not> rc_valid (read_cache demo_chain)" by (simp add: demo_chain_def scorpi_image_chain_alloc_def)
  then obtain s where r: "scorpi_image_chain_read demo_chain 0 512 = (s, Inr (replicate 512 9))"
    using demo_read [of 512 0 demo_chain] by (auto simp: scorpi_image_chain_read_def)
  obtain t s' where w: "scorpi_image_chain_write demo_target (replicate 512 9) 0 = (t, Inr ())" "sco_quiet s'"
    "images t = [(images demo_target ! 0)\<lparr>img_state := Sco_State s'\<rparr>]"
    using demo_target_write [of "replicate 512 9"] by auto
  have "squash_loop demo_chain demo_target 512 65536 0 = ((s, t), Inr ())"
    by (subst squash_loop.simps, simp add: r w(1), subst squash_loop.simps) simp
  moreover have "\<exists>t'. scorpi_image_chain_flush t = (t', Inr ())"
    using w(2) by (simp add: scorpi_image_chain_flush_def w(3) demo_target_def ops_defs sco_flush_def
        sco_trace_fsync_def sco_io_def sco_quiet_def)
  ultimately show ?thesis by (auto simp: cmd_squash_copy_def)
qed

section \<open>Properties\<close>

text \<open>
  Property C19: squash copies the disk.  When the copy succeeds, the content of the target is
  that of the source on the whole virtual disk, whatever the layers of either chain are, and
  the target beyond it is as before.
\<close>

theorem squash_copies_content:
  assumes "layers.chain_inv source" "layers.chain_inv target"
    and "cmd_squash_copy source target virtual_size cluster_size = ((source', target'), Inr ())"
  shows "get_bytes (layers_byte layer_cell (images target')) 0 virtual_size =
      get_bytes (layers_byte layer_cell (images source)) 0 virtual_size \<and> layers.chain_inv target'"
  using squash_copy_content [OF assms] by simp

theorem squash_copies_content_witness:
  "\<exists>s t. cmd_squash_copy demo_chain demo_target 512 65536 = ((s, t), Inr ()) \<and>
    get_bytes (layers_byte layer_cell (images t)) 0 512 = get_bytes (layers_byte layer_cell (images demo_chain)) 0 512"
proof -
  obtain s t where q: "cmd_squash_copy demo_chain demo_target 512 65536 = ((s, t), Inr ())" using demo_squash by blast
  from squash_copies_content [OF demo_chain_inv demo_target_inv q] q show ?thesis by blast
qed

end
