(* ===== verification/Tool_Create.thy ===== *)
theory Tool_Create
  imports Image_Tool
begin

text \<open>
  Creating an SCO image and opening it: the layout the image tool computes is one the SCO
  backend accepts, its encoders match the backend's decoders, and the new image is empty.
\<close>

section \<open>Alignment and cluster size\<close>

lemma align_up_pow2:
  assumes "k \<le> 32" "v + 2 ^ k \<le> UINT64_MAX"
  shows "align_up_u64 v (2 ^ k) = (v + 2 ^ k - 1) div 2 ^ k * 2 ^ k"
proof -
  have one: "(1::nat) \<le> 2 ^ k" by simp
  have "sub64 (add64 v (2 ^ k)) 1 = v + 2 ^ k - 1"
    using assms(2) one by (simp only: add64_exact) (rule sub64_exact, linarith)
  moreover have "UINT64_MAX - sub64 (2 ^ k) 1 = 2 ^ 64 - 2 ^ k"
    using one by (simp only: sub64_exact [OF one]) simp
  ultimately show ?thesis
    using and_high_bits [of "v + 2 ^ k - 1" k] assms by (simp add: align_up_u64_def)
qed

lemma round_up_facts:
  fixes v a :: nat
  assumes "0 < a"
  shows "v \<le> (v + a - 1) div a * a" "(v + a - 1) div a * a < v + a" "(v + a - 1) div a * a mod a = 0"
proof -
  have "(v + a - 1) div a * a + (v + a - 1) mod a = v + a - 1" by simp
  moreover have "(v + a - 1) mod a < a" using assms by simp
  ultimately show "v \<le> (v + a - 1) div a * a" "(v + a - 1) div a * a < v + a" using assms by linarith+
  show "(v + a - 1) div a * a mod a = 0" by simp
qed

lemma align_up_facts:
  assumes "k \<le> 32" "v + 2 ^ k \<le> UINT64_MAX"
  shows "v \<le> align_up_u64 v (2 ^ k)" "align_up_u64 v (2 ^ k) < v + 2 ^ k" "align_up_u64 v (2 ^ k) mod 2 ^ k = 0"
  unfolding align_up_pow2 [OF assms] by (rule round_up_facts; simp)+

lemma grow_to_sector_pow2:
  "m \<le> 31 \<Longrightarrow> lss \<le> 2 ^ 31 \<Longrightarrow> \<exists>m'. grow_to_sector n (2 ^ m) lss = 2 ^ m' \<and> m \<le> m' \<and> m' \<le> 31"
proof (induction n arbitrary: m)
  case (Suc n)
  show ?case
  proof (cases "(2::nat) ^ m < lss")
    case True
    then have "(2::nat) ^ m < 2 ^ 31" using Suc.prems(2) by linarith
    then have m: "m < 31" using power_less_imp_less_exp [of "2::nat" m 31] by simp
    have "(2::nat) ^ Suc m \<le> 2 ^ 31" using m by (intro power_increasing) auto
    then have "(2::nat) ^ m * 2 mod 4294967296 = 2 ^ Suc m" by simp
    then have "grow_to_sector (Suc n) (2 ^ m) lss = grow_to_sector n (2 ^ Suc m) lss" using True by simp
    moreover obtain m' where "grow_to_sector n (2 ^ Suc m) lss = 2 ^ m'" "Suc m \<le> m'" "m' \<le> 31"
      using Suc.IH [of "Suc m"] m Suc.prems(2) by auto
    ultimately show ?thesis by (intro exI [of _ m']) simp
  next
    case False
    with Suc.prems(1) show ?thesis by auto
  qed
qed auto

text \<open>The loop of the code ends: after the rounds of the model its condition is false.\<close>

lemma grow_to_sector_ends:
  "31 \<le> m + n \<Longrightarrow> m \<le> 31 \<Longrightarrow> lss \<le> 2 ^ 31 \<Longrightarrow> \<not> grow_to_sector n (2 ^ m) lss < lss"
proof (induction n arbitrary: m)
  case 0
  then have "m = 31" by simp
  with 0(3) show ?case by simp
next
  case (Suc n)
  show ?case
  proof (cases "(2::nat) ^ m < lss")
    case True
    then have "(2::nat) ^ m < 2 ^ 31" using Suc.prems(3) by linarith
    then have m: "m < 31" using power_less_imp_less_exp [of "2::nat" m 31] by simp
    have "(2::nat) ^ Suc m \<le> 2 ^ 31" using m by (intro power_increasing) auto
    then have "(2::nat) ^ m * 2 mod 4294967296 = 2 ^ Suc m" by simp
    then have "grow_to_sector (Suc n) (2 ^ m) lss = grow_to_sector n (2 ^ Suc m) lss" using True by simp
    moreover have "\<not> grow_to_sector n (2 ^ Suc m) lss < lss" by (rule Suc.IH) (use m Suc.prems in auto)
    ultimately show ?thesis by simp
  qed simp
qed

definition chosen_ok :: "u64 \<Rightarrow> u32 \<Rightarrow> u32 \<Rightarrow> u64 \<Rightarrow> u32 \<Rightarrow> bool" where
  "chosen_ok vs lss cs count tlen \<longleftrightarrow>
     (\<exists>j. cs = 2 ^ j \<and> 16 \<le> j \<and> j \<le> 22) \<and> cs mod lss = 0 \<and> count = (vs + cs - 1) div cs \<and>
     0 < count \<and> count * 16 \<le> tlen \<and> tlen mod 4096 = 0 \<and> tlen \<le> 33554432"

lemma round_up_sum:
  assumes "vs + cs \<le> 2 ^ 64" "0 < cs"
  shows "sub64 (add64 vs cs) 1 = vs + cs - 1"
proof (cases "vs + cs = 2 ^ 64")
  case True
  then show ?thesis by (simp add: add64_def sub64_def)
next
  case False
  then show ?thesis using assms by (simp add: add64_exact sub64_exact)
qed

lemma choose_cluster_loop_result:
  "choose_cluster_loop vs lss cs = Inr (cs', count, tlen) \<Longrightarrow> cs = 2 ^ j \<Longrightarrow> 16 \<le> j \<Longrightarrow>
     vs + 4194304 \<le> 2 ^ 64 \<Longrightarrow> 0 < vs \<Longrightarrow> chosen_ok vs lss cs' count tlen"
proof (induction "4194305 - cs" arbitrary: cs j rule: less_induct)
  case less
  note prems = less.prems
  define cnt where "cnt = sub64 (add64 vs cs) 1 div cs"
  define tn where "tn = align_up_u64 (mul64 cnt SCO_TABLE_SLOT_SIZE) SCO_METADATA_PAGE_SIZE"
  have u: "(if SCO_MAX_CLUSTER_SIZE < cs then Inl EFBIG else if cs mod lss \<noteq> 0 then Inl EINVAL
     else if UINT64_MAX div SCO_TABLE_SLOT_SIZE < cnt then Inl EFBIG
     else if tn \<le> SCO_MAX_SINGLE_TABLE_BYTES then Inr (cs, cnt, tn)
     else choose_cluster_loop vs lss (cs * 2 mod 4294967296)) = Inr (cs', count, tlen)"
    unfolding cnt_def tn_def
    by (subst prems(1) [symmetric]) (subst choose_cluster_loop.simps, simp only: Let_def)
  have g1: "\<not> SCO_MAX_CLUSTER_SIZE < cs" using u by (cases "SCO_MAX_CLUSTER_SIZE < cs") simp_all
  have g2: "\<not> cs mod lss \<noteq> 0" using u g1 by (cases "cs mod lss = 0") simp_all
  have g3: "\<not> UINT64_MAX div SCO_TABLE_SLOT_SIZE < cnt"
    using u g1 g2 by (cases "UINT64_MAX div SCO_TABLE_SLOT_SIZE < cnt") simp_all
  have "(2::nat) ^ j \<le> 2 ^ 22" using g1 prems(2) by simp
  then have j: "j \<le> 22" using power_le_imp_le_exp [of "2::nat" j 22] by simp
  have "(2::nat) ^ 16 \<le> 2 ^ j" using prems(3) by (intro power_increasing) auto
  then have cs: "65536 \<le> cs" "cs \<le> 4194304" using prems(2) g1 by simp_all
  have count: "cnt = (vs + cs - 1) div cs"
    unfolding cnt_def using prems(4) cs by (subst round_up_sum) simp_all
  have "cnt * 65536 \<le> cnt * cs" using cs(1) by (rule mult_le_mono2)
  also have "\<dots> \<le> vs + cs - 1" unfolding count by (rule div_times_less_eq_dividend)
  finally have cb: "cnt * 16 + 4096 \<le> UINT64_MAX" using prems(4) cs by simp
  have pos: "0 < cnt" unfolding count using prems(5) cs by (simp add: div_greater_zero_iff)
  have m: "mul64 cnt SCO_TABLE_SLOT_SIZE = cnt * 16" using cb by (intro mul64_exact) simp
  have tlen: "cnt * 16 \<le> tn" "tn mod 4096 = 0"
    using align_up_facts [of 12 "cnt * 16"] cb by (simp_all add: tn_def m)
  show ?case
  proof (cases "tn \<le> SCO_MAX_SINGLE_TABLE_BYTES")
    case True
    with u g1 g2 g3 have "cs' = cs" "count = cnt" "tlen = tn" by simp_all
    then show ?thesis
      using True tlen pos count g2 prems(2,3) j by (auto simp: chosen_ok_def)
  next
    case False
    have d: "cs * 2 mod 4294967296 = 2 ^ Suc j" using cs prems(2) by simp
    have l: "choose_cluster_loop vs lss (cs * 2 mod 4294967296) = Inr (cs', count, tlen)"
      using u g1 g2 g3 False by simp
    have s: "16 \<le> Suc j" using prems(3) by simp
    show ?thesis by (rule less.hyps [OF _ l d s prems(4,5)]) (use cs in simp)
  qed
qed

lemma pow2_is_power_of_two: "is_power_of_two_u64 (2 ^ j)"
proof -
  have "(2 ^ j :: nat) AND mask j = 0" by (rule bit_eqI) (auto simp: bit_and_iff bit_exp_iff bit_mask_iff)
  then show ?thesis by (simp add: is_power_of_two_u64_def mask_eq_exp_minus_1)
qed

lemma sco_choose_cluster_size_result:
  assumes "sco_choose_cluster_size opts = Inr (cs, count, tlen)" "is_power_of_two_u64 (co_logical_sector_size opts)"
    and "co_logical_sector_size opts \<le> UINT32_MAX" "co_virtual_size opts + 4194304 \<le> 2 ^ 64"
  shows "chosen_ok (co_virtual_size opts) (co_logical_sector_size opts) cs count tlen"
proof -
  let ?lss = "co_logical_sector_size opts"
  obtain l where l: "?lss = 2 ^ l" using is_power_of_two_imp [OF assms(2)] by blast
  then have "(2::nat) ^ l < 2 ^ 32" using assms(3) by simp
  then have "l < 32" using power_less_imp_less_exp [of "2::nat" l 32] by simp
  then have "?lss \<le> 2 ^ 31" unfolding l by (intro power_increasing) auto
  then obtain m where m: "grow_to_sector 32 (2 ^ 18) ?lss = 2 ^ m" "18 \<le> m" using grow_to_sector_pow2 [of 18] by auto
  have "(2::nat) ^ 18 \<le> 2 ^ m" using m(2) by (intro power_increasing) auto
  with assms(1) m(1) have "choose_cluster_loop (co_virtual_size opts) ?lss (2 ^ m) = Inr (cs, count, tlen)"
    "0 < co_virtual_size opts"
    by (auto simp: sco_choose_cluster_size_def Let_def split: if_splits)
  with choose_cluster_loop_result [OF _ refl, of _ ?lss m] m(2) assms(4) show ?thesis by simp
qed

section \<open>The layout is valid\<close>

definition created_sb :: "sco_layout \<Rightarrow> byte list \<Rightarrow> sco_superblock" where
  "created_sb lay uuid =
     \<lparr>sb_generation = 1, sb_virtual_size = co_virtual_size (lay_opts lay),
      sb_logical_sector_size = co_logical_sector_size (lay_opts lay),
      sb_physical_sector_size = co_physical_sector_size (lay_opts lay),
      sb_cluster_size = co_cluster_size (lay_opts lay), sb_cluster_count = lay_cluster_count lay,
      sb_data_area_offset = lay_data_area_offset lay,
      sb_base_descriptor_offset = lay_base_descriptor_offset lay,
      sb_base_descriptor_length = lay_base_descriptor_length lay, sb_table_offset = lay_table_offset lay,
      sb_table_length = lay_table_length lay, sb_incompatible_features = SCO_INCOMPAT_FIXED_TABLE_V2,
      sb_readonly_compatible_features = 0, sb_compatible_features = 0, sb_image_uuid = uuid,
      sb_image_digest = zeros 32, sb_has_image_digest = False\<rparr>"

text \<open>
  What the tool may be asked to create: sector sizes within their C type, a base URI that the
  backend supports, and a disk size to which the largest cluster size can be added within 64
  bits.  The code computes the cluster count from that sum and does not check it.
\<close>

definition create_request_ok :: "sco_create_options \<Rightarrow> bool" where
  "create_request_ok opts \<longleftrightarrow>
     co_virtual_size opts + SCO_MAX_CLUSTER_SIZE \<le> 2 ^ 64 \<and> co_logical_sector_size opts \<le> UINT32_MAX \<and>
     co_physical_sector_size opts \<le> UINT32_MAX \<and>
     (case co_base_uri opts of None \<Rightarrow> True | Some uri \<Rightarrow> take 5 uri = ''file:'' \<and> length uri \<le> 1048576)"

definition layout_ok :: "sco_create_options \<Rightarrow> sco_layout \<Rightarrow> bool" where
  "layout_ok opts lay \<longleftrightarrow>
     lay_opts lay = opts\<lparr>co_cluster_size := co_cluster_size (lay_opts lay)\<rparr> \<and>
     chosen_ok (co_virtual_size opts) (co_logical_sector_size opts) (co_cluster_size (lay_opts lay))
       (lay_cluster_count lay) (lay_table_length lay) \<and>
     (case co_base_uri opts of
        None \<Rightarrow> lay_base_descriptor_offset lay = 0 \<and> lay_base_descriptor_length lay = 0
      | Some uri \<Rightarrow> lay_base_descriptor_offset lay = 65536 \<and> 80 + length uri \<le> lay_base_descriptor_length lay \<and>
          lay_base_descriptor_length lay \<le> 1052752) \<and>
     lay_base_descriptor_length lay mod 4096 = 0 \<and>
     lay_table_offset lay = 65536 + lay_base_descriptor_length lay \<and>
     lay_table_offset lay + 2 * lay_table_length lay \<le> lay_data_area_offset lay \<and>
     lay_data_area_offset lay mod co_cluster_size (lay_opts lay) = 0 \<and> lay_data_area_offset lay \<le> 1073741824"

lemma sco_create_layout_ok:
  assumes "sco_create_layout opts = Inr lay" "create_request_ok opts"
  shows "layout_ok opts lay"
proof -
  note rq = assms(2) [unfolded create_request_ok_def]
  let ?bd = "case co_base_uri opts of None \<Rightarrow> (0::nat, 0::nat)
    | Some uri \<Rightarrow> (65536, align_up_u64 (add64 0x50 (length uri)) 4096 mod 4294967296)"
  let ?to = "65536 + snd ?bd"
  from assms(1) obtain cs count tlen where
    ch: "sco_choose_cluster_size opts = Inr (cs, count, tlen)" and p2: "is_power_of_two_u64 (co_logical_sector_size opts)"
    and lay: "lay = \<lparr>lay_opts = opts\<lparr>co_cluster_size := cs\<rparr>, lay_cluster_count = count,
       lay_base_descriptor_offset = fst ?bd, lay_base_descriptor_length = snd ?bd, lay_table_offset = ?to,
       lay_table_length = tlen, lay_data_area_offset = align_up_u64 (?to + tlen * 2) cs\<rparr>"
    by (auto simp: sco_create_layout_def Let_def split: if_splits sum.splits prod.splits option.splits)
  have c: "chosen_ok (co_virtual_size opts) (co_logical_sector_size opts) cs count tlen"
    using sco_choose_cluster_size_result [OF ch p2] rq by simp
  then obtain j where j: "cs = 2 ^ j" "16 \<le> j" "j \<le> 22" and tlen: "tlen \<le> 33554432" by (auto simp: chosen_ok_def)
  have "(2::nat) ^ j \<le> 2 ^ 22" using j(3) by (intro power_increasing) auto
  then have cs: "cs \<le> 4194304" using j(1) by simp
  have bd: "snd ?bd mod 4096 = 0" "snd ?bd \<le> 1052752"
    "case co_base_uri opts of None \<Rightarrow> snd ?bd = 0 | Some uri \<Rightarrow> 80 + length uri \<le> snd ?bd"
  proof -
    have "snd ?bd mod 4096 = 0 \<and> snd ?bd \<le> 1052752 \<and>
      (case co_base_uri opts of None \<Rightarrow> snd ?bd = 0 | Some uri \<Rightarrow> 80 + length uri \<le> snd ?bd)"
    proof (cases "co_base_uri opts")
      case (Some uri)
      then have "length uri \<le> 1048576" using rq by simp
      then have a: "add64 0x50 (length uri) = 80 + length uri" by (simp add: add64_exact)
      have "80 + length uri \<le> align_up_u64 (80 + length uri) 4096 \<and>
          align_up_u64 (80 + length uri) 4096 < 80 + length uri + 4096 \<and> align_up_u64 (80 + length uri) 4096 mod 4096 = 0"
        using align_up_facts [of 12 "80 + length uri"] \<open>length uri \<le> 1048576\<close> by simp
      moreover from this \<open>length uri \<le> 1048576\<close>
      have "align_up_u64 (80 + length uri) 4096 mod 4294967296 = align_up_u64 (80 + length uri) 4096" by simp
      ultimately show ?thesis using \<open>length uri \<le> 1048576\<close> by (simp only: Some option.case snd_conv a) auto
    qed simp
    then show "snd ?bd mod 4096 = 0" "snd ?bd \<le> 1052752"
      "case co_base_uri opts of None \<Rightarrow> snd ?bd = 0 | Some uri \<Rightarrow> 80 + length uri \<le> snd ?bd" by auto
  qed
  have "?to + tlen * 2 + 2 ^ j \<le> UINT64_MAX" using bd(2) tlen cs j(1) by simp
  note d = align_up_facts [OF _ this, folded j(1)]
  have da: "?to + tlen * 2 \<le> align_up_u64 (?to + tlen * 2) cs" "align_up_u64 (?to + tlen * 2) cs < ?to + tlen * 2 + cs"
    "align_up_u64 (?to + tlen * 2) cs mod cs = 0" using d j(3) by simp_all
  show ?thesis
    unfolding layout_ok_def lay using c bd da cs tlen by (cases "co_base_uri opts") simp_all
qed

lemma created_sb_valid:
  assumes "sco_create_layout opts = Inr lay" "create_request_ok opts" "length uuid = 16"
  shows "sco_superblock_fits (created_sb lay uuid)"
    "sco_superblock_layout_valid (created_sb lay uuid) (lay_data_area_offset lay)"
proof -
  note rq = assms(2) [unfolded create_request_ok_def]
  note l = sco_create_layout_ok [OF assms(1,2), unfolded layout_ok_def]
  let ?cs = "co_cluster_size (lay_opts lay)"
  have o: "co_virtual_size (lay_opts lay) = co_virtual_size opts"
    "co_logical_sector_size (lay_opts lay) = co_logical_sector_size opts"
    "co_physical_sector_size (lay_opts lay) = co_physical_sector_size opts"
    using l by (metis (no_types, lifting) sco_create_options.select_convs sco_create_options.update_convs(5) sco_create_options.surjective)+
  from l have c: "chosen_ok (co_virtual_size opts) (co_logical_sector_size opts) ?cs (lay_cluster_count lay) (lay_table_length lay)"
    by simp
  then obtain j where j: "?cs = 2 ^ j" "16 \<le> j" "j \<le> 22" by (auto simp: chosen_ok_def)
  have "(2::nat) ^ 16 \<le> 2 ^ j" "(2::nat) ^ j \<le> 2 ^ 22" using j(2,3) by (intro power_increasing; simp)+
  then have cs: "65536 \<le> ?cs" "?cs \<le> 4194304" using j(1) by simp_all
  have p2: "is_power_of_two_u64 ?cs" unfolding j(1) by (rule pow2_is_power_of_two)
  from assms(1) have lss: "is_power_of_two_u64 (co_logical_sector_size opts)" "0 < co_logical_sector_size opts"
      "0 < co_virtual_size opts"
    and pss: "\<not> (co_physical_sector_size opts \<noteq> 0 \<and> (\<not> is_power_of_two_u64 (co_physical_sector_size opts) \<or>
               co_physical_sector_size opts < co_logical_sector_size opts))"
    by (auto simp: sco_create_layout_def split: if_splits)
  have count: "sub64 (add64 (co_virtual_size opts) ?cs) 1 div ?cs = lay_cluster_count lay"
    using c cs rq by (simp add: chosen_ok_def round_up_sum del: One_nat_def)
  have tlen: "lay_cluster_count lay * 16 \<le> lay_table_length lay" "lay_table_length lay \<le> 33554432"
    "0 < lay_cluster_count lay" "lay_table_length lay mod 4096 = 0" "?cs mod co_logical_sector_size opts = 0"
    using c by (auto simp: chosen_ok_def)
  have bl: "lay_base_descriptor_length lay \<le> 1052752" "lay_base_descriptor_offset lay \<le> 65536"
    using l by (auto split: option.splits)
  show "sco_superblock_fits (created_sb lay uuid)"
    using rq assms(3) cs tlen bl l by (simp add: sco_superblock_fits_def created_sb_def o)
  have table: "range_before_data (lay_table_offset lay) (lay_table_length lay * 2 mod 4294967296) (lay_data_area_offset lay)"
    using l tlen by (auto simp: range_before_data_def range_fits_def mod_add_eq [symmetric])
  have bd: "if lay_base_descriptor_offset lay = 0 then lay_base_descriptor_length lay = 0
      else range_before_data (lay_base_descriptor_offset lay) (lay_base_descriptor_length lay) (lay_data_area_offset lay)"
    using l tlen by (auto simp: range_before_data_def range_fits_def split: option.splits)
  have m: "mul64 (lay_cluster_count lay) 16 = lay_cluster_count lay * 16"
    using tlen by (intro mul64_exact) linarith
  show "sco_superblock_layout_valid (created_sb lay uuid) (lay_data_area_offset lay)"
    unfolding sco_superblock_layout_valid_def Let_def
    using lss pss cs p2 tlen table bd l count m by (auto simp: created_sb_def o)
qed

section \<open>The encoders\<close>

text \<open>Storing zeros into the untouched part of a zeroed page changes nothing.\<close>

lemma put_fields_drop_zeros:
  "fields_ok lo fs (length buf) \<Longrightarrow> (\<And>i. lo \<le> i \<Longrightarrow> i < length buf \<Longrightarrow> buf ! i = 0) \<Longrightarrow>
     list_all (\<lambda>(off, bs). off \<in> Z \<longrightarrow> bs = zeros (length bs)) fs \<Longrightarrow>
     put_fields fs buf = put_fields (filter (\<lambda>(off, bs). off \<notin> Z) fs) buf"
proof (induction fs arbitrary: lo buf)
  case (Cons f fs)
  obtain off bs where f: "f = (off, bs)" by fastforce
  from Cons.prems(1) f have ok: "lo \<le> off" "off + length bs \<le> length buf" "fields_ok (off + length bs) fs (length buf)" by auto
  let ?b = "overwrite off bs buf"
  have len: "length ?b = length buf" using ok(2) by simp
  have z: "?b ! i = 0" if "off + length bs \<le> i" "i < length ?b" for i
    using that ok Cons.prems(2) [of i] len by (simp add: nth_overwrite)
  have ih: "put_fields fs ?b = put_fields (filter (\<lambda>(off, bs). off \<notin> Z) fs) ?b"
    by (rule Cons.IH [of "off + length bs"]) (use ok(3) len z Cons.prems(3) f in auto)
  show ?case
  proof (cases "off \<in> Z")
    case True
    then have "bs = zeros (length bs)" using Cons.prems(3) f by simp
    then have bz: "bs ! i = 0" if "i < length bs" for i using that nth_zeros by metis
    have "?b = buf"
      by (rule nth_equalityI) (use ok Cons.prems(2) bz in \<open>auto simp: nth_overwrite\<close>)
    then show ?thesis using ih True by (simp add: f)
  next
    case False
    then show ?thesis using ih by (simp add: f)
  qed
qed simp

lemma enc_zero: "le16enc 0 = zeros 2" "le32enc 0 = zeros 4"
proof -
  have "zeros 2 = [0, 0]" "zeros 4 = [0, 0, 0, 0]" by (simp_all add: zeros_def eval_nat_numeral)
  then show "le16enc 0 = zeros 2" "le32enc 0 = zeros 4" by (simp_all add: le16enc_def le32enc_def)
qed

lemma build_superblock_eq:
  assumes "length uuid = 16"
  shows "build_superblock (lay_opts lay) uuid (lay_cluster_count lay) (lay_data_area_offset lay)
      (lay_base_descriptor_offset lay) (lay_base_descriptor_length lay) (lay_table_offset lay) (lay_table_length lay) =
    sco_build_superblock (created_sb lay uuid)"
proof -
  let ?fs = "sco_superblock_fields (created_sb lay uuid)"
  have "fields_ok 0 ?fs (length (zeros 4096))" using assms by (intro sb_fields_ok) (simp_all add: created_sb_def)
  moreover have "list_all (\<lambda>(off, bs). off \<in> {0x0a, 0x74, 0x78, 0xb0} \<longrightarrow> bs = zeros (length bs)) ?fs"
    by (simp add: sco_superblock_fields_def created_sb_def enc_zero)
  ultimately have "put_fields ?fs (zeros 4096) =
      put_fields (filter (\<lambda>(off, bs). off \<notin> {0x0a, 0x74, 0x78, 0xb0}) ?fs) (zeros 4096)"
    by (intro put_fields_drop_zeros [of 0]) auto
  then show ?thesis
    by (simp add: build_superblock_def sco_build_superblock_def Let_def sco_superblock_fields_def created_sb_def)
qed

lemma file_id_roundtrip:
  assumes "length uuid = 16"
  shows "sco_decode_file_id (build_file_id uuid) = Inr uuid" "length (build_file_id uuid) = 4096"
proof -
  let ?fs = "[(0x00, SCO_MAGIC), (0x08, le16enc 2), (0x0c, le32enc 4096), (0x10, uuid), (0x20, le32enc 1)]"
  let ?p = "put_fields ?fs (zeros 4096)" and ?c = "unat (scorpi_crc32c (put_fields ?fs (zeros 4096)))"
  have ok: "fields_ok 0 ?fs (length (zeros 4096))" using assms by simp
  have len: "length ?p = 4096" using length_put_fields [OF ok] by simp
  have b: "build_file_id uuid = overwrite 0x24 (le32enc ?c) ?p" by (simp add: build_file_id_def Let_def)
  show "length (build_file_id uuid) = 4096" using len by (simp add: b)
  have f: "buf_slice 0 8 ?p = SCO_MAGIC" "buf_slice 0x10 16 ?p = uuid"
    using slice_put_fields [OF ok, of 0 SCO_MAGIC] slice_put_fields [OF ok, of "0x10" uuid] assms by simp_all
  have d: "le16dec ?p 8 = 2" "le32dec ?p 0x0c = 4096" "le32dec ?p 0x20 = 1"
    by (rule le16dec_field [OF ok] le32dec_field [OF ok]; simp)+
  have gap: "buf_slice off n ?p = zeros n" if "0x24 \<le> off" "off + n \<le> 4096" for off n
    using slice_put_fields_gap [OF ok, of off n] that assms by (simp add: slice_zeros)
  have sl: "buf_slice off n (overwrite 0x24 (le32enc ?c) ?p) = buf_slice off n ?p"
    if "off + n \<le> 4096" "off + n \<le> 0x24 \<or> 0x28 \<le> off" for off n
    using that len by (intro slice_overwrite_disjoint) auto
  have take8: "take 8 (overwrite 0x24 (le32enc ?c) ?p) = SCO_MAGIC" using sl [of 0 8] f(1) by (simp add: buf_slice_def)
  have dec: "le32dec (overwrite 0x24 (le32enc ?c) ?p) 0x24 = ?c"
    using len by (intro le32dec_overwrite_same) (simp_all add: unat_u32_le)
  have crc: "crc32c_valid (overwrite 0x24 (le32enc ?c) ?p) 0x24 ?c"
    using len gap [of "0x24" 4] by (intro crc32c_valid_stored) simp_all
  have rz: "reserved_zero (overwrite 0x24 (le32enc ?c) ?p) 0x28 (4096 - 0x28)"
    using len sl [of "0x28" "4096 - 0x28"] gap [of "0x28" "4096 - 0x28"] by (intro reserved_zero_slice) simp_all
  show "sco_decode_file_id (build_file_id uuid) = Inr uuid"
    using take8 dec crc rz sl [of "0x10" 16] f(2) d len by (simp add: b sco_decode_file_id_def le_dec_overwrite)
qed

lemma length_string_bytes [simp]: "length (string_bytes s) = length s"
  by (simp add: string_bytes_def)

lemma base_descriptor_roundtrip:
  assumes "take 5 uri = ''file:''" "80 + length uri \<le> n" "n mod 4096 = 0" "n \<le> UINT32_MAX"
  shows "sco_decode_base_descriptor (build_base_descriptor n uri) n =
      Inr \<lparr>bd_uri = string_bytes uri, bd_uuid = None, bd_digest = None\<rparr>"
    "length (build_base_descriptor n uri) = n"
proof -
  have l5: "5 \<le> length uri" using arg_cong [OF assms(1), of length] by simp
  let ?fs = "[(0x00, le32enc n), (0x04, le32enc 1), (0x10, le32enc (length uri)), (0x50, string_bytes uri)]"
  let ?p = "put_fields ?fs (zeros n)" and ?c = "unat (scorpi_crc32c (put_fields ?fs (zeros n)))"
  have ok: "fields_ok 0 ?fs (length (zeros n))" using assms by simp
  then have ok': "fields_ok 0 ?fs n" by simp
  have len: "length ?p = n" using length_put_fields [OF ok] by simp
  have b: "build_base_descriptor n uri = overwrite 8 (le32enc ?c) ?p"
    using assms(2,4) by (simp add: build_base_descriptor_def Let_def)
  show "length (build_base_descriptor n uri) = n" using len assms(2) by (simp add: b)
  have uri: "buf_slice 80 (length uri) ?p = string_bytes uri"
    using slice_put_fields [OF ok, of "0x50" "string_bytes uri"] by simp
  have d: "le32dec ?p 0 = n" "le32dec ?p 4 = 1" "le32dec ?p 0x10 = length uri"
    by (rule le32dec_field [OF ok]; use assms in simp)+
  have z: "le32dec ?p 0xc = 0" "le32dec ?p 0x14 = 0" "le32dec ?p 0x48 = 0" "le32dec ?p 0x4c = 0"
    by (rule le32dec_gap [OF ok']; use assms(2) in simp)+
  have gap: "buf_slice 8 4 ?p = zeros 4" "buf_slice (80 + length uri) (n - (80 + length uri)) ?p = zeros (n - (80 + length uri))"
    using slice_put_fields_gap [OF ok, of 8 4] slice_put_fields_gap [OF ok, of "80 + length uri" "n - (80 + length uri)"]
      assms(2) by (simp_all add: slice_zeros)
  have sl: "buf_slice off m (overwrite 8 (le32enc ?c) ?p) = buf_slice off m ?p"
    if "off + m \<le> n" "12 \<le> off" for off m
    using that len assms(2) by (intro slice_overwrite_disjoint) auto
  have dec: "le32dec (overwrite 8 (le32enc ?c) ?p) 8 = ?c"
    using len assms(2) by (intro le32dec_overwrite_same) (simp_all add: unat_u32_le)
  have crc: "crc32c_valid (overwrite 8 (le32enc ?c) ?p) 8 ?c"
    using len gap(1) assms(2) by (intro crc32c_valid_stored) simp_all
  have rz: "reserved_zero (overwrite 8 (le32enc ?c) ?p) (80 + length uri) (n - (80 + length uri))"
    using len sl [of "80 + length uri" "n - (80 + length uri)"] gap(2) assms(2) by (intro reserved_zero_slice) simp_all
  have "string_bytes (take 5 uri) = [0x66, 0x69, 0x6c, 0x65, 0x3a]" by (simp add: assms(1) string_bytes_def)
  then have "take 5 (string_bytes uri) = [0x66, 0x69, 0x6c, 0x65, 0x3a]" by (simp add: string_bytes_def take_map)
  moreover have "buf_slice 80 5 ?p = take 5 (buf_slice 80 (length uri) ?p)"
    using l5 by (simp add: buf_slice_def min_def)
  ultimately have pre: "buf_slice 80 5 ?p = [0x66, 0x69, 0x6c, 0x65, 0x3a]" using uri by simp
  have nz: "uri \<noteq> []" "\<not> n - 80 < length uri" using l5 assms(2) by auto
  show "sco_decode_base_descriptor (build_base_descriptor n uri) n =
      Inr \<lparr>bd_uri = string_bytes uri, bd_uuid = None, bd_digest = None\<rparr>"
    using dec crc rz sl [of 80 5] sl [of 80 "length uri"] pre uri d z len nz l5 assms(2,3)
    by (simp add: b sco_decode_base_descriptor_def Let_def le_dec_overwrite)
qed

section \<open>The new file\<close>

lemma ftruncate_ok:
  assumes "ftruncate f n = (f', Inr ())"
  shows "h_size f' = n" "h_bytes f' = (\<lambda>a. if h_size f \<le> a then 0 else h_bytes f a)"
  using assms by (auto simp: ftruncate_def Let_def split: if_splits list.splits io_outcome.splits)

lemma write_exact_bytes:
  assumes "write_exact f off buf = (f', Inr ())" "off + length buf \<le> UINT64_MAX" "buf \<noteq> []"
  shows "h_size f' = max (h_size f) (off + length buf)"
    "h_bytes f' = (\<lambda>a. if off \<le> a \<and> a < off + length buf then buf ! (a - off)
        else if h_size f \<le> a then 0 else h_bytes f a)"
proof -
  from write_exact_ok [OF assms(1,2)] have s: "same_data f' (store_bytes f off buf)" .
  then show "h_size f' = max (h_size f) (off + length buf)" using assms(3) by (simp add: same_data_def h_size_store_bytes)
  show "h_bytes f' = (\<lambda>a. if off \<le> a \<and> a < off + length buf then buf ! (a - off)
        else if h_size f \<le> a then 0 else h_bytes f a)"
    using s assms(3) by (auto simp: same_data_def h_bytes_store_bytes)
qed

lemma get_bytes_eqI: "length bs = n \<Longrightarrow> (\<And>i. i < n \<Longrightarrow> m (off + i) = bs ! i) \<Longrightarrow> get_bytes m off n = bs"
  by (rule nth_equalityI) auto

text \<open>The file as the backend will read it.\<close>

definition created_file :: "sco_create_options \<Rightarrow> sco_layout \<Rightarrow> byte list \<Rightarrow> hfile \<Rightarrow> bool" where
  "created_file opts lay uuid f \<longleftrightarrow>
     h_size f = lay_data_area_offset lay \<and>
     get_bytes (h_bytes f) 0 4096 = build_file_id uuid \<and>
     get_bytes (h_bytes f) 4096 4096 = sco_build_superblock (created_sb lay uuid) \<and>
     get_bytes (h_bytes f) 8192 4096 = zeros 4096 \<and>
     (case co_base_uri opts of None \<Rightarrow> True
      | Some uri \<Rightarrow> get_bytes (h_bytes f) 65536 (lay_base_descriptor_length lay) =
          build_base_descriptor (lay_base_descriptor_length lay) uri) \<and>
     (\<forall>a. lay_table_offset lay \<le> a \<longrightarrow> h_bytes f a = 0)"

lemma create_sco_write_result:
  assumes "create_sco_write f0 lay uuid = (f, Inr ())" "h_size f0 = 0" "layout_ok opts lay"
    and "create_request_ok opts" "length uuid = 16" "sco_superblock_fits (created_sb lay uuid)"
  shows "created_file opts lay uuid f"
proof -
  note l = assms(3) [unfolded layout_ok_def] and rq = assms(4) [unfolded create_request_ok_def]
  let ?A = "build_file_id uuid" and ?B = "sco_build_superblock (created_sb lay uuid)"
  let ?n = "lay_base_descriptor_length lay"
  have uri: "co_base_uri (lay_opts lay) = co_base_uri opts"
    using l by (metis (no_types, lifting) sco_create_options.select_convs(2) sco_create_options.surjective sco_create_options.update_convs(5))
  have lA: "length ?A = 4096" by (rule file_id_roundtrip(2) [OF assms(5)])
  have lB: "length ?B = 4096" using length_sb_page [OF assms(6)] by (simp add: sco_build_superblock_def Let_def)
  obtain f1 f2 f3 f4 f5 where w1: "write_exact f0 0 ?A = (f1, Inr ())" and w2: "write_exact f1 4096 ?B = (f2, Inr ())"
    and w3: "write_exact f2 8192 (zeros 4096) = (f3, Inr ())"
    and w4: "(case co_base_uri opts of None \<Rightarrow> (f3, Inr ())
               | Some uri \<Rightarrow> write_exact f3 (lay_base_descriptor_offset lay) (build_base_descriptor ?n uri)) = (f4, Inr ())"
    and tr: "ftruncate f4 (lay_data_area_offset lay) = (f5, Inr ())" and sy: "fsync f5 = (f, Inr ())"
    using assms(1) by (auto simp: create_sco_write_def and_then_ok_iff build_superblock_eq [OF assms(5)] uri)
  have n1: "?A \<noteq> []" "?B \<noteq> []" "zeros 4096 \<noteq> []" using lA lB by (auto simp: zeros_def)
  note b1 = write_exact_bytes [OF w1 _ n1(1)] and b2 = write_exact_bytes [OF w2 _ n1(2)] and b3 = write_exact_bytes [OF w3 _ n1(3)]
  have s3: "h_size f3 = 12288" using b1(1) b2(1) b3(1) assms(2) lA lB by simp
  have h3: "h_bytes f3 a = (if a < 4096 then ?A ! a else if a < 8192 then ?B ! (a - 4096) else 0)" for a
    using b1 b2 b3 assms(2) lA lB by simp
  have f4: "h_size f4 \<le> max 12288 (65536 + ?n) \<and> 12288 \<le> h_size f4 \<and> (\<forall>a < 12288. h_bytes f4 a = h_bytes f3 a) \<and>
      (\<forall>a < h_size f4. lay_table_offset lay \<le> a \<longrightarrow> h_bytes f4 a = 0) \<and>
      (case co_base_uri opts of None \<Rightarrow> True | Some uri \<Rightarrow>
         h_size f4 = 65536 + ?n \<and> get_bytes (h_bytes f4) 65536 ?n = build_base_descriptor ?n uri)"
  proof (cases "co_base_uri opts")
    case None
    then show ?thesis using w4 s3 l by simp
  next
    case (Some u)
    have u: "take 5 u = ''file:''" "80 + length u \<le> ?n" "?n mod 4096 = 0" "?n \<le> UINT32_MAX"
      "lay_base_descriptor_offset lay = 65536"
      using l rq Some by auto
    note rt = base_descriptor_roundtrip [OF u(1-4)]
    have ne: "build_base_descriptor ?n u \<noteq> []" using rt(2) u(2) by auto
    from w4 Some u(5) have "write_exact f3 65536 (build_base_descriptor ?n u) = (f4, Inr ())" by simp
    note b4 = write_exact_bytes [OF this _ ne]
    show ?thesis using b4 rt(2) u(2-4) s3 l Some by (auto simp: intro!: get_bytes_eqI)
  qed
  have h: "h_size f = lay_data_area_offset lay" "h_bytes f = (\<lambda>a. if h_size f4 \<le> a then 0 else h_bytes f4 a)"
    using ftruncate_ok [OF tr] fsync_frame [OF sy] by (auto simp: same_data_def)
  have low: "h_bytes f a = h_bytes f3 a" if "a < 12288" for a using h(2) f4 that by simp
  have "get_bytes (h_bytes f) 0 4096 = ?A" "get_bytes (h_bytes f) 4096 4096 = ?B" "get_bytes (h_bytes f) 8192 4096 = zeros 4096"
    using low lA lB by (auto simp: h3 intro!: get_bytes_eqI)
  moreover have "case co_base_uri opts of None \<Rightarrow> True
      | Some uri \<Rightarrow> get_bytes (h_bytes f) 65536 ?n = build_base_descriptor ?n uri"
  proof (cases "co_base_uri opts")
    case (Some u)
    then have "get_bytes (h_bytes f) 65536 ?n = get_bytes (h_bytes f4) 65536 ?n"
      using h(2) f4 by (intro get_bytes_cong) simp
    then show ?thesis using f4 Some by simp
  qed simp
  moreover have "\<forall>a. lay_table_offset lay \<le> a \<longrightarrow> h_bytes f a = 0" using h(2) f4 by auto
  ultimately show ?thesis using h(1) by (simp add: created_file_def)
qed

section \<open>Opening the new file\<close>

lemma sco_slot_valid_zeros: "sco_slot_valid sb fs i k (zeros 16) = None"
  by (simp add: sco_slot_valid_def le32dec_zeros le16dec_def)

lemma sco_decode_superblock_zeros: "sco_decode_superblock (zeros 4096) ro uuid fs = Inl EINVAL"
proof -
  have "take 8 (zeros 4096) ! 0 \<noteq> SCO_MAGIC ! 0" by (simp add: SCO_MAGIC_def)
  then have "take 8 (zeros 4096) \<noteq> SCO_MAGIC" by metis
  then show ?thesis by (simp add: sco_decode_superblock_def)
qed

lemma sco_mark_entries_absent:
  "list_all (\<lambda>e. te_state e = SCO_MAP_STATE_ABSENT) es \<Longrightarrow> sco_mark_entries base count es used = Inr used"
  by (induction es) auto

definition absent_entry :: sco_table_entry where
  "absent_entry = \<lparr>te_generation = 0, te_physical_cluster = 0, te_state = SCO_MAP_STATE_ABSENT,
     te_active_slot = SCO_SLOT_B, te_flags = 0\<rparr>"

text \<open>The image that opening a new file yields, before its base is read.\<close>

definition created_image :: "sco_layout \<Rightarrow> byte list \<Rightarrow> hfile \<Rightarrow> bool \<Rightarrow> sco_image" where
  "created_image lay uuid f ro =
     (sco_fresh_image f ro (lay_data_area_offset lay) (created_sb lay uuid) 4096)
       \<lparr>sco_table := replicate (lay_cluster_count lay) absent_entry,
        sco_data_cluster_base := lay_data_area_offset lay div co_cluster_size (lay_opts lay)\<rparr>"

lemma sco_load_created:
  fixes ro :: bool
  assumes "created_file opts lay uuid f" "layout_ok opts lay" "h_script f = []"
  defines "s0 \<equiv> sco_fresh_image f ro (lay_data_area_offset lay) (created_sb lay uuid) 4096"
  shows "sco_load_table s0 = (s0\<lparr>sco_table := replicate (lay_cluster_count lay) absent_entry\<rparr>, Inr ())"
    "sco_data_allocator_init (s0\<lparr>sco_table := replicate (lay_cluster_count lay) absent_entry\<rparr>) =
       (created_image lay uuid f ro, Inr ())"
proof -
  note l = assms(2) [unfolded layout_ok_def] and cf = assms(1) [unfolded created_file_def]
  let ?n = "lay_cluster_count lay" and ?cs = "co_cluster_size (lay_opts lay)"
  have c: "?n * 16 \<le> lay_table_length lay" "lay_table_length lay \<le> 33554432" using l by (auto simp: chosen_ok_def)
  have sb: "sco_sb s0 = created_sb lay uuid" "sco_fd s0 = f" "sco_file_size s0 = lay_data_area_offset lay"
    by (simp_all add: s0_def sco_fresh_image_def)
  have fit: "lay_table_offset lay + ?n * 32 \<le> lay_data_area_offset lay" using l c by linarith
  have r: "read_exact f (lay_table_offset lay) (?n * 32) = (f, Inr (zeros (?n * 32)))"
  proof -
    have "read_exact f (lay_table_offset lay) (?n * 32) = (f, Inr (get_bytes (h_bytes f) (lay_table_offset lay) (?n * 32)))"
      using fit cf l assms(3) by (intro read_exact_no_fault) simp_all
    moreover have "get_bytes (h_bytes f) (lay_table_offset lay) (?n * 32) = zeros (?n * 32)"
      using cf by (intro get_bytes_eqI) simp_all
    ultimately show ?thesis by simp
  qed
  have e: "sco_load_entry (created_sb lay uuid) fs i (buf_slice (i * 32) 16 (zeros (?n * 32)))
      (buf_slice (i * 32 + 16) 16 (zeros (?n * 32))) = absent_entry" if "i < ?n" for i fs
  proof -
    have "i * 32 + 32 \<le> ?n * 32" using that by linarith
    then show ?thesis by (simp add: slice_zeros sco_load_entry_def sco_slot_valid_zeros absent_entry_def)
  qed
  have map: "map (\<lambda>i. sco_load_entry (created_sb lay uuid) (lay_data_area_offset lay) i
      (buf_slice (i * 32) 16 (zeros (?n * 32))) (buf_slice (i * 32 + 16) 16 (zeros (?n * 32)))) [0..<?n] =
    replicate ?n absent_entry"
    by (rule nth_equalityI) (simp_all add: e)
  have n: "\<not> SIZE_MAX div 12 < ?n" "\<not> UINT64_MAX div 32 < ?n" using c by simp_all
  have sbf: "sb_cluster_count (created_sb lay uuid) = ?n" "sb_table_offset (created_sb lay uuid) = lay_table_offset lay"
    "sb_data_area_offset (created_sb lay uuid) = lay_data_area_offset lay" "sb_cluster_size (created_sb lay uuid) = ?cs"
    by (simp_all add: created_sb_def)
  have "sco_load_table s0 = (s0\<lparr>sco_fd := f, sco_table := replicate ?n absent_entry\<rparr>, Inr ())"
    unfolding sco_load_table_def Let_def sb sbf using n r map by (simp add: sco_io_def sb sbf)
  moreover have "s0\<lparr>sco_fd := f\<rparr> = s0" by (simp add: s0_def sco_fresh_image_def)
  ultimately show "sco_load_table s0 = (s0\<lparr>sco_table := replicate ?n absent_entry\<rparr>, Inr ())" by simp
  have "list_all (\<lambda>e. te_state e = SCO_MAP_STATE_ABSENT) (replicate ?n absent_entry)"
    by (simp add: list_all_iff absent_entry_def)
  then show "sco_data_allocator_init (s0\<lparr>sco_table := replicate ?n absent_entry\<rparr>) = (created_image lay uuid f ro, Inr ())"
    using l by (simp add: sco_data_allocator_init_def sco_data_allocator_grow_def Let_def s0_def sco_fresh_image_def sbf
        sco_mark_entries_absent created_image_def)
qed

lemma sco_open_created:
  assumes "created_file opts lay uuid f" "sco_create_layout opts = Inr lay" "create_request_ok opts"
    and "length uuid = 16" "h_script f = []"
  shows "sco_open path f ro = (f, Inr
    (case co_base_uri opts of
       None \<Rightarrow> created_image lay uuid f ro
     | Some uri \<Rightarrow> (created_image lay uuid f ro)\<lparr>sco_has_base := True, sco_base_uri := string_bytes uri\<rparr>))"
proof -
  note lo = sco_create_layout_ok [OF assms(2,3)]
  note l = lo [unfolded layout_ok_def] and cf = assms(1) [unfolded created_file_def]
  note v = created_sb_valid [OF assms(2-4)]
  let ?sb = "created_sb lay uuid" and ?d = "lay_data_area_offset lay"
  have size: "h_size f = ?d" "65536 \<le> ?d" "?d \<le> INT64_MAX" using cf l by auto
  have rd: "read_exact f off n = (f, Inr (get_bytes (h_bytes f) off n))" if "off + n \<le> ?d" for off n
    using that size assms(5) by (intro read_exact_no_fault) simp_all
  have id: "sco_read_file_id f = (f, Inr uuid)"
    using rd [of 0 4096] size cf file_id_roundtrip(1) [OF assms(4)] by (simp add: sco_read_file_id_def)
  have "sco_decode_superblock (sco_build_superblock ?sb) ro (sb_image_uuid ?sb) ?d = Inr ?sb"
    by (rule sco_decode_build_superblock [OF v]) (simp_all add: created_sb_def)
  then have a: "sco_read_superblock f 4096 ro uuid ?d = (f, Inr ?sb)"
    using rd [of 4096 4096] size cf by (simp add: sco_read_superblock_def created_sb_def)
  have b: "sco_read_superblock f 8192 ro uuid ?d = (f, Inl EINVAL)"
    using rd [of 8192 4096] size cf by (simp add: sco_read_superblock_def sco_decode_superblock_zeros)
  have sel: "sco_select_superblock f ro uuid ?d = (f, Inr (?sb, 4096))"
    by (simp add: sco_select_superblock_def a b)
  have ns: "\<not> sco_is_sealed ?sb" by (simp add: sco_is_sealed_def created_sb_def)
  let ?s = "created_image lay uuid f ro"
  have base: "sco_read_base_descriptor ?s = (case co_base_uri opts of
       None \<Rightarrow> ?s | Some uri \<Rightarrow> ?s\<lparr>sco_has_base := True, sco_base_uri := string_bytes uri\<rparr>, Inr ())"
  proof (cases "co_base_uri opts")
    case None
    then show ?thesis using l
      by (simp add: sco_read_base_descriptor_def created_image_def sco_fresh_image_def created_sb_def)
  next
    case (Some u)
    let ?n = "lay_base_descriptor_length lay"
    have u: "take 5 u = ''file:''" "80 + length u \<le> ?n" "?n mod 4096 = 0" "?n \<le> UINT32_MAX"
      "lay_base_descriptor_offset lay = 65536" "65536 + ?n \<le> ?d"
      using l assms(3) Some by (auto simp: create_request_ok_def)
    have "sco_io ?s (read_exact f 65536 ?n) = (?s, Inr (build_base_descriptor ?n u))"
      using rd [OF u(6)] cf Some by (simp add: sco_io_def created_image_def sco_fresh_image_def)
    then show ?thesis
      using u Some base_descriptor_roundtrip(1) [OF u(1-4)]
      by (simp add: sco_read_base_descriptor_def created_image_def sco_fresh_image_def created_sb_def sco_set_base_def Let_def)
  qed
  have load: "sco_load (sco_fresh_image f ro ?d ?sb 4096) = (case co_base_uri opts of
       None \<Rightarrow> ?s | Some uri \<Rightarrow> ?s\<lparr>sco_has_base := True, sco_base_uri := string_bytes uri\<rparr>, Inr ())"
    by (simp add: sco_load_def sco_load_created [OF assms(1) lo assms(5)] base)
  have "sco_fd ?s = f" by (simp add: created_image_def sco_fresh_image_def)
  then show ?thesis
    using size assms(5) ns by (cases "co_base_uri opts") (simp_all add: sco_open_def id sel load)
qed


lemma created_cells:
  assumes "layout_ok opts lay"
  shows "sco_cell (created_image lay uuid f ro) = (\<lambda>_. None)"
proof -
  let ?cs = "co_cluster_size (lay_opts lay)" and ?vs = "co_virtual_size (lay_opts lay)"
  note l = assms [unfolded layout_ok_def]
  have vs: "?vs = co_virtual_size opts"
    using l by (metis (no_types, lifting) sco_create_options.select_convs(3) sco_create_options.surjective sco_create_options.update_convs(5))
  from l obtain j where cs: "?cs = 2 ^ j" and n: "lay_cluster_count lay = (?vs + ?cs - 1) div ?cs"
    by (auto simp: chosen_ok_def vs)
  have "x div ?cs < lay_cluster_count lay" if "x < ?vs" for x
  proof -
    have "0 < ?cs" by (simp add: cs)
    then have "Suc (x div ?cs) = (x + ?cs) div ?cs" by (subst div_add_self2) simp_all
    also have "\<dots> \<le> (?vs + ?cs - 1) div ?cs" using that by (intro div_le_mono) linarith
    finally show ?thesis using n by simp
  qed
  then show ?thesis
    by (auto simp: sco_cell_def created_image_def sco_fresh_image_def created_sb_def absent_entry_def fun_eq_iff Let_def)
qed

text \<open>On a host that does not fail, a request with a valid layout is carried out.\<close>

lemma ftruncate_no_fault: "h_script f = [] \<Longrightarrow> n \<le> INT64_MAX \<Longrightarrow> \<exists>g. ftruncate f n = (g, Inr ()) \<and> h_script g = []"
  by (simp add: ftruncate_def)

lemma create_sco_quiet:
  assumes "sco_create_layout opts = Inr lay" "create_request_ok opts" "length uuid = 16" "h_script f0 = []"
  shows "\<exists>f. create_sco opts (Inr uuid) (Inr f0) = (Some f, Inr ()) \<and> h_script f = []"
proof -
  note l = sco_create_layout_ok [OF assms(1,2), unfolded layout_ok_def]
  have uri: "co_base_uri (lay_opts lay) = co_base_uri opts"
    using l by (metis (no_types, lifting) sco_create_options.select_convs(2) sco_create_options.surjective sco_create_options.update_convs(5))
  have lB: "length (sco_build_superblock (created_sb lay uuid)) = 4096"
    using length_sb_page [OF created_sb_valid(1) [OF assms(1-3)]] by (simp add: sco_build_superblock_def Let_def)
  have ok: "\<exists>g. write_exact f off buf = (g, Inr ()) \<and> h_script g = []"
    if "h_script f = []" "off + length buf \<le> INT64_MAX" for f off buf
    using write_exact_no_fault [OF that] that(1) by simp
  obtain f1 where f1: "write_exact f0 0 (build_file_id uuid) = (f1, Inr ())" "h_script f1 = []"
    using ok [OF assms(4), of 0 "build_file_id uuid"] file_id_roundtrip(2) [OF assms(3)] by auto
  obtain f2 where f2: "write_exact f1 4096 (sco_build_superblock (created_sb lay uuid)) = (f2, Inr ())" "h_script f2 = []"
    using ok [OF f1(2), of 4096 "sco_build_superblock (created_sb lay uuid)"] lB by auto
  obtain f3 where f3: "write_exact f2 8192 (zeros 4096) = (f3, Inr ())" "h_script f3 = []"
    using ok [OF f2(2), of 8192 "zeros 4096"] by auto
  obtain f4 where f4: "(case co_base_uri opts of None \<Rightarrow> (f3, Inr ())
      | Some uri \<Rightarrow> write_exact f3 (lay_base_descriptor_offset lay)
          (build_base_descriptor (lay_base_descriptor_length lay) uri)) = (f4, Inr ())" "h_script f4 = []"
  proof (cases "co_base_uri opts")
    case None
    with f3(2) that show thesis by simp
  next
    case (Some u)
    let ?n = "lay_base_descriptor_length lay"
    have u: "take 5 u = ''file:''" "80 + length u \<le> ?n" "?n mod 4096 = 0" "?n \<le> UINT32_MAX"
      "lay_base_descriptor_offset lay = 65536"
      using l assms(2) Some by (auto simp: create_request_ok_def)
    from ok [OF f3(2), of 65536 "build_base_descriptor ?n u"] base_descriptor_roundtrip(2) [OF u(1-4)] u(4,5) Some that
    show thesis by auto
  qed
  obtain f5 where f5: "ftruncate f4 (lay_data_area_offset lay) = (f5, Inr ())" "h_script f5 = []"
    using ftruncate_no_fault [OF f4(2), of "lay_data_area_offset lay"] l by auto
  have "create_sco_write f0 lay uuid = (f5, Inr ())"
    using f1 f2 f3 f4 f5 by (simp add: create_sco_write_def build_superblock_eq [OF assms(3)] uri)
  then show ?thesis
    using f5(2) assms(1) by (simp add: create_sco_def close_after_def close_def)
qed

lemma create_sco_file:
  assumes "create_sco opts (Inr uuid) (Inr f0) = (Some f, Inr ())" "h_size f0 = 0" "create_request_ok opts" "length uuid = 16"
  obtains lay where "sco_create_layout opts = Inr lay" "created_file opts lay uuid f"
proof -
  from assms(1) obtain lay g where l: "sco_create_layout opts = Inr lay" and w: "create_sco_write f0 lay uuid = (g, Inr ())"
    and c: "close g = (f, Inr ())"
    by (auto simp: create_sco_def close_after_def split: sum.splits prod.splits)
  have "created_file opts lay uuid g"
    by (rule create_sco_write_result [OF w assms(2) sco_create_layout_ok [OF l assms(3)] assms(3,4)
        created_sb_valid(1) [OF l assms(3,4)]])
  moreover have "h_size g = h_size f" "h_bytes g = h_bytes f"
    using fsync_frame [of g f "Inr ()"] c by (simp_all add: close_def same_data_def)
  ultimately have "created_file opts lay uuid f" by (simp only: created_file_def) simp
  with l that show thesis by blast
qed

definition demo_options :: sco_create_options where
  "demo_options = \<lparr>co_path = Some ''/vm/top.sco'', co_base_uri = Some ''file:base.raw'', co_virtual_size = 512,
     co_has_explicit_size = True, co_cluster_size = 0, co_logical_sector_size = 512, co_physical_sector_size = 4096\<rparr>"

lemma demo_created:
  obtains f where "create_sco demo_options (Inr (replicate 16 7)) (Inr \<lparr>h_size = 0, h_bytes = (\<lambda>_. 0), h_script = []\<rparr>) = (Some f, Inr ())"
    "h_script f = []" "create_request_ok demo_options"
proof -
  have rq: "create_request_ok demo_options" by (simp add: create_request_ok_def demo_options_def)
  have "grow_to_sector n 262144 512 = 262144" for n by (cases n) simp_all
  then have "sco_choose_cluster_size demo_options = Inr (262144, 1, 4096)"
    by (simp add: sco_choose_cluster_size_def demo_options_def choose_cluster_loop.simps [of 512 512 262144]
        add64_def sub64_def mul64_def align_up_u64_def)
  then have "\<exists>lay. sco_create_layout demo_options = Inr lay"
    by (simp add: sco_create_layout_def demo_options_def is_power_of_two_u64_def add64_def sub64_def align_up_u64_def)
  then obtain lay where "sco_create_layout demo_options = Inr lay" by blast
  from create_sco_quiet [OF this rq, of "replicate 16 7" "\<lparr>h_size = 0, h_bytes = (\<lambda>_. 0), h_script = []\<rparr>"] rq that
  show thesis by auto
qed

section \<open>Properties\<close>

text \<open>
  Property C18: an image the tool creates can be opened, for requests whose base URI starts with
  \<open>file:\<close> and has at most 1 MiB, and whose size is at most \<open>2 ^ 64 - 2 ^ 22\<close> bytes, so that rounding it
  up to clusters does not wrap.  When \<open>create_sco\<close> reports success on an empty file, opening that
  file succeeds and yields an image that satisfies the invariant of the backend, has the
  requested size and base, and stores nothing yet.  Larger sizes are the subject of
  \<open>oversized_layout_unreadable\<close> below.
\<close>

theorem create_sco_then_open:
  assumes "create_sco opts (Inr uuid) (Inr f0) = (Some f, Inr ())" "h_size f0 = 0" "create_request_ok opts"
    and "length uuid = 16" "h_script f = []"
  shows "\<exists>s. sco_open path f ro = (f, Inr s) \<and> sco_inv s \<and> sco_vsize s = co_virtual_size opts \<and>
    sco_cell s = (\<lambda>_. None) \<and> sco_has_base s = (co_base_uri opts \<noteq> None) \<and>
    sco_base_uri s = (case co_base_uri opts of None \<Rightarrow> [] | Some uri \<Rightarrow> string_bytes uri)"
proof -
  obtain lay where l: "sco_create_layout opts = Inr lay" and cf: "created_file opts lay uuid f"
    using create_sco_file [OF assms(1-4)] by blast
  note lo = sco_create_layout_ok [OF l assms(3)]
  note op = sco_open_created [OF cf l assms(3-5), of path ro]
  have "h_size f \<le> INT64_MAX" using cf lo by (simp add: created_file_def layout_ok_def)
  note inv = sco_open_result(1) [OF op this]
  have vs: "co_virtual_size (lay_opts lay) = co_virtual_size opts"
    using lo by (metis (no_types, lifting) layout_ok_def sco_create_options.select_convs(3) sco_create_options.surjective sco_create_options.update_convs(5))
  have cell: "sco_cell (created_image lay uuid f ro) = (\<lambda>_. None)" by (rule created_cells [OF lo])
  then have "sco_cell ((created_image lay uuid f ro)\<lparr>sco_has_base := True, sco_base_uri := b\<rparr>) = (\<lambda>_. None)" for b
    by (simp add: sco_cell_def Let_def cong: if_cong)
  with cell op inv show ?thesis
    by (cases "co_base_uri opts") (simp_all add: sco_vsize_def created_image_def sco_fresh_image_def created_sb_def vs)
qed

theorem create_sco_then_open_witness:
  "\<exists>f s. create_sco demo_options (Inr (replicate 16 7)) (Inr \<lparr>h_size = 0, h_bytes = (\<lambda>_. 0), h_script = []\<rparr>) = (Some f, Inr ()) \<and>
    sco_open ''/vm/top.sco'' f False = (f, Inr s) \<and> sco_vsize s = 512 \<and> sco_has_base s"
proof -
  obtain f where f: "create_sco demo_options (Inr (replicate 16 7)) (Inr \<lparr>h_size = 0, h_bytes = (\<lambda>_. 0), h_script = []\<rparr>) = (Some f, Inr ())"
    "h_script f = []" "create_request_ok demo_options" by (rule demo_created)
  from create_sco_then_open [OF f(1) _ f(3) _ f(2), of "''/vm/top.sco''" False] f(1)
  show ?thesis by (auto simp: demo_options_def)
qed

text \<open>
  Without the bound on the size the statement is false.  The tool rounds the size up to clusters
  in 64 bits without a check, so a size in the last cluster below \<open>2 ^ 64\<close> wraps to a table of no
  clusters.  The tool accepts such a layout, and no superblock with it passes the test of the
  reader.
\<close>

theorem oversized_layout_unreadable:
  assumes "2 ^ 64 - 2 ^ 18 < co_virtual_size opts" "co_virtual_size opts < 2 ^ 64" "co_path opts \<noteq> None"
    and "co_logical_sector_size opts = 512" "co_physical_sector_size opts = 0" "co_base_uri opts = None"
  shows "\<exists>lay. sco_create_layout opts = Inr lay \<and> lay_cluster_count lay = 0 \<and> lay_table_length lay = 0 \<and>
    (\<forall>uuid n. \<not> sco_superblock_layout_valid (created_sb lay uuid) n)"
proof -
  have g: "grow_to_sector n 262144 512 = 262144" for n by (cases n) simp_all
  have w: "sub64 (add64 (co_virtual_size opts) 262144) 1 div 262144 = 0"
  proof -
    have "add64 (co_virtual_size opts) 262144 = co_virtual_size opts - (2 ^ 64 - 2 ^ 18)"
      using assms(1,2) by (simp add: add64_def mod_if)
    then show ?thesis using assms(1,2) by (subst sub64_exact) simp_all
  qed
  have a: "align_up_u64 (mul64 0 SCO_TABLE_SLOT_SIZE) SCO_METADATA_PAGE_SIZE = 0" "align_up_u64 65536 262144 = 262144"
    by (simp_all add: mul64_def align_up_u64_def add64_def sub64_def)
  have "choose_cluster_loop (co_virtual_size opts) 512 262144 = Inr (262144, 0, 0)"
    by (subst choose_cluster_loop.simps) (simp add: w a Let_def del: One_nat_def)
  then have "sco_choose_cluster_size opts = Inr (262144, 0, 0)"
    using assms by (simp add: sco_choose_cluster_size_def g)
  then show ?thesis
    using assms by (auto simp: sco_create_layout_def is_power_of_two_u64_def created_sb_def sco_superblock_layout_valid_def)
qed

text \<open>
  Property C17: opening establishes the invariant.  Whatever bytes a file holds, if \<open>sco_open\<close>
  accepts it then the image satisfies the invariant that every operation of the backend
  relies on: a consistent geometry, every mapped cluster inside the file, and no cluster
  mapped twice.  Opening changes no byte of the file, and a writable image is not sealed.
\<close>

theorem sco_open_establishes_invariant:
  assumes "sco_open path fd ro = (fd', Inr s)" "h_size fd \<le> INT64_MAX"
  shows "sco_inv s \<and> same_data fd (sco_fd s) \<and> sco_readonly s = ro \<and> (\<not> ro \<longrightarrow> sco_writable s)"
  using sco_open_result [OF assms] by (auto simp: sco_writable_def)

theorem sco_open_establishes_invariant_witness:
  "\<exists>f s. sco_open ''/vm/top.sco'' f False = (f, Inr s) \<and> sco_inv s \<and> sco_writable s"
proof -
  obtain f where f: "create_sco demo_options (Inr (replicate 16 7)) (Inr \<lparr>h_size = 0, h_bytes = (\<lambda>_. 0), h_script = []\<rparr>) = (Some f, Inr ())"
    "h_script f = []" "create_request_ok demo_options" by (rule demo_created)
  obtain lay where l: "sco_create_layout demo_options = Inr lay" and cf: "created_file demo_options lay (replicate 16 7) f"
    using create_sco_file [OF f(1) _ f(3)] by auto
  obtain s where o: "sco_open ''/vm/top.sco'' f False = (f, Inr s)"
    using sco_open_created [OF cf l f(3) _ f(2)] by simp
  have "h_size f \<le> INT64_MAX"
    using cf sco_create_layout_ok [OF l f(3)] by (simp add: created_file_def layout_ok_def)
  from sco_open_establishes_invariant [OF o this] o show ?thesis by auto
qed

end
