(* ===== verification/Mem_Map.thy ===== *)
theory Mem_Map
  imports Prelude "HOL-Library.Tree"
begin

text \<open>
  Dispatch of guest accesses to device memory, \<^verbatim>\<open>src/mem.c\<close>: two search trees of address
  ranges, each range with its handler, and for every virtual CPU a hint that remembers the
  range of its last access.

  The trees are those of \<^verbatim>\<open>include/support/tree.h\<close>.  Searching, inserting and removing
  follow that file; the rotations that rebalance a tree afterwards are left out, and every
  result below depends only on the in-order sequence of a tree, which rotations keep.  A node
  is identified by its address \<open>mr_node\<close>, as the code compares pointers to nodes.

  The handlers are device code, reached through a function pointer.  The definitions take
  their behaviour as the argument \<open>call\<close>; a handler may itself register and unregister
  ranges, so it works on the whole state.
\<close>

record mem_range =
  mp_name :: nat        \<comment> \<open>address of the name, the code compares the pointers\<close>
  mp_flags :: nat
  mp_handler :: nat
  mp_arg1 :: nat
  mp_arg2 :: int
  mp_base :: u64
  mp_size :: u64

record mmio_rb_range =
  mr_node :: nat
  mr_param :: mem_range
  mr_base :: u64
  mr_end :: u64

type_synonym mmio_rb_tree = "mmio_rb_range tree"

record mmio_state =
  mmio_rb_root :: mmio_rb_tree
  mmio_rb_fallback :: mmio_rb_tree
  mmio_hint :: "mmio_rb_range option list"
  mmio_heap :: nat      \<comment> \<open>the address the next \<open>malloc\<close> returns\<close>

section \<open>The search tree\<close>

definition mmio_rb_range_compare :: "mmio_rb_range \<Rightarrow> mmio_rb_range \<Rightarrow> int" where
  "mmio_rb_range_compare a b =
     (if mr_end a < mr_base b then - 1 else if mr_end b < mr_base a then 1 else 0)"

fun RB_FIND :: "mmio_rb_tree \<Rightarrow> mmio_rb_range \<Rightarrow> mmio_rb_range option" where
  "RB_FIND \<langle>\<rangle> elm = None"
| "RB_FIND \<langle>l, tmp, r\<rangle> elm =
     (let comp = mmio_rb_range_compare elm tmp in
      if comp < 0 then RB_FIND l elm else if 0 < comp then RB_FIND r elm else Some tmp)"

fun RB_INSERT :: "mmio_rb_tree \<Rightarrow> mmio_rb_range \<Rightarrow> mmio_rb_tree \<times> mmio_rb_range option" where
  "RB_INSERT \<langle>\<rangle> elm = (\<langle>\<langle>\<rangle>, elm, \<langle>\<rangle>\<rangle>, None)"
| "RB_INSERT \<langle>l, parent, r\<rangle> elm =
     (let comp = mmio_rb_range_compare elm parent in
      if comp < 0 then (case RB_INSERT l elm of (l', ov) \<Rightarrow> (\<langle>l', parent, r\<rangle>, ov))
      else if 0 < comp then (case RB_INSERT r elm of (r', ov) \<Rightarrow> (\<langle>l, parent, r'\<rangle>, ov))
      else (\<langle>l, parent, r\<rangle>, Some parent))"

text \<open>Unlinks the leftmost node, which takes the place of a removed inner node.\<close>

fun RB_unlink_min :: "mmio_rb_tree \<Rightarrow> mmio_rb_range \<Rightarrow> mmio_rb_tree \<Rightarrow> mmio_rb_range \<times> mmio_rb_tree" where
  "RB_unlink_min \<langle>\<rangle> e r = (e, r)"
| "RB_unlink_min \<langle>ll, le, lr\<rangle> e r =
     (case RB_unlink_min ll le lr of (m, l') \<Rightarrow> (m, \<langle>l', e, r\<rangle>))"

definition RB_remove_root :: "mmio_rb_tree \<Rightarrow> mmio_rb_tree \<Rightarrow> mmio_rb_tree" where
  "RB_remove_root l r =
     (case r of \<langle>\<rangle> \<Rightarrow> l
      | \<langle>rl, re, rr\<rangle> \<Rightarrow>
          if l = \<langle>\<rangle> then r
          else (case RB_unlink_min rl re rr of (m, r') \<Rightarrow> \<langle>l, m, r'\<rangle>))"

fun RB_REMOVE :: "mmio_rb_tree \<Rightarrow> mmio_rb_range \<Rightarrow> mmio_rb_tree" where
  "RB_REMOVE \<langle>\<rangle> out = \<langle>\<rangle>"
| "RB_REMOVE \<langle>l, e, r\<rangle> out =
     (let comp = mmio_rb_range_compare out e in
      if comp < 0 then \<langle>RB_REMOVE l out, e, r\<rangle>
      else if 0 < comp then \<langle>l, e, RB_REMOVE r out\<rangle>
      else RB_remove_root l r)"

section \<open>Lookup and registration\<close>

definition mmio_key :: "u64 \<Rightarrow> mmio_rb_range" where
  "mmio_key addr = \<lparr>mr_node = 0, mr_param = \<lparr>mp_name = 0, mp_flags = 0, mp_handler = 0, mp_arg1 = 0,
     mp_arg2 = 0, mp_base = 0, mp_size = 0\<rparr>, mr_base = addr, mr_end = addr\<rparr>"

definition mmio_rb_lookup :: "mmio_rb_tree \<Rightarrow> u64 \<Rightarrow> mmio_rb_range res" where
  "mmio_rb_lookup rbt addr =
     (case RB_FIND rbt (mmio_key addr) of Some e \<Rightarrow> Inr e | None \<Rightarrow> Inl ENOENT)"

definition mmio_rb_add :: "mmio_rb_tree \<Rightarrow> mmio_rb_range \<Rightarrow> mmio_rb_tree \<times> unit res" where
  "mmio_rb_add rbt new =
     (case RB_INSERT rbt new of
        (rbt', Some overlap) \<Rightarrow> (rbt', Inl EEXIST)
      | (rbt', None) \<Rightarrow> (rbt', Inr ()))"

definition mem_range_registered :: "mmio_state \<Rightarrow> u64 \<Rightarrow> bool" where
  "mem_range_registered s gpa =
     (is_ok (mmio_rb_lookup (mmio_rb_root s) gpa) \<or> is_ok (mmio_rb_lookup (mmio_rb_fallback s) gpa))"

text \<open>
  \<open>register_mem_int\<close> on the tree it is given.  The first argument is the result of \<open>malloc\<close>.  The
  new node exists only while the call lasts unless it is inserted; its address is not used again
  before it is freed.  The end of the range is computed with the wrap-around of the code.
\<close>

definition mmio_new_range :: "nat \<Rightarrow> mem_range \<Rightarrow> mmio_rb_range" where
  "mmio_new_range node memp =
     \<lparr>mr_node = node, mr_param = memp, mr_base = mp_base memp,
      mr_end = sub64 (add64 (mp_base memp) (mp_size memp)) 1\<rparr>"

definition register_mem_int :: "nat option \<Rightarrow> mmio_rb_tree \<Rightarrow> mem_range \<Rightarrow> mmio_rb_tree \<times> unit res" where
  "register_mem_int node rbt memp =
     (case node of
        None \<Rightarrow> (rbt, Inl ENOMEM)
      | Some node \<Rightarrow>
          let mrp = mmio_new_range node memp in
          (case mmio_rb_lookup rbt (mp_base memp) of
             Inl _ \<Rightarrow> mmio_rb_add rbt mrp
           | Inr entry \<Rightarrow> (rbt, Inr ())))"

text \<open>Whether there is memory for the node is an argument.\<close>

definition mmio_malloc :: "mmio_state \<Rightarrow> bool \<Rightarrow> nat option" where
  "mmio_malloc s ok = (if ok then Some (mmio_heap s) else None)"

definition register_mem :: "mmio_state \<Rightarrow> bool \<Rightarrow> mem_range \<Rightarrow> mmio_state \<times> unit res" where
  "register_mem s ok memp =
     (case register_mem_int (mmio_malloc s ok) (mmio_rb_root s) memp of
        (t, r) \<Rightarrow> (s\<lparr>mmio_rb_root := t, mmio_heap := mmio_heap s + 1\<rparr>, r))"

definition register_mem_fallback :: "mmio_state \<Rightarrow> bool \<Rightarrow> mem_range \<Rightarrow> mmio_state \<times> unit res" where
  "register_mem_fallback s ok memp =
     (case register_mem_int (mmio_malloc s ok) (mmio_rb_fallback s) memp of
        (t, r) \<Rightarrow> (s\<lparr>mmio_rb_fallback := t, mmio_heap := mmio_heap s + 1\<rparr>, r))"

definition mem_immutable :: "mem_range \<Rightarrow> bool" where
  "mem_immutable mr = (mp_flags mr AND 4 \<noteq> 0)"

text \<open>\<open>None\<close> is a failed assertion.\<close>

definition unregister_mem :: "mmio_state \<Rightarrow> mem_range \<Rightarrow> (mmio_state \<times> unit res) option" where
  "unregister_mem s memp =
     (case mmio_rb_lookup (mmio_rb_root s) (mp_base memp) of
        Inl e \<Rightarrow> Some (s, Inl e)
      | Inr entry \<Rightarrow>
          let mr = mr_param entry in
          if mp_name mr = mp_name memp \<and> mp_base mr = mp_base memp \<and> mp_size mr = mp_size memp \<and>
             \<not> mem_immutable mr
          then Some
            (s\<lparr>mmio_rb_root := RB_REMOVE (mmio_rb_root s) entry,
               mmio_hint := map (\<lambda>h. case h of None \<Rightarrow> None
                   | Some e \<Rightarrow> if mr_node e = mr_node entry then None else Some e) (mmio_hint s)\<rparr>,
             Inr ())
          else None)"

definition init_mem :: "nat \<Rightarrow> mmio_state" where
  "init_mem ncpu =
     \<lparr>mmio_rb_root = \<langle>\<rangle>, mmio_rb_fallback = \<langle>\<rangle>, mmio_hint = replicate ncpu None, mmio_heap = 1\<rparr>"

section \<open>Accesses\<close>

text \<open>
  The part of \<open>access_memory\<close> that picks the range: the hint of the CPU if it covers the
  address, then the main tree, whose answer becomes the hint, then the fallback tree.
\<close>

definition access_entry :: "mmio_state \<Rightarrow> nat \<Rightarrow> u64 \<Rightarrow> mmio_state \<times> mmio_rb_range res" where
  "access_entry s vcpuid paddr =
     (let entry = (case mmio_hint s ! vcpuid of
          Some e \<Rightarrow> if mr_base e \<le> paddr \<and> paddr \<le> mr_end e then Some e else None
        | None \<Rightarrow> None) in
      case entry of
        Some e \<Rightarrow> (s, Inr e)
      | None \<Rightarrow>
          (case mmio_rb_lookup (mmio_rb_root s) paddr of
             Inr e \<Rightarrow> (s\<lparr>mmio_hint := (mmio_hint s)[vcpuid := Some e]\<rparr>, Inr e)
           | Inl _ \<Rightarrow>
               (case mmio_rb_lookup (mmio_rb_fallback s) paddr of
                  Inr e \<Rightarrow> (s, Inr e)
                | Inl _ \<Rightarrow> (s, Inl ESRCH))))"

type_synonym 'd world = "mmio_state \<times> 'd"

text \<open>A handler gets the CPU, the direction, address, size, value and its two arguments.\<close>

type_synonym 'd mem_func =
  "'d world \<Rightarrow> nat \<Rightarrow> nat \<Rightarrow> u64 \<Rightarrow> nat \<Rightarrow> u64 \<Rightarrow> nat \<Rightarrow> int \<Rightarrow> 'd world \<times> u64 \<times> unit res"

definition access_memory ::
  "'d world \<Rightarrow> nat \<Rightarrow> u64 \<Rightarrow> ('d world \<Rightarrow> 'v \<Rightarrow> mem_range \<Rightarrow> 'd world \<times> 'v \<times> unit res) \<Rightarrow> 'v \<Rightarrow>
   'd world \<times> 'v \<times> unit res" where
  "access_memory w vcpuid paddr cb val =
     (case access_entry (fst w) vcpuid paddr of
        (s, Inl e) \<Rightarrow> ((s, snd w), val, Inl e)
      | (s, Inr entry) \<Rightarrow> cb (s, snd w) val (mr_param entry))"

definition rw_mem_cb ::
  "(nat \<Rightarrow> 'd mem_func) \<Rightarrow> nat \<Rightarrow> u64 \<Rightarrow> nat \<Rightarrow> nat \<Rightarrow> 'd world \<Rightarrow> u64 \<Rightarrow> mem_range \<Rightarrow>
   'd world \<times> u64 \<times> unit res" where
  "rw_mem_cb call vcpuid paddr sz operation w val mr =
     call (mp_handler mr) w vcpuid operation paddr sz val (mp_arg1 mr) (mp_arg2 mr)"

definition read_mem ::
  "(nat \<Rightarrow> 'd mem_func) \<Rightarrow> 'd world \<Rightarrow> nat \<Rightarrow> u64 \<Rightarrow> u64 \<Rightarrow> nat \<Rightarrow> 'd world \<times> u64 \<times> unit res" where
  "read_mem call w vcpuid gpa rval sz =
     access_memory w vcpuid gpa (rw_mem_cb call vcpuid gpa sz 1) rval"

definition write_mem ::
  "(nat \<Rightarrow> 'd mem_func) \<Rightarrow> 'd world \<Rightarrow> nat \<Rightarrow> u64 \<Rightarrow> u64 \<Rightarrow> nat \<Rightarrow> 'd world \<times> u64 \<times> unit res" where
  "write_mem call w vcpuid gpa wval sz =
     access_memory w vcpuid gpa (rw_mem_cb call vcpuid gpa sz 2) wval"

text \<open>
  \<open>emulate_mem\<close> hands the access to the instruction emulator of the platform, an argument
  here, with the two functions it may use to reach the handler of the range.
\<close>

definition mem_read ::
  "(nat \<Rightarrow> 'd mem_func) \<Rightarrow> nat \<Rightarrow> mem_range \<Rightarrow> 'd world \<Rightarrow> u64 \<Rightarrow> u64 \<Rightarrow> nat \<Rightarrow>
   'd world \<times> u64 \<times> unit res" where
  "mem_read call vcpuid mr w gpa rval sz =
     call (mp_handler mr) w vcpuid 1 gpa sz rval (mp_arg1 mr) (mp_arg2 mr)"

definition mem_write ::
  "(nat \<Rightarrow> 'd mem_func) \<Rightarrow> nat \<Rightarrow> mem_range \<Rightarrow> 'd world \<Rightarrow> u64 \<Rightarrow> u64 \<Rightarrow> nat \<Rightarrow> 'd world \<times> unit res" where
  "mem_write call vcpuid mr w gpa wval sz =
     (case call (mp_handler mr) w vcpuid 2 gpa sz wval (mp_arg1 mr) (mp_arg2 mr) of (w', _, r) \<Rightarrow> (w', r))"

definition emulate_mem ::
  "(nat \<Rightarrow> 'd mem_func) \<Rightarrow>
   (('d world \<Rightarrow> u64 \<Rightarrow> u64 \<Rightarrow> nat \<Rightarrow> 'd world \<times> u64 \<times> unit res) \<Rightarrow>
    ('d world \<Rightarrow> u64 \<Rightarrow> u64 \<Rightarrow> nat \<Rightarrow> 'd world \<times> unit res) \<Rightarrow>
    'd world \<Rightarrow> nat \<Rightarrow> u64 \<Rightarrow> 'e \<Rightarrow> 'd world \<times> 'e \<times> unit res) \<Rightarrow>
   'd world \<Rightarrow> nat \<Rightarrow> u64 \<Rightarrow> 'e \<Rightarrow> 'd world \<times> 'e \<times> unit res" where
  "emulate_mem call vmm_emulate_instruction w vcpuid paddr ema =
     access_memory w vcpuid paddr
       (\<lambda>w ema mr. vmm_emulate_instruction (mem_read call vcpuid mr) (mem_write call vcpuid mr)
          w vcpuid paddr ema) ema"

section \<open>The invariant\<close>

definition mmio_covers :: "u64 \<Rightarrow> mmio_rb_range \<Rightarrow> bool" where
  "mmio_covers a e \<longleftrightarrow> mr_base e \<le> a \<and> a \<le> mr_end e"

text \<open>A tree is ordered when its ranges are non-empty and ascend without overlap.\<close>

definition mmio_ordered :: "mmio_rb_range list \<Rightarrow> bool" where
  "mmio_ordered es \<longleftrightarrow>
     sorted_wrt (\<lambda>a b. mr_end a < mr_base b) es \<and> (\<forall>e\<in>set es. mr_base e \<le> mr_end e)"

definition mmio_inv :: "mmio_state \<Rightarrow> bool" where
  "mmio_inv s \<longleftrightarrow>
     mmio_ordered (inorder (mmio_rb_root s)) \<and> mmio_ordered (inorder (mmio_rb_fallback s)) \<and>
     distinct (map mr_node (inorder (mmio_rb_root s))) \<and>
     (\<forall>e\<in>set_tree (mmio_rb_root s). mr_node e < mmio_heap s) \<and>
     (\<forall>e. Some e \<in> set (mmio_hint s) \<longrightarrow> e \<in> set_tree (mmio_rb_root s))"

lemma mmio_ordered_append:
  "mmio_ordered (xs @ e # ys) \<longleftrightarrow> mmio_ordered xs \<and> mmio_ordered ys \<and> mr_base e \<le> mr_end e \<and>
     (\<forall>x\<in>set xs. mr_end x < mr_base e) \<and> (\<forall>y\<in>set ys. mr_end e < mr_base y) \<and>
     (\<forall>x\<in>set xs. \<forall>y\<in>set ys. mr_end x < mr_base y)"
  by (auto simp: mmio_ordered_def sorted_wrt_append)

lemma mmio_ordered_unique:
  assumes "mmio_ordered es" "a \<in> set es" "b \<in> set es" "mmio_covers x a" "mmio_covers x b"
  shows "a = b"
  using assms
proof (induction es)
  case (Cons e es)
  then show ?case by (fastforce simp: mmio_ordered_def mmio_covers_def)
qed simp

lemma find_append:
  "List.find P (xs @ ys) = (case List.find P xs of None \<Rightarrow> List.find P ys | Some x \<Rightarrow> Some x)"
  by (induction xs) auto

text \<open>The reference for a lookup is a search through the ranges one by one.\<close>

lemma RB_FIND_find:
  assumes "mmio_ordered (inorder t)"
  shows "RB_FIND t (mmio_key a) = List.find (mmio_covers a) (inorder t)"
  using assms
proof (induction t)
  case (Node l e r)
  note o = Node.prems [simplified, unfolded mmio_ordered_append]
  have ih: "RB_FIND l (mmio_key a) = List.find (mmio_covers a) (inorder l)"
    "RB_FIND r (mmio_key a) = List.find (mmio_covers a) (inorder r)"
    using Node.IH o by blast+
  have lo: "List.find (mmio_covers a) (inorder l) = None" if "mr_base e \<le> a"
    using o that by (fastforce simp: find_None_iff mmio_covers_def)
  have hi: "List.find (mmio_covers a) (inorder r) = None" if "a \<le> mr_end e"
    using o that by (fastforce simp: find_None_iff mmio_covers_def)
  have c: "mmio_rb_range_compare (mmio_key a) e =
      (if a < mr_base e then - 1 else if mr_end e < a then 1 else 0)"
    by (simp add: mmio_rb_range_compare_def mmio_key_def)
  have "mmio_covers a e \<longleftrightarrow> \<not> a < mr_base e \<and> \<not> mr_end e < a" by (auto simp: mmio_covers_def)
  then show ?case
    using ih lo hi o by (auto simp: find_append c split: option.splits)
qed simp

definition mmio_find :: "u64 \<Rightarrow> mmio_rb_tree \<Rightarrow> mmio_rb_range option" where
  "mmio_find a t = List.find (mmio_covers a) (inorder t)"

lemma mmio_find_cases:
  assumes "mmio_ordered (inorder t)"
  obtains (hit) e where "mmio_find a t = Some e" "e \<in> set_tree t" "mmio_covers a e"
      "mmio_rb_lookup t a = Inr e"
  | (miss) "mmio_find a t = None" "\<forall>e\<in>set_tree t. \<not> mmio_covers a e" "mmio_rb_lookup t a = Inl ENOENT"
proof (cases "mmio_find a t")
  case None
  then have "\<forall>e\<in>set_tree t. \<not> mmio_covers a e"
    by (auto simp: mmio_find_def find_None_iff simp flip: set_inorder)
  with None show ?thesis using that(2) RB_FIND_find [OF assms, of a]
    by (simp add: mmio_find_def mmio_rb_lookup_def)
next
  case (Some e)
  then have "e \<in> set_tree t \<and> mmio_covers a e"
    by (auto simp: mmio_find_def find_Some_iff simp flip: set_inorder)
  with Some show ?thesis using that(1) RB_FIND_find [OF assms, of a]
    by (simp add: mmio_find_def mmio_rb_lookup_def)
qed

lemma mmio_find_eq:
  "mmio_ordered (inorder t) \<Longrightarrow> e \<in> set_tree t \<Longrightarrow> mmio_covers a e \<Longrightarrow> mmio_find a t = Some e"
  by (rule mmio_find_cases [of t a]) (use mmio_ordered_unique [of "inorder t"] in \<open>auto\<close>)

section \<open>Insertion and removal\<close>

definition mmio_overlap :: "mmio_rb_range \<Rightarrow> mmio_rb_range \<Rightarrow> bool" where
  "mmio_overlap a b \<longleftrightarrow> mr_base a \<le> mr_end b \<and> mr_base b \<le> mr_end a"

definition mmio_splits :: "mmio_rb_range \<Rightarrow> mmio_rb_range list \<Rightarrow> mmio_rb_range list \<Rightarrow> bool" where
  "mmio_splits x as bs \<longleftrightarrow>
     (\<forall>a\<in>set as. mr_end a < mr_base x) \<and> (\<forall>b\<in>set bs. mr_end x < mr_base b)"

lemma RB_INSERT_result:
  assumes "RB_INSERT t x = (t', ov)" "mmio_ordered (inorder t)" "mr_base x \<le> mr_end x"
  shows "case ov of
      None \<Rightarrow> \<exists>as bs. inorder t = as @ bs \<and> inorder t' = as @ x # bs \<and> mmio_splits x as bs
    | Some e \<Rightarrow> t' = t \<and> e \<in> set (inorder t) \<and> mmio_overlap x e"
  using assms
proof (induction t arbitrary: t' ov)
  case Leaf
  then show ?case by (auto simp: mmio_splits_def)
next
  case (Node l e r)
  note o = Node.prems(2) [simplified, unfolded mmio_ordered_append]
  consider (lt) "mr_end x < mr_base e" | (gt) "\<not> mr_end x < mr_base e" "mr_end e < mr_base x"
    | (eq) "\<not> mr_end x < mr_base e" "\<not> mr_end e < mr_base x" by blast
  then show ?case
  proof cases
    case lt
    then obtain l' where l: "RB_INSERT l x = (l', ov)" "t' = \<langle>l', e, r\<rangle>"
      using Node.prems(1) by (auto simp: mmio_rb_range_compare_def split: prod.splits)
    have "mmio_splits x as (bs @ e # inorder r)" if "mmio_splits x as bs" for as bs
      using that lt o by (auto simp: mmio_splits_def)
    moreover note Node.IH(1) [OF l(1)]
    ultimately show ?thesis using o Node.prems(3) l(2) by (fastforce split: option.splits)
  next
    case gt
    then obtain r' where r: "RB_INSERT r x = (r', ov)" "t' = \<langle>l, e, r'\<rangle>"
      using Node.prems(1) by (auto simp: mmio_rb_range_compare_def split: prod.splits)
    have s: "mmio_splits x (inorder l @ e # as) bs" if "mmio_splits x as bs" for as bs
      using that gt o by (auto simp: mmio_splits_def)
    have ih: "case ov of
      None \<Rightarrow> \<exists>as bs. inorder r = as @ bs \<and> inorder r' = as @ x # bs \<and> mmio_splits x as bs
    | Some e \<Rightarrow> r' = r \<and> e \<in> set (inorder r) \<and> mmio_overlap x e"
      using Node.IH(2) [OF r(1)] o Node.prems(3) by blast
    show ?thesis
    proof (cases ov)
      case None
      with ih obtain as bs where "inorder r = as @ bs" "inorder r' = as @ x # bs" "mmio_splits x as bs"
        by auto
      with s [of as bs] r(2) have "inorder \<langle>l, e, r\<rangle> = (inorder l @ e # as) @ bs \<and>
          inorder t' = (inorder l @ e # as) @ x # bs \<and> mmio_splits x (inorder l @ e # as) bs" by simp
      with None show ?thesis by (simp only: option.case) blast
    next
      case (Some e')
      with ih r(2) show ?thesis by simp
    qed
  next
    case eq
    with Node.prems(1) show ?thesis by (auto simp: mmio_rb_range_compare_def mmio_overlap_def)
  qed
qed

lemma mmio_splits_ordered:
  assumes "mmio_ordered (as @ bs)" "mmio_splits x as bs" "mr_base x \<le> mr_end x"
  shows "mmio_ordered (as @ x # bs)" "\<forall>e\<in>set (as @ bs). \<not> mmio_overlap x e"
  using assms by (auto simp: mmio_ordered_def mmio_splits_def mmio_overlap_def sorted_wrt_append)

lemma RB_unlink_min_inorder:
  "RB_unlink_min l e r = (m, t) \<Longrightarrow> inorder l @ e # inorder r = m # inorder t"
  by (induction l e r arbitrary: m t rule: RB_unlink_min.induct) (auto split: prod.splits)

lemma RB_remove_root_inorder: "inorder (RB_remove_root l r) = inorder l @ inorder r"
  by (auto simp: RB_remove_root_def split: tree.splits prod.splits dest: RB_unlink_min_inorder)

lemma RB_REMOVE_inorder:
  assumes "mmio_ordered (inorder t)" "x \<in> set (inorder t)"
  shows "inorder (RB_REMOVE t x) = remove1 x (inorder t)"
  using assms
proof (induction t)
  case (Node l e r)
  note o = Node.prems(1) [simplified, unfolded mmio_ordered_append]
  have ih: "x \<in> set (inorder l) \<Longrightarrow> inorder (RB_REMOVE l x) = remove1 x (inorder l)"
    "x \<in> set (inorder r) \<Longrightarrow> inorder (RB_REMOVE r x) = remove1 x (inorder r)"
    using Node.IH o by blast+
  have b: "mr_base y \<le> mr_end y" if "y \<in> set (inorder l) \<union> {e} \<union> set (inorder r)" for y
    using o that by (auto simp: mmio_ordered_def)
  consider (l) "x \<in> set (inorder l)" | (e) "x = e" | (r) "x \<in> set (inorder r)"
    using Node.prems(2) by auto
  then show ?case
  proof cases
    case l
    then have "mr_end x < mr_base e" using o by blast
    with l ih show ?thesis by (simp add: mmio_rb_range_compare_def remove1_append)
  next
    case e
    then have "e \<notin> set (inorder l)" using o b by fastforce
    with e b [of e] show ?thesis
      by (simp add: mmio_rb_range_compare_def remove1_append RB_remove_root_inorder)
  next
    case r
    then have gt: "mr_end e < mr_base x" using o by blast
    moreover have "\<not> mr_end x < mr_base e" using gt b [of x] b [of e] r by force
    moreover have "x \<notin> set (inorder l)" "x \<noteq> e" using o b gt r by force+
    ultimately show ?thesis using r ih by (simp add: mmio_rb_range_compare_def remove1_append)
  qed
qed simp

section \<open>Every operation keeps the invariant\<close>

lemma mmio_inv_init: "mmio_inv (init_mem n)"
  by (auto simp: mmio_inv_def init_mem_def mmio_ordered_def)

text \<open>
  A range that is not empty and does not run over the end of the 64-bit address space.  The code
  does not check this; with a range that does, the trees are no longer ordered.
\<close>

definition mem_range_ok :: "mem_range \<Rightarrow> bool" where
  "mem_range_ok m \<longleftrightarrow> 0 < mp_size m \<and> mp_base m + mp_size m \<le> UINT64_MAX + 1"

lemma mmio_new_range_simps [simp]:
  assumes "mem_range_ok m"
  shows "mr_base (mmio_new_range k m) = mp_base m"
    "mr_end (mmio_new_range k m) = mp_base m + mp_size m - 1"
  using assms by (auto simp: mmio_new_range_def mem_range_ok_def add64_def sub64_def mod_if)

lemma register_mem_int_cases:
  assumes "mmio_ordered (inorder t)" "mem_range_ok m"
  obtains (covered) e where "e \<in> set_tree t" "mmio_covers (mp_base m) e"
      "register_mem_int (Some k) t m = (t, Inr ())"
  | (overlap) e where "e \<in> set_tree t" "mmio_overlap (mmio_new_range k m) e"
      "mmio_find (mp_base m) t = None" "register_mem_int (Some k) t m = (t, Inl EEXIST)"
  | (added) t' as bs where "register_mem_int (Some k) t m = (t', Inr ())"
      "inorder t = as @ bs" "inorder t' = as @ mmio_new_range k m # bs"
      "mmio_ordered (inorder t')" "\<forall>e\<in>set_tree t. \<not> mmio_overlap (mmio_new_range k m) e"
proof (cases rule: mmio_find_cases [OF assms(1), of "mp_base m"])
  case (1 e)
  then show ?thesis using that(1) by (simp add: register_mem_int_def Let_def)
next
  case 2
  let ?x = "mmio_new_range k m"
  obtain t' ov where i: "RB_INSERT t ?x = (t', ov)" by fastforce
  have le: "mr_base ?x \<le> mr_end ?x" using assms(2) by (auto simp: mem_range_ok_def)
  note res = RB_INSERT_result [OF i assms(1) le]
  have reg: "register_mem_int (Some k) t m = mmio_rb_add t ?x"
    using 2 by (simp add: register_mem_int_def Let_def)
  show ?thesis
  proof (cases ov)
    case None
    with res obtain as bs where a: "inorder t = as @ bs" "inorder t' = as @ ?x # bs" "mmio_splits ?x as bs"
      by auto
    with mmio_splits_ordered [of as bs ?x] le assms(1) have
      "mmio_ordered (inorder t')" "\<forall>e\<in>set_tree t. \<not> mmio_overlap ?x e"
      by (simp_all flip: set_inorder)
    with a i None reg that(3) show ?thesis by (simp add: mmio_rb_add_def)
  next
    case (Some e)
    with res i reg 2(1) that(2) show ?thesis by (auto simp: mmio_rb_add_def simp flip: set_inorder)
  qed
qed

lemma register_mem_inv: "mmio_inv s \<Longrightarrow> mem_range_ok m \<Longrightarrow> mmio_inv (fst (register_mem s ok m))"
proof -
  assume i: "mmio_inv s" and m: "mem_range_ok m"
  have o: "mmio_ordered (inorder (mmio_rb_root s))" using i by (simp add: mmio_inv_def)
  show ?thesis
  proof (cases ok)
    case True
    show ?thesis
    proof (cases rule: register_mem_int_cases [OF o m, of "mmio_heap s"])
      case (3 t' as bs)
      have [simp]: "mr_node (mmio_new_range k m) = k" for k by (simp add: mmio_new_range_def)
      have "set_tree t' = insert (mmio_new_range (mmio_heap s) m) (set_tree (mmio_rb_root s))"
        using 3(2,3) by (simp flip: set_inorder)
      moreover have "distinct (map mr_node (inorder t'))"
        using i 3(2,3) by (auto simp: mmio_inv_def simp flip: set_inorder)
      ultimately show ?thesis using i 3 True
        by (auto simp: mmio_inv_def register_mem_def mmio_malloc_def intro: less_SucI)
    qed (use i True in \<open>auto simp: mmio_inv_def register_mem_def mmio_malloc_def intro: less_SucI\<close>)
  qed (use i in \<open>auto simp: mmio_inv_def register_mem_def register_mem_int_def mmio_malloc_def intro: less_SucI\<close>)
qed

lemma register_mem_fallback_inv:
  "mmio_inv s \<Longrightarrow> mem_range_ok m \<Longrightarrow> mmio_inv (fst (register_mem_fallback s ok m))"
proof -
  assume i: "mmio_inv s" and m: "mem_range_ok m"
  have o: "mmio_ordered (inorder (mmio_rb_fallback s))" using i by (simp add: mmio_inv_def)
  show ?thesis
  proof (cases ok)
    case True
    then show ?thesis
      by (cases rule: register_mem_int_cases [OF o m, of "mmio_heap s"])
        (use i in \<open>auto simp: mmio_inv_def register_mem_fallback_def mmio_malloc_def intro: less_SucI\<close>)
  qed (use i in \<open>auto simp: mmio_inv_def register_mem_fallback_def register_mem_int_def mmio_malloc_def intro: less_SucI\<close>)
qed

lemma unregister_mem_inv:
  assumes "mmio_inv s" "unregister_mem s m = Some (s', r)"
  shows "mmio_inv s'"
proof -
  have o: "mmio_ordered (inorder (mmio_rb_root s))" using assms(1) by (simp add: mmio_inv_def)
  show ?thesis
  proof (cases rule: mmio_find_cases [OF o, of "mp_base m"])
    case (1 e)
    let ?t = "RB_REMOVE (mmio_rb_root s) e"
    have s': "mmio_rb_root s' = ?t" "mmio_rb_fallback s' = mmio_rb_fallback s" "mmio_heap s' = mmio_heap s"
      "mmio_hint s' = map (\<lambda>h. case h of None \<Rightarrow> None
                   | Some h \<Rightarrow> if mr_node h = mr_node e then None else Some h) (mmio_hint s)"
      using assms(2) 1 by (auto simp: unregister_mem_def Let_def split: if_splits)
    have t: "inorder ?t = remove1 e (inorder (mmio_rb_root s))"
      using RB_REMOVE_inorder [OF o] 1 by simp
    have d: "distinct (map mr_node (inorder (mmio_rb_root s)))" using assms(1) by (simp add: mmio_inv_def)
    then have d': "distinct (inorder (mmio_rb_root s))" by (simp add: distinct_map)
    have st: "set_tree ?t = set_tree (mmio_rb_root s) - {e}"
      using t d' by (simp flip: set_inorder)
    have "mmio_ordered (inorder ?t)"
      using o d' unfolding t
      by (simp add: mmio_ordered_def distinct_remove1_removeAll sorted_wrt_filter removeAll_filter_not_eq)
    moreover have "distinct (map mr_node (inorder ?t))"
      using d unfolding t by (auto simp: distinct_map intro: inj_on_subset dest: notin_set_remove1)
    ultimately show ?thesis
      using assms(1) s' st by (auto simp: mmio_inv_def split: option.splits if_splits)
  next
    case 2
    with assms show ?thesis by (simp add: unregister_mem_def)
  qed
qed

definition mmio_owner :: "mmio_state \<Rightarrow> u64 \<Rightarrow> mmio_rb_range option" where
  "mmio_owner s a =
     (case mmio_find a (mmio_rb_root s) of Some e \<Rightarrow> Some e | None \<Rightarrow> mmio_find a (mmio_rb_fallback s))"

text \<open>The hint never changes which range an access goes to.\<close>

lemma access_entry_owner:
  assumes "mmio_inv s" "v < length (mmio_hint s)"
  obtains s' where "mmio_inv s'" "mmio_rb_root s' = mmio_rb_root s"
    "mmio_rb_fallback s' = mmio_rb_fallback s" "length (mmio_hint s') = length (mmio_hint s)"
    "access_entry s v a = (s', case mmio_owner s a of None \<Rightarrow> Inl ESRCH | Some e \<Rightarrow> Inr e)"
proof (cases "\<exists>e. mmio_hint s ! v = Some e \<and> mmio_covers a e")
  case True
  then obtain e where e: "mmio_hint s ! v = Some e" "mmio_covers a e" by blast
  then have "e \<in> set_tree (mmio_rb_root s)"
    using assms nth_mem [OF assms(2)] by (auto simp: mmio_inv_def)
  then have "mmio_find a (mmio_rb_root s) = Some e"
    using assms(1) e(2) mmio_find_eq by (auto simp: mmio_inv_def)
  with e assms(1) show ?thesis
    using that [of s] by (simp add: access_entry_def mmio_owner_def mmio_covers_def)
next
  case False
  then have n: "(case mmio_hint s ! v of
      Some e \<Rightarrow> if mr_base e \<le> a \<and> a \<le> mr_end e then Some e else None | None \<Rightarrow> None) = None"
    by (auto simp: mmio_covers_def split: option.splits)
  have o: "mmio_ordered (inorder (mmio_rb_root s))" "mmio_ordered (inorder (mmio_rb_fallback s))"
    using assms(1) by (auto simp: mmio_inv_def)
  show ?thesis
  proof (cases rule: mmio_find_cases [OF o(1), of a])
    case (1 e)
    let ?s = "s\<lparr>mmio_hint := (mmio_hint s)[v := Some e]\<rparr>"
    have "mmio_inv ?s"
      using assms(1) 1(2) by (auto simp: mmio_inv_def dest!: subsetD [OF set_update_subset_insert])
    then show ?thesis using that [of ?s] 1 n by (simp add: access_entry_def mmio_owner_def)
  next
    case 2
    then show ?thesis using that [of s] n assms(1)
      by (cases rule: mmio_find_cases [OF o(2), of a]) (simp_all add: access_entry_def mmio_owner_def)
  qed
qed

section \<open>Properties\<close>

text \<open>The states the program reaches from \<open>init_mem\<close>.\<close>

inductive mmio_reachable :: "nat \<Rightarrow> mmio_state \<Rightarrow> bool" for ncpu where
  init: "mmio_reachable ncpu (init_mem ncpu)"
| register: "mmio_reachable ncpu s \<Longrightarrow> mem_range_ok m \<Longrightarrow> mmio_reachable ncpu (fst (register_mem s ok m))"
| fallback: "mmio_reachable ncpu s \<Longrightarrow> mem_range_ok m \<Longrightarrow>
    mmio_reachable ncpu (fst (register_mem_fallback s ok m))"
| unregister: "mmio_reachable ncpu s \<Longrightarrow> unregister_mem s m = Some (s', r) \<Longrightarrow> mmio_reachable ncpu s'"
| access: "mmio_reachable ncpu s \<Longrightarrow> v < ncpu \<Longrightarrow> mmio_reachable ncpu (fst (access_entry s v a))"

lemma register_mem_hint [simp]: "mmio_hint (fst (register_mem s ok m)) = mmio_hint s"
  "mmio_hint (fst (register_mem_fallback s ok m)) = mmio_hint s"
  by (simp_all add: register_mem_def register_mem_fallback_def split: prod.splits)

lemma mmio_reachable_inv: "mmio_reachable n s \<Longrightarrow> mmio_inv s \<and> length (mmio_hint s) = n"
proof (induction rule: mmio_reachable.induct)
  case init
  show ?case by (simp add: mmio_inv_init) (simp add: init_mem_def)
next
  case (unregister s m s' r)
  then have "length (mmio_hint s') = length (mmio_hint s)"
    by (auto simp: unregister_mem_def Let_def split: sum.splits if_splits)
  with unregister unregister_mem_inv [of s m s' r] show ?case by simp
next
  case (access s v a)
  then show ?case by (metis access_entry_owner fst_conv)
qed (simp_all add: register_mem_inv register_mem_fallback_inv)

text \<open>
  Property C26: as long as no range runs over the end of the 64-bit address space, the ranges of
  the main tree never overlap, nor do those of the fallback tree, and the hint of a CPU is always a
  range that is still registered, whatever ranges are registered, with or without memory left,
  unregistered and accessed.  A range may end with the last address.
\<close>

theorem mmio_ranges_disjoint:
  assumes "mmio_reachable n s"
  shows "(\<forall>t\<in>{mmio_rb_root s, mmio_rb_fallback s}. \<forall>a b x. a \<in> set_tree t \<longrightarrow> b \<in> set_tree t \<longrightarrow>
      mmio_covers x a \<longrightarrow> mmio_covers x b \<longrightarrow> a = b) \<and>
    (\<forall>e. Some e \<in> set (mmio_hint s) \<longrightarrow> e \<in> set_tree (mmio_rb_root s))"
proof -
  have i: "mmio_inv s" using mmio_reachable_inv [OF assms] by simp
  then have "a = b" if "t \<in> {mmio_rb_root s, mmio_rb_fallback s}" "a \<in> set_tree t" "b \<in> set_tree t"
    "mmio_covers x a" "mmio_covers x b" for t a b x
    using that mmio_ordered_unique [of "inorder t" a b x] by (auto simp: mmio_inv_def)
  with i show ?thesis unfolding mmio_inv_def by blast
qed

definition demo_range :: "u64 \<Rightarrow> u64 \<Rightarrow> mem_range" where
  "demo_range b n = \<lparr>mp_name = 7, mp_flags = 3, mp_handler = 1, mp_arg1 = 0, mp_arg2 = 0,
     mp_base = b, mp_size = n\<rparr>"

definition demo_mmio :: mmio_state where
  "demo_mmio = fst (access_entry (fst (register_mem (fst (register_mem (init_mem 1) True
     (demo_range 4096 16))) True (demo_range 8192 16))) 0 8200)"

lemma demo_mmio_reachable: "mmio_reachable 1 demo_mmio"
  unfolding demo_mmio_def
  by (intro mmio_reachable.access mmio_reachable.register mmio_reachable.init)
    (simp_all add: mem_range_ok_def demo_range_def)

lemmas mmio_eval = demo_mmio_def demo_range_def init_mem_def register_mem_def register_mem_int_def mmio_malloc_def
  mmio_new_range_def mmio_rb_lookup_def mmio_rb_add_def mmio_rb_range_compare_def mmio_key_def
  access_entry_def add64_def sub64_def mmio_find_def mmio_owner_def mmio_covers_def

lemma demo_mmio_hint: "mmio_hint demo_mmio = [Some (mmio_new_range 2 (demo_range 8192 16))]"
  by (simp add: mmio_eval)

theorem mmio_ranges_disjoint_witness:
  "\<exists>e. mmio_hint demo_mmio = [Some e] \<and> e \<in> set_tree (mmio_rb_root demo_mmio)"
  using mmio_ranges_disjoint [OF demo_mmio_reachable] by (simp add: demo_mmio_hint)

text \<open>
  Property C16: an access goes to the range that owns its address in the main tree, to the
  owner in the fallback tree if there is none, and fails with \<open>ESRCH\<close> otherwise, whatever
  the CPU accessed before: the answer is that of a search through the ranges one by one.
\<close>

theorem write_mem_dispatch:
  assumes "mmio_inv s" "v < length (mmio_hint s)"
  shows "\<exists>s'. mmio_inv s' \<and> mmio_rb_root s' = mmio_rb_root s \<and> mmio_rb_fallback s' = mmio_rb_fallback s \<and>
    write_mem call (s, d) v gpa val sz =
      (case mmio_owner s gpa of
         None \<Rightarrow> ((s', d), val, Inl ESRCH)
       | Some e \<Rightarrow> call (mp_handler (mr_param e)) (s', d) v 2 gpa sz val
           (mp_arg1 (mr_param e)) (mp_arg2 (mr_param e)))"
proof -
  obtain s' where "mmio_inv s'" "mmio_rb_root s' = mmio_rb_root s"
    "mmio_rb_fallback s' = mmio_rb_fallback s"
    "access_entry s v gpa = (s', case mmio_owner s gpa of None \<Rightarrow> Inl ESRCH | Some e \<Rightarrow> Inr e)"
    using access_entry_owner [OF assms] by metis
  then show ?thesis
    by (auto simp: write_mem_def access_memory_def rw_mem_cb_def split: option.splits)
qed

theorem write_mem_dispatch_witness:
  "\<exists>s'. mmio_inv s' \<and>
    write_mem (\<lambda>h w v dir a sz x p q. (w, x + h, Inr ())) (demo_mmio, 0::nat) 0 4100 41 4 =
      ((s', 0), 42, Inr ())"
proof -
  have o: "mmio_owner demo_mmio 4100 = Some (mmio_new_range 1 (demo_range 4096 16))" by (simp add: mmio_eval)
  have "mmio_inv demo_mmio" "0 < length (mmio_hint demo_mmio)"
    using mmio_reachable_inv [OF demo_mmio_reachable] by simp_all
  from write_mem_dispatch [OF this, of "\<lambda>h w v dir a sz x p q. (w, x + h, Inr ())" 0 4100 41 4]
  show ?thesis by (auto simp: o mmio_new_range_def demo_range_def)
qed

text \<open>
  The outcomes of \<open>register_mem\<close>.  A range that overlaps no other is added.  One
  whose base is free but that runs into another is refused with \<open>EEXIST\<close>.  One whose base lies
  in a registered range is not added either, yet the call reports success, so the caller
  cannot tell that its handler will never be called.
\<close>

theorem register_mem_outcome:
  assumes "mmio_inv s" "mem_range_ok m"
  defines "new \<equiv> mmio_new_range (mmio_heap s) m"
  shows "register_mem s True m =
    (if mmio_find (mp_base m) (mmio_rb_root s) \<noteq> None
     then (s\<lparr>mmio_heap := mmio_heap s + 1\<rparr>, Inr ())
     else if \<exists>e\<in>set_tree (mmio_rb_root s). mmio_overlap new e
     then (s\<lparr>mmio_heap := mmio_heap s + 1\<rparr>, Inl EEXIST)
     else (s\<lparr>mmio_rb_root := fst (RB_INSERT (mmio_rb_root s) new), mmio_heap := mmio_heap s + 1\<rparr>, Inr ()))
    \<and> (mmio_find (mp_base m) (mmio_rb_root s) = None \<longrightarrow> snd (register_mem s True m) = Inr () \<longrightarrow>
       set_tree (mmio_rb_root (fst (register_mem s True m))) = insert new (set_tree (mmio_rb_root s)))"
proof -
  have o: "mmio_ordered (inorder (mmio_rb_root s))" using assms(1) by (simp add: mmio_inv_def)
  show ?thesis
  proof (cases rule: register_mem_int_cases [OF o assms(2), of "mmio_heap s"])
    case (1 e)
    then have "mmio_find (mp_base m) (mmio_rb_root s) = Some e" using o mmio_find_eq by blast
    with 1 show ?thesis by (simp add: register_mem_def mmio_malloc_def)
  next
    case (2 e)
    then show ?thesis by (auto simp: register_mem_def mmio_malloc_def new_def)
  next
    case (3 t' as bs)
    have n: "mmio_find (mp_base m) (mmio_rb_root s) = None"
    proof (cases rule: mmio_find_cases [OF o, of "mp_base m"])
      case (1 e)
      with 3(5) assms(2) show ?thesis
        by (auto simp: mmio_overlap_def mmio_covers_def mem_range_ok_def)
    qed
    have "t' = fst (RB_INSERT (mmio_rb_root s) new)"
      using 3(1) n o
      by (cases rule: mmio_find_cases [OF o, of "mp_base m"])
        (auto simp: register_mem_int_def mmio_rb_add_def new_def Let_def split: prod.splits option.splits)
    moreover have "set_tree t' = insert new (set_tree (mmio_rb_root s))"
      using 3(2,3) by (simp add: new_def flip: set_inorder)
    ultimately show ?thesis using 3 n by (simp add: register_mem_def mmio_malloc_def new_def)
  qed
qed

theorem register_mem_outcome_witness:
  "mem_range_ok (demo_range 4104 64) \<and> snd (register_mem demo_mmio True (demo_range 4104 64)) = Inr () \<and>
   mmio_rb_root (fst (register_mem demo_mmio True (demo_range 4104 64))) = mmio_rb_root demo_mmio \<and>
   snd (register_mem demo_mmio True (demo_range 4000 200)) = Inl EEXIST"
proof -
  have i: "mmio_inv demo_mmio" using mmio_reachable_inv [OF demo_mmio_reachable] by simp
  have ok: "mem_range_ok (demo_range 4104 64)" "mem_range_ok (demo_range 4000 200)"
    by (simp_all add: mem_range_ok_def demo_range_def)
  have f: "mmio_find (mp_base (demo_range 4104 64)) (mmio_rb_root demo_mmio) \<noteq> None" by (simp add: mmio_eval)
  have g: "snd (register_mem demo_mmio True (demo_range 4000 200)) = Inl EEXIST" by (simp add: mmio_eval)
  show ?thesis using register_mem_outcome [OF i ok(1)] f g ok by simp
qed

text \<open>
  Without the condition on the ranges they may overlap.  A range that runs over the end of the
  address space and round to 40 separates the tree at 300: the range from 100 to 200 goes to its
  left, one that starts at 50 and covers it to its right.
\<close>

definition wrapped_mmio :: mmio_state where
  "wrapped_mmio = fst (register_mem (fst (register_mem (fst (register_mem (init_mem 1) True
     (demo_range 300 18446744073709551357))) True (demo_range 100 101))) True (demo_range 50 18446744073709551556))"

theorem wrapped_ranges_overlap:
  "\<exists>a b. a \<in> set_tree (mmio_rb_root wrapped_mmio) \<and> b \<in> set_tree (mmio_rb_root wrapped_mmio) \<and> a \<noteq> b \<and>
     mmio_covers 150 a \<and> mmio_covers 150 b"
  by (rule exI [of _ "mmio_new_range 2 (demo_range 100 101)"],
      rule exI [of _ "mmio_new_range 3 (demo_range 50 18446744073709551556)"])
    (simp add: wrapped_mmio_def mmio_eval)

end
