(* ===== verification/Iov.thy ===== *)
theory Iov
  imports Prelude
begin

text \<open>
  Scatter-gather vectors, \<^verbatim>\<open>src/iov.c\<close>: a request buffer is a list of segments, each a
  base address and a length.  Host memory is a map from addresses to bytes.  The
  specification is the list of addresses a vector describes, \<open>iov_addrs\<close>: seeking,
  trimming and cutting out a window are \<open>drop\<close> and \<open>take\<close> on it.
\<close>

named_theorems iov_simps
  \<comment> \<open>the address list of a vector after each operation\<close>

record iovec =
  iov_base :: nat
  iov_len :: nat

definition iov_advance :: "nat \<Rightarrow> iovec \<Rightarrow> iovec" where
  "iov_advance n v = v\<lparr>iov_base := iov_base v + n, iov_len := iov_len v - n\<rparr>"

section \<open>The operations\<close>

text \<open>
  \<open>seek_iov\<close> has two loops.  The first finds the segment the position lies in and the
  offset in it; the second copies the rest of the vector, shortening its first segment.
\<close>

fun seek_iov_scan :: "iovec list \<Rightarrow> nat \<Rightarrow> iovec list \<times> nat" where
  "seek_iov_scan [] left = ([], 0)"
| "seek_iov_scan (v # vs) left =
     (let toseek = min left (iov_len v); left = left - toseek in
      if toseek = iov_len v then seek_iov_scan vs left
      else if left = 0 then (v # vs, toseek)
      else seek_iov_scan vs left)"

fun seek_iov_emit :: "iovec list \<Rightarrow> nat \<Rightarrow> iovec list" where
  "seek_iov_emit [] remainder = []"
| "seek_iov_emit (v # vs) remainder = iov_advance remainder v # seek_iov_emit vs 0"

definition seek_iov :: "iovec list \<Rightarrow> nat \<Rightarrow> iovec list" where
  "seek_iov iov1 seek = (case seek_iov_scan iov1 seek of (vs, r) \<Rightarrow> seek_iov_emit vs r)"

definition count_iov :: "iovec list \<Rightarrow> nat" where
  "count_iov iov = fold (\<lambda>v total. add64 total (iov_len v)) iov 0"

fun truncate_iov_loop :: "iovec list \<Rightarrow> nat \<Rightarrow> nat \<Rightarrow> iovec list" where
  "truncate_iov_loop [] len done = []"
| "truncate_iov_loop (v # vs) len done =
     (let toseek = min (sub64 len done) (iov_len v); done = done + toseek in
      if toseek \<le> iov_len v then [v\<lparr>iov_len := toseek\<rparr>]
      else v # truncate_iov_loop vs len done)"

definition truncate_iov :: "iovec list \<Rightarrow> nat \<Rightarrow> iovec list" where
  "truncate_iov iov len = truncate_iov_loop iov len 0"

text \<open>
  \<open>iov_to_buf\<close> returns the new buffer (its allocation succeeds in the model) and its size;
  each round of the loop copies one segment to the position reached.
\<close>

fun iov_to_buf_loop :: "(nat \<Rightarrow> byte) \<Rightarrow> iovec list \<Rightarrow> nat \<Rightarrow> byte list \<Rightarrow> byte list" where
  "iov_to_buf_loop mem [] ptr buf = buf"
| "iov_to_buf_loop mem (v # vs) ptr buf =
     iov_to_buf_loop mem vs (ptr + iov_len v)
       (overwrite ptr (get_bytes mem (iov_base v) (iov_len v)) buf)"

definition iov_to_buf :: "(nat \<Rightarrow> byte) \<Rightarrow> iovec list \<Rightarrow> byte list \<Rightarrow> byte list \<times> nat" where
  "iov_to_buf mem iov fresh =
     (let total = count_iov iov; buf = take total (fresh @ replicate total 0) in
      (iov_to_buf_loop mem iov 0 buf, total))"

fun buf_to_iov_loop ::
  "(nat \<Rightarrow> byte) \<Rightarrow> byte list \<Rightarrow> iovec list \<Rightarrow> nat \<Rightarrow> (nat \<Rightarrow> byte) \<times> nat" where
  "buf_to_iov_loop mem buf [] off = (mem, off)"
| "buf_to_iov_loop mem buf (v # vs) off =
     (if off < length buf then
        let len = min (iov_len v) (length buf - off) in
        buf_to_iov_loop (put_bytes mem (iov_base v) (buf_slice off len buf)) buf vs (off + len)
      else (mem, off))"

definition buf_to_iov ::
  "(nat \<Rightarrow> byte) \<Rightarrow> byte list \<Rightarrow> iovec list \<Rightarrow> nat \<Rightarrow> (nat \<Rightarrow> byte) \<times> nat" where
  "buf_to_iov mem buf iov seek =
     buf_to_iov_loop mem buf (if 0 < seek then seek_iov iov seek else iov) 0"

text \<open>
  \<open>iov_trim\<close> drops whole segments and shortens the next one in place.  It returns the rest
  of the vector; the empty list is the null pointer with a count of zero.
\<close>

fun iov_trim :: "iovec list \<Rightarrow> nat \<Rightarrow> iovec list" where
  "iov_trim [] remaining = []"
| "iov_trim (v # vs) remaining =
     (if remaining = 0 then v # vs
      else if iov_len v \<le> remaining then iov_trim vs (remaining - iov_len v)
      else iov_advance remaining v # vs)"

fun iov_skip :: "iovec list \<Rightarrow> nat \<Rightarrow> iovec list \<times> nat" where
  "iov_skip [] remaining = ([], remaining)"
| "iov_skip (v # vs) remaining =
     (if iov_len v \<le> remaining then iov_skip vs (remaining - iov_len v) else (v # vs, remaining))"

fun iov_copy_loop :: "(nat \<Rightarrow> byte) \<Rightarrow> iovec list \<Rightarrow> nat \<Rightarrow> nat \<Rightarrow> nat \<Rightarrow> byte list" where
  "iov_copy_loop mem [] len remaining copied = []"
| "iov_copy_loop mem (v # vs) len remaining copied =
     (if copied < len then
        let to_copy = (if iov_len v - remaining < len - copied then iov_len v - remaining
                       else len - copied) in
        get_bytes mem (iov_base v + remaining) to_copy @
          iov_copy_loop mem vs len 0 (copied + to_copy)
      else [])"

definition iov_copy :: "(nat \<Rightarrow> byte) \<Rightarrow> nat \<Rightarrow> iovec list \<Rightarrow> nat \<Rightarrow> byte list" where
  "iov_copy mem len iov offset =
     (case iov_skip iov offset of (vs, remaining) \<Rightarrow>
        if vs = [] then [] else iov_copy_loop mem vs len remaining 0)"

fun make_iov_loop :: "iovec list \<Rightarrow> nat \<Rightarrow> nat \<Rightarrow> nat \<Rightarrow> iovec list \<times> nat" where
  "make_iov_loop [] remaining_seek remaining_len total_copied = ([], total_copied)"
| "make_iov_loop (v # vs) remaining_seek remaining_len total_copied =
     (if 0 < remaining_len then
        let to_copy = (if iov_len v - remaining_seek < remaining_len
                       then iov_len v - remaining_seek else remaining_len) in
        case make_iov_loop vs 0 (remaining_len - to_copy) (total_copied + to_copy) of
          (ws, n) \<Rightarrow> (\<lparr>iov_base = iov_base v + remaining_seek, iov_len = to_copy\<rparr> # ws, n)
      else ([], total_copied))"

definition make_iov :: "iovec list \<Rightarrow> nat \<Rightarrow> nat \<Rightarrow> iovec list \<times> nat" where
  "make_iov iov1 seek len =
     (case iov_skip iov1 seek of (vs, remaining_seek) \<Rightarrow>
        if vs = [] then ([], 0) else make_iov_loop vs remaining_seek len 0)"

section \<open>The addresses of a vector\<close>

definition iov_addrs :: "iovec list \<Rightarrow> nat list" where
  "iov_addrs iov = concat (map (\<lambda>v. [iov_base v..<iov_base v + iov_len v]) iov)"

lemma iov_addrs_simps [simp]:
  "iov_addrs [] = []"
  "iov_addrs (v # vs) = [iov_base v..<iov_base v + iov_len v] @ iov_addrs vs"
  by (simp_all add: iov_addrs_def)

lemma length_iov_addrs: "length (iov_addrs vs) = sum_list (map iov_len vs)"
  by (induction vs) auto

lemma get_bytes_addrs: "get_bytes mem b n = map mem [b..<b + n]"
  by (rule nth_equalityI) auto

lemma iov_advance_addrs [simp]:
  "iov_base (iov_advance n v) = iov_base v + n" "iov_len (iov_advance n v) = iov_len v - n"
  by (simp_all add: iov_advance_def)

lemma drop_segment: "n \<le> k \<Longrightarrow> drop n [b..<b + k] = [b + n..<b + n + (k - n)]"
  by (simp add: drop_upt)

lemma seek_iov_emit_0: "iov_addrs (seek_iov_emit vs 0) = iov_addrs vs"
  by (induction vs) auto

lemma seek_iov_emit_addrs:
  "vs \<noteq> [] \<Longrightarrow> r \<le> iov_len (hd vs) \<Longrightarrow> iov_addrs (seek_iov_emit vs r) = drop r (iov_addrs vs)"
  by (cases vs) (auto simp: seek_iov_emit_0 drop_segment)

lemma seek_iov_addrs [iov_simps]: "iov_addrs (seek_iov vs n) = drop n (iov_addrs vs)"
proof (induction vs arbitrary: n)
  case Nil
  then show ?case by (simp add: seek_iov_def)
next
  case (Cons v vs)
  show ?case
  proof (cases "iov_len v \<le> n")
    case True
    then have "seek_iov (v # vs) n = seek_iov vs (n - iov_len v)"
      by (simp add: seek_iov_def Let_def min_def)
    with Cons True show ?thesis by simp
  next
    case False
    then have "seek_iov (v # vs) n = seek_iov_emit (v # vs) n"
      by (simp add: seek_iov_def Let_def min_def)
    with False show ?thesis by (simp add: seek_iov_emit_0 drop_segment)
  qed
qed

lemma iov_trim_addrs [iov_simps]: "iov_addrs (iov_trim vs n) = drop n (iov_addrs vs)"
  by (induction vs n rule: iov_trim.induct) (auto simp: drop_segment)

lemma iov_skip_addrs:
  "iov_skip vs n = (ws, r) \<Longrightarrow> drop n (iov_addrs vs) = drop r (iov_addrs ws) \<and>
     (ws \<noteq> [] \<longrightarrow> r < iov_len (hd ws))"
  by (induction vs n rule: iov_skip.induct) (auto split: if_splits)

lemma make_iov_loop_addrs:
  assumes "vs \<noteq> [] \<Longrightarrow> r \<le> iov_len (hd vs)"
  shows "iov_addrs (fst (make_iov_loop vs r n t)) = take n (drop r (iov_addrs vs)) \<and>
    snd (make_iov_loop vs r n t) = t + length (take n (drop r (iov_addrs vs)))"
  using assms
proof (induction vs r n t rule: make_iov_loop.induct)
  case (2 v vs r n t)
  define c where "c = (if iov_len v - r < n then iov_len v - r else n)"
  show ?case
  proof (cases "0 < n")
    case True
    obtain ws m where w: "make_iov_loop vs 0 (n - c) (t + c) = (ws, m)" by fastforce
    have "iov_addrs ws = take (n - c) (iov_addrs vs) \<and> m = t + c + length (take (n - c) (iov_addrs vs))"
      using 2(1) [OF True c_def] w by simp
    with True w 2(2) show ?thesis
      by (auto simp: c_def [symmetric] Let_def drop_segment) (auto simp: c_def take_upt split: if_splits)
  qed simp
qed simp

lemma make_iov_addrs [iov_simps]:
  "iov_addrs (fst (make_iov vs s n)) = take n (drop s (iov_addrs vs))"
  "snd (make_iov vs s n) = length (take n (drop s (iov_addrs vs)))"
proof -
  obtain ws r where w: "iov_skip vs s = (ws, r)" by fastforce
  note k = iov_skip_addrs [OF w] and l = make_iov_loop_addrs [of ws r n 0]
  show "iov_addrs (fst (make_iov vs s n)) = take n (drop s (iov_addrs vs))"
    "snd (make_iov vs s n) = length (take n (drop s (iov_addrs vs)))"
    using w k l by (auto simp: make_iov_def)
qed

lemma iov_copy_loop_addrs:
  assumes "vs \<noteq> [] \<Longrightarrow> r \<le> iov_len (hd vs)"
  shows "iov_copy_loop mem vs len r c = map mem (take (len - c) (drop r (iov_addrs vs)))"
  using assms
proof (induction mem vs len r c rule: iov_copy_loop.induct)
  case (2 mem v vs len r c)
  define k where "k = (if iov_len v - r < len - c then iov_len v - r else len - c)"
  show ?case
  proof (cases "c < len")
    case True
    have "iov_copy_loop mem vs len 0 (c + k) = map mem (take (len - (c + k)) (iov_addrs vs))"
      using 2(1) [OF True k_def] by simp
    with True 2(2) show ?thesis
      by (auto simp: k_def [symmetric] Let_def drop_segment get_bytes_addrs)
        (auto simp: k_def take_upt split: if_splits)
  qed simp
qed simp

lemma iov_copy_addrs [iov_simps]: "iov_copy mem len vs off = map mem (take len (drop off (iov_addrs vs)))"
proof -
  obtain ws r where w: "iov_skip vs off = (ws, r)" by fastforce
  with iov_skip_addrs [OF w] iov_copy_loop_addrs [of ws r mem len 0] show ?thesis
    by (auto simp: iov_copy_def)
qed

lemma count_iov_acc:
  "t + sum_list (map iov_len vs) \<le> UINT64_MAX \<Longrightarrow>
   fold (\<lambda>v total. add64 total (iov_len v)) vs t = t + sum_list (map iov_len vs)"
  by (induction vs arbitrary: t) (auto simp: wrap_simps)

lemma count_iov_addrs [iov_simps]:
  "length (iov_addrs vs) \<le> UINT64_MAX \<Longrightarrow> count_iov vs = length (iov_addrs vs)"
  using count_iov_acc [of 0 vs] by (simp add: count_iov_def length_iov_addrs)

lemma iov_to_buf_loop_addrs:
  "ptr + length (iov_addrs vs) = length buf \<Longrightarrow>
   iov_to_buf_loop mem vs ptr buf = take ptr buf @ map mem (iov_addrs vs)"
  by (induction mem vs ptr buf rule: iov_to_buf_loop.induct)
    (auto simp: get_bytes_addrs overwrite_def)

lemma iov_to_buf_addrs [iov_simps]:
  "length (iov_addrs vs) \<le> UINT64_MAX \<Longrightarrow>
   iov_to_buf mem vs fresh = (map mem (iov_addrs vs), length (iov_addrs vs))"
  by (simp add: iov_to_buf_def Let_def count_iov_addrs iov_to_buf_loop_addrs)

lemma put_bytes_map_out:
  "set as \<inter> {b..<b + length bs} = {} \<Longrightarrow> map (put_bytes mem b bs) as = map mem as"
  by (auto simp: put_bytes_def)

lemma buf_to_iov_loop_result:
  assumes "buf_to_iov_loop mem buf vs off = (mem', n)" "distinct (iov_addrs vs)" "off \<le> length buf"
  shows "n = off + min (length buf - off) (length (iov_addrs vs)) \<and>
    map mem' (take (n - off) (iov_addrs vs)) = take (n - off) (drop off buf) \<and>
    (\<forall>a. a \<notin> set (take (n - off) (iov_addrs vs)) \<longrightarrow> mem' a = mem a)"
  using assms
proof (induction mem buf vs off rule: buf_to_iov_loop.induct)
  case (2 mem buf v vs off)
  define k where "k = min (iov_len v) (length buf - off)"
  define m where "m = put_bytes mem (iov_base v) (buf_slice off k buf)"
  show ?case
  proof (cases "off < length buf")
    case True
    let ?seg = "[iov_base v..<iov_base v + k]"
    have run: "buf_to_iov_loop m buf vs (off + k) = (mem', n)"
      using 2(2) True by (simp add: Let_def k_def m_def)
    have le: "off + k \<le> length buf" using True by (simp add: k_def)
    then have len: "length (buf_slice off k buf) = k" by simp
    have d: "distinct (iov_addrs vs)" "set ?seg \<inter> set (iov_addrs vs) = {}"
      using 2(3) by (auto simp: disjoint_iff k_def)
    define j where "j = n - (off + k)"
    note ih = 2(1) [OF True k_def run [unfolded m_def] d(1) le, folded j_def]
    have n: "n = off + k + j" and j: "j = min (length buf - (off + k)) (length (iov_addrs vs))"
      using ih by (auto simp: j_def)
    have tk: "take (n - off) (iov_addrs (v # vs)) = ?seg @ take j (iov_addrs vs)"
    proof (cases "iov_len v \<le> length buf - off")
      case True
      with n show ?thesis by (simp add: k_def)
    next
      case False
      with j have "k = length buf - off" "j = 0" by (simp_all add: k_def)
      with n False show ?thesis by (simp add: take_upt)
    qed
    have bk: "take (n - off) (drop off buf) = buf_slice off k buf @ take j (drop (off + k) buf)"
      using n take_add [of k j "drop off buf"] by (simp add: buf_slice_def add.commute)
    have out: "a \<notin> set (take j (iov_addrs vs)) \<Longrightarrow> mem' a = m a" for a
      using ih by (simp add: m_def)
    have "map mem' ?seg = map m ?seg"
      using d(2) by (auto intro!: out dest: in_set_takeD)
    also have "\<dots> = buf_slice off k buf"
      unfolding m_def get_bytes_addrs [symmetric] using len by simp
    finally have seg: "map mem' ?seg = buf_slice off k buf" .
    have rest: "mem' a = mem a" if "a \<notin> set ?seg" "a \<notin> set (take j (iov_addrs vs))" for a
      using out [OF that(2)] that(1) len by (auto simp: m_def put_bytes_def)
    have cnt: "n = off + min (length buf - off) (length (iov_addrs (v # vs)))"
    proof (cases "iov_len v \<le> length buf - off")
      case True
      then have "k = iov_len v" by (simp add: k_def)
      with True n j le show ?thesis by (auto simp: min_def)
    next
      case False
      with j have "k = length buf - off" "j = 0" by (simp_all add: k_def)
      with n False show ?thesis by (simp add: min_def)
    qed
    have "map mem' (take j (iov_addrs vs)) = take j (drop (off + k) buf)" using ih by simp
    with cnt seg rest show ?thesis unfolding tk bk by simp
  next
    case False
    with 2 show ?thesis by auto
  qed
qed auto

section \<open>Properties\<close>

text \<open>
  The vector operations that move through a vector agree with their
  specification on the addresses it describes: \<open>seek_iov\<close> and \<open>iov_trim\<close> drop a prefix,
  although they treat segment borders differently, and \<open>make_iov\<close> cuts out a window and
  returns its length, also when the window runs past the end.
\<close>

theorem iov_windows:
  "iov_addrs (seek_iov vs n) = drop n (iov_addrs vs) \<and>
   iov_addrs (iov_trim vs n) = drop n (iov_addrs vs) \<and>
   iov_addrs (fst (make_iov vs s n)) = take n (drop s (iov_addrs vs)) \<and>
   snd (make_iov vs s n) = length (take n (drop s (iov_addrs vs)))"
  by (simp add: iov_simps)

text \<open>
  Scatter then gather.  When the segments of a vector do not overlap,
  \<open>buf_to_iov\<close> stores as much of the buffer as fits behind the seek position, returns that
  count, and changes no other byte; \<open>iov_copy\<close> at the same position reads it back.
\<close>

theorem buf_to_iov_roundtrip:
  assumes "buf_to_iov mem buf vs seek = (mem', n)" "distinct (iov_addrs vs)"
  shows "n = min (length buf) (length (iov_addrs vs) - seek) \<and>
    iov_copy mem' n vs seek = take n buf \<and>
    (\<forall>a. a \<notin> set (take n (drop seek (iov_addrs vs))) \<longrightarrow> mem' a = mem a)"
proof -
  define ws where "ws = (if 0 < seek then seek_iov vs seek else vs)"
  have ad: "iov_addrs ws = drop seek (iov_addrs vs)"
    by (simp add: ws_def iov_simps)
  have "buf_to_iov_loop mem buf ws 0 = (mem', n)"
    using assms(1) by (simp add: buf_to_iov_def ws_def)
  from buf_to_iov_loop_result [OF this] show ?thesis
    using assms(2) unfolding ad iov_copy_addrs by (simp del: min_def) (elim conjE, simp only:)
qed

theorem buf_to_iov_roundtrip_witness:
  "let vs = [\<lparr>iov_base = 10, iov_len = 2\<rparr>, \<lparr>iov_base = 20, iov_len = 3\<rparr>];
       (mem', n) = buf_to_iov (\<lambda>_. 0) [1, 2, 3] vs 1
   in n = 3 \<and> iov_copy mem' n vs 1 = [1, 2, 3]"
  using buf_to_iov_roundtrip [of "\<lambda>_. 0" "[1, 2, 3]"
      "[\<lparr>iov_base = 10, iov_len = 2\<rparr>, \<lparr>iov_base = 20, iov_len = 3\<rparr>]" 1]
  by (auto simp: upt_rec numeral_eq_Suc split: prod.splits)

text \<open>
  \<open>truncate_iov\<close> keeps the first segment only.  Its loop leaves at the first
  segment because the bytes it takes from a segment never exceed the segment's length, so a
  vector whose first segment is shorter than the requested length loses the rest.
\<close>

theorem truncate_iov_first_segment:
  "truncate_iov (v # vs) len = [v\<lparr>iov_len := min len (iov_len v)\<rparr>]"
  by (simp add: truncate_iov_def Let_def sub64_def)

end
