(* ===== verification/Virtio_Queue.thy ===== *)
theory Virtio_Queue
  imports Iov
begin

text \<open>
  The split virtqueue of \<^verbatim>\<open>src/virtio.c\<close> and \<^verbatim>\<open>include/virtio.h\<close>: taking descriptor chains
  from the ring the guest fills, returning them through the used ring, and deciding when the
  guest gets an interrupt; and the search of the legacy register table.

  The free-running ring indices are \<open>16 word\<close>s, so the differences the code takes wrap as they
  do there.  The rings live in guest memory.  The model reads them once per call: a guest that
  changes a descriptor while a call inspects it is not covered.  Guest addresses are
  translated by \<open>vm_map_gpa\<close> of \<^verbatim>\<open>src/libvmm/hvf/vmmapi.c\<close>.
\<close>

section \<open>Guest memory\<close>

record memseg =
  ms_base :: u64
  ms_size :: u64
  ms_addr :: nat

fun vm_map_gpa :: "memseg list \<Rightarrow> u64 \<Rightarrow> nat \<Rightarrow> nat option" where
  "vm_map_gpa [] gaddr len = None"
| "vm_map_gpa (m # ms) gaddr len =
     (if ms_base m \<le> gaddr \<and> gaddr - ms_base m < ms_size m \<and> len \<le> ms_size m - (gaddr - ms_base m)
      then Some (ms_addr m + (gaddr - ms_base m))
      else vm_map_gpa ms gaddr len)"

record vring_desc =
  vd_addr :: u64
  vd_len :: u32
  vd_flags :: "16 word"
  vd_next :: nat

text \<open>The segments of a guest, and the descriptors found at a host address.\<close>

record guest =
  g_segs :: "memseg list"
  g_desc :: "nat \<Rightarrow> nat \<Rightarrow> vring_desc"

definition paddr_guest2host :: "guest \<Rightarrow> u64 \<Rightarrow> nat \<Rightarrow> nat option" where
  "paddr_guest2host ctx gaddr len = vm_map_gpa (g_segs ctx) gaddr len"

section \<open>Queues\<close>

record vring_avail =
  va_flags :: "16 word"
  va_idx :: "16 word"
  va_ring :: "nat \<Rightarrow> 16 word"

record vring_used =
  vu_flags :: "16 word"
  vu_idx :: "16 word"
  vu_ring :: "nat \<Rightarrow> nat \<times> nat"      \<comment> \<open>\<open>id\<close> and \<open>len\<close>\<close>
  vu_avail_event :: "16 word"       \<comment> \<open>the index stored behind the ring\<close>

text \<open>What the three pointers of a queue refer to.\<close>

record vring =
  vr_desc :: "nat \<Rightarrow> vring_desc"
  vr_avail :: vring_avail
  vr_used :: vring_used

record vqueue_info =
  vq_qsize :: nat
  vq_maxqsize :: nat
  vq_flags :: "16 word"
  vq_last_avail :: "16 word"
  vq_next_used :: "16 word"
  vq_save_used :: "16 word"
  vq_msix_idx :: "16 word"
  vq_pfn :: u32
  vq_desc :: "nat option"
  vq_avail :: "nat option"
  vq_used :: "nat option"
  vq_desc_gpa :: u64
  vq_used_gpa :: u64
  vq_avail_gpa :: u64
  vq_enabled :: bool

record vi_req =
  req_readable :: nat
  req_writable :: nat
  req_idx :: nat

text \<open>The capabilities a queue operation looks at: those offered and those negotiated.\<close>

record vq_caps =
  vc_hv_caps :: "64 word"
  vs_negotiated_caps :: "64 word"

definition cap_indirect :: "64 word \<Rightarrow> bool" where
  "cap_indirect caps = (caps AND 0x10000000 \<noteq> 0)"

definition cap_event_idx :: "64 word \<Rightarrow> bool" where
  "cap_event_idx caps = (caps AND 0x20000000 \<noteq> 0)"

definition vd_has_next :: "vring_desc \<Rightarrow> bool" where
  "vd_has_next d = (vd_flags d AND 1 \<noteq> 0)"

definition vd_is_write :: "vring_desc \<Rightarrow> bool" where
  "vd_is_write d = (vd_flags d AND 2 \<noteq> 0)"

definition vd_is_indirect :: "vring_desc \<Rightarrow> bool" where
  "vd_is_indirect d = (vd_flags d AND 4 \<noteq> 0)"

definition vq_ring_ready :: "vqueue_info \<Rightarrow> bool" where
  "vq_ring_ready vq = (vq_flags vq AND 1 \<noteq> 0 \<and> vq_desc vq \<noteq> None \<and> vq_avail vq \<noteq> None \<and>
     vq_used vq \<noteq> None)"

definition vq_has_descs :: "vqueue_info \<Rightarrow> vring \<Rightarrow> bool" where
  "vq_has_descs vq vr = (vq_ring_ready vq \<and> vq_last_avail vq \<noteq> va_idx (vr_avail vr))"

definition vq_kick_enable :: "vring \<Rightarrow> vring" where
  "vq_kick_enable vr =
     vr\<lparr>vr_used := (vr_used vr)\<lparr>vu_flags := vu_flags (vr_used vr) AND NOT 1\<rparr>\<rparr>"

definition vq_kick_disable :: "vring \<Rightarrow> vring" where
  "vq_kick_disable vr =
     vr\<lparr>vr_used := (vr_used vr)\<lparr>vu_flags := vu_flags (vr_used vr) OR 1\<rparr>\<rparr>"

section \<open>Taking a chain\<close>

text \<open>
  The array the caller passes is filled from its start, so it is the list of what has been
  recorded so far, and the counters of the request are kept beside it.
\<close>

record vq_acc =
  ac_iov :: "iovec list"
  ac_readable :: nat
  ac_writable :: nat

definition vq_record :: "guest \<Rightarrow> nat \<Rightarrow> nat \<Rightarrow> vring_desc \<Rightarrow> vq_acc \<Rightarrow> vq_acc" where
  "vq_record ctx n_iov i vd ac =
     (if n_iov \<le> i then ac
      else let v = \<lparr>iov_base = (case paddr_guest2host ctx (vd_addr vd) (vd_len vd) of None \<Rightarrow> 0 | Some p \<Rightarrow> p),
                    iov_len = vd_len vd\<rparr>;
               ac = ac\<lparr>ac_iov := ac_iov ac @ [v]\<rparr> in
        if \<not> vd_is_write vd then ac\<lparr>ac_readable := ac_readable ac + 1\<rparr>
        else ac\<lparr>ac_writable := ac_writable ac + 1\<rparr>)"

text \<open>
  The outcome of following a chain: the number of descriptors with what was recorded, a chain
  the code refuses, or a fault, when the table of an indirect descriptor is not in guest
  memory and the code dereferences the null pointer it got for it.
\<close>

datatype walk = Walk_Ok nat vq_acc | Walk_Bad | Walk_Fault

abbreviation (input) VQ_MAX_DESCRIPTORS :: nat where "VQ_MAX_DESCRIPTORS \<equiv> 512"

function vq_walk_indirect ::
  "guest \<Rightarrow> nat \<Rightarrow> (nat \<Rightarrow> vring_desc) \<Rightarrow> nat \<Rightarrow> nat \<Rightarrow> nat \<Rightarrow> vq_acc \<Rightarrow> walk" where
  "vq_walk_indirect ctx niov vindir n_indir nxt i ac =
     (let vp = vindir nxt in
      if vd_is_indirect vp then Walk_Bad
      else let ac = vq_record ctx niov i vp ac in
        if VQ_MAX_DESCRIPTORS < i + 1 then Walk_Bad
        else if \<not> vd_has_next vp then Walk_Ok (i + 1) ac
        else if n_indir \<le> vd_next vp then Walk_Bad
        else vq_walk_indirect ctx niov vindir n_indir (vd_next vp) (i + 1) ac)"
  by pat_completeness auto
termination
  by (relation "measure (\<lambda>(ctx, niov, t, n, nxt, i, ac). VQ_MAX_DESCRIPTORS + 1 - i)") auto

declare vq_walk_indirect.simps [simp del]

lemma vq_walk_indirect_grows:
  "vq_walk_indirect ctx niov t n nxt i ac = Walk_Ok j ac' \<Longrightarrow> i < j"
proof (induction ctx niov t n nxt i ac rule: vq_walk_indirect.induct)
  case (1 ctx niov t n nxt i ac)
  from 1(2) show ?case
    by (subst (asm) vq_walk_indirect.simps)
      (auto simp: Let_def split: if_splits dest: Suc_lessD 1(1) [OF refl _ refl])
qed

text \<open>What one entry of the ring stands for: itself, or the table it points to.\<close>

definition vq_segment ::
  "guest \<Rightarrow> vq_caps \<Rightarrow> nat \<Rightarrow> vring_desc \<Rightarrow> nat \<Rightarrow> vq_acc \<Rightarrow> walk" where
  "vq_segment ctx caps niov vdir i ac =
     (if \<not> vd_is_indirect vdir then Walk_Ok (i + 1) (vq_record ctx niov i vdir ac)
      else if \<not> cap_indirect (vc_hv_caps caps) then Walk_Bad
      else let n_indir = vd_len vdir div 16 in
        if vd_len vdir mod 16 \<noteq> 0 \<or> n_indir = 0 then Walk_Bad
        else case paddr_guest2host ctx (vd_addr vdir) (vd_len vdir) of
            None \<Rightarrow> Walk_Fault
          | Some p \<Rightarrow> vq_walk_indirect ctx niov (g_desc ctx p) n_indir 0 i ac)"

lemma vq_segment_grows: "vq_segment ctx caps niov d i ac = Walk_Ok j ac' \<Longrightarrow> i < j"
  by (auto simp: vq_segment_def Let_def split: if_splits option.splits dest: vq_walk_indirect_grows)

function vq_walk ::
  "guest \<Rightarrow> vq_caps \<Rightarrow> nat \<Rightarrow> nat \<Rightarrow> (nat \<Rightarrow> vring_desc) \<Rightarrow> nat \<Rightarrow> nat \<Rightarrow> vq_acc \<Rightarrow> walk" where
  "vq_walk ctx caps niov qsize desc nxt i ac =
     (if \<not> i < VQ_MAX_DESCRIPTORS then Walk_Bad
      else if qsize \<le> nxt then Walk_Bad
      else let vdir = desc nxt in
        case vq_segment ctx caps niov vdir i ac of
          Walk_Bad \<Rightarrow> Walk_Bad
        | Walk_Fault \<Rightarrow> Walk_Fault
        | Walk_Ok j ac \<Rightarrow>
            if \<not> vd_has_next vdir then Walk_Ok j ac
            else vq_walk ctx caps niov qsize desc (vd_next vdir) j ac)"
  by pat_completeness auto
termination
  by (relation "measure (\<lambda>(ctx, caps, niov, q, desc, nxt, i, ac). VQ_MAX_DESCRIPTORS - i)")
    (auto dest: vq_segment_grows)

declare vq_walk.simps [simp del]

datatype chain_result =
    Chain_Empty                            \<comment> \<open>returns 0\<close>
  | Chain_Bad                              \<comment> \<open>returns -1\<close>
  | Chain_Fault                            \<comment> \<open>dereferences a null pointer\<close>
  | Chain_Got nat "iovec list" vi_req      \<comment> \<open>returns the number of descriptors\<close>

definition vq_getchain ::
  "guest \<Rightarrow> vq_caps \<Rightarrow> vqueue_info \<Rightarrow> vring \<Rightarrow> nat \<Rightarrow> (vqueue_info \<times> vring) \<times> chain_result" where
  "vq_getchain ctx caps vq vr niov =
     (let idx = vq_last_avail vq; ndesc = unat (va_idx (vr_avail vr) - idx) in
      if ndesc = 0 then ((vq, vr), Chain_Empty)
      else if vq_qsize vq < ndesc then ((vq, vr), Chain_Bad)
      else
        let head = unat (va_ring (vr_avail vr) (unat idx AND (vq_qsize vq - 1)));
            vq = vq\<lparr>vq_last_avail := vq_last_avail vq + 1\<rparr> in
        case vq_walk ctx caps niov (vq_qsize vq) (vr_desc vr) head 0
            \<lparr>ac_iov = [], ac_readable = 0, ac_writable = 0\<rparr> of
          Walk_Bad \<Rightarrow> ((vq, vr), Chain_Bad)
        | Walk_Fault \<Rightarrow> ((vq, vr), Chain_Fault)
        | Walk_Ok n ac \<Rightarrow>
            ((vq, if cap_event_idx (vs_negotiated_caps caps)
                  then vr\<lparr>vr_used := (vr_used vr)\<lparr>vu_avail_event := vq_last_avail vq\<rparr>\<rparr> else vr),
             Chain_Got n (ac_iov ac)
               \<lparr>req_readable = ac_readable ac, req_writable = ac_writable ac, req_idx = head\<rparr>))"

definition vq_retchains :: "vqueue_info \<Rightarrow> 16 word \<Rightarrow> vqueue_info" where
  "vq_retchains vq n_chains = vq\<lparr>vq_last_avail := vq_last_avail vq - n_chains\<rparr>"

section \<open>Returning chains\<close>

definition vq_relchain_prepare :: "vqueue_info \<Rightarrow> vring \<Rightarrow> nat \<Rightarrow> nat \<Rightarrow> vqueue_info \<times> vring" where
  "vq_relchain_prepare vq vr idx iolen =
     (let slot = unat (vq_next_used vq) AND (vq_qsize vq - 1); vuh = vr_used vr in
      (vq\<lparr>vq_next_used := vq_next_used vq + 1\<rparr>,
       vr\<lparr>vr_used := vuh\<lparr>vu_ring := (vu_ring vuh)(slot := (idx, iolen))\<rparr>\<rparr>))"

definition vq_relchain_publish :: "vqueue_info \<Rightarrow> vring \<Rightarrow> vring" where
  "vq_relchain_publish vq vr = vr\<lparr>vr_used := (vr_used vr)\<lparr>vu_idx := vq_next_used vq\<rparr>\<rparr>"

definition vq_relchain :: "vqueue_info \<Rightarrow> vring \<Rightarrow> nat \<Rightarrow> nat \<Rightarrow> vqueue_info \<times> vring" where
  "vq_relchain vq vr idx iolen =
     (case vq_relchain_prepare vq vr idx iolen of (vq, vr) \<Rightarrow> (vq, vq_relchain_publish vq vr))"

text \<open>The second component tells whether \<open>vq_interrupt\<close> is called.\<close>

definition vq_endchains :: "vq_caps \<Rightarrow> vqueue_info \<Rightarrow> vring \<Rightarrow> bool \<Rightarrow> vqueue_info \<times> bool" where
  "vq_endchains caps vq vr used_all_avail =
     (let old_idx = vq_save_used vq; new_idx = vu_idx (vr_used vr);
          vq = vq\<lparr>vq_save_used := new_idx\<rparr>;
          intr = (if used_all_avail then True
            else if cap_event_idx (vs_negotiated_caps caps) then
              let event_idx = va_ring (vr_avail vr) (vq_qsize vq) in
              new_idx - event_idx - 1 < new_idx - old_idx
            else new_idx \<noteq> old_idx \<and> va_flags (vr_avail vr) AND 1 = 0) in
      (vq, intr))"

section \<open>The legacy register table\<close>

record config_reg =
  cr_offset :: nat
  cr_size :: nat
  cr_ro :: bool

definition config_regs :: "config_reg list" where
  "config_regs = map (\<lambda>(off, sz, ro). \<lparr>cr_offset = off, cr_size = sz, cr_ro = ro\<rparr>)
     [(0, 4, True), (4, 4, False), (8, 4, False), (12, 2, True), (14, 2, False), (16, 2, False),
      (18, 1, False), (19, 1, False), (20, 2, False), (22, 2, False)]"

text \<open>
  Binary search of a C \<open>int\<close> with unsigned bounds: \<open>hi\<close> wraps around when it is decremented below
  zero.  \<open>None\<close> is an access outside the table or a search that does not end within the fuel.
\<close>

fun vi_find_cr_loop :: "nat \<Rightarrow> int \<Rightarrow> 32 word \<Rightarrow> 32 word \<Rightarrow> config_reg option option" where
  "vi_find_cr_loop 0 offset lo hi = None"
| "vi_find_cr_loop (Suc fuel) offset lo hi =
     (if lo \<le> hi then
        let mid = drop_bit 1 (hi + lo) in
        if length config_regs \<le> unat mid then None
        else let cr = config_regs ! unat mid in
          if int (cr_offset cr) = offset then Some (Some cr)
          else if int (cr_offset cr) < offset then vi_find_cr_loop fuel offset (mid + 1) hi
          else vi_find_cr_loop fuel offset lo (mid - 1)
      else Some None)"

definition vi_find_cr :: "int \<Rightarrow> config_reg option option" where
  "vi_find_cr offset = vi_find_cr_loop 5 offset 0 (of_nat (length config_regs) - 1)"

section \<open>What a chain is\<close>

text \<open>
  The chains a driver may submit, independently of how the code walks them: the list of the
  real descriptors, those that are not indirect.
\<close>

inductive table_chain :: "(nat \<Rightarrow> vring_desc) \<Rightarrow> nat \<Rightarrow> nat \<Rightarrow> vring_desc list \<Rightarrow> bool" for t n where
  last: "\<not> vd_is_indirect (t k) \<Longrightarrow> \<not> vd_has_next (t k) \<Longrightarrow> table_chain t n k [t k]"
| more: "\<not> vd_is_indirect (t k) \<Longrightarrow> vd_has_next (t k) \<Longrightarrow> vd_next (t k) < n \<Longrightarrow>
    table_chain t n (vd_next (t k)) ds \<Longrightarrow> table_chain t n k (t k # ds)"

inductive entry_chain :: "guest \<Rightarrow> vq_caps \<Rightarrow> vring_desc \<Rightarrow> vring_desc list \<Rightarrow> bool" for ctx caps where
  direct: "\<not> vd_is_indirect d \<Longrightarrow> entry_chain ctx caps d [d]"
| indirect: "vd_is_indirect d \<Longrightarrow> cap_indirect (vc_hv_caps caps) \<Longrightarrow> vd_len d mod 16 = 0 \<Longrightarrow>
    0 < vd_len d div 16 \<Longrightarrow> paddr_guest2host ctx (vd_addr d) (vd_len d) = Some p \<Longrightarrow>
    table_chain (g_desc ctx p) (vd_len d div 16) 0 ds \<Longrightarrow> entry_chain ctx caps d ds"

inductive ring_chain ::
  "guest \<Rightarrow> vq_caps \<Rightarrow> nat \<Rightarrow> (nat \<Rightarrow> vring_desc) \<Rightarrow> nat \<Rightarrow> vring_desc list \<Rightarrow> bool"
  for ctx caps q t where
  last: "k < q \<Longrightarrow> entry_chain ctx caps (t k) ds \<Longrightarrow> \<not> vd_has_next (t k) \<Longrightarrow>
    ring_chain ctx caps q t k ds"
| more: "k < q \<Longrightarrow> entry_chain ctx caps (t k) ds \<Longrightarrow> vd_has_next (t k) \<Longrightarrow>
    ring_chain ctx caps q t (vd_next (t k)) es \<Longrightarrow> ring_chain ctx caps q t k (ds @ es)"

fun record_all :: "guest \<Rightarrow> nat \<Rightarrow> nat \<Rightarrow> vring_desc list \<Rightarrow> vq_acc \<Rightarrow> vq_acc" where
  "record_all ctx niov i [] ac = ac"
| "record_all ctx niov i (d # ds) ac = record_all ctx niov (i + 1) ds (vq_record ctx niov i d ac)"

lemma record_all_append:
  "record_all ctx niov i (ds @ es) ac = record_all ctx niov (i + length ds) es (record_all ctx niov i ds ac)"
  by (induction ds arbitrary: i ac) auto

lemma table_chain_nonempty: "table_chain t n k ds \<Longrightarrow> ds \<noteq> []"
  by (induction rule: table_chain.induct) auto

lemma entry_chain_nonempty: "entry_chain ctx caps d ds \<Longrightarrow> ds \<noteq> []"
  by (induction rule: entry_chain.induct) (auto dest: table_chain_nonempty)

lemma ring_chain_nonempty: "ring_chain ctx caps q t k ds \<Longrightarrow> ds \<noteq> []"
  by (induction rule: ring_chain.induct) (auto dest: entry_chain_nonempty)

lemma walk_indirect_sound:
  "vq_walk_indirect ctx niov t n k i ac = Walk_Ok j ac' \<Longrightarrow>
   \<exists>ds. table_chain t n k ds \<and> j = i + length ds \<and> j \<le> 512 \<and> ac' = record_all ctx niov i ds ac"
proof (induction ctx niov t n k i ac rule: vq_walk_indirect.induct)
  case (1 ctx niov t n k i ac)
  let ?ac = "vq_record ctx niov i (t k) ac"
  have g: "\<not> vd_is_indirect (t k)" "i + 1 \<le> 512"
    using 1(2) by (subst (asm) vq_walk_indirect.simps, auto simp: Let_def split: if_splits)+
  show ?case
  proof (cases "vd_has_next (t k)")
    case False
    then have "j = i + 1" "ac' = ?ac"
      using 1(2) g by (subst (asm) vq_walk_indirect.simps, auto simp: Let_def)+
    with g False show ?thesis by (intro exI [of _ "[t k]"]) (simp add: table_chain.last)
  next
    case True
    then have n: "vd_next (t k) < n"
      and w: "vq_walk_indirect ctx niov t n (vd_next (t k)) (i + 1) ?ac = Walk_Ok j ac'"
      using 1(2) g by (subst (asm) vq_walk_indirect.simps, auto simp: Let_def split: if_splits)+
    obtain ds where "table_chain t n (vd_next (t k)) ds" "j = i + 1 + length ds" "j \<le> 512"
      "ac' = record_all ctx niov (i + 1) ds ?ac"
      using 1(1) [OF refl g(1) refl _ _ _ w] g True n by auto
    with g True n show ?thesis by (intro exI [of _ "t k # ds"]) (simp add: table_chain.more)
  qed
qed

lemma walk_indirect_complete:
  "table_chain t n k ds \<Longrightarrow> i + length ds \<le> 512 \<Longrightarrow>
   vq_walk_indirect ctx niov t n k i ac = Walk_Ok (i + length ds) (record_all ctx niov i ds ac)"
  by (induction arbitrary: i ac rule: table_chain.induct)
    (subst vq_walk_indirect.simps, simp add: Let_def)+

lemma segment_sound:
  assumes "vq_segment ctx caps niov d i ac = Walk_Ok j ac'" "i < 512"
  shows "\<exists>ds. entry_chain ctx caps d ds \<and> j = i + length ds \<and> j \<le> 512 \<and> ac' = record_all ctx niov i ds ac"
proof (cases "vd_is_indirect d")
  case False
  with assms show ?thesis
    by (intro exI [of _ "[d]"]) (auto simp: vq_segment_def intro: entry_chain.direct)
next
  case True
  with assms(1) obtain p where p: "cap_indirect (vc_hv_caps caps)" "vd_len d mod 16 = 0" "0 < vd_len d div 16"
    "paddr_guest2host ctx (vd_addr d) (vd_len d) = Some p"
    "vq_walk_indirect ctx niov (g_desc ctx p) (vd_len d div 16) 0 i ac = Walk_Ok j ac'"
    by (auto simp: vq_segment_def Let_def split: if_splits option.splits)
  note entry = entry_chain.indirect [OF True p(1-4)]
  from walk_indirect_sound [OF p(5)] show ?thesis by (auto intro: entry)
qed

lemma segment_complete:
  assumes "entry_chain ctx caps d ds" "i + length ds \<le> 512"
  shows "vq_segment ctx caps niov d i ac = Walk_Ok (i + length ds) (record_all ctx niov i ds ac)"
  using assms by cases (auto simp: vq_segment_def Let_def walk_indirect_complete)

lemma walk_sound:
  "vq_walk ctx caps niov q t k i ac = Walk_Ok j ac' \<Longrightarrow>
   \<exists>ds. ring_chain ctx caps q t k ds \<and> j = i + length ds \<and> j \<le> 512 \<and> ac' = record_all ctx niov i ds ac"
proof (induction ctx caps niov q t k i ac rule: vq_walk.induct)
  case (1 ctx caps niov q t k i ac)
  have g: "i < 512" "k < q"
    using 1(2) by (subst (asm) vq_walk.simps, simp split: if_splits)+
  then obtain j1 ac1 where s: "vq_segment ctx caps niov (t k) i ac = Walk_Ok j1 ac1"
    using 1(2) by (subst (asm) vq_walk.simps) (auto simp: Let_def split: walk.splits)
  from segment_sound [OF s g(1)] obtain ds where
    d: "entry_chain ctx caps (t k) ds" "j1 = i + length ds" "j1 \<le> 512" "ac1 = record_all ctx niov i ds ac"
    by blast
  show ?case
  proof (cases "vd_has_next (t k)")
    case False
    then have "j = j1" "ac' = ac1" using 1(2) s g by (subst (asm) vq_walk.simps, simp add: Let_def)+
    with d g False show ?thesis by (blast intro: ring_chain.last)
  next
    case True
    then have w: "vq_walk ctx caps niov q t (vd_next (t k)) j1 ac1 = Walk_Ok j ac'"
      using 1(2) s g by (subst (asm) vq_walk.simps) (simp add: Let_def)
    obtain es where "ring_chain ctx caps q t (vd_next (t k)) es" "j = j1 + length es" "j \<le> 512"
      "ac' = record_all ctx niov j1 es ac1"
      using 1(1) [OF _ _ refl s _ w] g True by auto
    with d g True show ?thesis
      by (intro exI [of _ "ds @ es"]) (auto simp: record_all_append intro: ring_chain.more)
  qed
qed

lemma walk_complete:
  "ring_chain ctx caps q t k ds \<Longrightarrow> i + length ds \<le> 512 \<Longrightarrow>
   vq_walk ctx caps niov q t k i ac = Walk_Ok (i + length ds) (record_all ctx niov i ds ac)"
proof (induction arbitrary: i ac rule: ring_chain.induct)
  case (last k ds)
  then have "i < 512" using entry_chain_nonempty [of ctx caps "t k" ds] by (cases ds) auto
  with last show ?case by (subst vq_walk.simps) (simp add: Let_def segment_complete)
next
  case (more k ds es)
  then have "i < 512" using entry_chain_nonempty [of ctx caps "t k" ds] by (cases ds) auto
  with more show ?case
    by (subst vq_walk.simps) (simp add: Let_def segment_complete record_all_append add.assoc)
qed

definition desc_iovec :: "guest \<Rightarrow> vring_desc \<Rightarrow> iovec" where
  "desc_iovec ctx d = \<lparr>iov_base = (case paddr_guest2host ctx (vd_addr d) (vd_len d) of None \<Rightarrow> 0 | Some p \<Rightarrow> p),
     iov_len = vd_len d\<rparr>"

lemma record_all_eq:
  "record_all ctx niov i ds ac =
     ac\<lparr>ac_iov := ac_iov ac @ map (desc_iovec ctx) (take (niov - i) ds),
        ac_readable := ac_readable ac + length (filter (\<lambda>d. \<not> vd_is_write d) (take (niov - i) ds)),
        ac_writable := ac_writable ac + length (filter vd_is_write (take (niov - i) ds))\<rparr>"
proof (induction ds arbitrary: i ac)
  case (Cons d ds)
  show ?case
  proof (cases "niov - i")
    case 0
    with Cons show ?thesis by (simp add: vq_record_def)
  next
    case (Suc m)
    then have "niov - (i + 1) = m" "\<not> niov \<le> i" by simp_all
    with Suc Cons show ?thesis by (simp add: vq_record_def Let_def desc_iovec_def)
  qed
qed simp

section \<open>Properties\<close>

text \<open>
  Property C11: \<open>vq_getchain\<close> returns a request exactly when the guest has made between one and
  \<open>qsize\<close> entries available and the entry at the head of the available ring starts a chain of
  at most 512 real descriptors, however the guest arranged direct and indirect ones.  It then
  returns the length of the chain, the first \<open>niov\<close> of its buffers in order, and how many of
  those are readable and writable.  It always ends, also on a ring whose links form a cycle.
\<close>

theorem vq_getchain_spec:
  "snd (vq_getchain ctx caps vq vr niov) = Chain_Got n iov req \<longleftrightarrow>
   va_idx (vr_avail vr) \<noteq> vq_last_avail vq \<and>
   unat (va_idx (vr_avail vr) - vq_last_avail vq) \<le> vq_qsize vq \<and>
   req_idx req = unat (va_ring (vr_avail vr) (unat (vq_last_avail vq) AND (vq_qsize vq - 1))) \<and>
   (\<exists>ds. ring_chain ctx caps (vq_qsize vq) (vr_desc vr) (req_idx req) ds \<and>
      n = length ds \<and> n \<le> 512 \<and> iov = map (desc_iovec ctx) (take niov ds) \<and>
      req_readable req = length (filter (\<lambda>d. \<not> vd_is_write d) (take niov ds)) \<and>
      req_writable req = length (filter vd_is_write (take niov ds)))"
  (is "?l \<longleftrightarrow> ?r")
proof
  assume ?l
  then show ?r
    by (auto simp: vq_getchain_def Let_def unat_eq_0 split: if_splits walk.splits
        dest!: walk_sound simp: record_all_eq)
next
  assume ?r
  then show ?l
    by (auto simp: vq_getchain_def Let_def unat_eq_0 walk_complete [where i = 0, simplified] record_all_eq)
qed

fun relchain_all :: "vqueue_info \<Rightarrow> vring \<Rightarrow> (nat \<times> nat) list \<Rightarrow> vqueue_info \<times> vring" where
  "relchain_all vq vr [] = (vq, vr)"
| "relchain_all vq vr (e # es) =
     (case vq_relchain vq vr (fst e) (snd e) of (vq, vr) \<Rightarrow> relchain_all vq vr es)"

text \<open>The slot the \<open>j\<close>-th chain after index \<open>x\<close> goes to.\<close>

definition used_slot :: "vqueue_info \<Rightarrow> 16 word \<Rightarrow> nat \<Rightarrow> nat" where
  "used_slot vq x j = unat (x + of_nat j) mod vq_qsize vq"

lemma used_slot_eq:
  assumes "vq_qsize vq = 2 ^ k" "k \<le> 15"
  shows "used_slot vq x j = (unat x + j) mod vq_qsize vq"
proof -
  have d: "(2::nat) ^ k dvd 65536" using le_imp_power_dvd [of k 16 "2::nat"] assms(2) by simp
  have "unat (x + of_nat j) = (unat x + j) mod 65536"
    by (simp add: unat_word_ariths unat_of_nat mod_add_right_eq)
  then show ?thesis using d by (simp add: used_slot_def assms(1) mod_mod_cancel)
qed

lemma vq_relchain_used:
  assumes "vq_relchain vq vr a b = (vq', vr')" "vq_qsize vq = 2 ^ k" "k \<le> 15"
  shows "vq_qsize vq' = vq_qsize vq" "vq_next_used vq' = vq_next_used vq + 1"
    "vu_idx (vr_used vr') = vq_next_used vq'"
    "vu_ring (vr_used vr') = (vu_ring (vr_used vr))(used_slot vq (vq_next_used vq) 0 := (a, b))"
  using assms and_pow2_minus_1 [of _ k]
  by (auto simp: vq_relchain_def vq_relchain_prepare_def vq_relchain_publish_def used_slot_def Let_def)

lemma relchain_all_slots:
  assumes "relchain_all vq vr es = (vq', vr')" "vq_qsize vq = 2 ^ k" "k \<le> 15"
    "length es \<le> vq_qsize vq" "vu_idx (vr_used vr) = vq_next_used vq"
  shows "vu_idx (vr_used vr') = vq_next_used vq + of_nat (length es) \<and>
    (\<forall>j<length es. vu_ring (vr_used vr') (used_slot vq (vq_next_used vq) j) = es ! j) \<and>
    (\<forall>s. (\<forall>j<length es. s \<noteq> used_slot vq (vq_next_used vq) j) \<longrightarrow>
       vu_ring (vr_used vr') s = vu_ring (vr_used vr) s)"
  using assms
proof (induction es arbitrary: vq vr)
  case (Cons e es)
  obtain vq1 vr1 where r: "vq_relchain vq vr (fst e) (snd e) = (vq1, vr1)" by fastforce
  note u = vq_relchain_used [OF r Cons.prems(2,3)]
  have run: "relchain_all vq1 vr1 es = (vq', vr')" using Cons.prems(1) r by simp
  have q: "vq_qsize vq1 = 2 ^ k" "length es \<le> vq_qsize vq1" using u(1) Cons.prems by simp_all
  note ih = Cons.IH [OF run q(1) Cons.prems(3) q(2) u(3)]
  let ?x = "vq_next_used vq"
  have sl: "used_slot vq1 (vq_next_used vq1) j = used_slot vq ?x (Suc j)" for j
    using u(1,2) by (simp add: used_slot_def algebra_simps)
  have ne: "used_slot vq ?x 0 \<noteq> used_slot vq ?x (Suc j)" if "j < length es" for j
  proof -
    have "(unat ?x + Suc j) mod 2 ^ k \<noteq> (unat ?x) mod 2 ^ k"
      using that Cons.prems(2,4) mod_eq_dvd_iff_nat [of "unat ?x" "unat ?x + Suc j" "2 ^ k"]
      by (auto dest: dvd_imp_le)
    then show ?thesis using Cons.prems(2,3) by (simp add: used_slot_eq)
  qed
  have "vu_ring (vr_used vr') (used_slot vq ?x 0) = e"
    using ih ne sl u(4) by simp
  moreover have "\<forall>j<length es. vu_ring (vr_used vr') (used_slot vq ?x (Suc j)) = es ! j"
    using ih sl by simp
  moreover have "vu_ring (vr_used vr') s = vu_ring (vr_used vr) s"
    if "\<forall>j<length (e # es). s \<noteq> used_slot vq ?x j" for s
    using ih sl u(4) that by (metis (no_types, lifting) Suc_less_eq fun_upd_apply length_Cons zero_less_Suc)
  ultimately show ?case using ih u(2) by (auto simp: less_Suc_eq_0_disj algebra_simps)
qed simp

text \<open>Whatever the size of the ring, only the used ring, its index and the counter of the queue change.\<close>

lemma relchain_all_frame:
  "relchain_all vq vr es = (vq', vr') \<Longrightarrow>
     vq' = vq\<lparr>vq_next_used := vq_next_used vq + of_nat (length es)\<rparr> \<and> vr_desc vr' = vr_desc vr \<and>
     vr_avail vr' = vr_avail vr \<and> vu_flags (vr_used vr') = vu_flags (vr_used vr) \<and>
     vu_avail_event (vr_used vr') = vu_avail_event (vr_used vr)"
proof (induction es arbitrary: vq vr)
  case (Cons e es)
  obtain vq1 vr1 where r: "vq_relchain vq vr (fst e) (snd e) = (vq1, vr1)" by fastforce
  have 1: "vq1 = vq\<lparr>vq_next_used := vq_next_used vq + 1\<rparr>" "vr_desc vr1 = vr_desc vr" "vr_avail vr1 = vr_avail vr"
    "vu_flags (vr_used vr1) = vu_flags (vr_used vr)" "vu_avail_event (vr_used vr1) = vu_avail_event (vr_used vr)"
    using r by (auto simp: vq_relchain_def vq_relchain_prepare_def vq_relchain_publish_def Let_def)
  with Cons.IH [of vq1 vr1] Cons.prems r show ?case by (simp add: add.assoc)
qed simp

text \<open>
  Property C38: chains come back in the order they are returned.  After returning the chains
  \<open>es\<close>, at most as many as the ring has slots, the slots after the previous used index hold
  exactly \<open>es\<close> in order, every other slot is as before, and the published index has advanced
  by their number, across the wrap-around of the index.  The descriptors, the available ring, the
  flags and the event index behind the used ring, and everything in the queue but the counter of
  used entries are as they were.
\<close>

theorem relchain_all_fifo:
  assumes "relchain_all vq vr es = (vq', vr')" "vq_qsize vq = 2 ^ k" "k \<le> 15"
    "length es \<le> vq_qsize vq" "vu_idx (vr_used vr) = vq_next_used vq"
  shows "vu_idx (vr_used vr') = vu_idx (vr_used vr) + of_nat (length es) \<and>
    (\<forall>j<length es. vu_ring (vr_used vr') (used_slot vq (vu_idx (vr_used vr)) j) = es ! j) \<and>
    (\<forall>s. (\<forall>j<length es. s \<noteq> used_slot vq (vu_idx (vr_used vr)) j) \<longrightarrow>
       vu_ring (vr_used vr') s = vu_ring (vr_used vr) s) \<and>
    vr_desc vr' = vr_desc vr \<and> vr_avail vr' = vr_avail vr \<and> vu_flags (vr_used vr') = vu_flags (vr_used vr) \<and>
    vu_avail_event (vr_used vr') = vu_avail_event (vr_used vr) \<and>
    vq' = vq\<lparr>vq_next_used := vq_next_used vq + of_nat (length es)\<rparr>"
  using relchain_all_slots [OF assms] relchain_all_frame [OF assms(1)] assms(5) by simp

lemma word_sub_window: fixes x y :: "16 word" shows "x - y - 1 < x \<longleftrightarrow> y < x"
  by unat_arith

lemma window16:
  fixes new old event :: "16 word"
  shows "new - event - 1 < new - old \<longleftrightarrow> (\<exists>k < unat (new - old). event = old + of_nat k)"
proof -
  have "new - event - 1 = (new - old) - (event - old) - 1" by simp
  then have "new - event - 1 < new - old \<longleftrightarrow> event - old < new - old"
    by (simp only: word_sub_window)
  also have "\<dots> \<longleftrightarrow> (\<exists>k < unat (new - old). event = old + of_nat k)"
  proof
    assume "event - old < new - old"
    then show "\<exists>k < unat (new - old). event = old + of_nat k"
      by (intro exI [of _ "unat (event - old)"]) (simp add: word_less_nat_alt)
  next
    assume "\<exists>k < unat (new - old). event = old + of_nat k"
    then obtain k where "k < unat (new - old)" "event - old = of_nat k" by auto
    moreover have "unat (new - old) < 65536" using unsigned_less [of "new - old"] by simp
    ultimately show "event - old < new - old" by (simp add: word_less_nat_alt unat_of_nat)
  qed
  finally show ?thesis .
qed

definition demo_vq :: vqueue_info where
  "demo_vq = \<lparr>vq_qsize = 2, vq_maxqsize = 2, vq_flags = 1, vq_last_avail = 0, vq_next_used = 65535,
     vq_save_used = 65535, vq_msix_idx = 0, vq_pfn = 0, vq_desc = Some 1, vq_avail = Some 1,
     vq_used = Some 1, vq_desc_gpa = 0, vq_used_gpa = 0, vq_avail_gpa = 0, vq_enabled = True\<rparr>"

definition demo_vring :: vring where
  "demo_vring = \<lparr>vr_desc = (\<lambda>_. \<lparr>vd_addr = 0, vd_len = 0, vd_flags = 0, vd_next = 0\<rparr>),
     vr_avail = \<lparr>va_flags = 0, va_idx = 1, va_ring = (\<lambda>_. 0)\<rparr>,
     vr_used = \<lparr>vu_flags = 0, vu_idx = 65535, vu_ring = (\<lambda>_. (0, 0)), vu_avail_event = 0\<rparr>\<rparr>"

theorem relchain_all_fifo_witness:
  "let vr' = snd (relchain_all demo_vq demo_vring [(7, 10), (8, 20)]) in
   vu_idx (vr_used vr') = 1 \<and> vu_ring (vr_used vr') 1 = (7, 10) \<and> vu_ring (vr_used vr') 0 = (8, 20)"
proof -
  obtain vq' vr' where r: "relchain_all demo_vq demo_vring [(7, 10), (8, 20)] = (vq', vr')" by fastforce
  have "used_slot demo_vq 65535 0 = 1" "used_slot demo_vq 65535 1 = 0"
    by (simp_all add: used_slot_def demo_vq_def)
  with relchain_all_fifo [OF r, of 1] r show ?thesis
    by (auto simp: demo_vq_def demo_vring_def less_Suc_eq all_conj_distrib)
qed

text \<open>
  With event indices negotiated, \<open>vq_endchains\<close> interrupts the guest exactly when
  the index the guest asked to be woken at is one of those published since the last call, also
  when the indices have wrapped around in between.
\<close>

theorem vq_endchains_event_window:
  assumes "cap_event_idx (vs_negotiated_caps caps)"
  shows "snd (vq_endchains caps vq vr False) \<longleftrightarrow>
    (\<exists>k < unat (vu_idx (vr_used vr) - vq_save_used vq).
       va_ring (vr_avail vr) (vq_qsize vq) = vq_save_used vq + of_nat k)"
  using assms by (simp add: vq_endchains_def Let_def window16)

theorem vq_endchains_event_window_witness:
  "let caps = \<lparr>vc_hv_caps = 0x20000000, vs_negotiated_caps = 0x20000000\<rparr>;
       vr = demo_vring\<lparr>vr_used := (vr_used demo_vring)\<lparr>vu_idx := 1\<rparr>\<rparr>
   in cap_event_idx (vs_negotiated_caps caps) \<and> snd (vq_endchains caps demo_vq vr False)"
proof -
  have "cap_event_idx (vs_negotiated_caps \<lparr>vc_hv_caps = 0x20000000, vs_negotiated_caps = 0x20000000\<rparr>)"
    by (simp add: cap_event_idx_def)
  from this vq_endchains_event_window [OF this, of demo_vq
      "demo_vring\<lparr>vr_used := (vr_used demo_vring)\<lparr>vu_idx := 1\<rparr>\<rparr>"]
  show ?thesis by (auto simp: demo_vq_def demo_vring_def Let_def intro!: exI [of _ 1])
qed

text \<open>
  The binary search of the register table finds what a linear search finds, for every offset that
  is not negative.  For a negative one the upper bound wraps around at the first entry and the
  search reads far behind the table.
\<close>

theorem vi_find_cr_linear:
  "vi_find_cr offset =
     (if offset < 0 then None else Some (List.find (\<lambda>cr. int (cr_offset cr) = offset) config_regs))"
proof -
  have fuel: "(5::nat) = Suc (Suc (Suc (Suc (Suc 0))))" by simp
  have [simp]: "\<not> (2::32 word) \<le> 1" by (simp add: word_le_nat_alt)
  show ?thesis unfolding vi_find_cr_def fuel by (simp add: config_regs_def Let_def drop_bit_eq_div)
qed

end
