(* ===== verification/Virtio_Config.thy ===== *)
theory Virtio_Config
  imports Virtio_Queue
begin

text \<open>
  The register interface of a modern virtio device, \<^verbatim>\<open>src/virtio.c\<close>: device reset, setting up
  the rings of a queue, and the guest's reads and writes of the common configuration, of the
  notification area and of the interrupt status.

  The selected queue \<open>vs_curq\<close> is a C \<open>int\<close>.  An access to the array of queues outside its
  bounds is the result \<open>None\<close>.  The functions of the device are reached through pointers; the
  definitions take them in the record \<open>vdev_ops\<close>.  Every reset function of the devices calls
  \<open>vi_reset_dev\<close>, so only the part that concerns the device itself is in that record.
\<close>

record 'd virtio_softc = vq_caps +
  vs_queues :: "vqueue_info list"       \<comment> \<open>\<open>vc_nvq\<close> is its length\<close>
  vs_curq :: int
  vs_status :: nat
  vs_isr :: nat
  vs_lintr :: bool                      \<comment> \<open>the interrupt line of the PCI device\<close>
  vs_msix_cfg_idx :: "16 word"
  df_select :: nat
  gf_select :: nat
  vs_dev :: 'd

record 'd vdev_ops =
  vc_reset :: "'d \<Rightarrow> 'd"
  vc_apply_features :: "'d \<Rightarrow> 64 word \<Rightarrow> 'd"
  vq_notify :: "'d \<Rightarrow> nat \<Rightarrow> 'd"
  vc_cfgwrite :: "'d \<Rightarrow> u64 \<Rightarrow> nat \<Rightarrow> u64 \<Rightarrow> 'd"
  vc_cfgread :: "'d \<Rightarrow> u64 \<Rightarrow> nat \<Rightarrow> u64"

section \<open>Reset and queue setup\<close>

definition vi_capture_qsizes :: "vqueue_info list \<Rightarrow> vqueue_info list" where
  "vi_capture_qsizes = map (\<lambda>vq. if vq_maxqsize vq = 0 then vq\<lparr>vq_maxqsize := vq_qsize vq\<rparr> else vq)"

definition vq_reset :: "vqueue_info \<Rightarrow> vqueue_info" where
  "vq_reset vq =
     vq\<lparr>vq_flags := 0, vq_last_avail := 0, vq_next_used := 0, vq_save_used := 0, vq_pfn := 0,
        vq_msix_idx := 65535, vq_qsize := (if vq_maxqsize vq \<noteq> 0 then vq_maxqsize vq else vq_qsize vq),
        vq_desc := None, vq_avail := None, vq_used := None, vq_desc_gpa := 0, vq_avail_gpa := 0,
        vq_used_gpa := 0, vq_enabled := False\<rparr>"

definition vi_reset_dev :: "'d virtio_softc \<Rightarrow> 'd virtio_softc" where
  "vi_reset_dev vs =
     vs\<lparr>vs_queues := map vq_reset (vs_queues vs), vs_negotiated_caps := 0, vs_curq := 0,
        vs_lintr := (if vs_isr vs \<noteq> 0 then False else vs_lintr vs), vs_isr := 0,
        vs_msix_cfg_idx := 65535\<rparr>"

definition vi_reset :: "'d vdev_ops \<Rightarrow> 'd virtio_softc \<Rightarrow> 'd virtio_softc" where
  "vi_reset ops vs = (vi_reset_dev vs)\<lparr>vs_dev := vc_reset ops (vs_dev vs)\<rparr>"

definition vi_pci_reset :: "'d vdev_ops \<Rightarrow> 'd virtio_softc \<Rightarrow> 'd virtio_softc" where
  "vi_pci_reset ops vs = vi_reset ops (vs\<lparr>vs_status := 0\<rparr>)"

definition vq_init_fail :: "vqueue_info \<Rightarrow> vqueue_info" where
  "vq_init_fail vq = vq\<lparr>vq_flags := 0, vq_desc := None, vq_avail := None, vq_used := None\<rparr>"

definition vi_vq_init_modern :: "guest \<Rightarrow> vqueue_info \<Rightarrow> vqueue_info \<times> bool" where
  "vi_vq_init_modern ctx vq =
     (case paddr_guest2host ctx (vq_desc_gpa vq) (16 * vq_qsize vq) of
        None \<Rightarrow> (vq_init_fail vq, False)
      | Some d \<Rightarrow>
          (case paddr_guest2host ctx (vq_avail_gpa vq) (4 + 2 * (vq_qsize vq + 1)) of
             None \<Rightarrow> (vq_init_fail vq, False)
           | Some a \<Rightarrow>
               (case paddr_guest2host ctx (vq_used_gpa vq) (4 + 8 * vq_qsize vq + 2) of
                  None \<Rightarrow> (vq_init_fail vq, False)
                | Some u \<Rightarrow>
                    (vq\<lparr>vq_desc := Some d, vq_avail := Some a, vq_used := Some u, vq_flags := 1,
                        vq_last_avail := 0, vq_next_used := 0, vq_save_used := 0\<rparr>, True))))"

section \<open>Register writes\<close>

text \<open>Assignment of a 64-bit value to an \<open>int\<close>, to 16 bits, and to the halves of a 64-bit field.\<close>

definition to_int32 :: "u64 \<Rightarrow> int" where
  "to_int32 v = (let w = int (v mod 4294967296) in if w < 2147483648 then w else w - 4294967296)"

definition SETLO :: "u64 \<Rightarrow> u64 \<Rightarrow> u64" where
  "SETLO val low = ((val AND 0xFFFFFFFF00000000) OR low)"

definition SETHI :: "u64 \<Rightarrow> u64 \<Rightarrow> u64" where
  "SETHI val high = ((val AND 0xFFFFFFFF) OR (push_bit 32 high mod 18446744073709551616))"

definition powerof2 :: "u64 \<Rightarrow> bool" where
  "powerof2 x = (sub64 x 1 AND x = 0)"

definition curq_valid :: "'d virtio_softc \<Rightarrow> bool" where
  "curq_valid vs = (vs_curq vs < int (length (vs_queues vs)))"

text \<open>The comparison \<open>vs_curq < vc_nvq\<close> is all the code checks before it uses the index.\<close>

definition on_curq :: "(vqueue_info \<Rightarrow> vqueue_info) \<Rightarrow> 'd virtio_softc \<Rightarrow> 'd virtio_softc option" where
  "on_curq f vs =
     (if \<not> curq_valid vs then Some vs
      else if vs_curq vs < 0 then None
      else let i = nat (vs_curq vs) in
        Some (vs\<lparr>vs_queues := (vs_queues vs)[i := f (vs_queues vs ! i)]\<rparr>))"

definition vq_set_size :: "u64 \<Rightarrow> vqueue_info \<Rightarrow> vqueue_info" where
  "vq_set_size value vq =
     (if vq_enabled vq then vq
      else if value = 0 \<or> \<not> powerof2 value \<or> vq_maxqsize vq < value then vq
      else vq\<lparr>vq_qsize := value mod 65536\<rparr>)"

definition vq_set_enable :: "guest \<Rightarrow> vqueue_info \<Rightarrow> vqueue_info" where
  "vq_set_enable ctx vq = (case vi_vq_init_modern ctx vq of (vq, ok) \<Rightarrow> vq\<lparr>vq_enabled := ok\<rparr>)"

definition vi_pci_write_common_cfg_modern ::
  "'d vdev_ops \<Rightarrow> guest \<Rightarrow> 'd virtio_softc \<Rightarrow> u64 \<Rightarrow> u64 \<Rightarrow> 'd virtio_softc option" where
  "vi_pci_write_common_cfg_modern ops ctx vs offset value =
     (if offset = 0 then Some (vs\<lparr>df_select := value AND 0xff\<rparr>)
      else if offset = 8 then Some (vs\<lparr>gf_select := value AND 0xff\<rparr>)
      else if offset = 12 then
        let caps = unat (vs_negotiated_caps vs);
            caps = (if gf_select vs = 0 then SETLO caps value
                    else if gf_select vs = 1 then SETHI caps value else caps);
            caps = of_nat caps AND vc_hv_caps vs in
        Some (vs\<lparr>vs_negotiated_caps := caps, vs_dev := vc_apply_features ops (vs_dev vs) caps\<rparr>)
      else if offset = 16 then Some (vs\<lparr>vs_msix_cfg_idx := of_nat value\<rparr>)
      else if offset = 20 then
        let vs = vs\<lparr>vs_status := value mod 256\<rparr> in
        Some (if value = 0 then vi_reset ops vs else vs)
      else if offset = 22 then Some (vs\<lparr>vs_curq := to_int32 value\<rparr>)
      else if offset = 24 then on_curq (vq_set_size value) vs
      else if offset = 26 then on_curq (\<lambda>vq. vq\<lparr>vq_msix_idx := of_nat value\<rparr>) vs
      else if offset = 28 then
        (if value \<noteq> 0 then on_curq (vq_set_enable ctx) vs else Some vs)
      else if offset = 32 then on_curq (\<lambda>vq. vq\<lparr>vq_desc_gpa := SETLO (vq_desc_gpa vq) value\<rparr>) vs
      else if offset = 36 then on_curq (\<lambda>vq. vq\<lparr>vq_desc_gpa := SETHI (vq_desc_gpa vq) value\<rparr>) vs
      else if offset = 40 then on_curq (\<lambda>vq. vq\<lparr>vq_avail_gpa := SETLO (vq_avail_gpa vq) value\<rparr>) vs
      else if offset = 44 then on_curq (\<lambda>vq. vq\<lparr>vq_avail_gpa := SETHI (vq_avail_gpa vq) value\<rparr>) vs
      else if offset = 48 then on_curq (\<lambda>vq. vq\<lparr>vq_used_gpa := SETLO (vq_used_gpa vq) value\<rparr>) vs
      else if offset = 52 then on_curq (\<lambda>vq. vq\<lparr>vq_used_gpa := SETHI (vq_used_gpa vq) value\<rparr>) vs
      else Some vs)"

text \<open>Accesses to the device's own BAR; those to the MSI-X tables go to the PCI layer.\<close>

definition vi_pci_write_modern ::
  "'d vdev_ops \<Rightarrow> guest \<Rightarrow> 'd virtio_softc \<Rightarrow> u64 \<Rightarrow> nat \<Rightarrow> u64 \<Rightarrow> 'd virtio_softc option" where
  "vi_pci_write_modern ops ctx vs offset sz value =
     (if offset div 64 = 0 then vi_pci_write_common_cfg_modern ops ctx vs (offset mod 64) value
      else if offset div 64 = 1 then
        (if length (vs_queues vs) \<le> value then Some vs
         else if \<not> vq_ring_ready (vs_queues vs ! value) then Some vs
         else Some (vs\<lparr>vs_dev := vq_notify ops (vs_dev vs) value\<rparr>))
      else if offset div 64 = 4 then
        Some (vs\<lparr>vs_dev := vc_cfgwrite ops (vs_dev vs) (offset - 256) sz value\<rparr>)
      else Some vs)"

section \<open>Register reads\<close>

definition GETHI :: "u64 \<Rightarrow> u64" where
  "GETHI val = drop_bit 32 val mod 4294967296"

definition GETLO :: "u64 \<Rightarrow> u64" where
  "GETLO val = val mod 4294967296"

definition of_curq :: "(vqueue_info \<Rightarrow> u64) \<Rightarrow> 'd virtio_softc \<Rightarrow> u64 option" where
  "of_curq f vs =
     (if \<not> curq_valid vs then Some 0
      else if vs_curq vs < 0 then None
      else Some (f (vs_queues vs ! nat (vs_curq vs))))"

text \<open>The value of an \<open>int\<close> assigned to 64 bits.\<close>

definition of_int32 :: "int \<Rightarrow> u64" where
  "of_int32 i = nat (i mod 18446744073709551616)"

definition vi_pci_read_common_cfg_modern :: "'d virtio_softc \<Rightarrow> u64 \<Rightarrow> u64 option" where
  "vi_pci_read_common_cfg_modern vs offset =
     (if offset = 0 then Some (df_select vs)
      else if offset = 4 then
        Some (if df_select vs = 0 then GETLO (unat (vc_hv_caps vs)) else drop_bit 32 (unat (vc_hv_caps vs)))
      else if offset = 8 then Some (gf_select vs)
      else if offset = 12 then
        Some (if gf_select vs = 0 then GETLO (unat (vs_negotiated_caps vs))
              else drop_bit 32 (unat (vs_negotiated_caps vs)))
      else if offset = 16 then Some (unat (vs_msix_cfg_idx vs))
      else if offset = 18 then Some (length (vs_queues vs))
      else if offset = 20 then Some (vs_status vs)
      else if offset = 21 then Some 0
      else if offset = 22 then Some (of_int32 (vs_curq vs))
      else if offset = 24 then of_curq vq_qsize vs
      else if offset = 26 then of_curq (\<lambda>vq. unat (vq_msix_idx vq)) vs
      else if offset = 30 then Some (of_int32 (vs_curq vs))
      else if offset = 28 then of_curq (\<lambda>vq. if vq_enabled vq then 1 else 0) vs
      else if offset = 32 then of_curq (\<lambda>vq. GETLO (vq_desc_gpa vq)) vs
      else if offset = 36 then of_curq (\<lambda>vq. GETHI (vq_desc_gpa vq)) vs
      else if offset = 40 then of_curq (\<lambda>vq. GETLO (vq_avail_gpa vq)) vs
      else if offset = 44 then of_curq (\<lambda>vq. GETHI (vq_avail_gpa vq)) vs
      else if offset = 48 then of_curq (\<lambda>vq. GETLO (vq_used_gpa vq)) vs
      else if offset = 52 then of_curq (\<lambda>vq. GETHI (vq_used_gpa vq)) vs
      else Some 0)"

definition vi_pci_read_modern ::
  "'d vdev_ops \<Rightarrow> 'd virtio_softc \<Rightarrow> u64 \<Rightarrow> nat \<Rightarrow> ('d virtio_softc \<times> u64) option" where
  "vi_pci_read_modern ops vs offset sz =
     (if offset div 64 = 0 then
        (case vi_pci_read_common_cfg_modern vs (offset mod 64) of None \<Rightarrow> None | Some v \<Rightarrow> Some (vs, v))
      else if offset div 64 = 2 then
        Some (vs\<lparr>vs_isr := 0, vs_lintr := (if vs_isr vs \<noteq> 0 then False else vs_lintr vs)\<rparr>, vs_isr vs)
      else if offset div 64 = 4 then Some (vs, vc_cfgread ops (vs_dev vs) (offset - 256) sz)
      else Some (vs, 0))"

section \<open>The invariant\<close>

lemma vm_map_gpa_inside:
  "vm_map_gpa ms a n = Some p \<Longrightarrow>
   \<exists>m\<in>set ms. ms_addr m \<le> p \<and> p + n \<le> ms_addr m + ms_size m"
  by (induction ms a n rule: vm_map_gpa.induct) (auto split: if_splits)

text \<open>A block of host memory lies in one segment of the guest.\<close>

definition in_guest :: "guest \<Rightarrow> nat \<Rightarrow> nat \<Rightarrow> bool" where
  "in_guest ctx p n \<longleftrightarrow> (\<exists>m\<in>set (g_segs ctx). ms_addr m \<le> p \<and> p + n \<le> ms_addr m + ms_size m)"

lemma paddr_guest2host_inside: "paddr_guest2host ctx a n = Some p \<Longrightarrow> in_guest ctx p n"
  unfolding paddr_guest2host_def in_guest_def by (rule vm_map_gpa_inside)

text \<open>
  The size of a queue is a power of two within its maximum; when its rings are set up they lie
  in guest memory with room for that size, and the queue is marked enabled.
\<close>

definition vq_ok :: "guest \<Rightarrow> vqueue_info \<Rightarrow> bool" where
  "vq_ok ctx vq \<longleftrightarrow>
     (\<exists>k\<le>15. vq_qsize vq = 2 ^ k) \<and> (\<exists>k\<le>15. vq_maxqsize vq = 2 ^ k) \<and> vq_qsize vq \<le> vq_maxqsize vq \<and>
     (vq_ring_ready vq \<longrightarrow> vq_enabled vq) \<and>
     (\<forall>d. vq_desc vq = Some d \<longrightarrow> vq_ring_ready vq \<and> in_guest ctx d (16 * vq_qsize vq)) \<and>
     (\<forall>a. vq_avail vq = Some a \<longrightarrow> vq_ring_ready vq \<and> in_guest ctx a (4 + 2 * (vq_qsize vq + 1))) \<and>
     (\<forall>u. vq_used vq = Some u \<longrightarrow> vq_ring_ready vq \<and> in_guest ctx u (4 + 8 * vq_qsize vq + 2))"

definition virtio_inv :: "guest \<Rightarrow> 'd virtio_softc \<Rightarrow> bool" where
  "virtio_inv ctx vs \<longleftrightarrow>
     (\<forall>vq\<in>set (vs_queues vs). vq_ok ctx vq) \<and> 0 \<le> vs_curq vs \<and>
     vs_negotiated_caps vs AND NOT (vc_hv_caps vs) = 0"

lemma vq_ok_reset: "vq_ok ctx vq \<Longrightarrow> vq_ok ctx (vq_reset vq)"
  by (auto simp: vq_ok_def vq_reset_def vq_ring_ready_def)

lemma vi_reset_inv: "virtio_inv ctx vs \<Longrightarrow> virtio_inv ctx (vi_reset ops vs)"
  by (auto simp: virtio_inv_def vi_reset_def vi_reset_dev_def vq_ok_reset)

lemma and_pred_pow2: "0 < v \<Longrightarrow> v AND (v - 1) = 0 \<Longrightarrow> \<exists>k. v = 2 ^ k" for v :: nat
proof (induction v rule: less_induct)
  case (less v)
  have r: "2 * ((v div 2) AND ((v - 1) div 2)) = 0"
    using less.prems(2) and_nat_rec [of v "v - 1"] by simp
  show ?case
  proof (cases "odd v")
    case True
    then have "(v - 1) div 2 = v div 2" by presburger
    with r have "v div 2 = 0" by simp
    with True less.prems(1) have "v = 2 ^ 0" by simp
    then show ?thesis by blast
  next
    case False
    then have "(v - 1) div 2 = v div 2 - 1" "0 < v div 2" "v div 2 < v" using less.prems(1) by presburger+
    with r less.IH [of "v div 2"] obtain k where "v div 2 = 2 ^ k" by auto
    with False have "v = 2 ^ Suc k" by auto
    then show ?thesis by blast
  qed
qed

lemma vq_set_size_ok: "vq_ok ctx vq \<Longrightarrow> vq_ok ctx (vq_set_size v vq)"
proof (cases "vq_set_size v vq = vq")
  case False
  assume ok: "vq_ok ctx vq"
  have v: "\<not> vq_enabled vq" "0 < v" "powerof2 v" "v \<le> vq_maxqsize vq"
    and eq: "vq_set_size v vq = vq\<lparr>vq_qsize := v mod 65536\<rparr>"
    using False by (auto simp: vq_set_size_def split: if_splits)
  obtain m where m: "m \<le> 15" "vq_maxqsize vq = 2 ^ m" using ok by (auto simp: vq_ok_def)
  have "(2::nat) ^ m \<le> 2 ^ 15" using m(1) by (intro power_increasing) auto
  with v(4) m(2) have le: "v \<le> 2 ^ 15" by linarith
  have "sub64 v 1 = v - 1" using v(2) by (simp add: wrap_simps)
  with v(2,3) obtain k where k: "v = 2 ^ k"
    using and_pred_pow2 [of v] by (auto simp: powerof2_def and.commute)
  have "k \<le> 15"
  proof (rule ccontr)
    assume "\<not> k \<le> 15"
    then have "(2::nat) ^ 16 \<le> 2 ^ k" by (intro power_increasing) auto
    with le k show False by simp
  qed
  moreover have "v mod 65536 = v" using le by simp
  ultimately show ?thesis using ok v k m unfolding eq
    by (auto simp: vq_ok_def vq_ring_ready_def)
qed simp

lemma vq_set_enable_ok: "vq_ok ctx vq \<Longrightarrow> vq_ok ctx (vq_set_enable ctx vq)"
  by (auto simp: vq_ok_def vq_set_enable_def vi_vq_init_modern_def vq_init_fail_def vq_ring_ready_def
      split: option.splits dest: paddr_guest2host_inside)

text \<open>A write that ends, in a state with the invariant.\<close>

definition keeps_inv :: "guest \<Rightarrow> 'd virtio_softc option \<Rightarrow> bool" where
  "keeps_inv ctx r \<longleftrightarrow> (\<exists>vs. r = Some vs \<and> virtio_inv ctx vs)"

lemma keeps_inv_Some [simp]: "keeps_inv ctx (Some vs) \<longleftrightarrow> virtio_inv ctx vs"
  by (simp add: keeps_inv_def)

lemma on_curq_inv:
  assumes "virtio_inv ctx vs" "\<And>vq. vq_ok ctx vq \<Longrightarrow> vq_ok ctx (f vq)"
  shows "keeps_inv ctx (on_curq f vs)"
proof (cases "curq_valid vs")
  case True
  let ?i = "nat (vs_curq vs)"
  have i: "?i < length (vs_queues vs)" "0 \<le> vs_curq vs"
    using True assms(1) by (auto simp: curq_valid_def virtio_inv_def)
  then have "vq_ok ctx (f (vs_queues vs ! ?i))" using assms by (simp add: virtio_inv_def)
  then have "virtio_inv ctx (vs\<lparr>vs_queues := (vs_queues vs)[?i := f (vs_queues vs ! ?i)]\<rparr>)"
    using assms(1) by (auto simp: virtio_inv_def dest!: subsetD [OF set_update_subset_insert])
  with True i show ?thesis by (simp add: on_curq_def Let_def)
qed (use assms in \<open>simp add: on_curq_def\<close>)

lemma vq_field_ok [intro]:
  "vq_ok ctx vq \<Longrightarrow> vq_ok ctx (vq\<lparr>vq_msix_idx := x\<rparr>)"
  "vq_ok ctx vq \<Longrightarrow> vq_ok ctx (vq\<lparr>vq_desc_gpa := y\<rparr>)"
  "vq_ok ctx vq \<Longrightarrow> vq_ok ctx (vq\<lparr>vq_avail_gpa := y\<rparr>)"
  "vq_ok ctx vq \<Longrightarrow> vq_ok ctx (vq\<lparr>vq_used_gpa := y\<rparr>)"
  by (simp_all add: vq_ok_def vq_ring_ready_def)

lemma caps_and_subset: "(c AND h) AND NOT h = (0 :: 64 word)"
  by (rule bit_word_eqI) (auto simp: bit_simps)

text \<open>Every register but the queue selector keeps the invariant for every value.\<close>

lemma write_common_inv:
  assumes "virtio_inv ctx vs" "offset = 22 \<longrightarrow> value < 65536"
  shows "keeps_inv ctx (vi_pci_write_common_cfg_modern ops ctx vs offset value)"
proof -
  have sel: "virtio_inv ctx (vs\<lparr>vs_curq := to_int32 n\<rparr>)" if "n < 65536" for n
    using assms that by (auto simp: virtio_inv_def to_int32_def)
  have st: "virtio_inv ctx (vi_reset ops (vs\<lparr>vs_status := n\<rparr>))" for n
    using assms(1) by (intro vi_reset_inv) (simp add: virtio_inv_def)
  have caps: "virtio_inv ctx (vs\<lparr>vs_negotiated_caps := c AND vc_hv_caps vs, vs_dev := d\<rparr>)" for c d
    using assms(1) by (simp add: virtio_inv_def caps_and_subset)
  have frame: "virtio_inv ctx (vs\<lparr>df_select := n\<rparr>)" "virtio_inv ctx (vs\<lparr>gf_select := n\<rparr>)"
    "virtio_inv ctx (vs\<lparr>vs_msix_cfg_idx := x\<rparr>)" "virtio_inv ctx (vs\<lparr>vs_status := n\<rparr>)" for n x
    using assms(1) by (simp_all add: virtio_inv_def)
  note queue = on_curq_inv [OF assms(1)]
  show ?thesis
    unfolding vi_pci_write_common_cfg_modern_def Let_def
    using assms(2)
    by (simp add: sel st caps frame assms(1) queue vq_set_size_ok vq_set_enable_ok vq_field_ok)
qed

section \<open>Properties\<close>

text \<open>
  Property C12: no write of the guest to a modern device makes it use memory that is not the
  guest's.  As long as the guest selects queues with 16-bit numbers, as the register is
  defined, every write ends without an access outside the array of queues and keeps the
  invariant: the rings of every queue lie in guest memory with room for the size of the queue,
  that size is a power of two, and no capability is negotiated that was not offered.
\<close>

theorem vi_pci_write_modern_safe:
  assumes "virtio_inv ctx vs" "offset = 22 \<longrightarrow> value < 65536"
  shows "\<exists>vs'. vi_pci_write_modern ops ctx vs offset sz value = Some vs' \<and> virtio_inv ctx vs'"
proof (cases "offset div 64 = 0")
  case True
  then have o: "offset mod 64 = offset" by (simp add: div_eq_0_iff)
  show ?thesis
    using write_common_inv [OF assms, of ops] True
    by (simp add: vi_pci_write_modern_def o keeps_inv_def)
next
  case False
  with assms(1) show ?thesis by (auto simp: vi_pci_write_modern_def virtio_inv_def)
qed

definition demo_ops :: "unit vdev_ops" where
  "demo_ops = \<lparr>vc_reset = id, vc_apply_features = (\<lambda>d _. d), vq_notify = (\<lambda>d _. d),
     vc_cfgwrite = (\<lambda>d _ _ _. d), vc_cfgread = (\<lambda>_ _ _. 0)\<rparr>"

definition demo_softc :: "unit virtio_softc" where
  "demo_softc = \<lparr>vc_hv_caps = 0x30000000, vs_negotiated_caps = 0, vs_queues = [vq_reset demo_vq],
     vs_curq = 0, vs_status = 0, vs_isr = 0, vs_lintr = False, vs_msix_cfg_idx = 0, df_select = 0,
     gf_select = 0, vs_dev = ()\<rparr>"

definition demo_guest :: guest where
  "demo_guest = \<lparr>g_segs = [\<lparr>ms_base = 0, ms_size = 4096, ms_addr = 65536\<rparr>],
     g_desc = (\<lambda>_ _. \<lparr>vd_addr = 0, vd_len = 0, vd_flags = 0, vd_next = 0\<rparr>)\<rparr>"

lemma demo_softc_inv: "virtio_inv demo_guest demo_softc"
  by (auto simp: virtio_inv_def demo_softc_def vq_ok_def vq_reset_def demo_vq_def vq_ring_ready_def
      intro!: exI [of _ 1])

theorem vi_pci_write_modern_safe_witness:
  "\<exists>vs'. vi_pci_write_modern demo_ops demo_guest demo_softc 28 2 1 = Some vs' \<and>
     virtio_inv demo_guest vs' \<and> vq_desc (vs_queues vs' ! 0) = Some 65536"
proof -
  from vi_pci_write_modern_safe [OF demo_softc_inv, of 28 1 demo_ops 2] show ?thesis
    by (auto simp: vi_pci_write_modern_def vi_pci_write_common_cfg_modern_def on_curq_def curq_valid_def
        demo_softc_def vq_set_enable_def vi_vq_init_modern_def paddr_guest2host_def demo_guest_def
        vq_reset_def demo_vq_def)
qed

text \<open>
  Property C39: a 32-bit write to the queue selector breaks this.  The value \<open>0xFFFFFFFF\<close>
  becomes the queue number -1, which passes the comparison with the number of queues, so the
  next write to a register of the selected queue accesses memory in front of the array.
\<close>

theorem queue_select_negative:
  "case vi_pci_write_modern ops ctx vs 22 4 0xFFFFFFFF of
     None \<Rightarrow> False
   | Some vs' \<Rightarrow> vs_curq vs' = - 1 \<and> vi_pci_write_modern ops ctx vs' 32 4 value = None"
  by (simp add: vi_pci_write_modern_def vi_pci_write_common_cfg_modern_def to_int32_def on_curq_def
      curq_valid_def)

end
