(* ===== verification/Block_Queue.thy ===== *)
theory Block_Queue
  imports Iov
begin

text \<open>
  The request queues of the block device interface, \<^verbatim>\<open>src/block_if.c\<close>: a fixed array of
  request elements, each in the free, the pending or the busy queue, shared by the device
  threads that submit and cancel requests and by eight worker threads.

  A queue is the list of the indices of its elements.  Every function below runs with the
  mutex of the context held, so the threads are an interleaving of these functions; the one
  step outside the mutex, the end of \<open>blockif_proc\<close>, only sets the status of one element.
  A failed assertion is the result \<open>None\<close>.  A request is identified by its address.
\<close>

datatype blockop = BOP_READ | BOP_WRITE | BOP_FLUSH | BOP_DELETE

datatype blockstat = BST_FREE | BST_BLOCK | BST_PEND | BST_BUSY | BST_DONE

record blockif_req =
  br_addr :: nat
  br_iov :: "iovec list"
  br_offset :: int
  br_resid :: int

record blockif_elem =
  be_req :: "blockif_req option"
  be_op :: blockop
  be_status :: blockstat
  be_tid :: nat
  be_block :: int

record blockif_ctxt =
  bc_candelete :: bool
  bc_rdonly :: bool
  bc_size :: int
  bc_sectsz :: int
  bc_psectsz :: int
  bc_closing :: bool
  bc_paused :: bool
  bc_freeq :: "nat list"
  bc_pendq :: "nat list"
  bc_busyq :: "nat list"
  bc_reqs :: "nat \<Rightarrow> blockif_elem"

abbreviation (input) BLOCKIF_MAXREQ :: nat where "BLOCKIF_MAXREQ \<equiv> 136"
abbreviation (input) OFF_MAX :: int where "OFF_MAX \<equiv> 9223372036854775807"

section \<open>The queue operations\<close>

text \<open>A sum assigned to an \<open>off_t\<close>.\<close>

definition off_wrap :: "int \<Rightarrow> int" where
  "off_wrap i = (i + 9223372036854775808) mod 18446744073709551616 - 9223372036854775808"

definition request_end :: "blockif_req \<Rightarrow> blockop \<Rightarrow> int" where
  "request_end breq op =
     (case op of BOP_FLUSH \<Rightarrow> OFF_MAX
      | _ \<Rightarrow> fold (\<lambda>v off. off_wrap (off + int (iov_len v))) (br_iov breq) (br_offset breq))"

definition blockif_enqueue :: "blockif_ctxt \<Rightarrow> blockif_req \<Rightarrow> blockop \<Rightarrow> (blockif_ctxt \<times> bool) option" where
  "blockif_enqueue bc breq op =
     (case bc_freeq bc of
        [] \<Rightarrow> None
      | i # freeq \<Rightarrow>
          if be_status (bc_reqs bc i) \<noteq> BST_FREE then None
          else
            let hit = (\<lambda>j. be_block (bc_reqs bc j) = br_offset breq);
                status = (if list_ex hit (bc_pendq bc) \<or> list_ex hit (bc_busyq bc) then BST_BLOCK else BST_PEND);
                be = (bc_reqs bc i)\<lparr>be_req := Some breq, be_op := op, be_block := request_end breq op,
                       be_status := status\<rparr> in
            Some (bc\<lparr>bc_freeq := freeq, bc_reqs := (bc_reqs bc)(i := be), bc_pendq := bc_pendq bc @ [i]\<rparr>,
                  status = BST_PEND))"

fun first_pending :: "(nat \<Rightarrow> blockif_elem) \<Rightarrow> nat list \<Rightarrow> nat option option" where
  "first_pending reqs [] = Some None"
| "first_pending reqs (i # is) =
     (if be_status (reqs i) = BST_PEND then Some (Some i)
      else if be_status (reqs i) \<noteq> BST_BLOCK then None
      else first_pending reqs is)"

definition blockif_dequeue :: "blockif_ctxt \<Rightarrow> nat \<Rightarrow> (blockif_ctxt \<times> nat option) option" where
  "blockif_dequeue bc t =
     (case first_pending (bc_reqs bc) (bc_pendq bc) of
        None \<Rightarrow> None
      | Some None \<Rightarrow> Some (bc, None)
      | Some (Some i) \<Rightarrow>
          let be = (bc_reqs bc i)\<lparr>be_status := BST_BUSY, be_tid := t\<rparr> in
          Some (bc\<lparr>bc_pendq := remove1 i (bc_pendq bc), bc_reqs := (bc_reqs bc)(i := be),
                   bc_busyq := bc_busyq bc @ [i]\<rparr>, Some i))"

definition be_offset :: "blockif_elem \<Rightarrow> int option" where
  "be_offset be = map_option br_offset (be_req be)"

text \<open>The loop of \<open>blockif_complete\<close> that releases the requests waiting for the end of this one.\<close>

definition release_blocked :: "(nat \<Rightarrow> blockif_elem) \<Rightarrow> nat list \<Rightarrow> int \<Rightarrow> nat \<Rightarrow> blockif_elem" where
  "release_blocked reqs pendq block =
     (\<lambda>j. if j \<in> set pendq \<and> be_offset (reqs j) = Some block then (reqs j)\<lparr>be_status := BST_PEND\<rparr>
          else reqs j)"

definition blockif_complete :: "blockif_ctxt \<Rightarrow> nat \<Rightarrow> blockif_ctxt" where
  "blockif_complete bc i =
     (let be = bc_reqs bc i;
          busy = (be_status be = BST_DONE \<or> be_status be = BST_BUSY);
          busyq = (if busy then remove1 i (bc_busyq bc) else bc_busyq bc);
          pendq = (if busy then bc_pendq bc else remove1 i (bc_pendq bc));
          reqs = release_blocked (bc_reqs bc) pendq (be_block be);
          be = (reqs i)\<lparr>be_tid := 0, be_status := BST_FREE, be_req := None\<rparr> in
      bc\<lparr>bc_busyq := busyq, bc_pendq := pendq, bc_reqs := reqs(i := be), bc_freeq := bc_freeq bc @ [i]\<rparr>)"

definition blockif_empty :: "blockif_ctxt \<Rightarrow> bool" where
  "blockif_empty bc = (bc_pendq bc = [] \<and> bc_busyq bc = [])"

definition blockif_request :: "blockif_ctxt \<Rightarrow> blockif_req \<Rightarrow> blockop \<Rightarrow> (blockif_ctxt \<times> unit res) option" where
  "blockif_request bc breq op =
     (if bc_paused bc then None
      else if bc_freeq bc \<noteq> [] then
        (case blockif_enqueue bc breq op of None \<Rightarrow> None | Some (bc, wake) \<Rightarrow> Some (bc, Inr ()))
      else Some (bc, Inl E2BIG))"

definition same_req :: "blockif_ctxt \<Rightarrow> nat \<Rightarrow> nat \<Rightarrow> bool" where
  "same_req bc addr i = (map_option br_addr (be_req (bc_reqs bc i)) = Some addr)"

text \<open>
  For a request in flight the function answers \<open>EBUSY\<close>; off Linux it first interrupts the
  worker and waits, which changes no queue.
\<close>

definition blockif_cancel :: "blockif_ctxt \<Rightarrow> nat \<Rightarrow> blockif_ctxt \<times> unit res" where
  "blockif_cancel bc breq =
     (case List.find (same_req bc breq) (bc_pendq bc) of
        Some i \<Rightarrow> (blockif_complete bc i, Inr ())
      | None \<Rightarrow>
          (case List.find (same_req bc breq) (bc_busyq bc) of
             None \<Rightarrow> (bc, Inl EINVAL)
           | Some i \<Rightarrow> (bc, Inl EBUSY)))"

text \<open>The end of \<open>blockif_proc\<close>: the request has been carried out up to \<open>resid\<close>.\<close>

definition blockif_proc_end :: "blockif_ctxt \<Rightarrow> nat \<Rightarrow> int \<Rightarrow> blockif_ctxt" where
  "blockif_proc_end bc i resid =
     (let be = bc_reqs bc i in
      bc\<lparr>bc_reqs := (bc_reqs bc)(i := be\<lparr>be_req := map_option (br_resid_update (\<lambda>_. resid)) (be_req be),
           be_status := BST_DONE\<rparr>)\<rparr>)"

definition blockif_queuesz :: nat where
  "blockif_queuesz = BLOCKIF_MAXREQ - 1"

text \<open>The queues \<open>blockif_open\<close> sets up.\<close>

definition blockif_init_queues :: "blockif_ctxt \<Rightarrow> blockif_ctxt" where
  "blockif_init_queues bc =
     bc\<lparr>bc_closing := False, bc_paused := False, bc_pendq := [], bc_busyq := [],
        bc_freeq := fold (\<lambda>i q. i # q) [0..<BLOCKIF_MAXREQ] [],
        bc_reqs := (\<lambda>_. \<lparr>be_req = None, be_op = BOP_READ, be_status = BST_FREE, be_tid = 0, be_block = 0\<rparr>)\<rparr>"

section \<open>The threads\<close>

text \<open>
  One step of the system: a device submits or cancels a request, a worker takes one, the worker
  has carried it out, or the worker completes it.
\<close>

inductive blockif_step :: "blockif_ctxt \<Rightarrow> blockif_ctxt \<Rightarrow> bool" where
  request: "blockif_request bc breq op = Some (bc', r) \<Longrightarrow> blockif_step bc bc'"
| dequeue: "blockif_dequeue bc t = Some (bc', r) \<Longrightarrow> blockif_step bc bc'"
| proc: "i \<in> set (bc_busyq bc) \<Longrightarrow> be_status (bc_reqs bc i) = BST_BUSY \<Longrightarrow>
    blockif_step bc (blockif_proc_end bc i resid)"
| complete: "i \<in> set (bc_busyq bc) \<Longrightarrow> be_status (bc_reqs bc i) = BST_DONE \<Longrightarrow>
    blockif_step bc (blockif_complete bc i)"
| cancel: "blockif_step bc (fst (blockif_cancel bc breq))"

inductive blockif_reachable :: "blockif_ctxt \<Rightarrow> bool" where
  init: "blockif_reachable (blockif_init_queues bc)"
| step: "blockif_reachable bc \<Longrightarrow> blockif_step bc bc' \<Longrightarrow> blockif_reachable bc'"

section \<open>The invariant\<close>

text \<open>
  A blocked request has, in front of it or in flight, a request that ends where it begins.
  The set collects what lies in front.
\<close>

fun blocked_ok :: "(nat \<Rightarrow> blockif_elem) \<Rightarrow> nat set \<Rightarrow> nat list \<Rightarrow> bool" where
  "blocked_ok reqs S [] = True"
| "blocked_ok reqs S (i # is) =
     ((be_status (reqs i) = BST_BLOCK \<longrightarrow> (\<exists>j\<in>S. be_offset (reqs i) = Some (be_block (reqs j)))) \<and>
      blocked_ok reqs (insert i S) is)"

definition status_ok :: "blockif_ctxt \<Rightarrow> bool" where
  "status_ok bc \<longleftrightarrow>
     (\<forall>i\<in>set (bc_freeq bc). be_status (bc_reqs bc i) = BST_FREE) \<and>
     (\<forall>i\<in>set (bc_pendq bc). be_status (bc_reqs bc i) \<in> {BST_PEND, BST_BLOCK} \<and> be_req (bc_reqs bc i) \<noteq> None) \<and>
     (\<forall>i\<in>set (bc_busyq bc). be_status (bc_reqs bc i) \<in> {BST_BUSY, BST_DONE} \<and> be_req (bc_reqs bc i) \<noteq> None)"

definition queues_ok :: "blockif_ctxt \<Rightarrow> bool" where
  "queues_ok bc \<longleftrightarrow> distinct (bc_freeq bc @ bc_pendq bc @ bc_busyq bc) \<and>
     set (bc_freeq bc @ bc_pendq bc @ bc_busyq bc) = {..<BLOCKIF_MAXREQ}"

definition blockif_inv :: "blockif_ctxt \<Rightarrow> bool" where
  "blockif_inv bc \<longleftrightarrow> queues_ok bc \<and> status_ok bc \<and> \<not> bc_paused bc \<and>
     blocked_ok (bc_reqs bc) (set (bc_busyq bc)) (bc_pendq bc)"

lemma blocked_ok_append:
  "blocked_ok e S (l @ [i]) \<longleftrightarrow> blocked_ok e S l \<and>
     (be_status (e i) = BST_BLOCK \<longrightarrow> (\<exists>j\<in>S \<union> set l. be_offset (e i) = Some (be_block (e j))))"
  by (induction l arbitrary: S) auto

lemma blocked_ok_cong:
  assumes "\<And>i. i \<in> set l \<Longrightarrow> be_status (e' i) = be_status (e i) \<and> be_offset (e' i) = be_offset (e i)"
    and "\<And>i. i \<in> S \<union> set l \<Longrightarrow> be_block (e' i) = be_block (e i)"
  shows "blocked_ok e S l \<Longrightarrow> blocked_ok e' S l"
  using assms
proof (induction l arbitrary: S)
  case (Cons i l)
  then have "blocked_ok e' (insert i S) l" by auto
  with Cons show ?case by simp
qed simp

text \<open>A request that starts keeps blocking those behind it.\<close>

lemma blocked_ok_start: "blocked_ok e S l \<Longrightarrow> blocked_ok e (insert k S) (remove1 k l)"
proof (induction l arbitrary: S)
  case (Cons i l)
  show ?case
  proof (cases "i = k")
    case True
    with Cons.prems show ?thesis by simp
  next
    case False
    have "blocked_ok e (insert k (insert i S)) (remove1 k l)" using Cons by simp
    with Cons.prems False show ?thesis by (auto simp: insert_commute)
  qed
qed simp

text \<open>A request that leaves the queues releases those that waited for it.\<close>

lemma blocked_ok_leave:
  assumes "blocked_ok e S l" "distinct l" "k \<notin> S'" "S - {k} \<subseteq> S'"
    and "\<And>i. i \<in> set l \<Longrightarrow> i \<noteq> k \<Longrightarrow> be_offset (e' i) = be_offset (e i) \<and>
      be_status (e' i) = (if be_offset (e i) = Some (be_block (e k)) then BST_PEND else be_status (e i))"
    and "\<And>i. i \<noteq> k \<Longrightarrow> be_block (e' i) = be_block (e i)"
  shows "blocked_ok e' S' (remove1 k l)"
  using assms
proof (induction l arbitrary: S S')
  case (Cons i l)
  show ?case
  proof (cases "i = k")
    case True
    have "blocked_ok e' S' (remove1 k l)"
      by (rule Cons.IH [of "insert i S"]) (use Cons.prems True in auto)
    moreover have "remove1 k l = l" using True Cons.prems(2) by (simp add: remove1_idem)
    ultimately show ?thesis using True by simp
  next
    case False
    have "blocked_ok e' (insert i S') (remove1 k l)"
      by (rule Cons.IH [of "insert i S"]) (use Cons.prems False in auto)
    moreover have "\<exists>j\<in>S'. be_offset (e' i) = Some (be_block (e' j))" if "be_status (e' i) = BST_BLOCK"
    proof -
      have b: "be_status (e i) = BST_BLOCK" "be_offset (e i) \<noteq> Some (be_block (e k))"
        using that Cons.prems(5) [of i] False by (auto split: if_splits)
      then obtain j where "j \<in> S" "be_offset (e i) = Some (be_block (e j))" using Cons.prems(1) by auto
      with b Cons.prems(4) Cons.prems(5) [of i] Cons.prems(6) [of j] False show ?thesis by force
    qed
    ultimately show ?thesis using False by simp
  qed
qed simp

section \<open>Every step keeps the invariant\<close>

lemma blockif_init_inv: "blockif_inv (blockif_init_queues bc)"
  by (auto simp: blockif_inv_def blockif_init_queues_def queues_ok_def status_ok_def fold_Cons_rev)

lemma blockif_enqueue_result:
  assumes "blockif_inv bc" "bc_freeq bc \<noteq> []"
  obtains bc' wake where "blockif_enqueue bc breq op = Some (bc', wake)" "blockif_inv bc'"
    "bc_pendq bc' = bc_pendq bc @ [hd (bc_freeq bc)]" "bc_busyq bc' = bc_busyq bc"
    "be_req (bc_reqs bc' (hd (bc_freeq bc))) = Some breq"
proof -
  obtain i q where f: "bc_freeq bc = i # q" using assms(2) by (cases "bc_freeq bc") auto
  have fresh: "i \<notin> set (bc_pendq bc)" "i \<notin> set (bc_busyq bc)" "i \<notin> set q"
    and free: "be_status (bc_reqs bc i) = BST_FREE"
    using assms(1) f by (auto simp: blockif_inv_def queues_ok_def status_ok_def)
  let ?hit = "\<lambda>j. be_block (bc_reqs bc j) = br_offset breq"
  let ?st = "if list_ex ?hit (bc_pendq bc) \<or> list_ex ?hit (bc_busyq bc) then BST_BLOCK else BST_PEND"
  let ?be = "(bc_reqs bc i)\<lparr>be_req := Some breq, be_op := op, be_block := request_end breq op, be_status := ?st\<rparr>"
  let ?r = "(bc_reqs bc)(i := ?be)"
  let ?bc = "bc\<lparr>bc_freeq := q, bc_reqs := ?r, bc_pendq := bc_pendq bc @ [i]\<rparr>"
  have e: "blockif_enqueue bc breq op = Some (?bc, ?st = BST_PEND)"
    using f free by (simp add: blockif_enqueue_def Let_def)
  have "blocked_ok ?r (set (bc_busyq bc)) (bc_pendq bc)"
    by (rule blocked_ok_cong [of _ _ "bc_reqs bc"])
      (use assms(1) fresh in \<open>auto simp: blockif_inv_def be_offset_def\<close>)
  moreover have "\<exists>j\<in>set (bc_busyq bc) \<union> set (bc_pendq bc). be_offset (?r i) = Some (be_block (?r j))"
    if "be_status (?r i) = BST_BLOCK"
    using that fresh by (fastforce simp: list_ex_iff be_offset_def split: if_splits)
  ultimately have "blocked_ok ?r (set (bc_busyq bc)) (bc_pendq bc @ [i])"
    unfolding blocked_ok_append by blast
  moreover have "queues_ok ?bc" using assms(1) f by (auto simp: blockif_inv_def queues_ok_def)
  moreover have "status_ok ?bc" using assms(1) f fresh by (auto simp: blockif_inv_def status_ok_def)
  ultimately have "blockif_inv ?bc" using assms(1) by (simp add: blockif_inv_def)
  with e f show ?thesis by (intro that [of ?bc]) simp_all
qed

lemma first_pending_result:
  assumes "\<forall>i\<in>set l. be_status (e i) \<in> {BST_PEND, BST_BLOCK}"
  shows "first_pending e l = Some (List.find (\<lambda>i. be_status (e i) = BST_PEND) l)"
  using assms by (induction l) auto

lemma blockif_dequeue_result:
  assumes "blockif_inv bc"
  obtains (none) "blockif_dequeue bc t = Some (bc, None)"
      "\<forall>i\<in>set (bc_pendq bc). be_status (bc_reqs bc i) = BST_BLOCK"
  | (some) bc' i where "blockif_dequeue bc t = Some (bc', Some i)" "i \<in> set (bc_pendq bc)" "blockif_inv bc'"
      "bc_busyq bc' = bc_busyq bc @ [i]"
proof -
  have st: "\<forall>i\<in>set (bc_pendq bc). be_status (bc_reqs bc i) \<in> {BST_PEND, BST_BLOCK}"
    using assms by (auto simp: blockif_inv_def status_ok_def)
  note fp = first_pending_result [OF st]
  show ?thesis
  proof (cases "List.find (\<lambda>i. be_status (bc_reqs bc i) = BST_PEND) (bc_pendq bc)")
    case None
    then have "blockif_dequeue bc t = Some (bc, None)" using fp by (simp add: blockif_dequeue_def)
    moreover have "\<forall>i\<in>set (bc_pendq bc). be_status (bc_reqs bc i) = BST_BLOCK"
      using None st by (auto simp: find_None_iff)
    ultimately show ?thesis by (rule none)
  next
    case (Some i)
    then have i: "i \<in> set (bc_pendq bc)" by (auto simp: find_Some_iff)
    let ?r = "(bc_reqs bc)(i := (bc_reqs bc i)\<lparr>be_status := BST_BUSY, be_tid := t\<rparr>)"
    let ?bc = "bc\<lparr>bc_pendq := remove1 i (bc_pendq bc), bc_reqs := ?r, bc_busyq := bc_busyq bc @ [i]\<rparr>"
    have d: "distinct (bc_pendq bc)" "i \<notin> set (bc_busyq bc)" "i \<notin> set (bc_freeq bc)"
      using assms i by (auto simp: blockif_inv_def queues_ok_def)
    have "blocked_ok (bc_reqs bc) (insert i (set (bc_busyq bc))) (remove1 i (bc_pendq bc))"
      using assms by (intro blocked_ok_start) (simp add: blockif_inv_def)
    then have "blocked_ok ?r (insert i (set (bc_busyq bc))) (remove1 i (bc_pendq bc))"
      by (rule blocked_ok_cong [rotated 2]) (use d in \<open>auto simp: be_offset_def\<close>)
    moreover have "queues_ok ?bc" using assms i d by (auto simp: blockif_inv_def queues_ok_def)
    moreover have "status_ok ?bc" using assms i d by (auto simp: blockif_inv_def status_ok_def)
    ultimately have "blockif_inv ?bc" using assms by (simp add: blockif_inv_def)
    moreover have "blockif_dequeue bc t = Some (?bc, Some i)"
      using fp Some by (simp add: blockif_dequeue_def Let_def)
    ultimately show ?thesis using i by (intro some [of ?bc i]) simp_all
  qed
qed

lemma blockif_complete_inv:
  assumes "blockif_inv bc" "i \<in> set (bc_pendq bc) \<union> set (bc_busyq bc)"
  shows "blockif_inv (blockif_complete bc i)"
proof -
  let ?busy = "be_status (bc_reqs bc i) = BST_DONE \<or> be_status (bc_reqs bc i) = BST_BUSY"
  define bq where "bq = (if ?busy then remove1 i (bc_busyq bc) else bc_busyq bc)"
  define pq where "pq = (if ?busy then bc_pendq bc else remove1 i (bc_pendq bc))"
  define r where "r = release_blocked (bc_reqs bc) pq (be_block (bc_reqs bc i))"
  define r' where "r' = r(i := (r i)\<lparr>be_tid := 0, be_status := BST_FREE, be_req := None\<rparr>)"
  let ?bc = "bc\<lparr>bc_busyq := bq, bc_pendq := pq, bc_reqs := r', bc_freeq := bc_freeq bc @ [i]\<rparr>"
  have c: "blockif_complete bc i = ?bc"
    by (simp add: blockif_complete_def Let_def bq_def pq_def r_def r'_def)
  have dist: "distinct (bc_pendq bc)" "distinct (bc_busyq bc)" "distinct (bc_freeq bc)"
    "set (bc_pendq bc) \<inter> set (bc_busyq bc) = {}" "set (bc_freeq bc) \<inter> set (bc_pendq bc) = {}"
    "set (bc_freeq bc) \<inter> set (bc_busyq bc) = {}"
    using assms(1) by (auto simp: blockif_inv_def queues_ok_def)
  have busy: "?busy \<longleftrightarrow> i \<in> set (bc_busyq bc)"
    using assms dist by (auto simp: blockif_inv_def status_ok_def)
  have sets: "set bq = set (bc_busyq bc) - {i}" "set pq = set (bc_pendq bc) - {i}"
    "distinct bq" "distinct pq" "pq = remove1 i (bc_pendq bc)"
  proof -
    have "?busy \<Longrightarrow> i \<notin> set (bc_pendq bc)" using busy dist(4) by blast
    then show pq: "pq = remove1 i (bc_pendq bc)" by (simp add: pq_def remove1_idem)
    show "set pq = set (bc_pendq bc) - {i}" "distinct pq" using dist by (simp_all add: pq)
    show "set bq = set (bc_busyq bc) - {i}" "distinct bq" using dist busy by (simp_all add: bq_def)
  qed
  have r': "be_block (r' j) = be_block (bc_reqs bc j)"
    "j \<noteq> i \<Longrightarrow> be_req (r' j) = be_req (bc_reqs bc j)"
    "j \<noteq> i \<Longrightarrow> be_status (r' j) = (if j \<in> set pq \<and> be_offset (bc_reqs bc j) = Some (be_block (bc_reqs bc i))
        then BST_PEND else be_status (bc_reqs bc j))" for j
    by (auto simp: r'_def r_def release_blocked_def)
  have "set (bc_freeq bc) \<union> set (bc_pendq bc) \<union> set (bc_busyq bc) = {..<BLOCKIF_MAXREQ}"
    using assms(1) by (auto simp: blockif_inv_def queues_ok_def)
  then have "queues_ok ?bc"
    using assms(2) dist sets(1-4) unfolding queues_ok_def by simp blast
  moreover have "status_ok ?bc"
    unfolding status_ok_def
  proof (intro conjI ballI)
    fix j assume "j \<in> set (bc_freeq ?bc)"
    then show "be_status (bc_reqs ?bc j) = BST_FREE"
      using assms(1) dist(5) sets(2) r'(3) [of j]
      by (cases "j = i") (auto simp: blockif_inv_def status_ok_def r'_def)
  next
    fix j assume j: "j \<in> set (bc_pendq ?bc)"
    then show "be_status (bc_reqs ?bc j) \<in> {BST_PEND, BST_BLOCK}" "be_req (bc_reqs ?bc j) \<noteq> None"
      using assms(1) sets(2) r'(2,3) [of j] by (auto simp: blockif_inv_def status_ok_def)
  next
    fix j assume j: "j \<in> set (bc_busyq ?bc)"
    then have "j \<notin> set pq" using sets(1,2) dist(4) by auto
    with j show "be_status (bc_reqs ?bc j) \<in> {BST_BUSY, BST_DONE}" "be_req (bc_reqs ?bc j) \<noteq> None"
      using assms(1) sets(1) r'(2,3) [of j] by (auto simp: blockif_inv_def status_ok_def)
  qed
  moreover have "blocked_ok r' (set bq) pq"
    unfolding sets(5)
  proof (rule blocked_ok_leave)
    show "blocked_ok (bc_reqs bc) (set (bc_busyq bc)) (bc_pendq bc)"
      using assms(1) by (simp add: blockif_inv_def)
  qed (use sets dist r' in \<open>auto simp: be_offset_def\<close>)
  ultimately show ?thesis unfolding c using assms(1) by (simp add: blockif_inv_def)
qed

lemma blockif_proc_end_inv:
  assumes "blockif_inv bc" "i \<in> set (bc_busyq bc)"
  shows "blockif_inv (blockif_proc_end bc i resid)"
proof -
  let ?r = "bc_reqs (blockif_proc_end bc i resid)"
  have n: "i \<notin> set (bc_pendq bc)" "i \<notin> set (bc_freeq bc)"
    using assms by (auto simp: blockif_inv_def queues_ok_def)
  have "blocked_ok ?r (set (bc_busyq bc)) (bc_pendq bc)"
    by (rule blocked_ok_cong [of _ _ "bc_reqs bc"])
      (use assms n in \<open>auto simp: blockif_inv_def blockif_proc_end_def Let_def\<close>)
  with assms n show ?thesis
    by (auto simp: blockif_inv_def blockif_proc_end_def queues_ok_def status_ok_def Let_def)
qed

lemma blockif_step_inv: "blockif_step bc bc' \<Longrightarrow> blockif_inv bc \<Longrightarrow> blockif_inv bc'"
proof (induction rule: blockif_step.induct)
  case (request bc breq op bc' r)
  then show ?case
    by (cases "bc_freeq bc = []")
      (auto simp: blockif_request_def split: if_splits elim: blockif_enqueue_result [of bc breq op])
next
  case (dequeue bc t bc' r)
  then show ?case by (cases rule: blockif_dequeue_result [OF dequeue(2), of t]) simp_all
next
  case (cancel bc breq)
  then show ?case
    by (auto simp: blockif_cancel_def find_Some_iff intro: blockif_complete_inv split: option.splits)
qed (auto intro: blockif_complete_inv blockif_proc_end_inv)

lemma blockif_reachable_inv: "blockif_reachable bc \<Longrightarrow> blockif_inv bc"
  by (induction rule: blockif_reachable.induct) (auto intro: blockif_init_inv blockif_step_inv)

lemma blockif_inv_count:
  "blockif_inv bc \<Longrightarrow> length (bc_freeq bc) + length (bc_pendq bc) + length (bc_busyq bc) = BLOCKIF_MAXREQ"
  using distinct_card [of "bc_freeq bc @ bc_pendq bc @ bc_busyq bc"]
  by (simp add: blockif_inv_def queues_ok_def)

section \<open>Properties\<close>

text \<open>
  Property C15: however the threads interleave, every request element is in exactly one of the
  three queues, its status says in which, and a queued element always has a request.
\<close>

theorem blockif_queues_partition:
  assumes "blockif_reachable bc"
  shows "distinct (bc_freeq bc @ bc_pendq bc @ bc_busyq bc) \<and>
    set (bc_freeq bc @ bc_pendq bc @ bc_busyq bc) = {..<BLOCKIF_MAXREQ} \<and> status_ok bc"
  using blockif_reachable_inv [OF assms] by (simp add: blockif_inv_def queues_ok_def)

definition demo_req :: "int \<Rightarrow> nat \<Rightarrow> blockif_req" where
  "demo_req off n = \<lparr>br_addr = 1, br_iov = [\<lparr>iov_base = 0, iov_len = n\<rparr>], br_offset = off, br_resid = int n\<rparr>"

definition demo_bc :: blockif_ctxt where
  "demo_bc = blockif_init_queues \<lparr>bc_candelete = True, bc_rdonly = False, bc_size = 4096, bc_sectsz = 512,
     bc_psectsz = 512, bc_closing = False, bc_paused = False, bc_freeq = [], bc_pendq = [], bc_busyq = [],
     bc_reqs = (\<lambda>_. \<lparr>be_req = None, be_op = BOP_READ, be_status = BST_FREE, be_tid = 0, be_block = 0\<rparr>)\<rparr>"

text \<open>Two writes back to back: the second is blocked by the first.\<close>

definition demo_bc2 :: blockif_ctxt where
  "demo_bc2 = fst (the (blockif_request (fst (the (blockif_request demo_bc (demo_req 0 512) BOP_WRITE)))
     (demo_req 512 512) BOP_WRITE))"

lemma demo_bc_reachable: "blockif_reachable demo_bc"
  by (simp add: demo_bc_def blockif_reachable.init)

lemma demo_bc_queues:
  "bc_freeq demo_bc = rev [0..<136]" "bc_pendq demo_bc = []" "bc_busyq demo_bc = []"
  by (simp_all add: demo_bc_def blockif_init_queues_def fold_Cons_rev)

lemma demo_request:
  "blockif_reachable bc \<Longrightarrow> bc_freeq bc \<noteq> [] \<Longrightarrow>
   blockif_reachable (fst (the (blockif_request bc breq op))) \<and>
   bc_pendq (fst (the (blockif_request bc breq op))) = bc_pendq bc @ [hd (bc_freeq bc)] \<and>
   bc_busyq (fst (the (blockif_request bc breq op))) = bc_busyq bc"
  by (rule blockif_enqueue_result [OF blockif_reachable_inv, of bc breq op])
    (auto simp: blockif_request_def blockif_inv_def
      intro!: blockif_reachable.step [of bc] blockif_step.request [of bc breq op]
      dest: blockif_reachable_inv)

lemma demo_bc2_facts:
  "blockif_reachable demo_bc2" "bc_busyq demo_bc2 = []" "bc_pendq demo_bc2 \<noteq> []"
  "length (bc_pendq demo_bc2) = 2"
proof -
  let ?b = "fst (the (blockif_request demo_bc (demo_req 0 512) BOP_WRITE))"
  have 1: "blockif_reachable ?b" "length (bc_pendq ?b) = 1" "bc_busyq ?b = []"
    using demo_request [OF demo_bc_reachable, of "demo_req 0 512" BOP_WRITE] by (auto simp: demo_bc_queues)
  then have "bc_freeq ?b \<noteq> []"
    using blockif_inv_count [OF blockif_reachable_inv [OF 1(1)]] by auto
  with 1 show "blockif_reachable demo_bc2" "bc_busyq demo_bc2 = []" "bc_pendq demo_bc2 \<noteq> []"
    "length (bc_pendq demo_bc2) = 2"
    using demo_request [OF 1(1), of "demo_req 512 512" BOP_WRITE] unfolding demo_bc2_def by auto
qed

theorem blockif_queues_partition_witness:
  "status_ok demo_bc2 \<and> distinct (bc_freeq demo_bc2 @ bc_pendq demo_bc2 @ bc_busyq demo_bc2)"
  using blockif_queues_partition [OF demo_bc2_facts(1)] by simp



text \<open>
  The capacity a device is told is safe.  A device with no more than
  \<open>blockif_queuesz\<close> requests outstanding can always submit another one; the request is queued
  last and no assertion fails.  With the array full the answer is \<open>E2BIG\<close> and nothing changes.
\<close>

theorem blockif_request_capacity:
  assumes "blockif_reachable bc"
  shows "(length (bc_pendq bc) + length (bc_busyq bc) \<le> blockif_queuesz \<longrightarrow>
      (\<exists>bc' i. blockif_request bc breq op = Some (bc', Inr ()) \<and> bc_pendq bc' = bc_pendq bc @ [i] \<and>
         be_req (bc_reqs bc' i) = Some breq)) \<and>
    (blockif_queuesz < length (bc_pendq bc) + length (bc_busyq bc) \<longrightarrow>
      blockif_request bc breq op = Some (bc, Inl E2BIG))"
proof -
  have inv: "blockif_inv bc" using assms(1) by (rule blockif_reachable_inv)
  note count = blockif_inv_count [OF inv]
  have np: "\<not> bc_paused bc" using inv by (simp add: blockif_inv_def)
  show ?thesis
  proof (cases "bc_freeq bc = []")
    case True
    with count np show ?thesis by (simp add: blockif_queuesz_def blockif_request_def)
  next
    case False
    then have "0 < length (bc_freeq bc)" by simp
    with count have "length (bc_pendq bc) + length (bc_busyq bc) \<le> blockif_queuesz"
      unfolding blockif_queuesz_def by linarith
    moreover obtain bc' wake where "blockif_enqueue bc breq op = Some (bc', wake)"
      "bc_pendq bc' = bc_pendq bc @ [hd (bc_freeq bc)]" "be_req (bc_reqs bc' (hd (bc_freeq bc))) = Some breq"
      using blockif_enqueue_result [OF inv False, of breq op] by metis
    ultimately show ?thesis using False np by (simp add: blockif_request_def)
  qed
qed

theorem blockif_request_capacity_witness:
  "length (bc_pendq demo_bc2) = 2 \<and>
   (\<exists>bc' i. blockif_request demo_bc2 (demo_req 0 1) BOP_READ = Some (bc', Inr ()) \<and>
      bc_pendq bc' = bc_pendq demo_bc2 @ [i])"
  using blockif_request_capacity [OF demo_bc2_facts(1), of "demo_req 0 1" BOP_READ] demo_bc2_facts
  by (auto simp: blockif_queuesz_def)

section \<open>Disk geometry\<close>

text \<open>
  \<open>blockif_chs\<close>: cylinders, heads and sectors for a size, with the variables at the width the
  code gives them: \<open>heads\<close> and \<open>secpt\<close> have 8 and 16 bits.
\<close>

definition blockif_chs :: "blockif_ctxt \<Rightarrow> nat \<times> nat \<times> nat" where
  "blockif_chs bc =
     (let sectors = nat (bc_size bc div bc_sectsz bc);
          sectors = (if 65535 * 16 * 255 < sectors then 65535 * 16 * 255 else sectors);
          (secpt, heads, hcyl) =
            (if 65536 * 16 * 63 \<le> sectors then (255, 16, sectors div 255)
             else
               let hcyl = sectors div 17; heads = ((hcyl + 1023) div 1024) mod 256;
                   heads = (if heads < 4 then 4 else heads);
                   (secpt, heads, hcyl) =
                     (if heads * 1024 \<le> hcyl \<or> 16 < heads then (31, 16, sectors div 31)
                      else (17, heads, hcyl)) in
               if heads * 1024 \<le> hcyl then (63, 16, sectors div 63) else (secpt, heads, hcyl)) in
      ((hcyl div heads) mod 65536, heads mod 256, secpt mod 256))"

text \<open>The same algorithm over unbounded numbers, as the VHD specification gives it.\<close>

definition vhd_geometry :: "nat \<Rightarrow> nat \<times> nat \<times> nat" where
  "vhd_geometry n =
     (let s = min n (65535 * 16 * 255) in
      if 65536 * 16 * 63 \<le> s then (s div 255 div 16, 16, 255)
      else
        let h17 = max 4 ((s div 17 + 1023) div 1024) in
        if s div 17 < h17 * 1024 \<and> h17 \<le> 16 then (s div 17 div h17, h17, 17)
        else if s div 31 < 16 * 1024 then (s div 31 div 16, 16, 31)
        else (s div 63 div 16, 16, 63))"

lemma div_div_mult_le: "x div a div b * b * a \<le> (x::nat)"
  using div_times_le [of "x div a" b] div_times_le [of x a] mult_le_mono1 [of "x div a div b * b" "x div a" a]
  by linarith

lemma vhd_geometry_cases:
  assumes "vhd_geometry n = (c, h, s)"
  obtains t where "t \<le> n" "t \<le> 267382800" "c = t div s div h" "c < 65536" "h \<le> 16" "s \<le> 255"
proof -
  define t where "t = min n (65535 * 16 * 255)"
  define h17 where "h17 = max 4 ((t div 17 + 1023) div 1024)"
  have t: "t \<le> n" "t \<le> 267382800" by (auto simp: t_def)
  have lt: "t div 17 div h17 < 1024" if "t div 17 < h17 * 1024"
    using that by (simp add: less_mult_imp_div_less mult.commute)
  note g = assms [unfolded vhd_geometry_def Let_def t_def [symmetric] h17_def [symmetric]]
  have two: "t div a div b < 65536" if "t < 65536 * (a * b)" "0 < a * b" for a b
    using that by (simp add: less_mult_imp_div_less flip: div_mult2_eq)
  show ?thesis
  proof (cases "65536 * 16 * 63 \<le> t")
    case True
    with g have "c = t div 255 div 16" "h = 16" "s = 255" by simp_all
    with t two [of 255 16] show ?thesis by (intro that [of t]) simp_all
  next
    case small: False
    show ?thesis
    proof (cases "t div 17 < h17 * 1024 \<and> h17 \<le> 16")
      case True
      with g small have "c = t div 17 div h17" "h = h17" "s = 17" by auto
      with t lt True show ?thesis by (intro that [of t]) simp_all
    next
      case False
      note no17 = False
      show ?thesis
      proof (cases "t div 31 < 16 * 1024")
        case True
        with g small no17 have "c = t div 31 div 16" "h = 16" "s = 31" by auto
        moreover have "t div 31 div 16 < 65536"
          using True div_le_dividend [of "t div 31" 16] by linarith
        ultimately show ?thesis using t by (intro that [of t]) simp_all
      next
        case False
        with g small no17 have "c = t div 63 div 16" "h = 16" "s = 63" by auto
        with t small two [of 63 16] show ?thesis by (intro that [of t]) simp_all
      qed
    qed
  qed
qed

lemma heads_wrap:
  fixes hcyl :: nat
  assumes "256 \<le> (hcyl + 1023) div 1024"
  shows "16384 \<le> hcyl" "16 < (hcyl + 1023) div 1024"
  using assms by linarith+

text \<open>When the head count wraps, the disk is too large for 17 sectors per track anyway.\<close>

lemma chs_unbounded:
  "blockif_chs bc =
     (case vhd_geometry (nat (bc_size bc div bc_sectsz bc)) of (c, h, s) \<Rightarrow> (c mod 65536, h mod 256, s mod 256))"
proof -
  define t where "t = min (nat (bc_size bc div bc_sectsz bc)) (65535 * 16 * 255)"
  define a where "a = (t div 17 + 1023) div 1024"
  have t: "(if 65535 * 16 * 255 < nat (bc_size bc div bc_sectsz bc) then 65535 * 16 * 255
      else nat (bc_size bc div bc_sectsz bc)) = t"
    by (auto simp: t_def)
  show ?thesis
  proof (cases "a < 256")
    case True
    then show ?thesis
      unfolding blockif_chs_def vhd_geometry_def Let_def t t_def [symmetric] a_def [symmetric]
      by (auto simp: max_def)
  next
    case False
    then have "16384 \<le> t div 17" "16 < a" using heads_wrap [of "t div 17"] by (simp_all add: a_def)
    then show ?thesis
      unfolding blockif_chs_def vhd_geometry_def Let_def t t_def [symmetric] a_def [symmetric]
      by (auto simp: max_def)
  qed
qed

text \<open>
  The geometry reported for a disk is that of the VHD algorithm over unbounded
  numbers: neither the 8-bit head count, which does wrap for large disks, nor the 16-bit
  cylinder count changes the result.  The geometry never claims more sectors than the disk has.
\<close>

theorem blockif_chs_vhd:
  "blockif_chs bc = vhd_geometry (nat (bc_size bc div bc_sectsz bc)) \<and>
   (case blockif_chs bc of (c, h, s) \<Rightarrow>
      c < 65536 \<and> h \<le> 16 \<and> s \<le> 255 \<and> c * h * s \<le> nat (bc_size bc div bc_sectsz bc))"
proof -
  let ?n = "nat (bc_size bc div bc_sectsz bc)"
  obtain c h s where g: "vhd_geometry ?n = (c, h, s)" by (cases "vhd_geometry ?n")
  obtain t where t: "t \<le> ?n" "c = t div s div h" "c < 65536" "h \<le> 16" "s \<le> 255"
    using vhd_geometry_cases [OF g] by metis
  have "c * h * s \<le> ?n" using div_div_mult_le [of t s h] t(1,2) by simp
  moreover have "blockif_chs bc = (c mod 65536, h mod 256, s mod 256)"
    using chs_unbounded [of bc] g by simp
  ultimately show ?thesis using g t by simp
qed

end
