(* ===== verification/Block_IO.thy ===== *)
theory Block_IO
  imports Block_Queue Image_Layers
begin

text \<open>
  The work behind a block request, \<^verbatim>\<open>src/block_if.c\<close>: \<open>blockif_proc\<close> moves data between the
  scatter-gather vector of the request and the image chain.  Host memory is a map from addresses
  to bytes.  The trace counters are left out.
\<close>

type_synonym disk = "image_state scorpi_image_chain"

text \<open>An \<open>off_t\<close> passed as \<open>uint64_t\<close>.\<close>

definition u64_of_off :: "int \<Rightarrow> u64" where
  "u64_of_off i = nat (i mod 18446744073709551616)"

fun blockif_read_loop ::
  "disk \<Rightarrow> (nat \<Rightarrow> byte) \<Rightarrow> iovec list \<Rightarrow> int \<Rightarrow> nat \<Rightarrow> (disk \<times> (nat \<Rightarrow> byte) \<times> nat) \<times> unit res" where
  "blockif_read_loop c mem [] offset resid = ((c, mem, resid), Inr ())"
| "blockif_read_loop c mem (v # vs) offset resid =
     (if \<not> 0 < resid then ((c, mem, resid), Inr ())
      else let len = min resid (iov_len v) in
        if len = 0 then blockif_read_loop c mem vs offset resid
        else case scorpi_image_chain_read c (u64_of_off offset) len of
            (c, Inl e) \<Rightarrow> ((c, mem, resid), Inl e)
          | (c, Inr bs) \<Rightarrow>
              blockif_read_loop c (put_bytes mem (iov_base v) bs) vs (off_wrap (offset + int len)) (resid - len))"

definition blockif_read_iov ::
  "disk \<Rightarrow> (nat \<Rightarrow> byte) \<Rightarrow> blockif_req \<Rightarrow> (disk \<times> (nat \<Rightarrow> byte) \<times> nat) \<times> unit res" where
  "blockif_read_iov c mem br = blockif_read_loop c mem (br_iov br) (br_offset br) (nat (br_resid br))"

fun blockif_write_loop ::
  "disk \<Rightarrow> (nat \<Rightarrow> byte) \<Rightarrow> iovec list \<Rightarrow> int \<Rightarrow> nat \<Rightarrow> (disk \<times> nat) \<times> unit res" where
  "blockif_write_loop c mem [] offset resid = ((c, resid), Inr ())"
| "blockif_write_loop c mem (v # vs) offset resid =
     (if \<not> 0 < resid then ((c, resid), Inr ())
      else let len = min resid (iov_len v) in
        if len = 0 then blockif_write_loop c mem vs offset resid
        else case scorpi_image_chain_write c (get_bytes mem (iov_base v) len) (u64_of_off offset) of
            (c, Inl e) \<Rightarrow> ((c, resid), Inl e)
          | (c, Inr _) \<Rightarrow> blockif_write_loop c mem vs (off_wrap (offset + int len)) (resid - len))"

definition blockif_write_iov ::
  "blockif_ctxt \<Rightarrow> disk \<Rightarrow> (nat \<Rightarrow> byte) \<Rightarrow> blockif_req \<Rightarrow> (disk \<times> nat) \<times> unit res" where
  "blockif_write_iov bc c mem br =
     (if bc_rdonly bc then ((c, nat (br_resid br)), Inl EROFS)
      else blockif_write_loop c mem (br_iov br) (br_offset br) (nat (br_resid br)))"

definition blockif_flush_bc :: "disk \<Rightarrow> disk \<times> unit res" where
  "blockif_flush_bc c = scorpi_image_chain_flush c"

text \<open>
  The result has the context, the disk, the memory and the error given to the callback.
  \<open>None\<close> is a failed assertion or a missing request.
\<close>

definition blockif_proc ::
  "blockif_ctxt \<Rightarrow> disk \<Rightarrow> (nat \<Rightarrow> byte) \<Rightarrow> nat \<Rightarrow>
   (blockif_ctxt \<times> disk \<times> (nat \<Rightarrow> byte) \<times> unit res) option" where
  "blockif_proc bc c mem i =
     (case be_req (bc_reqs bc i) of
        None \<Rightarrow> None
      | Some br \<Rightarrow>
          if br_resid br < 0 then None
          else Some (case be_op (bc_reqs bc i) of
              BOP_READ \<Rightarrow>
                (case blockif_read_iov c mem br of
                   ((c, mem, resid), err) \<Rightarrow> (blockif_proc_end bc i (int resid), c, mem, err))
            | BOP_WRITE \<Rightarrow>
                (case blockif_write_iov bc c mem br of
                   ((c, resid), err) \<Rightarrow> (blockif_proc_end bc i (int resid), c, mem, err))
            | BOP_FLUSH \<Rightarrow>
                (case blockif_flush_bc c of (c, err) \<Rightarrow> (blockif_proc_end bc i (br_resid br), c, mem, err))
            | BOP_DELETE \<Rightarrow>
                if \<not> bc_candelete bc then (blockif_proc_end bc i (br_resid br), c, mem, Inl EOPNOTSUPP)
                else if bc_rdonly bc then (blockif_proc_end bc i (br_resid br), c, mem, Inl EROFS)
                else (case scorpi_image_chain_discard c (u64_of_off (br_offset br)) (nat (br_resid br)) of
                    (c, Inr _) \<Rightarrow> (blockif_proc_end bc i 0, c, mem, Inr ())
                  | (c, Inl e) \<Rightarrow> (blockif_proc_end bc i (br_resid br), c, mem, Inl e))))"

text \<open>
  Whether deletes are allowed: the configuration is a function from an option name and a default.
\<close>

definition blockif_image_candelete :: "(string \<Rightarrow> bool \<Rightarrow> bool) \<Rightarrow> scorpi_image_info option \<Rightarrow> bool" where
  "blockif_image_candelete cfg info =
     (case info of
        None \<Rightarrow> False
      | Some info \<Rightarrow>
          let candelete = (if info_format info = SCORPI_IMAGE_FORMAT_SCO then cfg ''discard'' False
                           else cfg ''discard'' (info_can_discard info)) in
          if cfg ''nodelete'' False then False else candelete)"

section \<open>Requests against the content of the disk\<close>

abbreviation (input) disk_byte :: "disk \<Rightarrow> nat \<Rightarrow> byte" where
  "disk_byte c \<equiv> layers_byte layer_cell (images c)"

lemma u64_of_off_nat [simp]: "n \<le> INT64_MAX \<Longrightarrow> u64_of_off (int n) = n"
  by (simp add: u64_of_off_def)

lemma off_wrap_nat [simp]: "n \<le> INT64_MAX \<Longrightarrow> off_wrap (int n) = int n"
  by (simp add: off_wrap_def)

text \<open>A successful read scatters the bytes of the disk as \<open>buf_to_iov\<close> scatters a buffer.\<close>

lemma blockif_read_loop_scatter:
  assumes "blockif_read_loop c mem vs (int (o' + p)) (n - p) = ((c', mem', resid), Inr ())"
    "layers.chain_inv c" "p \<le> n" "o' + n \<le> INT64_MAX" "buf = get_bytes (disk_byte c) o' n"
  shows "buf_to_iov_loop mem buf vs p = (mem', n - resid) \<and> resid \<le> n \<and> layers.chain_inv c' \<and>
    disk_byte c' = disk_byte c"
  using assms
proof (induction vs arbitrary: c mem p)
  case (Cons v vs)
  define k where "k = min (n - p) (iov_len v)"
  show ?case
  proof (cases "p < n \<and> k \<noteq> 0")
    case True
    then have le: "o' + p + k \<le> INT64_MAX" "p + k \<le> n" using Cons.prems(4) by (auto simp: k_def)
    have u: "u64_of_off (int o' + int p) = o' + p" "off_wrap (int o' + int p + int k) = int (o' + (p + k))"
      using u64_of_off_nat [of "o' + p"] off_wrap_nat [of "o' + p + k"] le(1) by simp_all
    obtain c1 r where rd: "scorpi_image_chain_read c (o' + p) k = (c1, r)" by fastforce
    with Cons.prems(1) True u obtain bs where r: "r = Inr bs"
      by (cases r) (auto simp: Let_def k_def [symmetric])
    note ct = layers.chain_read_content [OF Cons.prems(2) rd [unfolded r]]
    have same: "disk_byte c1 = disk_byte c" using layers_sameD(3) [OF ct(3)] .
    have bs: "bs = buf_slice p k buf"
      using ct(1) le(2) Cons.prems(5)
      by (auto intro!: nth_equalityI simp: nth_slice add.assoc)
    have run: "blockif_read_loop c1 (put_bytes mem (iov_base v) bs) vs (int (o' + (p + k))) (n - (p + k)) =
        ((c', mem', resid), Inr ())"
      using Cons.prems(1) True u rd r by (simp add: Let_def k_def [symmetric])
    have "buf_to_iov_loop mem buf (v # vs) p =
        buf_to_iov_loop (put_bytes mem (iov_base v) (buf_slice p k buf)) buf vs (p + k)"
      using True Cons.prems(5) by (simp add: Let_def k_def min.commute)
    with Cons.IH [OF run ct(2) le(2) Cons.prems(4)] same bs Cons.prems(5) show ?thesis by simp
  next
    case False
    then consider (full) "p = n" | (zero) "p < n" "iov_len v = 0"
      using Cons.prems(3) by (fastforce simp: k_def)
    then show ?thesis
    proof cases
      case full
      with Cons.prems show ?thesis by auto
    next
      case zero
      have "blockif_read_loop c mem vs (int (o' + p)) (n - p) = ((c', mem', resid), Inr ())"
        using Cons.prems(1) zero by (simp add: Let_def)
      with Cons.IH [OF this Cons.prems(2-5)] zero Cons.prems(5) show ?thesis
        by (simp add: Let_def buf_slice_def)
    qed
  qed
qed auto

lemma blockif_write_loop_gather:
  assumes "blockif_write_loop c mem vs (int o') n = ((c', resid), Inr ())"
    "layers.chain_inv c" "o' + n \<le> INT64_MAX"
  shows "disk_byte c' = put_bytes (disk_byte c) o' (map mem (take n (iov_addrs vs))) \<and>
    resid = n - length (iov_addrs vs) \<and> layers.chain_inv c' \<and>
    layers_same layer_cell (tl (images c)) (tl (images c'))"
  using assms
proof (induction vs arbitrary: c o' n)
  case (Cons v vs)
  define k where "k = min n (iov_len v)"
  show ?case
  proof (cases "k = 0")
    case False
    then have le: "o' + k \<le> INT64_MAX" "k \<le> n" "o' + k + (n - k) \<le> INT64_MAX" "0 < n"
      using Cons.prems(3) by (auto simp: k_def)
    obtain c1 r where w: "scorpi_image_chain_write c (get_bytes mem (iov_base v) k) o' = (c1, r)" by fastforce
    have o: "o' \<le> INT64_MAX" using Cons.prems(3) by simp
    with Cons.prems(1) False le w have r: "r = Inr ()"
      by (cases r) (auto simp: Let_def k_def [symmetric])
    note ct = layers.chain_write_content [OF Cons.prems(2) w [unfolded r]]
    have "off_wrap (int o' + int k) = int (o' + k)" using off_wrap_nat [OF le(1)] by simp
    then have run: "blockif_write_loop c1 mem vs (int (o' + k)) (n - k) = ((c', resid), Inr ())"
      using Cons.prems(1) False le w r o by (simp add: Let_def k_def [symmetric])
    note ih = Cons.IH [OF run ct(1) le(3)]
    have seg: "take n (iov_addrs (v # vs)) = [iov_base v..<iov_base v + k] @ take (n - k) (iov_addrs vs)"
      by (cases "n \<le> iov_len v") (auto simp: k_def take_upt)
    have len: "length (get_bytes mem (iov_base v) k) = k" by simp
    have "resid = n - length (iov_addrs (v # vs))" using ih by (auto simp: k_def)
    moreover have "layers_same layer_cell (tl (images c)) (tl (images c'))"
      using ih ct(4) layers_same_trans by blast
    moreover have "disk_byte c' = put_bytes (disk_byte c) o' (map mem (take n (iov_addrs (v # vs))))"
      unfolding seg map_append get_bytes_addrs [symmetric]
      using ih ct(2) put_bytes_append [of "disk_byte c" o' "get_bytes mem (iov_base v) k"] by simp
    ultimately show ?thesis using ih by blast
  next
    case True
    then consider (full) "n = 0" | (zero) "0 < n" "iov_len v = 0" by (fastforce simp: k_def)
    then show ?thesis
    proof cases
      case full
      with Cons.prems show ?thesis by auto
    next
      case zero
      with Cons.prems(1) have "blockif_write_loop c mem vs (int o') n = ((c', resid), Inr ())"
        by (simp add: Let_def)
      with Cons.IH [OF this Cons.prems(2,3)] zero show ?thesis by simp
    qed
  qed
qed auto

text \<open>The work of a write request, for the devices.\<close>

lemma blockif_proc_write:
  assumes "blockif_proc bc c mem i = Some (bc', c', mem', Inr ())" "layers.chain_inv c"
    "be_req (bc_reqs bc i) = Some br" "be_op (bc_reqs bc i) = BOP_WRITE"
    "br_offset br = int off" "br_resid br = int n" "off + n \<le> INT64_MAX"
    "n \<le> length (iov_addrs (br_iov br))"
  shows "disk_byte c' = put_bytes (disk_byte c) off (map mem (take n (iov_addrs (br_iov br)))) \<and>
    mem' = mem \<and> layers.chain_inv c' \<and> layers_same layer_cell (tl (images c)) (tl (images c')) \<and>
    map_option br_resid (be_req (bc_reqs bc' i)) = Some 0"
proof -
  obtain c1 resid err where l: "blockif_write_iov bc c mem br = ((c1, resid), err)" by (metis prod.exhaust)
  then have "blockif_proc bc c mem i = Some (blockif_proc_end bc i (int resid), c1, mem, err)"
    using assms(3,4,6) by (simp add: blockif_proc_def)
  with assms(1) have bc': "bc' = blockif_proc_end bc i (int resid)" "c1 = c'" "mem' = mem" "err = Inr ()"
    by simp_all
  with l have run: "blockif_write_loop c mem (br_iov br) (int off) n = ((c', resid), Inr ())"
    by (simp add: blockif_write_iov_def assms(5,6) split: if_splits)
  from blockif_write_loop_gather [OF run assms(2,7)] bc' assms(3,8) show ?thesis
    by (simp add: blockif_proc_end_def Let_def)
qed

section \<open>Properties\<close>

text \<open>
  Property C10: a read request delivers the disk.  When \<open>blockif_proc\<close> reports success for a read
  of no more than its buffers hold, the buffers contain, in order, the bytes of the image chain at
  the requested range; no other byte of memory changes, the content of the disk is as before, and
  the residual count is zero.
\<close>

theorem blockif_read_delivers:
  assumes "blockif_proc bc c mem i = Some (bc', c', mem', Inr ())" "layers.chain_inv c"
    "be_req (bc_reqs bc i) = Some br" "be_op (bc_reqs bc i) = BOP_READ"
    "br_offset br = int off" "br_resid br = int n" "off + n \<le> INT64_MAX"
    "distinct (iov_addrs (br_iov br))" "n \<le> length (iov_addrs (br_iov br))"
  shows "map mem' (take n (iov_addrs (br_iov br))) = get_bytes (disk_byte c) off n \<and>
    (\<forall>a. a \<notin> set (take n (iov_addrs (br_iov br))) \<longrightarrow> mem' a = mem a) \<and>
    layers.chain_inv c' \<and> disk_byte c' = disk_byte c \<and>
    map_option br_resid (be_req (bc_reqs bc' i)) = Some 0"
proof -
  obtain c1 mem1 resid err where l: "blockif_read_iov c mem br = ((c1, mem1, resid), err)"
    by (metis prod.exhaust)
  then have "blockif_proc bc c mem i = Some (blockif_proc_end bc i (int resid), c1, mem1, err)"
    using assms(3,4,6) by (simp add: blockif_proc_def)
  with assms(1) have bc': "bc' = blockif_proc_end bc i (int resid)" "c1 = c'" "mem1 = mem'" "err = Inr ()"
    by simp_all
  with l have run: "blockif_read_loop c mem (br_iov br) (int (off + 0)) (n - 0) = ((c', mem', resid), Inr ())"
    by (simp add: blockif_read_iov_def assms(5,6))
  have s: "buf_to_iov_loop mem (get_bytes (disk_byte c) off n) (br_iov br) 0 = (mem', n - resid)"
    "resid \<le> n" "layers.chain_inv c'" "disk_byte c' = disk_byte c"
    using blockif_read_loop_scatter [OF run assms(2) _ assms(7) refl] by auto
  note b = buf_to_iov_loop_result [OF s(1) assms(8)]
  have "n - resid = n" using b assms(9) by simp
  with s(2) have "resid = 0" by (cases n) auto
  with b s bc'(1) assms(3) show ?thesis by (simp add: blockif_proc_end_def Let_def)
qed

text \<open>
  Property C9: a write request stores its buffers.  When \<open>blockif_proc\<close> reports success for a
  write of no more than its buffers hold, the content of the disk is changed at exactly the
  requested range to the bytes of the buffers in order, and the layers below the top of the chain
  keep their content.
\<close>

theorem blockif_write_stores:
  assumes "blockif_proc bc c mem i = Some (bc', c', mem', Inr ())" "layers.chain_inv c"
    "be_req (bc_reqs bc i) = Some br" "be_op (bc_reqs bc i) = BOP_WRITE"
    "br_offset br = int off" "br_resid br = int n" "off + n \<le> INT64_MAX"
    "n \<le> length (iov_addrs (br_iov br))"
  shows "disk_byte c' = put_bytes (disk_byte c) off (map mem (take n (iov_addrs (br_iov br)))) \<and>
    mem' = mem \<and> layers.chain_inv c' \<and> layers_same layer_cell (tl (images c)) (tl (images c')) \<and>
    map_option br_resid (be_req (bc_reqs bc' i)) = Some 0"
  by (rule blockif_proc_write [OF assms])

definition disk_req :: blockif_req where
  "disk_req = \<lparr>br_addr = 1, br_iov = [\<lparr>iov_base = 100, iov_len = 2\<rparr>], br_offset = 3, br_resid = 2\<rparr>"

definition io_bc :: "blockop \<Rightarrow> blockif_ctxt" where
  "io_bc op = demo_bc\<lparr>bc_reqs := (\<lambda>_. \<lparr>be_req = Some disk_req, be_op = op, be_status = BST_BUSY, be_tid = 1,
     be_block = 5\<rparr>)\<rparr>"

lemma disk_req_facts:
  "br_offset disk_req = int 3" "br_resid disk_req = int 2" "iov_addrs (br_iov disk_req) = [100, 101]"
  "be_req (bc_reqs (io_bc op) 0) = Some disk_req" "be_op (bc_reqs (io_bc op) 0) = op" "\<not> bc_rdonly (io_bc op)"
  by (simp_all add: disk_req_def io_bc_def demo_bc_def blockif_init_queues_def upt_rec)

theorem blockif_read_delivers_witness:
  "\<exists>bc' c' mem'. blockif_proc (io_bc BOP_READ) demo_chain (\<lambda>_. 0) 0 = Some (bc', c', mem', Inr ()) \<and>
     [mem' 100, mem' 101] = get_bytes (disk_byte demo_chain) 3 2"
proof -
  have "\<not> rc_valid (read_cache demo_chain)" by (simp add: demo_chain_def scorpi_image_chain_alloc_def)
  then obtain c1 where "scorpi_image_chain_read demo_chain 3 2 = (c1, Inr [9, 9])"
    using demo_read [of 2 3 demo_chain] by (auto simp: scorpi_image_chain_read_def numeral_2_eq_2)
  then obtain bc' c' mem' where p: "blockif_proc (io_bc BOP_READ) demo_chain (\<lambda>_. 0) 0 = Some (bc', c', mem', Inr ())"
    by (simp add: blockif_proc_def disk_req_facts blockif_read_iov_def)
      (simp add: disk_req_def u64_of_off_def)
  from blockif_read_delivers [OF p demo_chain_inv disk_req_facts(4,5,1,2)] p show ?thesis
    by (simp add: disk_req_facts)
qed

theorem blockif_write_stores_witness:
  "\<exists>bc' c' mem'. blockif_proc (io_bc BOP_WRITE) demo_chain (\<lambda>a. if a = 100 then 7 else 8) 0 =
       Some (bc', c', mem', Inr ()) \<and>
     disk_byte c' = put_bytes (disk_byte demo_chain) 3 [7, 8]"
proof -
  let ?mem = "\<lambda>a::nat. if a = 100 then 7 else 8 :: byte"
  have "get_bytes ?mem 100 2 = [7, 8]" by (simp add: get_bytes_def upt_rec)
  with demo_write obtain bc' c' mem' where
    p: "blockif_proc (io_bc BOP_WRITE) demo_chain ?mem 0 = Some (bc', c', mem', Inr ())"
    by (auto simp: blockif_proc_def disk_req_facts blockif_write_iov_def)
      (auto simp: disk_req_def u64_of_off_def)
  from blockif_write_stores [OF p demo_chain_inv disk_req_facts(4,5,1,2)] p show ?thesis
    by (simp add: disk_req_facts)
qed

end
