(* ===== verification/Virtio_Block.thy ===== *)
theory Virtio_Block
  imports Virtio_Config Block_IO
begin

text \<open>
  The VirtIO block device, \<^verbatim>\<open>src/pci_virtio_block.c\<close>: it takes descriptor chains from its queue,
  turns them into requests of the block interface or answers them itself, and returns a chain
  with its status byte when the request is done.

  Guest memory outside the rings is a map from host addresses to bytes; a buffer at address 0 is
  one whose guest address did not translate.  The result \<open>None\<close> is a failed assertion, an access
  through a null pointer, or an access outside the array of requests: each ends the process.
\<close>

section \<open>The device\<close>

record vtblk_config =
  vbc_capacity :: u64
  vbc_size_max :: u32
  vbc_seg_max :: u32
  vbc_cylinders :: nat
  vbc_heads :: nat
  vbc_sectors :: nat
  vbc_blk_size :: u32
  vbc_physical_block_exp :: nat
  vbc_alignment_offset :: nat
  vbc_min_io_size :: nat
  vbc_opt_io_size :: u32
  vbc_writeback :: nat
  vbc_num_queues :: nat
  vbc_max_discard_sectors :: u32
  vbc_max_discard_seg :: u32
  vbc_discard_sector_alignment :: u32
  vbc_max_write_zeroes_sectors :: u32
  vbc_max_write_zeroes_seg :: u32
  vbc_write_zeroes_may_unmap :: nat

record pci_vtblk_ioreq =
  io_req :: blockif_req
  io_status :: nat
  io_idx :: nat

record pci_vtblk_softc =
  vbsc_caps :: vq_caps
  vbsc_vq :: vqueue_info
  vbsc_cfg :: vtblk_config
  vbsc_bc :: blockif_ctxt
  vbsc_ident :: "byte list"
  vbsc_ios :: "nat \<Rightarrow> pci_vtblk_ioreq"

abbreviation (input) VTBLK_RINGSZ :: nat where "VTBLK_RINGSZ \<equiv> 128"
abbreviation (input) VTBLK_MAX_DISCARD_SECT :: nat where "VTBLK_MAX_DISCARD_SECT \<equiv> 32768"
abbreviation (input) VBH_OP_READ :: nat where "VBH_OP_READ \<equiv> 0"
abbreviation (input) VBH_OP_WRITE :: nat where "VBH_OP_WRITE \<equiv> 1"
abbreviation (input) VBH_OP_FLUSH :: nat where "VBH_OP_FLUSH \<equiv> 4"
abbreviation (input) VBH_OP_FLUSH_OUT :: nat where "VBH_OP_FLUSH_OUT \<equiv> 5"
abbreviation (input) VBH_OP_IDENT :: nat where "VBH_OP_IDENT \<equiv> 8"
abbreviation (input) VBH_OP_DISCARD :: nat where "VBH_OP_DISCARD \<equiv> 11"
abbreviation (input) ENOSYS :: errno where "ENOSYS \<equiv> EOTHER 78"

type_synonym vtblk_state = "pci_vtblk_softc \<times> vring \<times> (nat \<Rightarrow> byte)"

text \<open>The configuration space, of a disk with the given sizes; \<open>ffsll\<close> counts from one.\<close>

function ffsll :: "nat \<Rightarrow> nat" where
  "ffsll x = (if x = 0 then 0 else if odd x then 1 else ffsll (x div 2) + 1)"
  by pat_completeness auto
termination
  by (relation "measure id") auto

declare ffsll.simps [simp del]

definition vtblk_config_init :: "nat \<Rightarrow> nat \<Rightarrow> nat \<Rightarrow> nat \<Rightarrow> vtblk_config" where
  "vtblk_config_init sz sectsz sts sto =
     \<lparr>vbc_capacity = sz div 512, vbc_size_max = 0, vbc_seg_max = min (VTBLK_RINGSZ - 2) 128,
      vbc_cylinders = 0, vbc_heads = 0, vbc_sectors = 0, vbc_blk_size = sectsz,
      vbc_physical_block_exp = (if sectsz < sts then (ffsll (sts div sectsz) - 1) mod 256 else 0),
      vbc_alignment_offset = (if sto \<noteq> 0 then ((sts - sto) div sectsz) mod 256 else 0),
      vbc_min_io_size = 0, vbc_opt_io_size = 0, vbc_writeback = 0, vbc_num_queues = 0,
      vbc_max_discard_sectors = VTBLK_MAX_DISCARD_SECT, vbc_max_discard_seg = 1,
      vbc_discard_sector_alignment = max sectsz sts div 512, vbc_max_write_zeroes_sectors = 0,
      vbc_max_write_zeroes_seg = 0, vbc_write_zeroes_may_unmap = 0\<rparr>"

definition vtblk_config_bytes :: "vtblk_config \<Rightarrow> byte list" where
  "vtblk_config_bytes c =
     le64enc (vbc_capacity c) @ le32enc (vbc_size_max c) @ le32enc (vbc_seg_max c) @
     le16enc (vbc_cylinders c) @ [of_nat (vbc_heads c), of_nat (vbc_sectors c)] @ le32enc (vbc_blk_size c) @
     [of_nat (vbc_physical_block_exp c), of_nat (vbc_alignment_offset c)] @ le16enc (vbc_min_io_size c) @
     le32enc (vbc_opt_io_size c) @ [of_nat (vbc_writeback c), 0] @ le16enc (vbc_num_queues c) @
     le32enc (vbc_max_discard_sectors c) @ le32enc (vbc_max_discard_seg c) @
     le32enc (vbc_discard_sector_alignment c) @ le32enc (vbc_max_write_zeroes_sectors c) @
     le32enc (vbc_max_write_zeroes_seg c) @ [of_nat (vbc_write_zeroes_may_unmap c), 0, 0, 0]"

text \<open>The 32-bit result keeps its old upper bytes when fewer than four are copied.\<close>

definition pci_vtblk_cfgread :: "pci_vtblk_softc \<Rightarrow> nat \<Rightarrow> nat \<Rightarrow> byte list \<Rightarrow> byte list" where
  "pci_vtblk_cfgread sc offset sz retval = overwrite 0 (buf_slice offset sz (vtblk_config_bytes (vbsc_cfg sc))) retval"

definition pci_vtblk_cfgwrite :: "pci_vtblk_softc \<Rightarrow> pci_vtblk_softc \<times> nat" where
  "pci_vtblk_cfgwrite sc = (sc, 1)"

definition pci_vtblk_resized :: "pci_vtblk_softc \<Rightarrow> nat \<Rightarrow> pci_vtblk_softc" where
  "pci_vtblk_resized sc new_size = sc\<lparr>vbsc_cfg := (vbsc_cfg sc)\<lparr>vbc_capacity := new_size div 512\<rparr>\<rparr>"

section \<open>Answering a chain\<close>

definition vtblk_status :: "unit res \<Rightarrow> nat" where
  "vtblk_status err =
     (case err of Inl e \<Rightarrow> if e = EOPNOTSUPP \<or> e = ENOSYS then 2 else 1 | Inr _ \<Rightarrow> 0)"

text \<open>The second component tells whether the guest gets an interrupt.\<close>

definition pci_vtblk_done_locked :: "vtblk_state \<Rightarrow> pci_vtblk_ioreq \<Rightarrow> unit res \<Rightarrow> (vtblk_state \<times> bool) option" where
  "pci_vtblk_done_locked s io err =
     (case s of (sc, vr, mem) \<Rightarrow>
        if io_status io = 0 then None
        else
          let mem = mem(io_status io := of_nat (vtblk_status err)) in
          case vq_relchain (vbsc_vq sc) vr (io_idx io) 1 of (vq, vr) \<Rightarrow>
            case vq_endchains (vbsc_caps sc) vq vr False of (vq, intr) \<Rightarrow>
              Some ((sc\<lparr>vbsc_vq := vq\<rparr>, vr, mem), intr))"


section \<open>Taking a chain\<close>

definition vtblk_data :: "nat \<Rightarrow> iovec list \<Rightarrow> iovec list" where
  "vtblk_data n iov = take (n - 2) (drop 1 iov)"

definition vbh_type :: "byte list \<Rightarrow> nat" where
  "vbh_type vbh = le32dec vbh 0 AND 0x7fffffff"

definition vbh_sector :: "byte list \<Rightarrow> nat" where
  "vbh_sector vbh = le64dec vbh 8"

text \<open>From the result of \<open>vq_getchain\<close> to the request: the assertions, the header and the status byte.\<close>

definition vtblk_prepare ::
  "pci_vtblk_softc \<Rightarrow> (nat \<Rightarrow> byte) \<Rightarrow> nat \<Rightarrow> iovec list \<Rightarrow> vi_req \<Rightarrow> (pci_vtblk_ioreq \<times> nat) option" where
  "vtblk_prepare sc mem n iov req =
     (if \<not> (2 \<le> n \<and> n \<le> 130) \<or> VTBLK_RINGSZ \<le> req_idx req then None
      else if req_readable req = 0 \<or> iov_len (iov ! 0) \<noteq> 16 \<or> iov_base (iov ! 0) = 0 then None
      else
        let io = vbsc_ios sc (req_idx req); vbh = get_bytes mem (iov_base (iov ! 0)) 16;
            optype = vbh_type vbh; status = iov ! (n - 1) in
        if req_writable req = 0 \<or> iov_len status \<noteq> 1 then None
        else if n - 1 \<noteq> (if optype = VBH_OP_WRITE \<or> optype = VBH_OP_DISCARD then req_readable req else req_writable req)
        then None
        else Some
          (io\<lparr>io_req := (io_req io)\<lparr>br_iov := vtblk_data n iov, br_offset := off_wrap (int (vbh_sector vbh * 512)),
                br_resid := int (sum_list (map iov_len (vtblk_data n iov)))\<rparr>, io_status := iov_base status\<rparr>,
           optype))"

definition vtblk_submit :: "vtblk_state \<Rightarrow> pci_vtblk_ioreq \<Rightarrow> blockop \<Rightarrow> (vtblk_state \<times> bool) option" where
  "vtblk_submit s io op =
     (case s of (sc, vr, mem) \<Rightarrow>
        (case blockif_request (vbsc_bc sc) (io_req io) op of
           Some (bc, Inr _) \<Rightarrow> Some ((sc\<lparr>vbsc_bc := bc\<rparr>, vr, mem), False)
         | _ \<Rightarrow> None))"

definition vtblk_discard :: "vtblk_state \<Rightarrow> pci_vtblk_ioreq \<Rightarrow> nat \<Rightarrow> iovec \<Rightarrow> (vtblk_state \<times> bool) option" where
  "vtblk_discard s io i v =
     (if iov_len v \<noteq> 16 then pci_vtblk_done_locked s io (Inl EINVAL)
      else if iov_base v = 0 then None
      else case s of (sc, vr, mem) \<Rightarrow>
        let discard = get_bytes mem (iov_base v) 16; num_sectors = le32dec discard 8 in
        if le32dec discard 12 \<noteq> 0 then pci_vtblk_done_locked s io (Inl ENOTSUP)
        else if VTBLK_MAX_DISCARD_SECT < num_sectors then pci_vtblk_done_locked s io (Inl EINVAL)
        else
          let io = io\<lparr>io_req := (io_req io)\<lparr>br_offset := off_wrap (int (le64dec discard 0 * 512)),
                br_resid := int (num_sectors * 512)\<rparr>\<rparr> in
          vtblk_submit (sc\<lparr>vbsc_ios := (vbsc_ios sc)(i := io)\<rparr>, vr, mem) io BOP_DELETE)"

definition strncpy :: "byte list \<Rightarrow> nat \<Rightarrow> byte list" where
  "strncpy src n = (let s = take n (takeWhile (\<lambda>b. b \<noteq> 0) src) in s @ replicate (n - length s) 0)"

definition vtblk_ident :: "vtblk_state \<Rightarrow> pci_vtblk_ioreq \<Rightarrow> iovec \<Rightarrow> (vtblk_state \<times> bool) option" where
  "vtblk_ident s io v =
     (if iov_base v = 0 then None
      else case s of (sc, vr, mem) \<Rightarrow>
        let mem = put_bytes mem (iov_base v) (replicate (iov_len v) 0);
            mem = put_bytes mem (iov_base v) (strncpy (vbsc_ident sc) (min (iov_len v) 21)) in
        pci_vtblk_done_locked (sc, vr, mem) io (Inr ()))"

text \<open>The switch of \<open>pci_vtblk_proc\<close>.\<close>

definition vtblk_dispatch ::
  "vtblk_state \<Rightarrow> pci_vtblk_ioreq \<Rightarrow> nat \<Rightarrow> iovec list \<Rightarrow> nat \<Rightarrow> (vtblk_state \<times> bool) option" where
  "vtblk_dispatch s io i iov optype =
     (if optype = VBH_OP_READ then vtblk_submit s io BOP_READ
      else if optype = VBH_OP_WRITE then vtblk_submit s io BOP_WRITE
      else if optype = VBH_OP_DISCARD then vtblk_discard s io i (iov ! 1)
      else if optype = VBH_OP_FLUSH \<or> optype = VBH_OP_FLUSH_OUT then vtblk_submit s io BOP_FLUSH
      else if optype = VBH_OP_IDENT then vtblk_ident s io (iov ! 1)
      else pci_vtblk_done_locked s io (Inl EOPNOTSUPP))"

definition pci_vtblk_proc :: "guest \<Rightarrow> vtblk_state \<Rightarrow> (vtblk_state \<times> bool) option" where
  "pci_vtblk_proc ctx s =
     (case s of (sc, vr, mem) \<Rightarrow>
        (case vq_getchain ctx (vbsc_caps sc) (vbsc_vq sc) vr 130 of
           ((vq, vr), Chain_Got n iov req) \<Rightarrow>
             let sc = sc\<lparr>vbsc_vq := vq\<rparr> in
             (case vtblk_prepare sc mem n iov req of
                None \<Rightarrow> None
              | Some (io, optype) \<Rightarrow>
                  vtblk_dispatch (sc\<lparr>vbsc_ios := (vbsc_ios sc)(req_idx req := io)\<rparr>, vr, mem) io (req_idx req) iov optype)
         | _ \<Rightarrow> None))"

section \<open>Progress of the notification loop\<close>

lemma done_locked_frame:
  "pci_vtblk_done_locked (sc, vr, mem) io err = Some ((sc', vr', mem'), intr) \<Longrightarrow>
     vq_last_avail (vbsc_vq sc') = vq_last_avail (vbsc_vq sc) \<and> vq_flags (vbsc_vq sc') = vq_flags (vbsc_vq sc) \<and>
     vr_avail vr' = vr_avail vr \<and> vbsc_bc sc' = vbsc_bc sc \<and> vbsc_ios sc' = vbsc_ios sc"
  by (auto simp: pci_vtblk_done_locked_def vq_relchain_def vq_relchain_prepare_def vq_relchain_publish_def
      vq_endchains_def Let_def split: if_splits)

lemma submit_frame:
  "vtblk_submit (sc, vr, mem) io op = Some ((sc', vr', mem'), intr) \<Longrightarrow>
     \<exists>bc. blockif_request (vbsc_bc sc) (io_req io) op = Some (bc, Inr ()) \<and> sc' = sc\<lparr>vbsc_bc := bc\<rparr> \<and>
       vr' = vr \<and> mem' = mem"
  by (auto simp: vtblk_submit_def split: option.splits prod.splits sum.splits)







section \<open>What happens to a chain\<close>

lemma proc_cases:
  assumes "pci_vtblk_proc ctx (sc, vr, mem) = Some (s', intr)"
    "snd (vq_getchain ctx (vbsc_caps sc) (vbsc_vq sc) vr 130) = Chain_Got n iov req"
  shows "\<exists>vq1 vr1 io. vtblk_prepare (sc\<lparr>vbsc_vq := vq1\<rparr>) mem n iov req =
      Some (io, vbh_type (get_bytes mem (iov_base (iov ! 0)) 16)) \<and>
    vtblk_dispatch (sc\<lparr>vbsc_vq := vq1, vbsc_ios := (vbsc_ios sc)(req_idx req := io)\<rparr>, vr1, mem)
      io (req_idx req) iov (vbh_type (get_bytes mem (iov_base (iov ! 0)) 16)) = Some (s', intr) \<and>
    vq_next_used vq1 = vq_next_used (vbsc_vq sc) \<and> vq_qsize vq1 = vq_qsize (vbsc_vq sc) \<and>
    vu_idx (vr_used vr1) = vu_idx (vr_used vr) \<and> vu_ring (vr_used vr1) = vu_ring (vr_used vr)"
proof -
  obtain vq1 vr1 where g: "vq_getchain ctx (vbsc_caps sc) (vbsc_vq sc) vr 130 = ((vq1, vr1), Chain_Got n iov req)"
    using assms(2) by (metis prod.exhaust snd_conv)
  have f: "vq_next_used vq1 = vq_next_used (vbsc_vq sc)" "vq_qsize vq1 = vq_qsize (vbsc_vq sc)"
    "vu_idx (vr_used vr1) = vu_idx (vr_used vr)" "vu_ring (vr_used vr1) = vu_ring (vr_used vr)"
    using g by (auto simp: vq_getchain_def Let_def split: if_splits walk.splits)
  obtain io optype where p: "vtblk_prepare (sc\<lparr>vbsc_vq := vq1\<rparr>) mem n iov req = Some (io, optype)"
    and d: "vtblk_dispatch (sc\<lparr>vbsc_vq := vq1, vbsc_ios := (vbsc_ios sc)(req_idx req := io)\<rparr>, vr1, mem)
      io (req_idx req) iov optype = Some (s', intr)"
    using assms(1) g by (auto simp: pci_vtblk_proc_def Let_def split: option.splits)
  have "optype = vbh_type (get_bytes mem (iov_base (iov ! 0)) 16)"
    using p by (auto simp: vtblk_prepare_def Let_def split: if_splits)
  with p d f show ?thesis by blast
qed

lemma prepare_io:
  assumes "vtblk_prepare sc mem n iov req = Some (io, optype)"
  shows "io_status io = iov_base (iov ! (n - 1))" "io_idx io = io_idx (vbsc_ios sc (req_idx req))"
    "br_iov (io_req io) = vtblk_data n iov"
    "br_offset (io_req io) = off_wrap (int (vbh_sector (get_bytes mem (iov_base (iov ! 0)) 16) * 512))"
    "br_resid (io_req io) = int (sum_list (map iov_len (vtblk_data n iov)))"
  using assms by (auto simp: vtblk_prepare_def Let_def split: if_splits)

lemma done_locked_result:
  assumes "pci_vtblk_done_locked (sc, vr, mem) io err = Some ((sc', vr', mem'), intr)"
  shows "vu_idx (vr_used vr') = vq_next_used (vbsc_vq sc) + 1"
    "vu_ring (vr_used vr') = (vu_ring (vr_used vr))(unat (vq_next_used (vbsc_vq sc)) AND (vq_qsize (vbsc_vq sc) - 1) := (io_idx io, 1))"
    "mem' = mem(io_status io := of_nat (vtblk_status err))" "sc' = sc\<lparr>vbsc_vq := vbsc_vq sc'\<rparr>"
  using assms
  by (auto simp: pci_vtblk_done_locked_def vq_relchain_def vq_relchain_prepare_def vq_relchain_publish_def
      vq_endchains_def Let_def split: if_splits)



text \<open>A chain was handed to the block interface, or was answered.\<close>

definition vtblk_queued :: "vtblk_state \<Rightarrow> nat \<Rightarrow> vtblk_state \<Rightarrow> bool" where
  "vtblk_queued s i s' \<longleftrightarrow> (case (s, s') of ((sc, vr, mem), (sc', vr', mem')) \<Rightarrow>
     (\<exists>op\<in>{BOP_READ, BOP_WRITE, BOP_FLUSH, BOP_DELETE}.
        blockif_request (vbsc_bc sc) (io_req (vbsc_ios sc' i)) op = Some (vbsc_bc sc', Inr ())) \<and>
     vu_idx (vr_used vr') = vu_idx (vr_used vr) \<and> vu_ring (vr_used vr') = vu_ring (vr_used vr) \<and> mem' = mem)"

definition vtblk_answered :: "vtblk_state \<Rightarrow> nat \<Rightarrow> nat \<Rightarrow> vtblk_state \<Rightarrow> bool" where
  "vtblk_answered s i status s' \<longleftrightarrow> (case (s, s') of ((sc, vr, mem), (sc', vr', mem')) \<Rightarrow>
     vbsc_bc sc' = vbsc_bc sc \<and> vu_idx (vr_used vr') = vq_next_used (vbsc_vq sc) + 1 \<and>
     vu_ring (vr_used vr') =
       (vu_ring (vr_used vr))(unat (vq_next_used (vbsc_vq sc)) AND (vq_qsize (vbsc_vq sc) - 1) := (i, 1)) \<and>
     mem' status \<in> {0, 1, 2})"

lemma status_range: "of_nat (vtblk_status err) \<in> {0, 1, 2 :: byte}"
  by (auto simp: vtblk_status_def split: sum.splits)

section \<open>A concrete device\<close>

text \<open>One write chain is waiting: a header for sector 0, two bytes of data and the status byte.\<close>

definition demo_guest :: guest where
  "demo_guest = \<lparr>g_segs = [\<lparr>ms_base = 0, ms_size = 65536, ms_addr = 4096\<rparr>],
     g_desc = (\<lambda>_ _. \<lparr>vd_addr = 0, vd_len = 0, vd_flags = 0, vd_next = 0\<rparr>)\<rparr>"

definition demo_write_ring :: vring where
  "demo_write_ring = \<lparr>vr_desc = (\<lambda>k.
       if k = 0 then \<lparr>vd_addr = 0, vd_len = 16, vd_flags = 1, vd_next = 1\<rparr>
       else if k = 1 then \<lparr>vd_addr = 100, vd_len = 2, vd_flags = 1, vd_next = 2\<rparr>
       else \<lparr>vd_addr = 200, vd_len = 1, vd_flags = 2, vd_next = 0\<rparr>),
     vr_avail = \<lparr>va_flags = 0, va_idx = 1, va_ring = (\<lambda>_. 0)\<rparr>,
     vr_used = \<lparr>vu_flags = 0, vu_idx = 0, vu_ring = (\<lambda>_. (0, 0)), vu_avail_event = 0\<rparr>\<rparr>"

definition demo_vtblk :: pci_vtblk_softc where
  "demo_vtblk = \<lparr>vbsc_caps = \<lparr>vc_hv_caps = 0, vs_negotiated_caps = 0\<rparr>,
     vbsc_vq = \<lparr>vq_qsize = 128, vq_maxqsize = 128, vq_flags = 1, vq_last_avail = 0, vq_next_used = 0,
       vq_save_used = 0, vq_msix_idx = 0, vq_pfn = 0, vq_desc = Some 8192, vq_avail = Some 12288,
       vq_used = Some 16384, vq_desc_gpa = 0, vq_used_gpa = 0, vq_avail_gpa = 0, vq_enabled = True\<rparr>,
     vbsc_cfg = vtblk_config_init 512 512 512 0, vbsc_bc = demo_bc, vbsc_ident = replicate 21 0,
     vbsc_ios = (\<lambda>i. \<lparr>io_req = \<lparr>br_addr = i, br_iov = [], br_offset = 0, br_resid = 0\<rparr>, io_status = 0, io_idx = i\<rparr>)\<rparr>"

definition demo_mem :: "nat \<Rightarrow> byte" where
  "demo_mem a = (if a = 4096 then 1 else if a = 4196 then 7 else if a = 4197 then 8 else 0)"

definition demo_iov :: "iovec list" where
  "demo_iov = [\<lparr>iov_base = 4096, iov_len = 16\<rparr>, \<lparr>iov_base = 4196, iov_len = 2\<rparr>, \<lparr>iov_base = 4296, iov_len = 1\<rparr>]"

definition demo_vi_req :: vi_req where
  "demo_vi_req = \<lparr>req_readable = 2, req_writable = 1, req_idx = 0\<rparr>"

definition demo_vq_taken :: vqueue_info where
  "demo_vq_taken = (vbsc_vq demo_vtblk)\<lparr>vq_last_avail := 1\<rparr>"

lemma demo_getchain:
  "vq_getchain demo_guest (vbsc_caps demo_vtblk) (vbsc_vq demo_vtblk) demo_write_ring 130 =
     ((demo_vq_taken, demo_write_ring), Chain_Got 3 demo_iov demo_vi_req)"
  by (simp add: vq_getchain_def demo_vtblk_def demo_write_ring_def demo_vq_taken_def cap_event_idx_def
      vq_walk.simps vq_segment_def vd_is_indirect_def vd_has_next_def vd_is_write_def vq_record_def
      paddr_guest2host_def demo_guest_def demo_iov_def demo_vi_req_def)

definition demo_io :: pci_vtblk_ioreq where
  "demo_io = \<lparr>io_req = \<lparr>br_addr = 0, br_iov = [\<lparr>iov_base = 4196, iov_len = 2\<rparr>], br_offset = 0, br_resid = 2\<rparr>,
     io_status = 4296, io_idx = 0\<rparr>"

lemma demo_header: "vbh_type (get_bytes demo_mem 4096 16) = 1" "vbh_sector (get_bytes demo_mem 4096 16) = 0"
  by (simp_all add: vbh_type_def vbh_sector_def le32dec_def le64dec_def le16dec_def) (simp_all add: demo_mem_def)

lemma demo_prepare:
  "vtblk_prepare (demo_vtblk\<lparr>vbsc_vq := demo_vq_taken\<rparr>) demo_mem 3 demo_iov
     demo_vi_req = Some (demo_io, 1)"
  using demo_header
  by (simp add: vtblk_prepare_def demo_iov_def vtblk_data_def off_wrap_def demo_vi_req_def)
    (simp add: demo_vtblk_def demo_io_def)

definition demo_bc_queued :: blockif_ctxt where
  "demo_bc_queued = fst (the (blockif_request demo_bc (io_req demo_io) BOP_WRITE))"

lemma demo_freeq: "bc_freeq demo_bc = 135 # rev [0..<135]"
proof -
  have "[0..<136] = [0..<135] @ [135::nat]" using upt_Suc_append [of 0 135] by simp
  then show ?thesis by (simp only: demo_bc_queues(1) rev_append) simp
qed

lemma demo_vtblk_request: "blockif_request demo_bc (io_req demo_io) BOP_WRITE = Some (demo_bc_queued, Inr ())"
proof -
  have "\<not> bc_paused demo_bc" "be_status (bc_reqs demo_bc i) = BST_FREE" for i
    by (simp_all add: demo_bc_def blockif_init_queues_def)
  then show ?thesis
    by (simp add: demo_bc_queued_def blockif_request_def blockif_enqueue_def demo_freeq Let_def)
qed

definition demo_vtblk_queued :: pci_vtblk_softc where
  "demo_vtblk_queued = demo_vtblk\<lparr>vbsc_vq := demo_vq_taken, vbsc_ios := (vbsc_ios demo_vtblk)(0 := demo_io),
     vbsc_bc := demo_bc_queued\<rparr>"

lemma demo_proc:
  "pci_vtblk_proc demo_guest (demo_vtblk, demo_write_ring, demo_mem) =
     Some ((demo_vtblk_queued, demo_write_ring, demo_mem), False)"
proof -
  have "vbsc_bc demo_vtblk = demo_bc" "req_idx demo_vi_req = 0" by (simp_all add: demo_vtblk_def demo_vi_req_def)
  then show ?thesis
    by (simp add: pci_vtblk_proc_def demo_getchain Let_def demo_prepare vtblk_dispatch_def vtblk_submit_def
        demo_vtblk_request demo_vtblk_queued_def)
qed




section \<open>Properties\<close>

text \<open>
  Property C7: the device deals with every chain it takes exactly once.  One step of the
  notification loop either hands the chain to the block interface as one request and leaves the
  used ring and memory alone, or answers it at once: one entry with the chain's index is added to
  the used ring, the status byte holds one of the three codes, and no request is made.
\<close>

theorem vtblk_chain_handled_once:
  assumes "pci_vtblk_proc ctx (sc, vr, mem) = Some (s', intr)"
    "snd (vq_getchain ctx (vbsc_caps sc) (vbsc_vq sc) vr 130) = Chain_Got n iov req"
    "io_idx (vbsc_ios sc (req_idx req)) = req_idx req"
  shows "vtblk_queued (sc, vr, mem) (req_idx req) s' \<or>
    vtblk_answered (sc, vr, mem) (req_idx req) (iov_base (iov ! (n - 1))) s'"
proof -
  obtain sc' vr' mem' where s': "s' = (sc', vr', mem')" by (metis prod.exhaust)
  obtain vq1 vr1 io where p: "vtblk_prepare (sc\<lparr>vbsc_vq := vq1\<rparr>) mem n iov req =
      Some (io, vbh_type (get_bytes mem (iov_base (iov ! 0)) 16))"
    and d: "vtblk_dispatch (sc\<lparr>vbsc_vq := vq1, vbsc_ios := (vbsc_ios sc)(req_idx req := io)\<rparr>, vr1, mem)
      io (req_idx req) iov (vbh_type (get_bytes mem (iov_base (iov ! 0)) 16)) = Some ((sc', vr', mem'), intr)"
    and f: "vq_next_used vq1 = vq_next_used (vbsc_vq sc)" "vq_qsize vq1 = vq_qsize (vbsc_vq sc)"
      "vu_idx (vr_used vr1) = vu_idx (vr_used vr)" "vu_ring (vr_used vr1) = vu_ring (vr_used vr)"
    using proc_cases [OF assms(1,2)] s' by blast
  note io = prepare_io [OF p]
  have sub: "vtblk_queued (sc, vr, mem) (req_idx req) s'"
    if "vtblk_submit (sc\<lparr>vbsc_vq := vq1, vbsc_ios := (vbsc_ios sc)(req_idx req := io')\<rparr>, vr1, mem) io' op =
      Some ((sc', vr', mem'), intr)" for io' op
    using submit_frame [OF that] f s' by (cases op) (auto simp: vtblk_queued_def)
  have ans: "vtblk_answered (sc, vr, mem) (req_idx req) (iov_base (iov ! (n - 1))) s'"
    if "pci_vtblk_done_locked (sc\<lparr>vbsc_vq := vq1, vbsc_ios := (vbsc_ios sc)(req_idx req := io)\<rparr>, vr1, m) io err =
      Some ((sc', vr', mem'), intr)" for m err
    using done_locked_result [OF that] done_locked_frame [OF that] f io(1,2) assms(3) s' status_range [of err]
    by (simp add: vtblk_answered_def)
  from d show ?thesis
    by (auto simp: vtblk_dispatch_def vtblk_discard_def vtblk_ident_def Let_def split: if_splits dest!: sub ans)
qed

theorem vtblk_chain_handled_once_witness:
  "\<exists>s'. pci_vtblk_proc demo_guest (demo_vtblk, demo_write_ring, demo_mem) = Some (s', False) \<and>
     (vtblk_queued (demo_vtblk, demo_write_ring, demo_mem) 0 s' \<or>
      vtblk_answered (demo_vtblk, demo_write_ring, demo_mem) 0 4296 s')"
proof -
  have "io_idx (vbsc_ios demo_vtblk (req_idx demo_vi_req)) = req_idx demo_vi_req" by (simp add: demo_vtblk_def)
  from vtblk_chain_handled_once [OF demo_proc _ this, of 3 demo_iov] demo_getchain demo_proc show ?thesis
    by (simp add: demo_vi_req_def demo_iov_def)
qed





end
