(* ===== verification/Virtio_Legacy.thy ===== *)
theory Virtio_Legacy
  imports Virtio_Config
begin

text \<open>
  The register interface of a legacy virtio device, \<^verbatim>\<open>vi_pci_read\<close>, \<^verbatim>\<open>vi_pci_write\<close> and \<^verbatim>\<open>vi_vq_init\<close> of
  \<^verbatim>\<open>src/virtio.c\<close>.  One page number gives the address of all three rings of a queue.  Accesses to
  the MSI-X tables go to the PCI layer and are not modelled.
\<close>

section \<open>Setting up a queue\<close>

definition roundup_page :: "nat \<Rightarrow> nat" where
  "roundup_page x = (x + 4095) div 4096 * 4096"

definition vring_size :: "nat \<Rightarrow> nat" where
  "vring_size n =
     (let sz = 16 * n + (4 + 2 * n + 2); sz = roundup_page sz in sz + (4 + 8 * n + 2))"

definition vring_size_aligned :: "nat \<Rightarrow> nat" where
  "vring_size_aligned qsz = roundup_page (vring_size qsz)"

text \<open>
  The code computes with the pointer it gets for the page without comparing it with null; only
  the descriptor table is null when the page is not in guest memory.
\<close>

definition host_ptr :: "nat \<Rightarrow> nat option" where
  "host_ptr p = (if p = 0 then None else Some p)"

definition vi_vq_init :: "guest \<Rightarrow> u64 \<Rightarrow> vqueue_info \<Rightarrow> vqueue_info" where
  "vi_vq_init ctx v vq =
     (let pfn = v mod 4294967296; phys = pfn * 4096; sz = vring_size_aligned (vq_qsize vq);
          base = (case paddr_guest2host ctx phys sz of None \<Rightarrow> 0 | Some p \<Rightarrow> p);
          avail = base + vq_qsize vq * 16; used = roundup_page (avail + (2 + vq_qsize vq + 1) * 2) in
      vq\<lparr>vq_pfn := pfn, vq_desc := host_ptr base, vq_avail := host_ptr avail, vq_used := host_ptr used,
         vq_flags := 1, vq_last_avail := 0, vq_next_used := 0, vq_save_used := 0\<rparr>)"

section \<open>Registers\<close>

text \<open>The functions of a device, where a null pointer is \<open>None\<close>; the boolean is an error.\<close>

record 'd legacy_ops = "'d vdev_ops" +
  vc_cfgsize :: u64
  lc_cfgread :: "('d \<Rightarrow> u32 \<Rightarrow> nat \<Rightarrow> u32 option) option"
  lc_cfgwrite :: "('d \<Rightarrow> u32 \<Rightarrow> nat \<Rightarrow> u64 \<Rightarrow> 'd \<times> bool) option"
  lc_vq_notify :: "nat \<Rightarrow> ('d \<Rightarrow> nat \<Rightarrow> 'd) option"  \<comment> \<open>of each queue\<close>
  lc_qnotify :: "('d \<Rightarrow> nat \<Rightarrow> 'd) option"

definition config_off :: "bool \<Rightarrow> nat" where
  "config_off msix_enabled = (if msix_enabled then 24 else 20)"

text \<open>Whether an access goes to the device, and at which offset; the sum is one of 32 bits.\<close>

definition device_offset :: "('d, 'x) legacy_ops_scheme \<Rightarrow> bool \<Rightarrow> u64 \<Rightarrow> nat \<Rightarrow> u32 option" where
  "device_offset ops msix offset sz =
     (if sz \<noteq> 1 \<and> sz \<noteq> 2 \<and> sz \<noteq> 4 then None
      else if config_off msix \<le> offset then
        let newoff = (offset - config_off msix) mod 4294967296;
            m = (if vc_cfgsize ops \<noteq> 0 then vc_cfgsize ops else 4294967296) in
        if m < (newoff + sz) mod 4294967296 then None else Some newoff
      else None)"

definition legacy_write_reg ::
  "'d legacy_ops \<Rightarrow> guest \<Rightarrow> 'd virtio_softc \<Rightarrow> u64 \<Rightarrow> u64 \<Rightarrow> 'd virtio_softc option" where
  "legacy_write_reg ops ctx vs offset v =
     (if offset = 4 then
        let caps = of_nat v AND vc_hv_caps vs in
        Some (vs\<lparr>vs_negotiated_caps := caps, vs_dev := vc_apply_features (vdev_ops.truncate ops) (vs_dev vs) caps\<rparr>)
      else if offset = 8 then on_curq (vi_vq_init ctx v) vs
      else if offset = 14 then Some (vs\<lparr>vs_curq := to_int32 v\<rparr>)
      else if offset = 16 then
        (if length (vs_queues vs) \<le> v then Some vs
         else case lc_vq_notify ops v of
           Some f \<Rightarrow> Some (vs\<lparr>vs_dev := f (vs_dev vs) v\<rparr>)
         | None \<Rightarrow> (case lc_qnotify ops of
               Some f \<Rightarrow> Some (vs\<lparr>vs_dev := f (vs_dev vs) v\<rparr>)
             | None \<Rightarrow> Some vs))
      else if offset = 18 then
        let vs = vs\<lparr>vs_status := v mod 256\<rparr> in
        Some (if v = 0 then vi_reset (vdev_ops.truncate ops) vs else vs)
      else if offset = 20 then Some (vs\<lparr>vs_msix_cfg_idx := of_nat v\<rparr>)
      else if offset = 22 then on_curq (\<lambda>vq. vq\<lparr>vq_msix_idx := of_nat v\<rparr>) vs
      else Some vs)"

text \<open>\<open>None\<close> is an access outside an array: the table of registers or the queues.\<close>

definition legacy_write_general ::
  "'d legacy_ops \<Rightarrow> guest \<Rightarrow> 'd virtio_softc \<Rightarrow> u64 \<Rightarrow> nat \<Rightarrow> u64 \<Rightarrow> 'd virtio_softc option" where
  "legacy_write_general ops ctx vs offset sz v =
     (case vi_find_cr (to_int32 offset) of
        None \<Rightarrow> None
      | Some None \<Rightarrow> Some vs
      | Some (Some cr) \<Rightarrow>
          if cr_size cr \<noteq> sz \<or> cr_ro cr then Some vs else legacy_write_reg ops ctx vs offset v)"

definition vi_pci_write ::
  "'d legacy_ops \<Rightarrow> guest \<Rightarrow> bool \<Rightarrow> 'd virtio_softc \<Rightarrow> u64 \<Rightarrow> nat \<Rightarrow> u64 \<Rightarrow> 'd virtio_softc option" where
  "vi_pci_write ops ctx msix vs offset sz v =
     (case device_offset ops msix offset sz of
        None \<Rightarrow> legacy_write_general ops ctx vs offset sz v
      | Some newoff \<Rightarrow>
          (case lc_cfgwrite ops of
             None \<Rightarrow> Some vs
           | Some f \<Rightarrow>
               (case f (vs_dev vs) newoff sz v of
                  (d, err) \<Rightarrow>
                    if err then legacy_write_general ops ctx (vs\<lparr>vs_dev := d\<rparr>) offset sz v else Some (vs\<lparr>vs_dev := d\<rparr>))))"

definition legacy_read_curq :: "'d virtio_softc \<Rightarrow> (vqueue_info \<Rightarrow> u64) \<Rightarrow> u64 \<Rightarrow> u64 option" where
  "legacy_read_curq vs f def =
     (if \<not> curq_valid vs then Some def
      else if vs_curq vs < 0 then None
      else Some (f (vs_queues vs ! nat (vs_curq vs))))"

definition legacy_read_reg :: "'d virtio_softc \<Rightarrow> u64 \<Rightarrow> u64 \<Rightarrow> ('d virtio_softc \<times> u64) option" where
  "legacy_read_reg vs offset def =
     (if offset = 0 then Some (vs, GETLO (unat (vc_hv_caps vs)))
      else if offset = 4 then Some (vs, GETLO (unat (vs_negotiated_caps vs)))
      else if offset = 8 then map_option (Pair vs) (legacy_read_curq vs vq_pfn def)
      else if offset = 12 then map_option (Pair vs) (legacy_read_curq vs vq_qsize 0)
      else if offset = 14 then Some (vs, of_int32 (vs_curq vs) mod 4294967296)
      else if offset = 16 then Some (vs, 0)
      else if offset = 18 then Some (vs, vs_status vs)
      else if offset = 19 then
        Some (vs\<lparr>vs_isr := 0, vs_lintr := (if vs_isr vs \<noteq> 0 then False else vs_lintr vs)\<rparr>, vs_isr vs)
      else if offset = 20 then Some (vs, unat (vs_msix_cfg_idx vs))
      else if offset = 22 then map_option (Pair vs) (legacy_read_curq vs (\<lambda>vq. unat (vq_msix_idx vq)) 65535)
      else Some (vs, def))"

definition vi_pci_read ::
  "'d legacy_ops \<Rightarrow> bool \<Rightarrow> 'd virtio_softc \<Rightarrow> u64 \<Rightarrow> nat \<Rightarrow> ('d virtio_softc \<times> u64) option" where
  "vi_pci_read ops msix vs offset sz =
     (let def = (if sz = 1 then 0xff else if sz = 2 then 0xffff else 0xffffffff);
          general = (case vi_find_cr (to_int32 offset) of
             None \<Rightarrow> None
           | Some None \<Rightarrow> Some (vs, def)
           | Some (Some cr) \<Rightarrow> if cr_size cr \<noteq> sz then Some (vs, def) else legacy_read_reg vs offset def) in
      case device_offset ops msix offset sz of
        None \<Rightarrow> general
      | Some newoff \<Rightarrow>
          (case lc_cfgread ops of
             None \<Rightarrow> Some (vs, def)
           | Some f \<Rightarrow> (case f (vs_dev vs) newoff sz of None \<Rightarrow> general | Some v \<Rightarrow> Some (vs, v))))"

section \<open>The rings of a queue lie in guest memory\<close>

lemma roundup_page_ge: "x \<le> roundup_page x"
proof -
  have "x + 4095 = (x + 4095) div 4096 * 4096 + (x + 4095) mod 4096" by (rule div_mult_mod_eq [symmetric])
  moreover have "(x + 4095) mod 4096 < 4096" by simp
  ultimately show ?thesis unfolding roundup_page_def by linarith
qed

lemma roundup_page_add:
  assumes "b mod 4096 = 0"
  shows "roundup_page (b + x) = b + roundup_page x"
proof -
  from assms obtain k where k: "b = 4096 * k" by (auto elim: dvdE simp: mod_eq_0_iff_dvd)
  have "(4096 * k + x + 4095) div 4096 = k + (x + 4095) div 4096"
    using div_mult_self2 [of 4096 "x + 4095" k] by (simp add: ac_simps)
  then show ?thesis unfolding roundup_page_def k by simp
qed

text \<open>The host maps the segments of a guest at page boundaries.\<close>

definition guest_aligned :: "guest \<Rightarrow> bool" where
  "guest_aligned ctx \<longleftrightarrow> (\<forall>m \<in> set (g_segs ctx). ms_addr m mod 4096 = 0 \<and> ms_base m mod 4096 = 0 \<and> 0 < ms_addr m)"

lemma vm_map_gpa_aligned:
  "vm_map_gpa ms a n = Some p \<Longrightarrow> \<forall>m \<in> set ms. ms_addr m mod 4096 = 0 \<and> ms_base m mod 4096 = 0 \<and> 0 < ms_addr m \<Longrightarrow>
     a mod 4096 = 0 \<Longrightarrow> p mod 4096 = 0 \<and> 0 < p"
proof (induction ms a n rule: vm_map_gpa.induct)
  case (2 m ms a n)
  then show ?case
  proof (cases "ms_base m \<le> a \<and> a - ms_base m < ms_size m \<and> n \<le> ms_size m - (a - ms_base m)")
    case True
    have "(a - ms_base m) mod 4096 = 0" using 2(3,4) True by (simp add: mod_eq_0_iff_dvd dvd_diff_nat)
    moreover have "p = ms_addr m + (a - ms_base m)"
      using 2(2) unfolding vm_map_gpa.simps(2) if_P [OF True] option.inject by (rule sym)
    ultimately show ?thesis using 2(3) by (simp add: mod_eq_0_iff_dvd del: diff_add_assoc diff_add_assoc2)
  next
    case False
    have "vm_map_gpa ms a n = Some p" using 2(2) unfolding vm_map_gpa.simps(2) if_not_P [OF False] .
    from 2(1) [OF False this _ 2(4)] 2(3) show ?thesis by simp
  qed
qed simp

lemma in_guest_part: "in_guest ctx p n \<Longrightarrow> d + k \<le> n \<Longrightarrow> in_guest ctx (p + d) k"
  unfolding in_guest_def by force

definition legacy_vq_ok :: "guest \<Rightarrow> vqueue_info \<Rightarrow> bool" where
  "legacy_vq_ok ctx vq \<longleftrightarrow> (vq_ring_ready vq \<longrightarrow>
     (\<exists>d a u. vq_desc vq = Some d \<and> vq_avail vq = Some a \<and> vq_used vq = Some u \<and> in_guest ctx d (16 * vq_qsize vq) \<and>
        in_guest ctx a (4 + 2 * (vq_qsize vq + 1)) \<and> in_guest ctx u (4 + 8 * vq_qsize vq + 2)))"

lemma vi_vq_init_ok:
  assumes "guest_aligned ctx"
  shows "legacy_vq_ok ctx (vi_vq_init ctx v vq)"
proof (cases "paddr_guest2host ctx (v mod 4294967296 * 4096) (vring_size_aligned (vq_qsize vq))")
  case None
  then show ?thesis by (simp add: legacy_vq_ok_def vi_vq_init_def vq_ring_ready_def host_ptr_def Let_def)
next
  case (Some b)
  let ?q = "vq_qsize vq"
  have b: "b mod 4096 = 0" "0 < b"
    using vm_map_gpa_aligned [of "g_segs ctx" "v mod 4294967296 * 4096" "vring_size_aligned ?q" b] Some assms
    by (auto simp: paddr_guest2host_def guest_aligned_def)
  have g: "in_guest ctx b (vring_size_aligned ?q)" by (rule paddr_guest2host_inside [OF Some])
  define x where "x = ?q * 16 + (2 + ?q + 1) * 2"
  have sz: "roundup_page x + (4 + 8 * ?q + 2) \<le> vring_size_aligned ?q"
  proof -
    have "x = 16 * ?q + (4 + 2 * ?q + 2)" by (simp add: x_def)
    then show ?thesis
      using roundup_page_ge [of "vring_size ?q"] by (simp only: vring_size_aligned_def vring_size_def Let_def)
  qed
  have x: "x \<le> roundup_page x" by (rule roundup_page_ge)
  have u: "roundup_page (b + ?q * 16 + (2 + ?q + 1) * 2) = b + roundup_page x"
    using roundup_page_add [OF b(1), of x] by (simp only: x_def add.assoc)
  have "in_guest ctx (b + 0) (16 * ?q)" "in_guest ctx (b + ?q * 16) (4 + 2 * (?q + 1))"
    "in_guest ctx (b + roundup_page x) (4 + 8 * ?q + 2)"
    using sz x by (intro in_guest_part [OF g]; simp add: x_def)+
  moreover have "vq_desc (vi_vq_init ctx v vq) = Some b" "vq_avail (vi_vq_init ctx v vq) = Some (b + ?q * 16)"
    "vq_used (vi_vq_init ctx v vq) = Some (b + roundup_page x)" "vq_qsize (vi_vq_init ctx v vq) = ?q"
    using Some b(2) u by (simp_all add: vi_vq_init_def host_ptr_def Let_def)
  ultimately show ?thesis by (simp add: legacy_vq_ok_def)
qed

definition legacy_inv :: "guest \<Rightarrow> 'd virtio_softc \<Rightarrow> bool" where
  "legacy_inv ctx vs \<longleftrightarrow> (\<forall>vq \<in> set (vs_queues vs). legacy_vq_ok ctx vq) \<and> 0 \<le> vs_curq vs \<and>
     vs_negotiated_caps vs AND NOT (vc_hv_caps vs) = 0"

lemma legacy_on_curq:
  assumes "legacy_inv ctx vs" "\<And>vq. legacy_vq_ok ctx vq \<Longrightarrow> legacy_vq_ok ctx (f vq)"
  shows "\<exists>vs'. on_curq f vs = Some vs' \<and> legacy_inv ctx vs'"
proof (cases "curq_valid vs")
  case True
  let ?i = "nat (vs_curq vs)"
  have i: "?i < length (vs_queues vs)" "0 \<le> vs_curq vs"
    using True assms(1) by (auto simp: curq_valid_def legacy_inv_def)
  then have "legacy_vq_ok ctx (f (vs_queues vs ! ?i))" using assms by (simp add: legacy_inv_def)
  then have "legacy_inv ctx (vs\<lparr>vs_queues := (vs_queues vs)[?i := f (vs_queues vs ! ?i)]\<rparr>)"
    using assms(1) by (auto simp: legacy_inv_def dest!: subsetD [OF set_update_subset_insert])
  with True i show ?thesis by (simp add: on_curq_def Let_def)
qed (use assms in \<open>simp add: on_curq_def\<close>)

lemma legacy_reset: "legacy_inv ctx vs \<Longrightarrow> legacy_inv ctx (vi_reset ops vs)"
  by (auto simp: legacy_inv_def vi_reset_def vi_reset_dev_def legacy_vq_ok_def vq_reset_def vq_ring_ready_def)

lemma legacy_frame:
  "legacy_inv ctx (vs\<lparr>vs_dev := d\<rparr>) = legacy_inv ctx vs" "legacy_inv ctx (vs\<lparr>vs_status := n\<rparr>) = legacy_inv ctx vs"
  "legacy_inv ctx (vs\<lparr>vs_msix_cfg_idx := w\<rparr>) = legacy_inv ctx vs"
  by (simp_all add: legacy_inv_def)

lemma legacy_write_reg_ok:
  assumes "legacy_inv ctx vs" "guest_aligned ctx" "offset = 14 \<longrightarrow> v < 65536"
  shows "\<exists>vs'. legacy_write_reg ops ctx vs offset v = Some vs' \<and> legacy_inv ctx vs'"
proof -
  have caps: "legacy_inv ctx (vs\<lparr>vs_negotiated_caps := c AND vc_hv_caps vs\<rparr>)" for c
    using assms(1) by (simp add: legacy_inv_def caps_and_subset)
  have sel: "v < 65536 \<Longrightarrow> legacy_inv ctx (vs\<lparr>vs_curq := to_int32 v\<rparr>)"
    using assms(1) by (auto simp: legacy_inv_def to_int32_def)
  have st: "legacy_inv ctx (vi_reset ops (vs\<lparr>vs_status := n\<rparr>))" for n ops
    using assms(1) by (intro legacy_reset) (simp add: legacy_frame)
  have q1: "\<exists>vs'. on_curq (vi_vq_init ctx v) vs = Some vs' \<and> legacy_inv ctx vs'"
    by (rule legacy_on_curq [OF assms(1)]) (rule vi_vq_init_ok [OF assms(2)])
  have q2: "\<exists>vs'. on_curq (\<lambda>vq. vq\<lparr>vq_msix_idx := of_nat v\<rparr>) vs = Some vs' \<and> legacy_inv ctx vs'"
    by (rule legacy_on_curq [OF assms(1)]) (simp add: legacy_vq_ok_def vq_ring_ready_def)
  consider "offset = 4" | "offset = 8" | "offset = 14" | "offset = 16" | "offset = 18" | "offset = 20" | "offset = 22"
    | "offset \<notin> {4, 8, 14, 16, 18, 20, 22}" by blast
  then show ?thesis
  proof cases
    case 4
    then show ?thesis using assms(1) by (auto simp: legacy_write_reg_def legacy_frame split: option.split)
  qed (use assms(1,3) caps sel st q1 q2 in \<open>simp_all add: legacy_write_reg_def Let_def legacy_frame\<close>)
qed

section \<open>Properties\<close>

text \<open>
  Property C13: a guest's writes to a legacy device make it use no memory but the guest's.  A
  write of a value that fits its width, at an offset that is not negative as a C \<open>int\<close> and whatever
  the device answers, ends without an access outside the queues and the register table, and in the
  resulting state the three rings of every queue that counts as ready lie in guest memory with room
  for its size, although the code computes them from a pointer it does not check.
\<close>

theorem vi_pci_write_legacy_safe:
  assumes "legacy_inv ctx vs" "guest_aligned ctx" "v < 256 ^ sz" "0 \<le> to_int32 offset"
  shows "\<exists>vs'. vi_pci_write ops ctx msix vs offset sz v = Some vs' \<and> legacy_inv ctx vs'"
proof -
  have ns: "\<not> to_int32 offset < 0" using assms(4) by simp
  have g: "\<exists>vs'. legacy_write_general ops ctx t offset sz v = Some vs' \<and> legacy_inv ctx vs'" if t: "legacy_inv ctx t" for t
  proof (cases "List.find (\<lambda>cr. int (cr_offset cr) = to_int32 offset) config_regs")
    case None
    then show ?thesis using t by (simp add: legacy_write_general_def vi_find_cr_linear ns)
  next
    case (Some cr)
    show ?thesis
    proof (cases "cr_size cr \<noteq> sz \<or> cr_ro cr")
      case True
      then show ?thesis using t Some by (simp add: legacy_write_general_def vi_find_cr_linear ns)
    next
      case False
      have "offset = 14 \<longrightarrow> v < 65536"
      proof
        assume "offset = 14"
        then have "sz = 2" using Some False by (auto simp: config_regs_def to_int32_def)
        then show "v < 65536" using assms(3) by simp
      qed
      from legacy_write_reg_ok [OF t assms(2) this, of ops] False Some show ?thesis
        by (simp add: legacy_write_general_def vi_find_cr_linear ns)
    qed
  qed
  have d: "legacy_inv ctx (vs\<lparr>vs_dev := e\<rparr>)" for e using assms(1) by (simp add: legacy_frame)
  show ?thesis
  proof (cases "device_offset ops msix offset sz")
    case None
    then show ?thesis using g [OF assms(1)] by (simp add: vi_pci_write_def)
  next
    case (Some newoff)
    show ?thesis
    proof (cases "lc_cfgwrite ops")
      case None
      then show ?thesis using Some assms(1) by (simp add: vi_pci_write_def)
    next
      case f: (Some f)
      obtain e err where e: "f (vs_dev vs) newoff sz v = (e, err)" by fastforce
      show ?thesis using Some f e g [OF d, of e] d [of e] by (cases err) (simp_all add: vi_pci_write_def)
    qed
  qed
qed

definition demo_legacy_ops :: "unit legacy_ops" where
  "demo_legacy_ops = vdev_ops.extend demo_ops (legacy_ops.fields 0 None None (\<lambda>_. None) None)"

theorem vi_pci_write_legacy_safe_witness:
  "\<exists>vs'. vi_pci_write demo_legacy_ops \<lparr>g_segs = [\<lparr>ms_base = 0, ms_size = 16384, ms_addr = 65536\<rparr>], g_desc = g_desc demo_guest\<rparr>
       False demo_softc 8 4 1 = Some vs' \<and>
     legacy_inv \<lparr>g_segs = [\<lparr>ms_base = 0, ms_size = 16384, ms_addr = 65536\<rparr>], g_desc = g_desc demo_guest\<rparr> vs'"
proof -
  let ?g = "\<lparr>g_segs = [\<lparr>ms_base = 0, ms_size = 16384, ms_addr = 65536\<rparr>], g_desc = g_desc demo_guest\<rparr>"
  have i: "legacy_inv ?g demo_softc"
    by (simp add: legacy_inv_def demo_softc_def legacy_vq_ok_def vq_reset_def vq_ring_ready_def)
  have a: "guest_aligned ?g" by (simp add: guest_aligned_def)
  have "(1::nat) < 256 ^ 4" "0 \<le> to_int32 8" by (simp_all add: to_int32_def)
  then show ?thesis by (rule vi_pci_write_legacy_safe [OF i a])
qed

text \<open>
  The restriction on the offset is needed: an offset with the top bit of its 32 bits set that is
  not one of the device's own registers becomes a negative \<open>int\<close> in the search of the register
  table, which then reads outside it.  Offsets inside a register window are far below that.
\<close>

theorem vi_pci_write_negative_offset:
  assumes "device_offset ops msix offset sz = None" "2147483648 \<le> offset" "offset < 4294967296"
  shows "vi_pci_write ops ctx msix vs offset sz v = None"
  using assms by (simp add: vi_pci_write_def legacy_write_general_def vi_find_cr_linear to_int32_def)

theorem vi_pci_write_negative_offset_witness:
  "vi_pci_write (vdev_ops.extend demo_ops (legacy_ops.fields 64 None None (\<lambda>_. None) None)) ctx False demo_softc 2147483648 4 1 = None"
  by (rule vi_pci_write_negative_offset)
    (simp_all add: device_offset_def config_off_def vdev_ops.defs legacy_ops.defs)

end
