(* ===== verification/Uart_Backend.thy ===== *)
theory Uart_Backend
  imports Prelude
begin

text \<open>
  The back end shared by the serial ports, \<^verbatim>\<open>src/uart_backend.c\<close>: a ring of up to 16 received
  characters in front of a terminal, a socket or nothing.

  The host is the list of what the next calls of \<open>read\<close> on a descriptor will give, the
  characters written so far and the outcomes of the next calls of \<open>write\<close>.  The event that calls
  the drain function is present or not, and enabled or not; enabling and disabling it succeed.
\<close>

section \<open>The host side\<close>

datatype tty_read = Rd_Byte byte | Rd_Eof | Rd_Err

record uart_host =
  ht_in :: "int \<Rightarrow> tty_read list"
  ht_out :: "(int \<times> byte) list"
  ht_fail :: "bool list"            \<comment> \<open>whether the next writes fail\<close>

record ttyfd =
  opened :: bool
  is_socket :: bool
  rfd :: int
  wfd :: int

record fifo =
  fbuf :: "byte list"
  rindex :: nat
  windex :: nat
  num :: nat
  fsize :: nat

record uart_softc =
  tty :: ttyfd
  rxfifo :: fifo
  mev :: "bool option"              \<comment> \<open>\<open>None\<close> is the null pointer\<close>
  host :: uart_host

abbreviation (input) FIFOSZ :: nat where "FIFOSZ \<equiv> 16"

text \<open>One character from the descriptor; a descriptor with nothing to read is in non-blocking mode.\<close>

definition ttyread :: "uart_softc \<Rightarrow> uart_softc \<times> tty_read" where
  "ttyread sc =
     (case ht_in (host sc) (rfd (tty sc)) of
        [] \<Rightarrow> (sc, Rd_Err)
      | r # rs \<Rightarrow> (sc\<lparr>host := (host sc)\<lparr>ht_in := (ht_in (host sc))(rfd (tty sc) := rs)\<rparr>\<rparr>, r))"

text \<open>The second component is whether \<open>write\<close> returned -1.\<close>

definition ttywrite :: "uart_softc \<Rightarrow> byte \<Rightarrow> uart_softc \<times> bool" where
  "ttywrite sc wb =
     (case ht_fail (host sc) of
        True # fs \<Rightarrow> (sc\<lparr>host := (host sc)\<lparr>ht_fail := fs\<rparr>\<rparr>, True)
      | fs \<Rightarrow> (sc\<lparr>host := (host sc)\<lparr>ht_fail := tl fs, ht_out := ht_out (host sc) @ [(wfd (tty sc), wb)]\<rparr>\<rparr>, False))"

definition uart_tcp_disconnect :: "uart_softc \<Rightarrow> uart_softc" where
  "uart_tcp_disconnect sc = sc\<lparr>mev := None, tty := (tty sc)\<lparr>opened := False, rfd := -1, wfd := -1\<rparr>\<rparr>"

definition mev_set :: "uart_softc \<Rightarrow> bool \<Rightarrow> uart_softc" where
  "mev_set sc b = (if opened (tty sc) \<and> mev sc \<noteq> None then sc\<lparr>mev := Some b\<rparr> else sc)"

section \<open>The ring\<close>

definition rxfifo_available :: "uart_softc \<Rightarrow> bool" where
  "rxfifo_available sc = (num (rxfifo sc) < fsize (rxfifo sc))"

definition uart_rxfifo_getchar :: "uart_softc \<Rightarrow> uart_softc \<times> int" where
  "uart_rxfifo_getchar sc =
     (let f = rxfifo sc in
      if 0 < num f then
        let wasfull = \<not> rxfifo_available sc; c = fbuf f ! rindex f;
            sc = sc\<lparr>rxfifo := f\<lparr>rindex := (rindex f + 1) mod fsize f, num := num f - 1\<rparr>\<rparr>;
            sc = (if wasfull then mev_set sc True else sc) in
        (sc, uint c)
      else (sc, -1))"

definition uart_rxfifo_numchars :: "uart_softc \<Rightarrow> nat" where
  "uart_rxfifo_numchars sc = num (rxfifo sc)"

text \<open>The second component is whether the ring was full and the character is lost.\<close>

definition rxfifo_putchar :: "uart_softc \<Rightarrow> byte \<Rightarrow> uart_softc \<times> bool" where
  "rxfifo_putchar sc ch =
     (let f = rxfifo sc in
      if num f < fsize f then
        let sc = sc\<lparr>rxfifo := f\<lparr>fbuf := (fbuf f)[windex f := ch], windex := (windex f + 1) mod fsize f,
              num := num f + 1\<rparr>\<rparr> in
        ((if \<not> rxfifo_available sc then mev_set sc False else sc), False)
      else (sc, True))"

lemma ttyread_fifo: "ttyread sc = (sc', r) \<Longrightarrow> rxfifo sc' = rxfifo sc \<and> tty sc' = tty sc \<and> mev sc' = mev sc"
  by (auto simp: ttyread_def split: list.splits)

lemma mev_set_fifo [simp]: "rxfifo (mev_set sc b) = rxfifo sc" "tty (mev_set sc b) = tty sc" "host (mev_set sc b) = host sc"
  by (simp_all add: mev_set_def)

lemma putchar_num: "rxfifo_available sc \<Longrightarrow> fsize (rxfifo (fst (rxfifo_putchar sc ch))) = fsize (rxfifo sc) \<and>
    num (rxfifo (fst (rxfifo_putchar sc ch))) = num (rxfifo sc) + 1"
  by (simp add: rxfifo_putchar_def rxfifo_available_def Let_def)

function rxfifo_fill :: "uart_softc \<Rightarrow> uart_softc" where
  "rxfifo_fill sc =
     (if \<not> rxfifo_available sc then sc
      else case ttyread sc of
          (sc, Rd_Byte ch) \<Rightarrow> rxfifo_fill (fst (rxfifo_putchar sc ch))
        | (sc, Rd_Eof) \<Rightarrow> if is_socket (tty sc) then uart_tcp_disconnect sc else sc
        | (sc, Rd_Err) \<Rightarrow> sc)"
  by pat_completeness auto
termination
proof (relation "measure (\<lambda>sc. fsize (rxfifo sc) - num (rxfifo sc))", goal_cases)
  case (2 sc sc' r ch)
  have "rxfifo sc' = rxfifo sc" using ttyread_fifo [of sc sc' "Rd_Byte ch"] 2 by simp
  then show ?case using 2(1) putchar_num [of sc' ch] by (simp add: rxfifo_available_def)
qed simp

declare rxfifo_fill.simps [simp del]

definition uart_rxfifo_drain :: "uart_softc \<Rightarrow> bool \<Rightarrow> uart_softc" where
  "uart_rxfifo_drain sc loopback =
     (if loopback then
        (case ttyread sc of (sc, r) \<Rightarrow> if r = Rd_Eof \<and> is_socket (tty sc) then uart_tcp_disconnect sc else sc)
      else rxfifo_fill sc)"

definition uart_rxfifo_putchar :: "uart_softc \<Rightarrow> byte \<Rightarrow> bool \<Rightarrow> uart_softc \<times> bool" where
  "uart_rxfifo_putchar sc ch loopback =
     (if loopback then rxfifo_putchar sc ch
      else if opened (tty sc) then
        (case ttywrite sc ch of
           (sc, failed) \<Rightarrow> ((if failed \<and> is_socket (tty sc) then uart_tcp_disconnect sc else sc), False))
      else (sc, False))"

text \<open>
  The unread input is flushed in reads of 32 characters; a read stops in front of an end of file
  or an error, and returns it when it is the first thing it finds.
\<close>

definition is_byte :: "tty_read \<Rightarrow> bool" where
  "is_byte r = (case r of Rd_Byte _ \<Rightarrow> True | _ \<Rightarrow> False)"

definition read_chunk :: "tty_read list \<Rightarrow> nat" where
  "read_chunk rs = min 32 (length (takeWhile is_byte rs))"

function flush_input :: "tty_read list \<Rightarrow> tty_read list" where
  "flush_input rs =
     (let n = read_chunk rs in
      if n = 32 then flush_input (drop n rs)
      else if n = 0 then tl rs
      else drop n rs)"
  by pat_completeness auto
termination
proof (relation "measure length", goal_cases)
  case (2 rs n)
  then have "32 \<le> length (takeWhile is_byte rs)" by (simp add: read_chunk_def)
  then have "32 \<le> length rs" using length_takeWhile_le [of is_byte rs] by linarith
  then show ?case using 2 by auto
qed simp

declare flush_input.simps [simp del]

definition uart_rxfifo_reset :: "uart_softc \<Rightarrow> nat \<Rightarrow> uart_softc" where
  "uart_rxfifo_reset sc sz =
     (let sc = sc\<lparr>rxfifo := \<lparr>fbuf = replicate FIFOSZ 0, rindex = 0, windex = 0, num = 0, fsize = sz\<rparr>\<rparr> in
      if opened (tty sc) then
        let fd = rfd (tty sc);
            sc = sc\<lparr>host := (host sc)\<lparr>ht_in := (ht_in (host sc))(fd := flush_input (ht_in (host sc) fd))\<rparr>\<rparr> in
        mev_set sc True
      else sc)"

definition uart_rxfifo_size :: "uart_softc \<Rightarrow> nat" where
  "uart_rxfifo_size sc = FIFOSZ"

definition uart_init :: "uart_host \<Rightarrow> uart_softc" where
  "uart_init h =
     \<lparr>tty = \<lparr>opened = False, is_socket = False, rfd = 0, wfd = 0\<rparr>,
      rxfifo = \<lparr>fbuf = replicate FIFOSZ 0, rindex = 0, windex = 0, num = 0, fsize = 0\<rparr>, mev = None, host = h\<rparr>"

text \<open>
  A connection is accepted: the part of \<open>uart_tcp_listener\<close> under the lock.  Whether the event
  loop could add an event is an argument here and below.
\<close>

definition uart_tcp_listener :: "uart_softc \<Rightarrow> int \<Rightarrow> bool \<Rightarrow> uart_softc \<times> bool" where
  "uart_tcp_listener sc conn_fd added =
     (if opened (tty sc) then (sc, False)
      else (sc\<lparr>tty := (tty sc)\<lparr>rfd := conn_fd, wfd := conn_fd, opened := True\<rparr>,
               mev := (if added then Some True else None)\<rparr>, True))"

text \<open>The end of the two socket back ends, once the host listens on the address.\<close>

definition uart_listen :: "uart_softc \<Rightarrow> bool \<Rightarrow> uart_softc \<times> bool" where
  "uart_listen sc added =
     (sc\<lparr>tty := (tty sc)\<lparr>is_socket := True\<rparr>, mev := (if added then Some True else None)\<rparr>, added)"

definition uart_stdio_backend :: "bool \<Rightarrow> uart_softc \<Rightarrow> bool \<Rightarrow> bool \<Rightarrow> bool \<times> uart_softc \<times> bool" where
  "uart_stdio_backend uart_stdio sc r_ok w_ok =
     (if uart_stdio then (uart_stdio, sc, False)
      else
        let sc = sc\<lparr>tty := (tty sc)\<lparr>rfd := 0, wfd := 1, opened := True\<rparr>\<rparr> in
        if \<not> r_ok then (uart_stdio, sc, False)
        else if \<not> w_ok then (uart_stdio, sc, False)
        else (True, sc, True))"

definition uart_tty_backend :: "uart_softc \<Rightarrow> int \<Rightarrow> bool \<Rightarrow> uart_softc \<times> bool" where
  "uart_tty_backend sc fd isatty =
     (if fd < 0 then (sc, False)
      else if \<not> isatty then (sc, False)
      else (sc\<lparr>tty := (tty sc)\<lparr>rfd := fd, wfd := fd, opened := True\<rparr>\<rparr>, True))"

text \<open>The end of \<open>uart_tty_open\<close>, after the back end has been set up with the result \<open>ok\<close>.\<close>

definition uart_tty_watch :: "uart_softc \<Rightarrow> bool \<Rightarrow> bool \<Rightarrow> bool \<Rightarrow> uart_softc \<times> bool" where
  "uart_tty_watch sc stdio ok added =
     (if ok \<and> \<not> is_socket (tty sc) then
        let sc = sc\<lparr>mev := (if added then Some True else None)\<rparr> in
        if mev sc = None \<and> \<not> stdio then (sc, False) else (sc, ok)
      else (sc, ok))"

section \<open>The ring as a queue\<close>

definition fifo_chars :: "fifo \<Rightarrow> byte list" where
  "fifo_chars f = map (\<lambda>i. fbuf f ! ((rindex f + i) mod fsize f)) [0..<num f]"

definition fifo_ok :: "fifo \<Rightarrow> bool" where
  "fifo_ok f \<longleftrightarrow> length (fbuf f) = FIFOSZ \<and> 0 < fsize f \<and> fsize f \<le> FIFOSZ \<and> rindex f < fsize f \<and> num f \<le> fsize f \<and>
     windex f = (rindex f + num f) mod fsize f"

text \<open>The event is disabled only while the ring of an open port is full, so that input is not forgotten.\<close>

definition event_ok :: "uart_softc \<Rightarrow> bool" where
  "event_ok sc \<longleftrightarrow> (mev sc = Some False \<longrightarrow> opened (tty sc) \<and> \<not> rxfifo_available sc)"

definition backend_ok :: "uart_softc \<Rightarrow> bool" where
  "backend_ok sc \<longleftrightarrow> fifo_ok (rxfifo sc) \<and> event_ok sc"

lemma length_fifo_chars [simp]: "length (fifo_chars f) = num f"
  by (simp add: fifo_chars_def)

lemma mod_add_inj: "(a + i) mod n = (a + j) mod (n::nat) \<Longrightarrow> i < n \<Longrightarrow> j < n \<Longrightarrow> i = j"
proof (induction i j rule: linorder_wlog)
  case (le i j)
  then have "n dvd (a + j) - (a + i)" using mod_eq_dvd_iff_nat [of "a + i" "a + j" n] by simp
  then have "n dvd j - i" by simp
  with le show ?case using dvd_imp_le [of n "j - i"] by (cases "i = j") auto
qed auto

subsection \<open>The interface\<close>

fun put_all :: "('s \<Rightarrow> byte \<Rightarrow> 's \<times> bool) \<Rightarrow> 's \<Rightarrow> byte list \<Rightarrow> 's" where
  "put_all put s [] = s"
| "put_all put s (c # cs) = put_all put (fst (put s c)) cs"

fun get_all :: "('s \<Rightarrow> 's \<times> int) \<Rightarrow> 's \<Rightarrow> nat \<Rightarrow> 's \<times> int list" where
  "get_all get s 0 = (s, [])"
| "get_all get s (Suc n) = (case get s of (s, c) \<Rightarrow> case get_all get s n of (s, cs) \<Rightarrow> (s, c # cs))"

text \<open>A queue of characters with a capacity: a full one loses the character, an empty one gives -1.\<close>

locale char_queue =
  fixes inv :: "'s \<Rightarrow> bool" and chars :: "'s \<Rightarrow> byte list" and cap :: "'s \<Rightarrow> nat"
    and put :: "'s \<Rightarrow> byte \<Rightarrow> 's \<times> bool" and get :: "'s \<Rightarrow> 's \<times> int"
  assumes put_ok: "inv s \<Longrightarrow> length (chars s) < cap s \<Longrightarrow> put s c = (s', lost) \<Longrightarrow>
      inv s' \<and> cap s' = cap s \<and> chars s' = chars s @ [c] \<and> \<not> lost"
    and put_full: "inv s \<Longrightarrow> cap s \<le> length (chars s) \<Longrightarrow> put s c = (s, True)"
    and get_ok: "inv s \<Longrightarrow> chars s = c # cs \<Longrightarrow> get s = (s', x) \<Longrightarrow>
      inv s' \<and> cap s' = cap s \<and> chars s' = cs \<and> x = uint c"
    and get_empty: "inv s \<Longrightarrow> chars s = [] \<Longrightarrow> get s = (s, -1)"
    and cap_chars: "inv s \<Longrightarrow> length (chars s) \<le> cap s"
begin

lemma put_all_chars:
  "inv s \<Longrightarrow> inv (put_all put s cs) \<and> cap (put_all put s cs) = cap s \<and>
     chars (put_all put s cs) = take (cap s) (chars s @ cs)"
proof (induction cs arbitrary: s)
  case Nil
  then show ?case using cap_chars by simp
next
  case (Cons c cs)
  obtain s' lost where p: "put s c = (s', lost)" by fastforce
  show ?case
  proof (cases "length (chars s) < cap s")
    case True
    note o = put_ok [OF Cons.prems True p]
    with Cons.IH [of s'] p show ?thesis by simp
  next
    case False
    then have f: "put s c = (s, True)" "length (chars s) = cap s"
      using put_full [OF Cons.prems, of c] cap_chars [OF Cons.prems] by auto
    with Cons.IH [OF Cons.prems] show ?thesis by simp
  qed
qed

lemma get_all_chars:
  "inv s \<Longrightarrow> n \<le> length (chars s) \<Longrightarrow> get_all get s n = (s', xs) \<Longrightarrow>
     inv s' \<and> cap s' = cap s \<and> xs = map uint (take n (chars s)) \<and> chars s' = drop n (chars s)"
proof (induction n arbitrary: s s' xs)
  case (Suc n)
  obtain c cs where c: "chars s = c # cs" using Suc.prems(2) by (cases "chars s") auto
  obtain t x where t: "get s = (t, x)" by fastforce
  obtain ys where ys: "get_all get t n = (s', ys)" "xs = x # ys" using Suc.prems(3) t by (auto split: prod.splits)
  note o = get_ok [OF Suc.prems(1) c t]
  with Suc.IH [of t s' ys] Suc.prems(2) c ys show ?case by simp
qed simp

text \<open>First in, first out, up to the capacity.\<close>

lemma put_all_get_all:
  assumes "inv s" "chars s = []" "get_all get (put_all put s cs) (min (cap s) (length cs)) = (s', xs)"
  shows "inv s' \<and> chars s' = [] \<and> xs = map uint (take (cap s) cs)"
proof -
  note p = put_all_chars [OF assms(1), of cs]
  have "length (chars (put_all put s cs)) = min (cap s) (length cs)" using p assms(2) by simp
  with get_all_chars [OF conjunct1 [OF p] _ assms(3)] p assms(2) show ?thesis by (auto simp: min_def)
qed

end

subsection \<open>The ring implements it\<close>

lemma fifo_put_chars:
  assumes "fifo_ok f" "num f < fsize f"
  shows "fifo_chars (f\<lparr>fbuf := (fbuf f)[windex f := ch], windex := (windex f + 1) mod fsize f, num := num f + 1\<rparr>) =
    fifo_chars f @ [ch]"
proof (rule nth_equalityI)
  fix i
  assume "i < length (fifo_chars (f\<lparr>fbuf := (fbuf f)[windex f := ch], windex := (windex f + 1) mod fsize f, num := num f + 1\<rparr>))"
  then have i: "i \<le> num f" by simp
  have w: "windex f = (rindex f + num f) mod fsize f" "windex f < length (fbuf f)"
    using assms by (auto simp: fifo_ok_def intro: order.strict_trans2 [OF mod_less_divisor])
  have "(rindex f + i) mod fsize f = windex f \<longleftrightarrow> i = num f"
    using mod_add_inj [of "rindex f" i "fsize f" "num f"] i assms(2) w(1) by auto
  then show "fifo_chars (f\<lparr>fbuf := (fbuf f)[windex f := ch], windex := (windex f + 1) mod fsize f, num := num f + 1\<rparr>) ! i =
      (fifo_chars f @ [ch]) ! i"
    using i w(2) by (cases "i = num f") (auto simp: fifo_chars_def nth_append nth_list_update simp del: upt_Suc)
qed simp

lemma fifo_put_ok:
  assumes "fifo_ok f" "num f < fsize f"
  shows "fifo_ok (f\<lparr>fbuf := (fbuf f)[windex f := ch], windex := (windex f + 1) mod fsize f, num := num f + 1\<rparr>)"
  using assms by (auto simp: fifo_ok_def mod_Suc_eq)

lemma fifo_get_chars:
  assumes "fifo_ok f" "0 < num f"
  shows "fifo_chars f = (fbuf f ! rindex f) # fifo_chars (f\<lparr>rindex := (rindex f + 1) mod fsize f, num := num f - 1\<rparr>)"
proof (rule nth_equalityI)
  fix i assume i: "i < length (fifo_chars f)"
  show "fifo_chars f ! i = (fbuf f ! rindex f # fifo_chars (f\<lparr>rindex := (rindex f + 1) mod fsize f, num := num f - 1\<rparr>)) ! i"
    using i assms by (cases i) (auto simp: fifo_chars_def fifo_ok_def mod_simps)
qed (use assms in simp)

lemma fifo_get_ok:
  assumes "fifo_ok f" "0 < num f"
  shows "fifo_ok (f\<lparr>rindex := (rindex f + 1) mod fsize f, num := num f - 1\<rparr>)"
  using assms by (cases "num f") (auto simp: fifo_ok_def mod_simps)

abbreviation (input) rx_chars :: "uart_softc \<Rightarrow> byte list" where "rx_chars sc \<equiv> fifo_chars (rxfifo sc)"

lemma rxfifo_putchar_ok:
  assumes "backend_ok sc" "num (rxfifo sc) < fsize (rxfifo sc)" "rxfifo_putchar sc c = (sc', lost)"
  shows "backend_ok sc' \<and> fsize (rxfifo sc') = fsize (rxfifo sc) \<and> rx_chars sc' = rx_chars sc @ [c] \<and> \<not> lost \<and>
    tty sc' = tty sc \<and> host sc' = host sc"
proof -
  let ?f = "(rxfifo sc)\<lparr>fbuf := (fbuf (rxfifo sc))[windex (rxfifo sc) := c],
    windex := (windex (rxfifo sc) + 1) mod fsize (rxfifo sc), num := num (rxfifo sc) + 1\<rparr>"
  have f: "fifo_ok ?f" "fifo_chars ?f = rx_chars sc @ [c]"
    using assms(1,2) fifo_put_ok [of "rxfifo sc" c] fifo_put_chars [of "rxfifo sc" c] by (simp_all add: backend_ok_def)
  have s: "sc' = (if \<not> rxfifo_available (sc\<lparr>rxfifo := ?f\<rparr>) then mev_set (sc\<lparr>rxfifo := ?f\<rparr>) False else sc\<lparr>rxfifo := ?f\<rparr>)"
    "\<not> lost"
    using assms(2,3) by (auto simp: rxfifo_putchar_def Let_def)
  then have "event_ok sc'"
    using assms(1,2) by (auto simp: backend_ok_def event_ok_def mev_set_def rxfifo_available_def)
  with f s show ?thesis by (simp add: backend_ok_def)
qed

lemma uart_rxfifo_getchar_ok:
  assumes "backend_ok sc" "rx_chars sc = c # cs" "uart_rxfifo_getchar sc = (sc', x)"
  shows "backend_ok sc' \<and> fsize (rxfifo sc') = fsize (rxfifo sc) \<and> rx_chars sc' = cs \<and> x = uint c \<and>
    tty sc' = tty sc \<and> host sc' = host sc"
proof -
  have n: "0 < num (rxfifo sc)" using assms(2) length_fifo_chars [of "rxfifo sc"] by (metis length_greater_0_conv list.distinct(1))
  let ?f = "(rxfifo sc)\<lparr>rindex := (rindex (rxfifo sc) + 1) mod fsize (rxfifo sc), num := num (rxfifo sc) - 1\<rparr>"
  have f: "fifo_ok ?f" "fifo_chars ?f = cs" "fbuf (rxfifo sc) ! rindex (rxfifo sc) = c"
    using assms(1,2) fifo_get_ok [OF _ n] fifo_get_chars [OF _ n] by (simp_all add: backend_ok_def)
  have s: "sc' = (if \<not> rxfifo_available sc then mev_set (sc\<lparr>rxfifo := ?f\<rparr>) True else sc\<lparr>rxfifo := ?f\<rparr>)" "x = uint c"
    using assms(3) n f(3) by (auto simp: uart_rxfifo_getchar_def Let_def)
  then have "event_ok sc'"
    using assms(1) n by (auto simp: backend_ok_def event_ok_def mev_set_def rxfifo_available_def fifo_ok_def)
  with f s show ?thesis by (simp add: backend_ok_def)
qed

interpretation rx: char_queue backend_ok rx_chars "\<lambda>sc. fsize (rxfifo sc)" rxfifo_putchar uart_rxfifo_getchar
proof (unfold_locales, goal_cases)
  case (1 s c s' lost)
  then show ?case using rxfifo_putchar_ok [of s c s' lost] by simp
next
  case (2 s c)
  then show ?case by (simp add: rxfifo_putchar_def Let_def)
next
  case (3 s c cs s' x)
  then show ?case using uart_rxfifo_getchar_ok [of s c cs s' x] by simp
next
  case (4 s)
  then have "num (rxfifo s) = 0" using length_fifo_chars [of "rxfifo s"] by simp
  then show ?case by (simp add: uart_rxfifo_getchar_def Let_def)
next
  case (5 s)
  then show ?case by (simp add: backend_ok_def fifo_ok_def)
qed

section \<open>The other operations keep the ring in order\<close>

lemma disconnect_ok: "backend_ok sc \<Longrightarrow> backend_ok (uart_tcp_disconnect sc)"
  by (simp add: backend_ok_def event_ok_def uart_tcp_disconnect_def)

lemma disconnect_fifo [simp]: "rxfifo (uart_tcp_disconnect sc) = rxfifo sc"
  by (simp add: uart_tcp_disconnect_def)

lemma ttyread_ok: "backend_ok sc \<Longrightarrow> ttyread sc = (sc', r) \<Longrightarrow> backend_ok sc'"
  using ttyread_fifo [of sc sc' r] by (simp add: backend_ok_def event_ok_def rxfifo_available_def)

lemma rxfifo_fill_ok:
  "backend_ok sc \<Longrightarrow> backend_ok (rxfifo_fill sc) \<and> fsize (rxfifo (rxfifo_fill sc)) = fsize (rxfifo sc) \<and>
     (\<exists>cs. rx_chars (rxfifo_fill sc) = rx_chars sc @ cs)"
proof (induction sc rule: rxfifo_fill.induct)
  case (1 sc)
  show ?case
  proof (cases "rxfifo_available sc")
    case False
    then show ?thesis using "1.prems" by (simp add: rxfifo_fill.simps [of sc])
  next
    case True
    obtain t r where t: "ttyread sc = (t, r)" by fastforce
    note k = ttyread_ok [OF "1.prems" t] ttyread_fifo [OF t]
    show ?thesis
    proof (cases r)
      case (Rd_Byte ch)
      obtain u l where u: "rxfifo_putchar t ch = (u, l)" by fastforce
      have av: "num (rxfifo t) < fsize (rxfifo t)" using True k(2) by (simp add: rxfifo_available_def)
      note p = rxfifo_putchar_ok [OF k(1) av u]
      from "1.IH" [OF _ t [symmetric] Rd_Byte] True p u k(2) t Rd_Byte show ?thesis
        by (auto simp: rxfifo_fill.simps [of sc])
    qed (use True t k disconnect_ok in \<open>auto simp: rxfifo_fill.simps [of sc]\<close>)
  qed
qed

lemma uart_rxfifo_drain_ok:
  "backend_ok sc \<Longrightarrow> backend_ok (uart_rxfifo_drain sc l) \<and>
     fsize (rxfifo (uart_rxfifo_drain sc l)) = fsize (rxfifo sc) \<and> (l \<longrightarrow> rxfifo (uart_rxfifo_drain sc l) = rxfifo sc)"
  using rxfifo_fill_ok [of sc]
  by (auto simp: uart_rxfifo_drain_def split: prod.splits dest: ttyread_ok ttyread_fifo intro: disconnect_ok)

lemma ttywrite_ok: "backend_ok sc \<Longrightarrow> ttywrite sc c = (sc', b) \<Longrightarrow> backend_ok sc' \<and> rxfifo sc' = rxfifo sc \<and> tty sc' = tty sc"
  by (auto simp: ttywrite_def backend_ok_def event_ok_def rxfifo_available_def split: list.splits bool.splits)

lemma uart_rxfifo_putchar_ok:
  assumes "backend_ok sc" "uart_rxfifo_putchar sc c l = (sc', lost)"
  shows "backend_ok sc' \<and> fsize (rxfifo sc') = fsize (rxfifo sc)"
proof (cases l)
  case True
  then show ?thesis
    using assms rxfifo_putchar_ok [of sc c sc' lost] rx.put_full [of sc c]
    by (cases "num (rxfifo sc) < fsize (rxfifo sc)") (auto simp: uart_rxfifo_putchar_def)
next
  case False
  then show ?thesis
    using assms by (auto simp: uart_rxfifo_putchar_def split: if_splits prod.splits dest: ttywrite_ok intro: disconnect_ok)
qed

lemma uart_rxfifo_getchar_keeps:
  assumes "backend_ok sc" "uart_rxfifo_getchar sc = (sc', x)"
  shows "backend_ok sc' \<and> fsize (rxfifo sc') = fsize (rxfifo sc)"
proof (cases "rx_chars sc")
  case Nil
  then show ?thesis using assms rx.get_empty [of sc] by simp
next
  case (Cons c cs)
  then show ?thesis using uart_rxfifo_getchar_ok [OF assms(1) Cons assms(2)] by simp
qed

lemma backend_event: "backend_ok sc \<Longrightarrow> event_ok sc"
  by (simp add: backend_ok_def)

lemma uart_init_event [simp]: "event_ok (uart_init h)"
  by (simp add: event_ok_def uart_init_def)

lemma uart_rxfifo_reset_ok:
  "event_ok sc \<Longrightarrow> 0 < n \<Longrightarrow> n \<le> FIFOSZ \<Longrightarrow> backend_ok (uart_rxfifo_reset sc n) \<and> fsize (rxfifo (uart_rxfifo_reset sc n)) = n \<and>
     rx_chars (uart_rxfifo_reset sc n) = []"
  by (auto simp: uart_rxfifo_reset_def backend_ok_def fifo_ok_def event_ok_def mev_set_def rxfifo_available_def
      fifo_chars_def Let_def)

section \<open>What happens on the host\<close>

text \<open>New input or output outcomes, a connection, and the ways of opening a port.\<close>

inductive host_step :: "uart_softc \<Rightarrow> uart_softc \<Rightarrow> bool" where
  arrive: "host_step sc (sc\<lparr>host := h\<rparr>)"
| connect: "host_step sc (fst (uart_tcp_listener sc fd added))"
| listen: "host_step sc (fst (uart_listen sc added))"
| open_stdio: "uart_stdio_backend used sc r_ok w_ok = (used', sc', ok) \<Longrightarrow>
    host_step sc (fst (uart_tty_watch sc' True ok added))"
| open_tty: "uart_tty_backend sc fd isatty = (sc', ok) \<Longrightarrow> host_step sc (fst (uart_tty_watch sc' False ok added))"

lemma watch_ok: "backend_ok sc \<Longrightarrow> backend_ok (fst (uart_tty_watch sc stdio ok added)) \<and>
    rxfifo (fst (uart_tty_watch sc stdio ok added)) = rxfifo sc"
  by (auto simp: uart_tty_watch_def backend_ok_def event_ok_def rxfifo_available_def Let_def)

lemma host_step_ok: "host_step sc sc' \<Longrightarrow> backend_ok sc \<Longrightarrow> backend_ok sc' \<and> rxfifo sc' = rxfifo sc"
proof (induction rule: host_step.induct)
  case (open_stdio used sc r_ok w_ok used' sc' ok added)
  then have "backend_ok sc' \<and> rxfifo sc' = rxfifo sc"
    by (auto simp: uart_stdio_backend_def backend_ok_def event_ok_def rxfifo_available_def Let_def split: if_splits)
  with watch_ok show ?case by auto
next
  case (open_tty sc fd isatty sc' ok added)
  then have "backend_ok sc' \<and> rxfifo sc' = rxfifo sc"
    by (auto simp: uart_tty_backend_def backend_ok_def event_ok_def rxfifo_available_def split: if_splits)
  with watch_ok show ?case by auto
qed (auto simp: uart_tcp_listener_def uart_listen_def backend_ok_def event_ok_def rxfifo_available_def)

end
