(* ===== verification/Uart_Ns16550.thy ===== *)
theory Uart_Ns16550
  imports Uart_Backend
begin

text \<open>
  The 16550 serial port, \<^verbatim>\<open>src/uart_emul.c\<close>, with the register numbers and bits of
  \<^verbatim>\<open>include/dev/ic/ns16550.h\<close>.  The two interrupt callbacks set the level of one line, which is part
  of the state.  Every operation holds the lock of the back end.
\<close>

section \<open>Registers\<close>

record uart_ns16550_softc =
  backend :: uart_softc
  ier :: byte
  lcr :: byte
  mcr :: byte
  lsr :: byte
  msr :: byte
  fcr :: byte
  scr :: byte
  dll :: byte
  dlh :: byte
  thre_int_pending :: bool
  intr_line :: bool

abbreviation (input) MCR_LOOPBACK :: byte where "MCR_LOOPBACK \<equiv> 0x10"
abbreviation (input) MSR_DELTA_MASK :: byte where "MSR_DELTA_MASK \<equiv> 0x0F"
abbreviation (input) LCR_DLAB :: byte where "LCR_DLAB \<equiv> 0x80"
abbreviation (input) LSR_OE :: byte where "LSR_OE \<equiv> 0x02"
abbreviation (input) LSR_RXRDY :: byte where "LSR_RXRDY \<equiv> 0x01"
abbreviation (input) IER_ETXRDY :: byte where "IER_ETXRDY \<equiv> 0x02"
abbreviation (input) FCR_ENABLE :: byte where "FCR_ENABLE \<equiv> 0x01"
abbreviation (input) FCR_RCV_RST :: byte where "FCR_RCV_RST \<equiv> 0x02"
abbreviation (input) IIR_NOPEND :: byte where "IIR_NOPEND \<equiv> 0x01"
abbreviation (input) IIR_TXRDY :: byte where "IIR_TXRDY \<equiv> 0x02"

definition has :: "byte \<Rightarrow> byte \<Rightarrow> bool" where
  "has x m = (x AND m \<noteq> 0)"

definition loopback :: "uart_ns16550_softc \<Rightarrow> bool" where
  "loopback sc = has (mcr sc) MCR_LOOPBACK"

definition modem_status :: "byte \<Rightarrow> byte" where
  "modem_status m =
     (if has m MCR_LOOPBACK then
        (if has m 0x02 then 0x10 else 0) OR (if has m 0x01 then 0x20 else 0) OR
        (if has m 0x04 then 0x40 else 0) OR (if has m 0x08 then 0x80 else 0)
      else 0x80 OR 0x20)"

definition uart_intr_reason :: "uart_ns16550_softc \<Rightarrow> byte" where
  "uart_intr_reason sc =
     (if has (lsr sc) LSR_OE \<and> has (ier sc) 0x04 then 0x06
      else if 0 < uart_rxfifo_numchars (backend sc) \<and> has (ier sc) 0x01 then 0x0C
      else if thre_int_pending sc \<and> has (ier sc) IER_ETXRDY then IIR_TXRDY
      else if has (msr sc) MSR_DELTA_MASK \<and> has (ier sc) 0x08 then 0x00
      else IIR_NOPEND)"

definition uart_toggle_intr :: "uart_ns16550_softc \<Rightarrow> uart_ns16550_softc" where
  "uart_toggle_intr sc = sc\<lparr>intr_line := (uart_intr_reason sc \<noteq> IIR_NOPEND)\<rparr>"

text \<open>The divisor of the default rate is 1; its high byte is the divisor shifted by 16.\<close>

definition uart_reset :: "uart_ns16550_softc \<Rightarrow> uart_ns16550_softc" where
  "uart_reset sc =
     (let divisor = 1843200 div 115200 div 16 :: nat in
      sc\<lparr>dll := of_nat divisor, dlh := of_nat (divisor div 65536), msr := modem_status (mcr sc),
         backend := uart_rxfifo_reset (backend sc) 1\<rparr>)"

definition uart_ns16550_init :: "uart_host \<Rightarrow> uart_ns16550_softc" where
  "uart_ns16550_init h = uart_reset
     \<lparr>backend = uart_init h, ier = 0, lcr = 0, mcr = 0, lsr = 0, msr = 0, fcr = 0, scr = 0, dll = 0, dlh = 0,
      thre_int_pending = False, intr_line = False\<rparr>"

definition uart_rx_poll :: "uart_ns16550_softc \<Rightarrow> uart_ns16550_softc" where
  "uart_rx_poll sc =
     (if \<not> loopback sc then sc\<lparr>backend := uart_rxfifo_drain (backend sc) False\<rparr> else sc)"

definition uart_drain :: "uart_ns16550_softc \<Rightarrow> uart_ns16550_softc" where
  "uart_drain sc =
     (let lb = loopback sc; sc = sc\<lparr>backend := uart_rxfifo_drain (backend sc) lb\<rparr> in
      if \<not> lb then uart_toggle_intr sc else sc)"

section \<open>Writing a register\<close>

definition write_data :: "uart_ns16550_softc \<Rightarrow> byte \<Rightarrow> uart_ns16550_softc" where
  "write_data sc v =
     (case uart_rxfifo_putchar (backend sc) v (loopback sc) of
        (b, lost) \<Rightarrow> sc\<lparr>backend := b, lsr := (if lost then lsr sc OR LSR_OE else lsr sc), thre_int_pending := True\<rparr>)"

definition write_ier :: "uart_ns16550_softc \<Rightarrow> byte \<Rightarrow> uart_ns16550_softc" where
  "write_ier sc v =
     sc\<lparr>thre_int_pending := (thre_int_pending sc \<or> \<not> has (ier sc) IER_ETXRDY \<and> has v IER_ETXRDY), ier := v AND 0x0F\<rparr>"

definition write_fcr :: "uart_ns16550_softc \<Rightarrow> byte \<Rightarrow> uart_ns16550_softc" where
  "write_fcr sc v =
     (let sc = (if has (fcr sc) FCR_ENABLE \<noteq> has v FCR_ENABLE then
                  sc\<lparr>backend := uart_rxfifo_reset (backend sc)
                       (if has v FCR_ENABLE then uart_rxfifo_size (backend sc) else 1)\<rparr>
                else sc) in
      if \<not> has v FCR_ENABLE then sc\<lparr>fcr := 0\<rparr>
      else
        let sc = (if has v FCR_RCV_RST then
                    sc\<lparr>backend := uart_rxfifo_reset (backend sc) (uart_rxfifo_size (backend sc))\<rparr>
                  else sc) in
        sc\<lparr>fcr := v AND 0xC9\<rparr>)"

definition write_mcr :: "uart_ns16550_softc \<Rightarrow> byte \<Rightarrow> uart_ns16550_softc" where
  "write_mcr sc v =
     (let new = v AND 0x1F; st = modem_status new; old = msr sc;
          delta = (if has st 0x10 \<noteq> has old 0x10 then 0x01 else 0) OR
                  (if has st 0x20 \<noteq> has old 0x20 then 0x02 else 0) OR
                  (if has st 0x80 \<noteq> has old 0x80 then 0x08 else 0) OR
                  (if has old 0x40 \<and> \<not> has st 0x40 then 0x04 else 0) in
      sc\<lparr>mcr := new, msr := (old OR delta) AND MSR_DELTA_MASK OR st\<rparr>)"

definition uart_ns16550_write :: "uart_ns16550_softc \<Rightarrow> int \<Rightarrow> byte \<Rightarrow> uart_ns16550_softc" where
  "uart_ns16550_write sc offset v = uart_toggle_intr
     (if has (lcr sc) LCR_DLAB \<and> offset = 0 then sc\<lparr>dll := v\<rparr>
      else if has (lcr sc) LCR_DLAB \<and> offset = 1 then sc\<lparr>dlh := v\<rparr>
      else if offset = 0 then write_data sc v
      else if offset = 1 then write_ier sc v
      else if offset = 2 then write_fcr sc v
      else if offset = 3 then sc\<lparr>lcr := v\<rparr>
      else if offset = 4 then write_mcr sc v
      else if offset = 7 then sc\<lparr>scr := v\<rparr>
      else sc)"

section \<open>Reading a register\<close>

definition read_data :: "uart_ns16550_softc \<Rightarrow> uart_ns16550_softc \<times> byte" where
  "read_data sc = (case uart_rxfifo_getchar (backend sc) of (b, c) \<Rightarrow> (sc\<lparr>backend := b\<rparr>, of_int c))"

definition read_iir :: "uart_ns16550_softc \<Rightarrow> uart_ns16550_softc \<times> byte" where
  "read_iir sc =
     (let reason = uart_intr_reason sc in
      (if reason = IIR_TXRDY then sc\<lparr>thre_int_pending := False\<rparr> else sc,
       (if has (fcr sc) FCR_ENABLE then 0xC0 else 0) OR reason))"

definition read_lsr :: "uart_ns16550_softc \<Rightarrow> uart_ns16550_softc \<times> byte" where
  "read_lsr sc =
     (let l = lsr sc OR 0x60;
          l = (if 0 < uart_rxfifo_numchars (backend sc) then l OR LSR_RXRDY else l AND NOT LSR_RXRDY) in
      (sc\<lparr>lsr := l AND NOT LSR_OE\<rparr>, l))"

definition read_msr :: "uart_ns16550_softc \<Rightarrow> uart_ns16550_softc \<times> byte" where
  "read_msr sc = (sc\<lparr>msr := msr sc AND NOT MSR_DELTA_MASK\<rparr>, msr sc)"

definition uart_ns16550_read :: "uart_ns16550_softc \<Rightarrow> int \<Rightarrow> uart_ns16550_softc \<times> byte" where
  "uart_ns16550_read sc offset =
     (case (if has (lcr sc) LCR_DLAB \<and> offset = 0 then (sc, dll sc)
            else if has (lcr sc) LCR_DLAB \<and> offset = 1 then (sc, dlh sc)
            else
              let sc = (if offset = 0 \<or> offset = 2 \<or> offset = 5 then uart_rx_poll sc else sc) in
              if offset = 0 then read_data sc
              else if offset = 1 then (sc, ier sc)
              else if offset = 2 then read_iir sc
              else if offset = 3 then (sc, lcr sc)
              else if offset = 4 then (sc, mcr sc)
              else if offset = 5 then read_lsr sc
              else if offset = 6 then read_msr sc
              else if offset = 7 then (sc, scr sc)
              else (sc, 0xFF)) of
        (sc, reg) \<Rightarrow> (uart_toggle_intr sc, reg))"

section \<open>Legacy port allocation\<close>

definition uart_lres :: "(nat \<times> nat) list" where
  "uart_lres = [(0x3F8, 4), (0x2F8, 3), (0x3E8, 4), (0x2E8, 3)]"

definition uart_legacy_alloc :: "bool list \<Rightarrow> int \<Rightarrow> bool list \<times> (nat \<times> nat) option" where
  "uart_legacy_alloc inuse which =
     (if which < 0 \<or> int (length uart_lres) \<le> which \<or> inuse ! nat which then (inuse, None)
      else (inuse[nat which := True], Some (uart_lres ! nat which)))"

section \<open>The states of a port\<close>

text \<open>What the guest and the host can do: register accesses, the drain event, and events on the host.\<close>

inductive uart_step :: "uart_ns16550_softc \<Rightarrow> uart_ns16550_softc \<Rightarrow> bool" where
  reg_write: "uart_step sc (uart_ns16550_write sc offset v)"
| reg_read: "uart_step sc (fst (uart_ns16550_read sc offset))"
| drain: "uart_step sc (uart_drain sc)"
| host_side: "host_step (backend sc) b \<Longrightarrow> uart_step sc (sc\<lparr>backend := b\<rparr>)"

inductive uart_reachable :: "uart_ns16550_softc \<Rightarrow> bool" where
  init: "uart_reachable (uart_ns16550_init h)"
| step: "uart_reachable sc \<Longrightarrow> uart_step sc sc' \<Longrightarrow> uart_reachable sc'"

definition regs_ok :: "uart_ns16550_softc \<Rightarrow> bool" where
  "regs_ok sc \<longleftrightarrow> ier sc AND 0xF0 = 0 \<and> mcr sc AND 0xE0 = 0 \<and> fcr sc AND 0x36 = 0 \<and>
     msr sc AND 0xF0 = modem_status (mcr sc)"

definition mode_ok :: "uart_ns16550_softc \<Rightarrow> bool" where
  "mode_ok sc \<longleftrightarrow> backend_ok (backend sc) \<and>
     fsize (rxfifo (backend sc)) = (if has (fcr sc) FCR_ENABLE then FIFOSZ else 1)"

definition line_ok :: "uart_ns16550_softc \<Rightarrow> bool" where
  "line_ok sc \<longleftrightarrow> intr_line sc = (uart_intr_reason sc \<noteq> IIR_NOPEND)"

lemma bit_byte_eqI: "(\<And>n. n < 8 \<Longrightarrow> bit (x::byte) n = bit y n) \<Longrightarrow> x = y"
  by (rule bit_word_eqI) simp

lemma and_or_distrib: "(x OR y) AND z = (x AND z) OR (y AND (z::byte))"
  by (rule bit_word_eqI) (auto simp: bit_and_iff bit_or_iff)

lemma and_and: "(x AND y) AND z = x AND (y AND (z::byte))"
  by (simp add: and.assoc)

lemma modem_status_high: "modem_status m AND 0xF0 = modem_status m"
  by (simp add: modem_status_def and_or_distrib)

lemma toggle_ok: "mode_ok (uart_toggle_intr sc) = mode_ok sc" "regs_ok (uart_toggle_intr sc) = regs_ok sc"
  "line_ok (uart_toggle_intr sc)"
  by (simp_all add: uart_toggle_intr_def mode_ok_def regs_ok_def line_ok_def uart_intr_reason_def)

lemma rx_poll_ok: "mode_ok sc \<Longrightarrow> mode_ok (uart_rx_poll sc)" "regs_ok (uart_rx_poll sc) = regs_ok sc"
  using uart_rxfifo_drain_ok [of "backend sc" False] by (auto simp: uart_rx_poll_def mode_ok_def regs_ok_def)

lemma write_data_ok: "mode_ok sc \<Longrightarrow> mode_ok (write_data sc v)" "regs_ok (write_data sc v) = regs_ok sc"
  by (auto simp: write_data_def mode_ok_def regs_ok_def split: prod.splits dest: uart_rxfifo_putchar_ok)

lemma write_ier_ok: "mode_ok (write_ier sc v) = mode_ok sc" "regs_ok sc \<Longrightarrow> regs_ok (write_ier sc v)"
  by (simp_all add: write_ier_def mode_ok_def regs_ok_def and_and)

lemma has_and: "has (v AND m) k = has v (m AND k)"
  by (simp add: has_def and_and)

lemma write_fcr_ok:
  assumes "mode_ok sc"
  shows "mode_ok (write_fcr sc v)" "regs_ok sc \<Longrightarrow> regs_ok (write_fcr sc v)"
proof -
  have z: "\<not> has 0 FCR_ENABLE" "has (v AND 0xC9) FCR_ENABLE = has v FCR_ENABLE" by (simp_all add: has_def and_and)
  show "mode_ok (write_fcr sc v)"
    using assms z uart_rxfifo_reset_ok [of _ 1] uart_rxfifo_reset_ok [of _ FIFOSZ] backend_event
    by (auto simp: write_fcr_def mode_ok_def Let_def uart_rxfifo_size_def)
  show "regs_ok sc \<Longrightarrow> regs_ok (write_fcr sc v)"
    by (simp add: write_fcr_def regs_ok_def Let_def and_and)
qed

lemma write_mcr_ok: "mode_ok (write_mcr sc v) = mode_ok sc" "regs_ok sc \<Longrightarrow> regs_ok (write_mcr sc v)"
  by (simp_all add: write_mcr_def mode_ok_def regs_ok_def Let_def and_and and_or_distrib modem_status_high)

lemma write_keeps:
  assumes "mode_ok sc" "regs_ok sc"
  shows "mode_ok (uart_ns16550_write sc offset v) \<and> regs_ok (uart_ns16550_write sc offset v) \<and>
    line_ok (uart_ns16550_write sc offset v)"
proof -
  have "mode_ok (sc\<lparr>dll := v\<rparr>) \<and> regs_ok (sc\<lparr>dll := v\<rparr>)" "mode_ok (sc\<lparr>dlh := v\<rparr>) \<and> regs_ok (sc\<lparr>dlh := v\<rparr>)"
    "mode_ok (sc\<lparr>lcr := v\<rparr>) \<and> regs_ok (sc\<lparr>lcr := v\<rparr>)" "mode_ok (sc\<lparr>scr := v\<rparr>) \<and> regs_ok (sc\<lparr>scr := v\<rparr>)"
    using assms by (simp_all add: mode_ok_def regs_ok_def)
  then show ?thesis
    unfolding uart_ns16550_write_def toggle_ok
    using assms write_data_ok write_ier_ok write_fcr_ok write_mcr_ok toggle_ok(3) by simp
qed

lemma read_data_ok: "mode_ok sc \<Longrightarrow> read_data sc = (sc', r) \<Longrightarrow> mode_ok sc'" "read_data sc = (sc', r) \<Longrightarrow> regs_ok sc' = regs_ok sc"
  by (auto simp: read_data_def mode_ok_def regs_ok_def split: prod.splits dest: uart_rxfifo_getchar_keeps)

lemma read_iir_ok: "read_iir sc = (sc', r) \<Longrightarrow> mode_ok sc' = mode_ok sc \<and> regs_ok sc' = regs_ok sc"
  by (auto simp: read_iir_def mode_ok_def regs_ok_def Let_def split: if_splits)

lemma read_lsr_ok: "read_lsr sc = (sc', r) \<Longrightarrow> mode_ok sc' = mode_ok sc \<and> regs_ok sc' = regs_ok sc"
  by (auto simp: read_lsr_def mode_ok_def regs_ok_def Let_def)

lemma read_msr_ok: "read_msr sc = (sc', r) \<Longrightarrow> mode_ok sc' = mode_ok sc \<and> (regs_ok sc \<longrightarrow> regs_ok sc')"
  by (auto simp: read_msr_def mode_ok_def regs_ok_def and_and)

lemma read_keeps:
  assumes "mode_ok sc" "regs_ok sc" "uart_ns16550_read sc offset = (sc', r)"
  shows "mode_ok sc' \<and> regs_ok sc' \<and> line_ok sc'"
proof -
  have p: "mode_ok (uart_rx_poll sc)" "regs_ok (uart_rx_poll sc)" using assms rx_poll_ok by auto
  obtain t where t: "sc' = uart_toggle_intr t" "mode_ok t" "regs_ok t"
    using assms p
    by (auto simp: uart_ns16550_read_def Let_def split: prod.splits if_splits
        dest: read_data_ok read_iir_ok read_lsr_ok read_msr_ok)
  then show ?thesis by (simp add: toggle_ok)
qed

lemma drain_keeps:
  assumes "mode_ok sc" "regs_ok sc" "line_ok sc"
  shows "mode_ok (uart_drain sc) \<and> regs_ok (uart_drain sc) \<and> line_ok (uart_drain sc)"
proof -
  let ?sc = "sc\<lparr>backend := uart_rxfifo_drain (backend sc) (loopback sc)\<rparr>"
  have d: "mode_ok ?sc" "regs_ok ?sc" "loopback sc \<longrightarrow> line_ok ?sc"
    using assms uart_rxfifo_drain_ok [of "backend sc" "loopback sc"]
    by (auto simp: mode_ok_def regs_ok_def line_ok_def uart_intr_reason_def uart_rxfifo_numchars_def)
  then show ?thesis by (cases "loopback sc") (simp_all add: uart_drain_def Let_def toggle_ok)
qed

lemma swap_backend:
  "mode_ok sc \<and> regs_ok sc \<and> line_ok sc \<Longrightarrow> rxfifo b = rxfifo (backend sc) \<Longrightarrow> backend_ok b \<Longrightarrow>
     mode_ok (sc\<lparr>backend := b\<rparr>) \<and> regs_ok (sc\<lparr>backend := b\<rparr>) \<and> line_ok (sc\<lparr>backend := b\<rparr>)"
  by (simp add: mode_ok_def regs_ok_def line_ok_def uart_intr_reason_def uart_rxfifo_numchars_def)

lemma step_keeps:
  "uart_step sc sc' \<Longrightarrow> mode_ok sc \<and> regs_ok sc \<and> line_ok sc \<Longrightarrow> mode_ok sc' \<and> regs_ok sc' \<and> line_ok sc'"
proof (induction rule: uart_step.induct)
  case (reg_write sc offset v)
  then show ?case using write_keeps by blast
next
  case (reg_read sc offset)
  then show ?case using read_keeps by (metis prod.collapse)
next
  case (drain sc)
  then show ?case using drain_keeps by blast
next
  case (host_side sc b)
  then show ?case using host_step_ok [of "backend sc" b] by (intro swap_backend) (auto simp: mode_ok_def)
qed

lemma init_ok: "mode_ok (uart_ns16550_init h) \<and> regs_ok (uart_ns16550_init h) \<and> line_ok (uart_ns16550_init h)"
  using uart_rxfifo_reset_ok [of "uart_init h" 1] length_fifo_chars [of "rxfifo (uart_rxfifo_reset (uart_init h) 1)"]
  by (auto simp: uart_ns16550_init_def uart_reset_def Let_def mode_ok_def regs_ok_def line_ok_def modem_status_def has_def
      uart_intr_reason_def uart_rxfifo_numchars_def)

lemma reachable_ok: "uart_reachable sc \<Longrightarrow> mode_ok sc \<and> regs_ok sc \<and> line_ok sc"
proof (induction rule: uart_reachable.induct)
  case (init h)
  show ?case by (rule init_ok)
next
  case (step sc sc')
  then show ?case using step_keeps by blast
qed

section \<open>Loopback\<close>

lemma loopback_write:
  assumes "loopback sc" "\<not> has (lcr sc) LCR_DLAB"
  shows "backend (uart_ns16550_write sc 0 v) = fst (rxfifo_putchar (backend sc) v) \<and>
    loopback (uart_ns16550_write sc 0 v) \<and> lcr (uart_ns16550_write sc 0 v) = lcr sc \<and>
    lsr (uart_ns16550_write sc 0 v) = (if snd (rxfifo_putchar (backend sc) v) then lsr sc OR LSR_OE else lsr sc)"
  using assms
  by (simp add: uart_ns16550_write_def uart_toggle_intr_def write_data_def uart_rxfifo_putchar_def loopback_def
      split: prod.splits)

lemma loopback_read:
  assumes "loopback sc" "\<not> has (lcr sc) LCR_DLAB" "uart_ns16550_read sc 0 = (sc', r)"
  shows "backend sc' = fst (uart_rxfifo_getchar (backend sc)) \<and> r = of_int (snd (uart_rxfifo_getchar (backend sc))) \<and>
    loopback sc' \<and> lcr sc' = lcr sc"
  using assms
  by (auto simp: uart_ns16550_read_def uart_toggle_intr_def read_data_def uart_rx_poll_def loopback_def
      split: prod.splits)

fun write_bytes :: "uart_ns16550_softc \<Rightarrow> byte list \<Rightarrow> uart_ns16550_softc" where
  "write_bytes sc [] = sc"
| "write_bytes sc (v # vs) = write_bytes (uart_ns16550_write sc 0 v) vs"

fun read_bytes :: "uart_ns16550_softc \<Rightarrow> nat \<Rightarrow> uart_ns16550_softc \<times> byte list" where
  "read_bytes sc 0 = (sc, [])"
| "read_bytes sc (Suc n) =
     (case uart_ns16550_read sc 0 of (sc, v) \<Rightarrow> case read_bytes sc n of (sc, vs) \<Rightarrow> (sc, v # vs))"

lemma write_bytes_backend:
  "loopback sc \<Longrightarrow> \<not> has (lcr sc) LCR_DLAB \<Longrightarrow>
     backend (write_bytes sc vs) = put_all rxfifo_putchar (backend sc) vs \<and> loopback (write_bytes sc vs) \<and>
     lcr (write_bytes sc vs) = lcr sc"
proof (induction vs arbitrary: sc)
  case (Cons v vs)
  with loopback_write [OF Cons.prems, of v] show ?case by simp
qed simp

lemma read_bytes_backend:
  "loopback sc \<Longrightarrow> \<not> has (lcr sc) LCR_DLAB \<Longrightarrow> read_bytes sc n = (sc', vs) \<Longrightarrow>
     get_all uart_rxfifo_getchar (backend sc) n = (backend sc', cs) \<Longrightarrow> vs = map of_int cs"
proof (induction n arbitrary: sc vs cs)
  case (Suc n)
  obtain t v where t: "uart_ns16550_read sc 0 = (t, v)" by fastforce
  obtain ws where ws: "read_bytes t n = (sc', ws)" "vs = v # ws" using Suc.prems(3) t by (auto split: prod.splits)
  note l = loopback_read [OF Suc.prems(1,2) t]
  obtain b c where b: "uart_rxfifo_getchar (backend sc) = (b, c)" by fastforce
  obtain ds where ds: "get_all uart_rxfifo_getchar b n = (backend sc', ds)" "cs = c # ds"
    using Suc.prems(4) b by (auto split: prod.splits)
  have "ws = map of_int ds" using Suc.IH [of t ws ds] l Suc.prems(2) ws ds b by simp
  then show ?case using ws ds l b by simp
qed simp

lemma read_bytes_get:
  "loopback sc \<Longrightarrow> \<not> has (lcr sc) LCR_DLAB \<Longrightarrow> read_bytes sc n = (sc', vs) \<Longrightarrow>
     fst (get_all uart_rxfifo_getchar (backend sc) n) = backend sc'"
proof (induction n arbitrary: sc vs)
  case (Suc n)
  obtain t v where t: "uart_ns16550_read sc 0 = (t, v)" by fastforce
  obtain ws where ws: "read_bytes t n = (sc', ws)" using Suc.prems(3) t by (auto split: prod.splits)
  note l = loopback_read [OF Suc.prems(1,2) t]
  with Suc.IH [of t ws] Suc.prems(2) ws show ?case by (auto split: prod.splits)
qed simp

section \<open>Properties\<close>

text \<open>
  Property C31: the state of a 16550 port is well-formed in every run.  Whatever registers the
  guest reads and writes and whatever the host delivers, the reserved bits of the registers are
  zero, the modem status mirrors the modem control, the receive ring is in order and has the size
  of the selected mode, its event is disabled only while it is full, and the interrupt line is
  raised exactly when the identification register reports a reason.
\<close>

theorem uart_ns16550_well_formed:
  assumes "uart_reachable sc"
  shows "regs_ok sc \<and> mode_ok sc \<and> line_ok sc"
  using reachable_ok [OF assms] by blast

theorem uart_ns16550_well_formed_witness:
  "intr_line (uart_ns16550_write (uart_ns16550_init \<lparr>ht_in = (\<lambda>_. []), ht_out = [], ht_fail = []\<rparr>) 1 2) \<and>
   line_ok (uart_ns16550_write (uart_ns16550_init \<lparr>ht_in = (\<lambda>_. []), ht_out = [], ht_fail = []\<rparr>) 1 2)"
proof -
  let ?i = "uart_ns16550_init \<lparr>ht_in = (\<lambda>_. []), ht_out = [], ht_fail = []\<rparr>"
  have "uart_reachable (uart_ns16550_write ?i 1 2)"
    using uart_reachable.step [OF uart_reachable.init uart_step.reg_write] .
  from uart_ns16550_well_formed [OF this] show ?thesis
    by (simp add: uart_ns16550_write_def uart_toggle_intr_def write_ier_def uart_ns16550_init_def uart_reset_def has_def
        uart_intr_reason_def uart_rxfifo_numchars_def uart_rxfifo_reset_def uart_init_def Let_def)
qed

text \<open>
  Property C34: the loopback test of a driver works.  In loopback mode the bytes written to the
  data register of a port with an empty ring are read back from it in the same order, as many as
  the ring of the selected mode holds, and what comes after them is lost.
\<close>

theorem uart_loopback_roundtrip:
  assumes "uart_reachable sc" "loopback sc" "\<not> has (lcr sc) LCR_DLAB" "uart_rxfifo_numchars (backend sc) = 0"
    and "read_bytes (write_bytes sc vs) (min (if has (fcr sc) FCR_ENABLE then 16 else 1) (length vs)) = (sc', ws)"
  shows "ws = take (if has (fcr sc) FCR_ENABLE then 16 else 1) vs \<and> uart_rxfifo_numchars (backend sc') = 0"
proof -
  let ?n = "if has (fcr sc) FCR_ENABLE then 16 else 1" and ?t = "write_bytes sc vs"
  have m: "backend_ok (backend sc)" "fsize (rxfifo (backend sc)) = ?n"
    using reachable_ok [OF assms(1)] by (simp_all add: mode_ok_def)
  have e: "rx_chars (backend sc) = []"
    using assms(4) by (simp add: uart_rxfifo_numchars_def fifo_chars_def)
  have w: "backend ?t = put_all rxfifo_putchar (backend sc) vs" "loopback ?t" "\<not> has (lcr ?t) LCR_DLAB"
    using write_bytes_backend [OF assms(2,3), of vs] assms(3) by auto
  obtain g xs where g: "get_all uart_rxfifo_getchar (backend ?t) (min ?n (length vs)) = (g, xs)" by fastforce
  have g': "g = backend sc'" using read_bytes_get [OF w(2,3) assms(5)] g by simp
  have "ws = map of_int xs" using read_bytes_backend [OF w(2,3) assms(5)] g g' by simp
  moreover have "xs = map uint (take ?n vs) \<and> rx_chars g = []"
    using rx.put_all_get_all [OF m(1) e, of vs g xs] g w(1) m(2) by simp
  moreover have "num (rxfifo g) = length (rx_chars g)" by simp
  moreover have "map (word_of_int \<circ> uint) zs = zs" for zs :: "byte list" by (simp add: map_idI)
  ultimately show ?thesis using g' by (simp add: uart_rxfifo_numchars_def)
qed

definition demo_uart :: uart_ns16550_softc where
  "demo_uart = uart_ns16550_write (uart_ns16550_init \<lparr>ht_in = (\<lambda>_. []), ht_out = [], ht_fail = []\<rparr>) 4 0x10"

theorem uart_loopback_roundtrip_witness:
  "\<exists>sc'. read_bytes (write_bytes demo_uart [65, 66]) 1 = (sc', [65]) \<and> uart_rxfifo_numchars (backend sc') = 0"
proof -
  have r: "uart_reachable demo_uart"
    unfolding demo_uart_def by (rule uart_reachable.step [OF uart_reachable.init uart_step.reg_write])
  have f: "loopback demo_uart" "\<not> has (lcr demo_uart) LCR_DLAB" "uart_rxfifo_numchars (backend demo_uart) = 0"
    "\<not> has (fcr demo_uart) FCR_ENABLE"
    by (simp_all add: demo_uart_def loopback_def uart_ns16550_write_def uart_toggle_intr_def write_mcr_def Let_def has_def
        uart_ns16550_init_def uart_reset_def uart_rxfifo_numchars_def uart_rxfifo_reset_def uart_init_def)
  obtain sc' ws where w: "read_bytes (write_bytes demo_uart [65, 66]) 1 = (sc', ws)" by fastforce
  with uart_loopback_roundtrip [OF r f(1-3), of "[65, 66]" sc' ws] f(4) show ?thesis by simp
qed



lemma toggle_backend [simp]: "backend (uart_toggle_intr sc) = backend sc"
  by (simp add: uart_toggle_intr_def Let_def)




end
