(* ===== verification/Uart_Pl011.thy ===== *)
theory Uart_Pl011
  imports Uart_Backend
begin

text \<open>
  The PL011 serial port of ARM machines, \<^verbatim>\<open>src/uart_pl011.c\<close>, over the same back end.  Register
  numbers are word offsets.  The two interrupt callbacks set the level of one line.
\<close>

section \<open>Registers\<close>

record uart_pl011_softc =
  pbackend :: uart_softc
  irq_state :: "16 word"
  rsr :: "16 word"
  cr :: "16 word"
  ifls :: "16 word"
  imsc :: "16 word"
  lcr_h :: "16 word"
  ibrd :: "16 word"
  fbrd :: "16 word"
  pl_line :: bool

abbreviation (input) UART_FIFO_SIZE :: nat where "UART_FIFO_SIZE \<equiv> 16"
abbreviation (input) UARTRSR_OE :: "16 word" where "UARTRSR_OE \<equiv> 0x08"
abbreviation (input) UARTRTINTR :: "16 word" where "UARTRTINTR \<equiv> 0x40"
abbreviation (input) UARTTXINTR :: "16 word" where "UARTTXINTR \<equiv> 0x20"
abbreviation (input) UARTRXINTR :: "16 word" where "UARTRXINTR \<equiv> 0x10"
abbreviation (input) UARTLCR_H_FEN :: "16 word" where "UARTLCR_H_FEN \<equiv> 0x10"
abbreviation (input) UARTCR_LBE :: "16 word" where "UARTCR_LBE \<equiv> 0x80"

definition pl011_reset :: "uart_pl011_softc \<Rightarrow> uart_pl011_softc" where
  "pl011_reset sc = sc\<lparr>ifls := 0x12, pbackend := uart_rxfifo_reset (pbackend sc) 1\<rparr>"

definition uart_pl011_init :: "uart_host \<Rightarrow> uart_pl011_softc" where
  "uart_pl011_init h = pl011_reset
     \<lparr>pbackend = uart_init h, irq_state = 0, rsr = 0, cr = 0, ifls = 0, imsc = 0, lcr_h = 0, ibrd = 0, fbrd = 0,
      pl_line = False\<rparr>"

text \<open>The test of the FIFO bit is as in the code, which returns 1 when the bit is set.\<close>

definition uart_rx_trigger_level :: "uart_pl011_softc \<Rightarrow> nat" where
  "uart_rx_trigger_level sc =
     (if lcr_h sc AND UARTLCR_H_FEN \<noteq> 0 then 1
      else let sel = drop_bit 3 (ifls sc) AND 7 in
        if sel = 0 then UART_FIFO_SIZE div 8
        else if sel = 1 then UART_FIFO_SIZE div 4
        else if sel = 2 then UART_FIFO_SIZE div 2
        else if sel = 3 then UART_FIFO_SIZE * 3 div 4
        else if sel = 4 then UART_FIFO_SIZE * 7 div 8
        else UART_FIFO_SIZE)"

definition pl011_toggle_intr :: "uart_pl011_softc \<Rightarrow> uart_pl011_softc" where
  "pl011_toggle_intr sc = sc\<lparr>pl_line := (irq_state sc AND imsc sc \<noteq> 0)\<rparr>"

definition pl011_drain :: "uart_pl011_softc \<Rightarrow> uart_pl011_softc" where
  "pl011_drain sc =
     (let old_size = uart_rxfifo_numchars (pbackend sc); lb = (cr sc AND UARTCR_LBE \<noteq> 0);
          sc = sc\<lparr>pbackend := uart_rxfifo_drain (pbackend sc) lb\<rparr>;
          trig_lvl = uart_rx_trigger_level sc;
          sc = (if old_size < trig_lvl \<and> trig_lvl \<le> uart_rxfifo_numchars (pbackend sc)
                then sc\<lparr>irq_state := irq_state sc OR UARTRXINTR\<rparr> else sc);
          sc = (if 0 < uart_rxfifo_numchars (pbackend sc)
                then sc\<lparr>irq_state := irq_state sc OR UARTRTINTR\<rparr> else sc) in
      if \<not> lb then pl011_toggle_intr sc else sc)"

section \<open>Register accesses\<close>

definition pl011_write_dr :: "uart_pl011_softc \<Rightarrow> u32 \<Rightarrow> uart_pl011_softc" where
  "pl011_write_dr sc v =
     (case uart_rxfifo_putchar (pbackend sc) (of_nat v) (cr sc AND UARTCR_LBE \<noteq> 0) of
        (b, lost) \<Rightarrow> sc\<lparr>pbackend := b, rsr := (if lost then rsr sc OR UARTRSR_OE else rsr sc),
                        irq_state := irq_state sc OR UARTTXINTR\<rparr>)"

definition pl011_write_lcr :: "uart_pl011_softc \<Rightarrow> 16 word \<Rightarrow> uart_pl011_softc" where
  "pl011_write_lcr sc v =
     (let sc = (if (lcr_h sc XOR v) AND UARTLCR_H_FEN \<noteq> 0 then
                  sc\<lparr>pbackend := uart_rxfifo_reset (pbackend sc)
                       (if v AND UARTLCR_H_FEN \<noteq> 0 then UART_FIFO_SIZE else 1)\<rparr>
                else sc) in
      sc\<lparr>lcr_h := v AND 0xFF\<rparr>)"

text \<open>The value is 32 bits wide; all registers but the data register keep 16 bits of it.\<close>

definition uart_pl011_write :: "uart_pl011_softc \<Rightarrow> int \<Rightarrow> u32 \<Rightarrow> uart_pl011_softc" where
  "uart_pl011_write sc offset value = (let v = of_nat value :: 16 word in pl011_toggle_intr
     (if offset = 0x00 then pl011_write_dr sc value
      else if offset = 0x01 then sc\<lparr>rsr := 0\<rparr>
      else if offset = 0x09 then sc\<lparr>ibrd := v\<rparr>
      else if offset = 0x0a then sc\<lparr>fbrd := v AND 0x3F\<rparr>
      else if offset = 0x0b then pl011_write_lcr sc v
      else if offset = 0x0c then sc\<lparr>cr := v AND 0xFFC7\<rparr>
      else if offset = 0x0d then sc\<lparr>ifls := v AND 0xFFC7\<rparr>
      else if offset = 0x0e then sc\<lparr>imsc := v AND 0x07FF\<rparr>
      else if offset = 0x11 then sc\<lparr>irq_state := irq_state sc AND NOT v\<rparr>
      else sc))"

text \<open>The character is an \<open>int\<close>, -1 when there is none, and is stored in 32 bits.\<close>

definition pl011_read_dr :: "uart_pl011_softc \<Rightarrow> uart_pl011_softc \<times> 32 word" where
  "pl011_read_dr sc =
     (case uart_rxfifo_getchar (pbackend sc) of
        (b, c) \<Rightarrow>
          let sc = sc\<lparr>pbackend := b\<rparr>; fifo_sz = uart_rxfifo_numchars b;
              sc = (if fifo_sz < uart_rx_trigger_level sc then sc\<lparr>irq_state := irq_state sc AND NOT UARTRXINTR\<rparr> else sc);
              sc = (if fifo_sz = 0 then sc\<lparr>irq_state := irq_state sc AND NOT UARTRTINTR\<rparr> else sc) in
          (sc\<lparr>rsr := rsr sc AND UARTRSR_OE\<rparr>, of_int c OR push_bit 8 (ucast (rsr sc))))"

definition pl011_flags :: "uart_pl011_softc \<Rightarrow> 32 word" where
  "pl011_flags sc =
     (let fifo_sz = uart_rxfifo_numchars (pbackend sc) in
      0x80 OR (if fifo_sz = UART_FIFO_SIZE then 0x40 else if fifo_sz = 0 then 0x10 else 0))"

definition pl011_id :: "int \<Rightarrow> 32 word" where
  "pl011_id offset =
     (if offset = 0x3f8 then 0x11 else if offset = 0x3f9 then 0x10 else if offset = 0x3fa then 0x24
      else if offset = 0x3fb then 0x00 else if offset = 0x3fc then 0x0d else if offset = 0x3fd then 0xf0
      else if offset = 0x3fe then 0x05 else if offset = 0x3ff then 0xb1 else 0)"

definition uart_pl011_read :: "uart_pl011_softc \<Rightarrow> int \<Rightarrow> uart_pl011_softc \<times> 32 word" where
  "uart_pl011_read sc offset =
     (case (if offset = 0x00 then pl011_read_dr sc
            else if offset = 0x01 then (sc, ucast (rsr sc))
            else if offset = 0x06 then (sc, pl011_flags sc)
            else if offset = 0x09 then (sc, ucast (ibrd sc))
            else if offset = 0x0a then (sc, ucast (fbrd sc))
            else if offset = 0x0b then (sc, ucast (lcr_h sc))
            else if offset = 0x0c then (sc, ucast (cr sc))
            else if offset = 0x0e then (sc, ucast (imsc sc))
            else if offset = 0x0f then (sc, ucast (irq_state sc))
            else if offset = 0x10 then (sc, ucast (irq_state sc AND imsc sc))
            else (sc, pl011_id offset)) of
        (sc, reg) \<Rightarrow> (pl011_toggle_intr sc, reg))"

section \<open>The states of a port\<close>

inductive pl011_step :: "uart_pl011_softc \<Rightarrow> uart_pl011_softc \<Rightarrow> bool" where
  reg_write: "pl011_step sc (uart_pl011_write sc offset v)"
| reg_read: "pl011_step sc (fst (uart_pl011_read sc offset))"
| drain: "pl011_step sc (pl011_drain sc)"
| host_side: "host_step (pbackend sc) b \<Longrightarrow> pl011_step sc (sc\<lparr>pbackend := b\<rparr>)"

inductive pl011_reachable :: "uart_pl011_softc \<Rightarrow> bool" where
  init: "pl011_reachable (uart_pl011_init h)"
| step: "pl011_reachable sc \<Longrightarrow> pl011_step sc sc' \<Longrightarrow> pl011_reachable sc'"

definition fen :: "uart_pl011_softc \<Rightarrow> bool" where
  "fen sc = (lcr_h sc AND UARTLCR_H_FEN \<noteq> 0)"

definition pl011_ok :: "uart_pl011_softc \<Rightarrow> bool" where
  "pl011_ok sc \<longleftrightarrow> backend_ok (pbackend sc) \<and> fsize (rxfifo (pbackend sc)) = (if fen sc then UART_FIFO_SIZE else 1)"

lemma pl011_toggle_ok [simp]: "pl011_ok (pl011_toggle_intr sc) = pl011_ok sc"
  by (simp add: pl011_ok_def pl011_toggle_intr_def fen_def)

lemma fen_xor: "(l XOR v) AND (UARTLCR_H_FEN :: 16 word) = 0 \<longleftrightarrow> (l AND UARTLCR_H_FEN \<noteq> 0) = (v AND UARTLCR_H_FEN \<noteq> 0)"
proof -
  have m: "(x AND UARTLCR_H_FEN \<noteq> 0) = bit x 4" for x :: "16 word"
    using and_exp_eq_0_iff_not_bit [of x 4] by simp
  have "(l XOR v) AND UARTLCR_H_FEN = 0 \<longleftrightarrow> \<not> bit (l XOR v) 4" using m [of "l XOR v"] by blast
  then show ?thesis using m [of l] m [of v] by (auto simp: bit_xor_iff)
qed

lemma pl011_write_lcr_ok:
  assumes "pl011_ok sc"
  shows "pl011_ok (pl011_write_lcr sc v)"
proof -
  have f: "fen (sc\<lparr>lcr_h := v AND 0xFF\<rparr>) = (v AND UARTLCR_H_FEN \<noteq> 0)" for sc by (simp add: fen_def and.assoc)
  show ?thesis
    using assms fen_xor [of "lcr_h sc" v] uart_rxfifo_reset_ok [of _ 1] uart_rxfifo_reset_ok [of _ UART_FIFO_SIZE] backend_event
    by (auto simp: pl011_write_lcr_def pl011_ok_def Let_def fen_def and.assoc)
qed

lemma pl011_write_dr_ok: "pl011_ok sc \<Longrightarrow> pl011_ok (pl011_write_dr sc v)"
  by (auto simp: pl011_write_dr_def pl011_ok_def fen_def split: prod.splits dest: uart_rxfifo_putchar_ok)

lemma pl011_write_ok: "pl011_ok sc \<Longrightarrow> pl011_ok (uart_pl011_write sc offset v)"
  using pl011_write_lcr_ok [of sc] pl011_write_dr_ok [of sc]
  by (simp add: uart_pl011_write_def Let_def) (simp add: pl011_ok_def fen_def)

lemma pl011_read_ok: "pl011_ok sc \<Longrightarrow> pl011_ok (fst (uart_pl011_read sc offset))"
  by (auto simp: uart_pl011_read_def pl011_read_dr_def pl011_ok_def fen_def pl011_toggle_intr_def Let_def
      split: prod.splits if_splits dest: uart_rxfifo_getchar_keeps)

lemma pl011_drain_ok: "pl011_ok sc \<Longrightarrow> pl011_ok (pl011_drain sc)"
  using uart_rxfifo_drain_ok [of "pbackend sc"]
  by (auto simp: pl011_drain_def pl011_ok_def fen_def pl011_toggle_intr_def Let_def)

lemma pl011_reachable_ok: "pl011_reachable sc \<Longrightarrow> pl011_ok sc"
proof (induction rule: pl011_reachable.induct)
  case (init h)
  then show ?case
    using uart_rxfifo_reset_ok [of "uart_init h" 1] by (simp add: uart_pl011_init_def pl011_reset_def pl011_ok_def fen_def)
next
  case (step sc sc')
  from step.hyps(2) step.IH show ?case
  proof (induction rule: pl011_step.induct)
    case (host_side sc b)
    then show ?case using host_step_ok [of "pbackend sc" b] by (simp add: pl011_ok_def fen_def)
  qed (simp_all add: pl011_write_ok pl011_read_ok pl011_drain_ok)
qed

section \<open>The receive interrupt\<close>

text \<open>
  Without its FIFO a port never reports received data.  The trigger level is 1 when
  the FIFO bit is set and the programmed level otherwise, the opposite of what the comment
  says.  A port with the FIFO off holds one character and every programmed level is at least two,
  so data that arrives never sets the receive interrupt; only the timeout interrupt tells of it.
\<close>

theorem pl011_no_rx_interrupt_without_fifo:
  assumes "pl011_reachable sc" "\<not> fen sc"
  shows "irq_state (pl011_drain sc) AND UARTRXINTR = irq_state sc AND UARTRXINTR"
proof -
  have ok: "pl011_ok (sc\<lparr>pbackend := uart_rxfifo_drain (pbackend sc) lb\<rparr>)" for lb
    using pl011_reachable_ok [OF assms(1)] uart_rxfifo_drain_ok [of "pbackend sc" lb]
    by (auto simp: pl011_ok_def fen_def)
  have n: "uart_rxfifo_numchars (uart_rxfifo_drain (pbackend sc) lb) \<le> 1" for lb
    using ok [of lb] assms(2) by (simp add: pl011_ok_def backend_ok_def fifo_ok_def uart_rxfifo_numchars_def fen_def)
  have l: "2 \<le> uart_rx_trigger_level (sc\<lparr>pbackend := b\<rparr>)" for b
    using assms(2) by (simp add: uart_rx_trigger_level_def fen_def Let_def)
  have t: "\<not> uart_rx_trigger_level (sc\<lparr>pbackend := uart_rxfifo_drain (pbackend sc) lb\<rparr>) \<le>
      uart_rxfifo_numchars (uart_rxfifo_drain (pbackend sc) lb)" for lb
    using n [of lb] l [of "uart_rxfifo_drain (pbackend sc) lb"] by linarith
  have o: "(x OR UARTRTINTR) AND UARTRXINTR = x AND UARTRXINTR" for x :: "16 word"
    by (simp add: bit.conj_disj_distrib2)
  show ?thesis
    using t [of False] t [of True] l [of "uart_rxfifo_drain (pbackend sc) False"] l [of "uart_rxfifo_drain (pbackend sc) True"]
    by (auto simp: pl011_drain_def Let_def pl011_toggle_intr_def o)
qed

theorem pl011_no_rx_interrupt_without_fifo_witness:
  "irq_state (pl011_drain (uart_pl011_init \<lparr>ht_in = (\<lambda>_. [Rd_Byte 65]), ht_out = [], ht_fail = []\<rparr>)) AND UARTRXINTR = 0"
proof -
  let ?i = "uart_pl011_init \<lparr>ht_in = (\<lambda>_. [Rd_Byte 65]), ht_out = [], ht_fail = []\<rparr>"
  have "\<not> fen ?i" by (simp add: uart_pl011_init_def pl011_reset_def fen_def)
  from pl011_no_rx_interrupt_without_fifo [OF pl011_reachable.init this] show ?thesis
    by (simp add: uart_pl011_init_def pl011_reset_def)
qed

end
