(* ===== verification/Rtc_Pl031.thy ===== *)
theory Rtc_Pl031
  imports Prelude
begin

unbundle bit_operations_syntax

text \<open>
  The PL031 real-time clock of ARM machines, \<^verbatim>\<open>src/rtc_pl031.c\<close>.  Every operation has the clocks of
  the host as an argument: the calendar time in whole seconds, which may jump either way, and the
  monotonic clock in milliseconds, which the timers of the event loop count.  The timer is the
  monotonic time at which it expires; the two interrupt callbacks set the level of a line.
\<close>

section \<open>The device\<close>

type_synonym clocks = "int \<times> int"     \<comment> \<open>the result of \<open>rtc_pl031_time\<close> and the monotonic clock\<close>

record rtc_pl031_softc =
  last_tick :: int
  dr :: "32 word"
  mr :: "32 word"
  lr :: "32 word"
  imsc :: "8 word"
  ris :: "8 word"
  prev_mis :: "8 word"
  mevp :: int
  intr_line :: bool

text \<open>\<open>to_local\<close> is \<open>localtime_r\<close> followed by \<open>timegm\<close>, which depends on the time zone of the host.\<close>

definition rtc_pl031_time :: "bool \<Rightarrow> (int \<Rightarrow> int) \<Rightarrow> int \<Rightarrow> int" where
  "rtc_pl031_time use_localtime to_local t = (if use_localtime then to_local t else t)"

definition rtc_pl031_update_mis :: "rtc_pl031_softc \<Rightarrow> rtc_pl031_softc" where
  "rtc_pl031_update_mis sc =
     (let mis = ris sc AND imsc sc in
      if mis = prev_mis sc then sc
      else sc\<lparr>prev_mis := mis, intr_line := (mis \<noteq> 0)\<rparr>)"

definition rtc_pl031_next_match_ticks :: "rtc_pl031_softc \<Rightarrow> int" where
  "rtc_pl031_next_match_ticks sc =
     (let ticks = mr sc - dr sc in if ticks = 0 then 2 ^ 32 else uint ticks)"

definition rtc_pl031_next_timer_msecs :: "rtc_pl031_softc \<Rightarrow> int" where
  "rtc_pl031_next_timer_msecs sc = min (rtc_pl031_next_match_ticks sc * 1000) (2 ^ 31 - 1)"

text \<open>\<open>mevent_timer_update\<close> sets a relative timer.\<close>

definition rtc_pl031_update_timer :: "clocks \<Rightarrow> rtc_pl031_softc \<Rightarrow> rtc_pl031_softc" where
  "rtc_pl031_update_timer clk sc = sc\<lparr>mevp := snd clk + rtc_pl031_next_timer_msecs sc\<rparr>"

definition rtc_pl031_tick :: "clocks \<Rightarrow> rtc_pl031_softc \<Rightarrow> bool \<Rightarrow> rtc_pl031_softc" where
  "rtc_pl031_tick clk sc from_timer =
     (let now = fst clk; ticks = now - last_tick sc;
          mtch = (0 \<le> ticks \<and> rtc_pl031_next_match_ticks sc \<le> ticks);
          sc = sc\<lparr>dr := dr sc + word_of_int ticks, last_tick := now\<rparr>;
          sc = (if mtch then rtc_pl031_update_mis (sc\<lparr>ris := 1\<rparr>) else sc) in
      if mtch \<or> from_timer \<or> ticks < 0 then rtc_pl031_update_timer clk sc else sc)"



definition rtc_pl031_read :: "clocks \<Rightarrow> rtc_pl031_softc \<Rightarrow> int \<Rightarrow> rtc_pl031_softc \<times> 32 word" where
  "rtc_pl031_read clk sc offset =
     (let sc = rtc_pl031_tick clk sc False in
      (sc,
       if offset = 0x000 then dr sc
       else if offset = 0x004 then mr sc
       else if offset = 0x008 then lr sc
       else if offset = 0x00C then 1
       else if offset = 0x010 then ucast (imsc sc)
       else if offset = 0x014 then ucast (ris sc)
       else if offset = 0x018 then ucast (ris sc AND imsc sc)
       else if offset \<in> {0xFE0, 0xFE4, 0xFE8, 0xFEC}
         then drop_bit (nat (2 * (offset - 0xFE0))) 0x00141031 AND 0xff
       else if offset \<in> {0xFF0, 0xFF4, 0xFF8, 0xFFC}
         then drop_bit (nat (2 * (offset - 0xFF0))) 0xb105f00d AND 0xff
       else 0))"


section \<open>The states of a clock\<close>




text \<open>The line is up exactly while an unmasked alarm is pending.\<close>

definition rtc_line_ok :: "rtc_pl031_softc \<Rightarrow> bool" where
  "rtc_line_ok sc \<longleftrightarrow> prev_mis sc = ris sc AND imsc sc \<and> intr_line sc = (prev_mis sc \<noteq> 0)"

text \<open>The calendar time, in milliseconds, at which the counter reaches the match register.\<close>

definition rtc_due :: "rtc_pl031_softc \<Rightarrow> int" where
  "rtc_due sc = (last_tick sc + rtc_pl031_next_match_ticks sc) * 1000"

definition rtc_timer_ok :: "int \<Rightarrow> rtc_pl031_softc \<Rightarrow> bool" where
  "rtc_timer_ok d sc \<longleftrightarrow> mevp sc + d < rtc_due sc + 1000"

lemma next_match_range: "1 \<le> rtc_pl031_next_match_ticks sc" "rtc_pl031_next_match_ticks sc \<le> 2 ^ 32"
proof -
  have "x \<noteq> 0 \<Longrightarrow> 1 \<le> uint x" for x :: "32 word"
  proof -
    assume "x \<noteq> 0"
    then have "uint x \<noteq> 0" by (simp add: uint_0_iff)
    moreover have "0 \<le> uint x" by simp
    ultimately show "1 \<le> uint x" by linarith
  qed
  then show "1 \<le> rtc_pl031_next_match_ticks sc" by (simp add: rtc_pl031_next_match_ticks_def Let_def)
  show "rtc_pl031_next_match_ticks sc \<le> 2 ^ 32"
    using uint_lt2p [of "mr sc - dr sc"] by (auto simp: rtc_pl031_next_match_ticks_def Let_def)
qed

lemma next_match_reaches: "dr sc + word_of_int (rtc_pl031_next_match_ticks sc) = mr sc"
  by (auto simp: rtc_pl031_next_match_ticks_def Let_def)

lemma next_match_first:
  assumes "1 \<le> k" "dr sc + word_of_int k = mr sc"
  shows "rtc_pl031_next_match_ticks sc \<le> k"
proof -
  have d: "mr sc - dr sc = word_of_int k" using assms(2) by (simp add: algebra_simps)
  then have u: "uint (mr sc - dr sc) = k mod 2 ^ 32" by (simp add: uint_word_of_int)
  show ?thesis
  proof (cases "mr sc - dr sc = 0")
    case True
    then have "k mod 2 ^ 32 = 0" using u by simp
    then have "2 ^ 32 dvd k" by (rule mod_0_imp_dvd)
    with zdvd_imp_le [of "2 ^ 32" k] assms(1) True show ?thesis by (simp add: rtc_pl031_next_match_ticks_def)
  next
    case False
    with u zmod_le_nonneg_dividend [of k "2 ^ 32"] assms(1) show ?thesis by (simp add: rtc_pl031_next_match_ticks_def)
  qed
qed



lemma update_mis_timer [simp]: "rtc_timer_ok d (rtc_pl031_update_mis sc) = rtc_timer_ok d sc"
  by (simp add: rtc_timer_ok_def rtc_due_def rtc_pl031_update_mis_def rtc_pl031_next_match_ticks_def Let_def)

lemma update_timer_line [simp]: "rtc_line_ok (rtc_pl031_update_timer clk sc) = rtc_line_ok sc"
  by (simp add: rtc_line_ok_def rtc_pl031_update_timer_def)





lemma tick_last [simp]: "last_tick (rtc_pl031_tick clk sc b) = fst clk"
  by (simp add: rtc_pl031_tick_def rtc_pl031_update_timer_def rtc_pl031_update_mis_def Let_def)

lemma update_mis_last [simp]: "last_tick (rtc_pl031_update_mis sc) = last_tick sc"
  by (simp add: rtc_pl031_update_mis_def Let_def)








section \<open>Properties\<close>

lemma match_passed_iff:
  "(\<exists>k. 1 \<le> k \<and> k \<le> t \<and> dr sc + word_of_int k = mr sc) \<longleftrightarrow> 0 \<le> t \<and> rtc_pl031_next_match_ticks sc \<le> t"
  using next_match_first [of _ sc] next_match_reaches [of sc] next_match_range(1) [of sc] by force

text \<open>
  Property C32: the alarm is exact.  When the clock catches up with the host, however many
  seconds went by since the last access, it raises the raw interrupt exactly when the 32-bit
  counter passed the match register in between, wrap-around included; the counter is left at its
  old value plus the elapsed seconds.
\<close>

theorem rtc_tick_exact:
  "dr (rtc_pl031_tick clk sc b) = dr sc + word_of_int (fst clk - last_tick sc) \<and>
   ris (rtc_pl031_tick clk sc b) =
     (if \<exists>k. 1 \<le> k \<and> k \<le> fst clk - last_tick sc \<and> dr sc + word_of_int k = mr sc then 1 else ris sc)"
  unfolding match_passed_iff
  by (simp add: rtc_pl031_tick_def rtc_pl031_update_timer_def rtc_pl031_update_mis_def Let_def)



text \<open>
  A calendar time that is set forward makes the alarm late by as much: a register access that
  notices it does not set the timer again.
\<close>

theorem rtc_jump_keeps_timer:
  assumes "last_tick sc \<le> fst clk" "fst clk < last_tick sc + rtc_pl031_next_match_ticks sc"
  shows "mevp (fst (rtc_pl031_read clk sc offset)) = mevp sc"
  using assms by (simp add: rtc_pl031_read_def rtc_pl031_tick_def Let_def)

end
