(* ===== verification/Qemu_Fwcfg.thy ===== *)
theory Qemu_Fwcfg
  imports Endian "HOL-Library.Multiset"
begin

text \<open>
  The firmware configuration device, \<^verbatim>\<open>src/qemu_fwcfg.c\<close>: numbered items, a sorted directory of
  named files among them, and the two registers through which the guest selects an item and reads
  it.  A C string is the list of its characters in front of the terminating zero.  The data of an
  item is a buffer the caller owns or the directory itself, which later files change in place.
\<close>

section \<open>State\<close>

datatype fw_data = Buf "byte list" | Directory

record qemu_fwcfg_item =
  it_size :: u32
  it_data :: "fw_data option"

text \<open>Sizes, selectors and the count are stored in the guest's byte order; the bytes are below.\<close>

record qemu_fwcfg_file =
  be_size :: u32
  be_selector :: nat
  ff_name :: "byte list"

record qemu_fwcfg_directory =
  be_count :: u32
  dfiles :: "qemu_fwcfg_file list"

record qemu_fwcfg_user_file =
  uf_name :: "byte list"
  uf_size :: u32
  uf_data :: "byte list option"

record qemu_fwcfg_softc =
  data_offset :: u32
  selector :: nat
  items :: "nat \<Rightarrow> nat \<Rightarrow> qemu_fwcfg_item"
  directory :: "qemu_fwcfg_directory option"
  mmio_base :: u64
  user_files :: "qemu_fwcfg_user_file list"

abbreviation (input) QEMU_FWCFG_MAX_NAME :: nat where "QEMU_FWCFG_MAX_NAME \<equiv> 56"
abbreviation (input) QEMU_FWCFG_INDEX_FILE_DIR :: nat where "QEMU_FWCFG_INDEX_FILE_DIR \<equiv> 0x19"
abbreviation (input) QEMU_FWCFG_FIRST_FILE_INDEX :: nat where "QEMU_FWCFG_FIRST_FILE_INDEX \<equiv> 0x20"
abbreviation (input) QEMU_FWCFG_MIN_FILES :: nat where "QEMU_FWCFG_MIN_FILES \<equiv> 10"

definition file_bytes :: "qemu_fwcfg_file \<Rightarrow> byte list" where
  "file_bytes f = be32enc (be_size f) @ be16enc (be_selector f) @ [0, 0] @ ff_name f"

definition dir_bytes :: "qemu_fwcfg_directory \<Rightarrow> byte list" where
  "dir_bytes d = be32enc (be_count d) @ concat (map file_bytes (dfiles d))"

definition item_bytes :: "qemu_fwcfg_softc \<Rightarrow> fw_data \<Rightarrow> byte list" where
  "item_bytes sc x = (case x of Buf bs \<Rightarrow> bs | Directory \<Rightarrow> (case directory sc of None \<Rightarrow> [] | Some d \<Rightarrow> dir_bytes d))"

definition sel_index :: "nat \<Rightarrow> nat" where
  "sel_index bits = bits mod 0x4000"

definition sel_architecture :: "nat \<Rightarrow> nat" where
  "sel_architecture bits = bits div 0x8000 mod 2"

definition selected :: "qemu_fwcfg_softc \<Rightarrow> qemu_fwcfg_item" where
  "selected sc = items sc (sel_architecture (selector sc)) (sel_index (selector sc))"

section \<open>Guest accesses\<close>

text \<open>\<open>Fw_Overrun\<close> is a copy that reads behind the end of the buffer of an item.\<close>

datatype fw_result = Fw_Ok nat | Fw_Err | Fw_Overrun

definition SwapBytes16 :: "nat \<Rightarrow> nat" where
  "SwapBytes16 v = v mod 256 * 256 + v div 256 mod 256"

definition fwcfg_selector_handler :: "qemu_fwcfg_softc \<Rightarrow> bool \<Rightarrow> u64 \<Rightarrow> nat \<Rightarrow> qemu_fwcfg_softc \<times> fw_result" where
  "fwcfg_selector_handler sc is_write val bytes =
     (if bytes \<noteq> 2 then (sc, Fw_Err)
      else if is_write then (sc\<lparr>data_offset := 0, selector := SwapBytes16 val\<rparr>, Fw_Ok val)
      else (sc, Fw_Ok (SwapBytes16 (selector sc))))"

text \<open>The value is a little-endian 64-bit variable; bytes that are not copied keep their value.\<close>

definition fwcfg_data_handler :: "qemu_fwcfg_softc \<Rightarrow> bool \<Rightarrow> u64 \<Rightarrow> nat \<Rightarrow> qemu_fwcfg_softc \<times> fw_result" where
  "fwcfg_data_handler sc is_write val bytes =
     (if is_write then (sc, Fw_Err)
      else case it_data (selected sc) of
          None \<Rightarrow> (sc, Fw_Ok 0)
        | Some x \<Rightarrow>
            if it_size (selected sc) \<le> data_offset sc then (sc, Fw_Ok 0)
            else if length (item_bytes sc x) < data_offset sc + bytes then (sc, Fw_Overrun)
            else (sc\<lparr>data_offset := (data_offset sc + bytes) mod 4294967296\<rparr>,
                  Fw_Ok (le64dec (overwrite 0 (buf_slice (data_offset sc) bytes (item_bytes sc x)) (le64enc val)) 0)))"

definition mmio_fwcfg_mem_handler ::
  "qemu_fwcfg_softc \<Rightarrow> bool \<Rightarrow> u64 \<Rightarrow> nat \<Rightarrow> u64 \<Rightarrow> qemu_fwcfg_softc \<times> fw_result" where
  "mmio_fwcfg_mem_handler sc is_write addr bytes val =
     (if sub64 addr (mmio_base sc) = 0 then fwcfg_data_handler sc is_write val bytes
      else fwcfg_selector_handler sc is_write val bytes)"

text \<open>The port handlers of x86 machines.\<close>

definition qemu_fwcfg_selector_port_handler :: "qemu_fwcfg_softc \<Rightarrow> bool \<Rightarrow> nat \<Rightarrow> u32 \<Rightarrow> qemu_fwcfg_softc \<times> fw_result" where
  "qemu_fwcfg_selector_port_handler sc is_in bytes eax =
     (if bytes \<noteq> 2 then (sc, Fw_Err)
      else if is_in then (sc, Fw_Ok (selector sc))
      else (sc\<lparr>data_offset := 0, selector := eax mod 65536\<rparr>, Fw_Ok eax))"

definition qemu_fwcfg_data_port_handler :: "qemu_fwcfg_softc \<Rightarrow> bool \<Rightarrow> nat \<Rightarrow> qemu_fwcfg_softc \<times> fw_result" where
  "qemu_fwcfg_data_port_handler sc is_in bytes =
     (if bytes \<noteq> 1 then (sc, Fw_Err)
      else if \<not> is_in then (sc, Fw_Err)
      else case it_data (selected sc) of
          None \<Rightarrow> (sc, Fw_Ok 0)
        | Some x \<Rightarrow>
            if it_size (selected sc) \<le> data_offset sc then (sc, Fw_Ok 0)
            else if length (item_bytes sc x) \<le> data_offset sc then (sc, Fw_Overrun)
            else (sc\<lparr>data_offset := (data_offset sc + 1) mod 4294967296\<rparr>,
                  Fw_Ok (unat (item_bytes sc x ! data_offset sc))))"

section \<open>Adding items\<close>

definition set_item :: "qemu_fwcfg_softc \<Rightarrow> nat \<Rightarrow> nat \<Rightarrow> qemu_fwcfg_item \<Rightarrow> qemu_fwcfg_softc" where
  "set_item sc arch idx it = sc\<lparr>items := (items sc)(arch := (items sc arch)(idx := it))\<rparr>"

definition qemu_fwcfg_add_item ::
  "qemu_fwcfg_softc \<Rightarrow> nat \<Rightarrow> nat \<Rightarrow> u32 \<Rightarrow> fw_data option \<Rightarrow> qemu_fwcfg_softc \<times> unit res" where
  "qemu_fwcfg_add_item sc architecture index sz data =
     (let arch = architecture mod 2; idx = index mod 0x4000 in
      if it_data (items sc arch idx) \<noteq> None then (sc, Inl EEXIST)
      else (set_item sc arch idx \<lparr>it_size = sz, it_data = data\<rparr>, Inr ()))"

definition zero_file :: qemu_fwcfg_file where
  "zero_file = \<lparr>be_size = 0, be_selector = 0, ff_name = replicate QEMU_FWCFG_MAX_NAME 0\<rparr>"

definition qemu_fwcfg_add_item_file_dir :: "qemu_fwcfg_softc \<Rightarrow> qemu_fwcfg_softc \<times> unit res" where
  "qemu_fwcfg_add_item_file_dir sc =
     (let sc = sc\<lparr>directory := Some \<lparr>be_count = 0, dfiles = replicate QEMU_FWCFG_MIN_FILES zero_file\<rparr>\<rparr> in
      qemu_fwcfg_add_item sc 0 QEMU_FWCFG_INDEX_FILE_DIR 4 (Some Directory))"

definition qemu_fwcfg_add_item_id :: "qemu_fwcfg_softc \<Rightarrow> qemu_fwcfg_softc \<times> unit res" where
  "qemu_fwcfg_add_item_id sc = qemu_fwcfg_add_item sc 0 1 4 (Some (Buf (le32enc 1)))"

definition qemu_fwcfg_add_item_max_cpus :: "nat \<Rightarrow> qemu_fwcfg_softc \<Rightarrow> qemu_fwcfg_softc \<times> unit res" where
  "qemu_fwcfg_add_item_max_cpus guest_ncpus sc = qemu_fwcfg_add_item sc 0 0x0F 2 (Some (Buf (le16enc guest_ncpus)))"

definition qemu_fwcfg_add_item_nb_cpus :: "nat \<Rightarrow> qemu_fwcfg_softc \<Rightarrow> qemu_fwcfg_softc \<times> unit res" where
  "qemu_fwcfg_add_item_nb_cpus guest_ncpus sc = qemu_fwcfg_add_item sc 0 0x05 2 (Some (Buf (le16enc guest_ncpus)))"

definition qemu_fwcfg_add_item_signature :: "qemu_fwcfg_softc \<Rightarrow> qemu_fwcfg_softc \<times> unit res" where
  "qemu_fwcfg_add_item_signature sc = qemu_fwcfg_add_item sc 0 0 4 (Some (Buf [81, 69, 77, 85]))"

section \<open>Adding files\<close>

text \<open>Of the result of \<open>strcmp\<close> only the sign is specified.\<close>

fun strcmp :: "byte list \<Rightarrow> byte list \<Rightarrow> int" where
  "strcmp [] [] = 0"
| "strcmp [] (y # ys) = -1"
| "strcmp (x # xs) [] = 1"
| "strcmp (x # xs) (y # ys) = (if x = y then strcmp xs ys else if x < y then -1 else 1)"

definition c_str :: "byte list \<Rightarrow> byte list" where
  "c_str buf = takeWhile (\<lambda>c. c \<noteq> 0) buf"

fun file_position :: "byte list \<Rightarrow> qemu_fwcfg_file list \<Rightarrow> nat" where
  "file_position name [] = 0"
| "file_position name (f # fs) = (if strcmp name (c_str (ff_name f)) < 0 then 0 else Suc (file_position name fs))"

fun shift_files :: "nat \<Rightarrow> nat \<Rightarrow> qemu_fwcfg_file list \<Rightarrow> qemu_fwcfg_file list" where
  "shift_files 0 p fs = fs"
| "shift_files (Suc i) p fs = (if p < Suc i then shift_files i p (fs[Suc i := fs ! i]) else fs)"

definition make_room :: "nat \<Rightarrow> nat \<Rightarrow> qemu_fwcfg_file list \<Rightarrow> qemu_fwcfg_file list" where
  "make_room cnt file_index fs =
     (if QEMU_FWCFG_MIN_FILES < cnt
      then take file_index fs @ [zero_file] @ take (cnt - file_index - 1) (drop file_index fs)
      else shift_files (QEMU_FWCFG_MIN_FILES - 1) file_index fs)"

text \<open>\<open>None\<close> is an access through the null pointer of a directory that does not exist yet.\<close>

definition qemu_fwcfg_add_file ::
  "qemu_fwcfg_softc \<Rightarrow> byte list \<Rightarrow> u32 \<Rightarrow> byte list option \<Rightarrow> (qemu_fwcfg_softc \<times> unit res) option" where
  "qemu_fwcfg_add_file sc name sz data =
     (if QEMU_FWCFG_MAX_NAME \<le> length name then Some (sc, Inl EINVAL)
      else case directory sc of
          None \<Rightarrow> None
        | Some d \<Rightarrow>
            let cnt = (be_count d + 1) mod 4294967296;
                index = (QEMU_FWCFG_FIRST_FILE_INDEX + cnt - 1) mod 4294967296 in
            (case qemu_fwcfg_add_item sc 0 (index mod 65536) sz (map_option Buf data) of
               (sc, Inl e) \<Rightarrow> Some (sc, Inl e)
             | (sc, Inr _) \<Rightarrow>
                 let file_index = file_position name (take (cnt - 1) (dfiles d));
                     fs = make_room cnt file_index (dfiles d);
                     f = \<lparr>be_size = sz, be_selector = index mod 65536,
                          ff_name = overwrite 0 (name @ [0]) (ff_name (fs ! file_index))\<rparr>;
                     sc = sc\<lparr>directory := Some \<lparr>be_count = cnt, dfiles = fs[file_index := f]\<rparr>\<rparr> in
                 Some (set_item sc 0 QEMU_FWCFG_INDEX_FILE_DIR
                         \<lparr>it_size = (4 + cnt * 64) mod 4294967296,
                          it_data = (if QEMU_FWCFG_MIN_FILES < cnt then Some Directory
                                     else it_data (items sc 0 QEMU_FWCFG_INDEX_FILE_DIR))\<rparr>, Inr ())))"

definition qemu_fwcfg_add_file_deferred ::
  "qemu_fwcfg_softc \<Rightarrow> byte list \<Rightarrow> u32 \<Rightarrow> byte list option \<Rightarrow> (qemu_fwcfg_softc \<times> unit res) option" where
  "qemu_fwcfg_add_file_deferred sc name sz data =
     (if directory sc \<noteq> None then qemu_fwcfg_add_file sc name sz data
      else if QEMU_FWCFG_MAX_NAME \<le> length name then Some (sc, Inl EINVAL)
      else Some (sc\<lparr>user_files := user_files sc @ [\<lparr>uf_name = name, uf_size = sz, uf_data = data\<rparr>]\<rparr>, Inr ()))"

fun add_user_files :: "qemu_fwcfg_softc \<Rightarrow> qemu_fwcfg_user_file list \<Rightarrow> (qemu_fwcfg_softc \<times> unit res) option" where
  "add_user_files sc [] = Some (sc, Inr ())"
| "add_user_files sc (f # fs) =
     (case qemu_fwcfg_add_file sc (uf_name f) (uf_size f) (uf_data f) of
        None \<Rightarrow> None
      | Some (sc, Inl e) \<Rightarrow> Some (sc, Inl e)
      | Some (sc, Inr _) \<Rightarrow> add_user_files sc fs)"

definition qemu_fwcfg_add_user_files :: "qemu_fwcfg_softc \<Rightarrow> (qemu_fwcfg_softc \<times> unit res) option" where
  "qemu_fwcfg_add_user_files sc = add_user_files sc (user_files sc)"

definition qemu_fwcfg_add_string_file ::
  "qemu_fwcfg_softc \<Rightarrow> byte list \<Rightarrow> byte list option \<Rightarrow> (qemu_fwcfg_softc \<times> unit res) option" where
  "qemu_fwcfg_add_string_file sc name v =
     (case v of
        None \<Rightarrow> Some (sc, Inr ())
      | Some s \<Rightarrow> qemu_fwcfg_add_file sc name ((length s + 1) mod 4294967296) (Some (s @ [0])))"

text \<open>The option \<open>-f\<close>; \<open>read_file\<close> gives the content of a file that can be read.\<close>

definition strip_prefix :: "byte list \<Rightarrow> byte list \<Rightarrow> byte list option" where
  "strip_prefix p s = (if take (length p) s = p then Some (drop (length p) s) else None)"

abbreviation (input) comma :: byte where "comma \<equiv> 44"

definition qemu_fwcfg_parse_cmdline_arg ::
  "(byte list \<Rightarrow> byte list option) \<Rightarrow> qemu_fwcfg_softc \<Rightarrow> byte list \<Rightarrow> qemu_fwcfg_softc \<times> bool" where
  "qemu_fwcfg_parse_cmdline_arg read_file sc opt =
     (let s = (case strip_prefix [110, 97, 109, 101, 61] opt of Some s \<Rightarrow> s | None \<Rightarrow> opt);
          name = takeWhile (\<lambda>c. c \<noteq> comma) s; rest = dropWhile (\<lambda>c. c \<noteq> comma) s;
          add = (\<lambda>sz data. (sc\<lparr>user_files := user_files sc @ [\<lparr>uf_name = name, uf_size = sz, uf_data = Some data\<rparr>]\<rparr>, True)) in
      if rest = [] then (sc, False)
      else if QEMU_FWCFG_MAX_NAME \<le> length name then (sc, False)
      else case strip_prefix [115, 116, 114, 105, 110, 103, 61] (tl rest) of
          Some v \<Rightarrow> add ((length v + 1) mod 4294967296) (v @ [0])
        | None \<Rightarrow>
            (case strip_prefix [102, 105, 108, 101, 61] (tl rest) of
               Some path \<Rightarrow> (case read_file path of Some bs \<Rightarrow> add (length bs mod 4294967296) bs | None \<Rightarrow> (sc, False))
             | None \<Rightarrow> (sc, False)))"

section \<open>Initialisation\<close>

definition fwcfg_sc0 :: "u64 \<Rightarrow> qemu_fwcfg_user_file list \<Rightarrow> qemu_fwcfg_softc" where
  "fwcfg_sc0 base ufs =
     \<lparr>data_offset = 0, selector = 0, items = (\<lambda>_ _. \<lparr>it_size = 0, it_data = None\<rparr>), directory = None,
      mmio_base = base, user_files = ufs\<rparr>"

text \<open>The common items; a failure to add the directory is reported and otherwise ignored.\<close>

definition qemu_fwcfg_common_items :: "nat \<Rightarrow> qemu_fwcfg_softc \<Rightarrow> qemu_fwcfg_softc \<times> unit res" where
  "qemu_fwcfg_common_items guest_ncpus sc =
     and_then (qemu_fwcfg_add_item_signature sc) (\<lambda>sc _.
     and_then (qemu_fwcfg_add_item_id sc) (\<lambda>sc _.
     and_then (qemu_fwcfg_add_item_nb_cpus guest_ncpus sc) (\<lambda>sc _.
     and_then (qemu_fwcfg_add_item_max_cpus guest_ncpus sc) (\<lambda>sc _.
     (fst (qemu_fwcfg_add_item_file_dir sc), Inr ())))))"

section \<open>The directory\<close>

lemma strcmp_trans: "strcmp a b < 0 \<Longrightarrow> strcmp c a < 0 \<Longrightarrow> strcmp c b < 0"
proof (induction a b arbitrary: c rule: strcmp.induct)
  case (2 y ys)
  then show ?case by (cases c) auto
next
  case (4 x xs y ys)
  then show ?case by (cases c) (auto split: if_splits)
qed (auto)

lemma strcmp_asym: "strcmp a b < 0 \<Longrightarrow> \<not> strcmp b a < 0"
  by (induction a b rule: strcmp.induct) (auto split: if_splits)

lemma file_position_le: "file_position name fs \<le> length fs"
  by (induction fs) auto

lemma file_position_before: "j < file_position name fs \<Longrightarrow> \<not> strcmp name (c_str (ff_name (fs ! j))) < 0"
  by (induction fs arbitrary: j) (auto split: if_splits simp: nth_Cons')

lemma file_position_at: "file_position name fs < length fs \<Longrightarrow> strcmp name (c_str (ff_name (fs ! file_position name fs))) < 0"
  by (induction fs) auto

definition names_sorted :: "qemu_fwcfg_file list \<Rightarrow> bool" where
  "names_sorted fs \<longleftrightarrow> sorted_wrt (\<lambda>f g. \<not> strcmp (c_str (ff_name g)) (c_str (ff_name f)) < 0) fs"

lemma names_sorted_insert:
  assumes "names_sorted fs" "c_str (ff_name f) = name"
  shows "names_sorted (take (file_position name fs) fs @ f # drop (file_position name fs) fs)"
proof -
  let ?p = "file_position name fs"
  have "names_sorted (take ?p fs @ drop ?p fs)" using assms(1) by simp
  then have s: "names_sorted (take ?p fs)" "names_sorted (drop ?p fs)"
    "\<forall>g \<in> set (take ?p fs). \<forall>h \<in> set (drop ?p fs). \<not> strcmp (c_str (ff_name h)) (c_str (ff_name g)) < 0"
    unfolding names_sorted_def sorted_wrt_append by blast+
  have before: "\<forall>g \<in> set (take ?p fs). \<not> strcmp name (c_str (ff_name g)) < 0"
  proof
    fix g assume "g \<in> set (take ?p fs)"
    then obtain j where "j < ?p" "g = fs ! j" by (auto simp: in_set_conv_nth)
    then show "\<not> strcmp name (c_str (ff_name g)) < 0" using file_position_before by blast
  qed
  have after: "\<forall>g \<in> set (drop ?p fs). \<not> strcmp (c_str (ff_name g)) name < 0"
  proof (cases "drop ?p fs")
    case (Cons h hs)
    then have l: "?p < length fs" by (metis drop_eq_Nil leI list.distinct(1))
    have "fs ! ?p = h" using Cons l by (metis hd_drop_conv_nth list.sel(1))
    then have n: "strcmp name (c_str (ff_name h)) < 0" using file_position_at [OF l] by simp
    have "\<not> strcmp (c_str (ff_name g)) (c_str (ff_name h)) < 0" if "g \<in> set hs" for g
      using s(2) that unfolding Cons names_sorted_def by simp
    then have "\<not> strcmp (c_str (ff_name g)) name < 0" if "g \<in> set hs" for g using strcmp_trans [OF n] that by blast
    then show ?thesis using Cons strcmp_asym [OF n] by simp
  qed simp
  from s before after assms(2) show ?thesis unfolding names_sorted_def sorted_wrt_append by simp
qed

lemma shift_files_nth:
  "length fs = n \<Longrightarrow> i < n \<Longrightarrow> p \<le> i \<Longrightarrow> j < n \<Longrightarrow>
     length (shift_files i p fs) = n \<and> shift_files i p fs ! j = (if p < j \<and> j \<le> i then fs ! (j - 1) else fs ! j)"
proof (induction i p fs rule: shift_files.induct)
  case (2 i p fs)
  show ?case
  proof (cases "p < Suc i")
    case True
    then show ?thesis
      using "2.IH" [OF True] "2.prems" by (auto simp: nth_list_update)
  qed (use "2.prems" in auto)
qed auto

lemma make_room_result:
  assumes "length fs = max 10 n" "p \<le> n"
  defines "gs \<equiv> make_room (n + 1) p fs"
  shows "length gs = max 10 (n + 1) \<and> (\<forall>g \<in> set gs. g = zero_file \<or> g \<in> set fs) \<and>
    take (n + 1) (gs[p := f]) = take p (take n fs) @ f # drop p (take n fs)"
proof (cases "10 < n + 1")
  case True
  then have g: "gs = take p fs @ zero_file # drop p fs" and l: "length fs = n"
    using assms by (auto simp: make_room_def)
  have m: "min n p = p" "min p n = p" using assms(2) by auto
  have "set gs \<subseteq> insert zero_file (set fs)" using g by (auto dest: in_set_takeD in_set_dropD)
  then show ?thesis using g l assms(2) True m by (auto simp: list_update_append)
next
  case False
  then have g: "gs = shift_files 9 p fs" and l: "length fs = 10" and n: "n < 10"
    using assms by (auto simp: make_room_def)
  have r: "length gs = 10" "\<And>j. j < 10 \<Longrightarrow> gs ! j = (if p < j \<and> j \<le> 9 then fs ! (j - 1) else fs ! j)"
    using shift_files_nth [OF l, of 9 p] g assms(2) n by auto
  have s: "g \<in> set fs" if g: "g \<in> set gs" for g
  proof -
    from g r(1) obtain j where j: "j < 10" "g = gs ! j" by (auto simp: in_set_conv_nth)
    then have "g = fs ! (if p < j then j - 1 else j)" using r(2) [OF j(1)] by simp
    then show ?thesis using j l by (auto intro!: nth_mem)
  qed
  have "take (n + 1) (gs[p := f]) = take p (take n fs) @ f # drop p (take n fs)"
  proof (rule nth_equalityI)
    fix i assume "i < length (take (n + 1) (gs[p := f]))"
    then have i: "i \<le> n" using r by simp
    then have v: "take (n + 1) (gs[p := f]) ! i = (if i = p then f else if p < i then fs ! (i - 1) else fs ! i)"
      using r(2) [of i] r(1) n by (simp add: nth_list_update)
    consider "i < p" | "i = p" | "p < i" by linarith
    then show "take (n + 1) (gs[p := f]) ! i = (take p (take n fs) @ f # drop p (take n fs)) ! i"
    proof cases
      case 3
      then have "(take p (take n fs) @ f # drop p (take n fs)) ! i = drop p (take n fs) ! (i - p - 1)"
        using l n assms(2) by (simp add: nth_append nth_Cons')
      also have "\<dots> = fs ! (i - 1)" using 3 i l n assms(2) by simp
      finally show ?thesis using v 3 by simp
    qed (use v l n assms(2) in \<open>auto simp: nth_append\<close>)
  qed (use r l n assms(2) in auto)
  moreover have "max 10 (n + 1) = 10" using n by simp
  ultimately show ?thesis using r(1) s by simp
qed

section \<open>The states of the device\<close>

text \<open>A file as it was added: name, size and buffer.\<close>

type_synonym fw_log = "(byte list \<times> u32 \<times> byte list option) list"

definition fw_content :: "byte list \<times> u32 \<times> byte list option \<Rightarrow> byte list" where
  "fw_content e = (case e of (_, sz, None) \<Rightarrow> replicate sz 0 | (_, sz, Some bs) \<Rightarrow> take sz bs)"

text \<open>Strings have no zero inside and buffers have at least the size that is passed with them.\<close>

definition fw_args_ok :: "byte list \<Rightarrow> u32 \<Rightarrow> byte list option \<Rightarrow> bool" where
  "fw_args_ok name sz data \<longleftrightarrow> 0 \<notin> set name \<and> sz \<le> UINT32_MAX \<and> (case data of None \<Rightarrow> True | Some bs \<Rightarrow> sz \<le> length bs)"

inductive fwcfg_reachable :: "fw_log \<Rightarrow> qemu_fwcfg_softc \<Rightarrow> bool" where
  init: "fwcfg_reachable [] (fst (qemu_fwcfg_common_items guest_ncpus (fwcfg_sc0 base ufs)))"
| add: "fwcfg_reachable log sc \<Longrightarrow> fw_args_ok name sz data \<Longrightarrow> qemu_fwcfg_add_file sc name sz data = Some (sc', r) \<Longrightarrow>
    fwcfg_reachable (if is_ok r then log @ [(name, sz, data)] else log) sc'"
| mmio: "fwcfg_reachable log sc \<Longrightarrow> fwcfg_reachable log (fst (mmio_fwcfg_mem_handler sc w addr bytes val))"
| port_selector: "fwcfg_reachable log sc \<Longrightarrow> fwcfg_reachable log (fst (qemu_fwcfg_selector_port_handler sc i bytes eax))"
| port_data: "fwcfg_reachable log sc \<Longrightarrow> fwcfg_reachable log (fst (qemu_fwcfg_data_port_handler sc i bytes))"

definition file_entry :: "qemu_fwcfg_file \<Rightarrow> byte list \<times> u32 \<times> nat" where
  "file_entry f = (c_str (ff_name f), be_size f, be_selector f)"

definition log_entry :: "fw_log \<Rightarrow> nat \<Rightarrow> byte list \<times> u32 \<times> nat" where
  "log_entry log k = (fst (log ! k), fst (snd (log ! k)), QEMU_FWCFG_FIRST_FILE_INDEX + k)"

text \<open>The first entries of the directory are the files that were added, sorted by name.\<close>

definition directory_ok :: "fw_log \<Rightarrow> qemu_fwcfg_directory \<Rightarrow> bool" where
  "directory_ok log d \<longleftrightarrow> be_count d = length log \<and> length (dfiles d) = max QEMU_FWCFG_MIN_FILES (length log) \<and>
     (\<forall>f \<in> set (dfiles d). length (ff_name f) = QEMU_FWCFG_MAX_NAME) \<and>
     mset (map file_entry (take (length log) (dfiles d))) = mset (map (log_entry log) [0..<length log]) \<and>
     names_sorted (take (length log) (dfiles d))"

definition items_ok :: "fw_log \<Rightarrow> (nat \<Rightarrow> qemu_fwcfg_item) \<Rightarrow> bool" where
  "items_ok log its \<longleftrightarrow> its 0 = \<lparr>it_size = 4, it_data = Some (Buf [81, 69, 77, 85])\<rparr> \<and>
     its QEMU_FWCFG_INDEX_FILE_DIR = \<lparr>it_size = 4 + 64 * length log, it_data = Some Directory\<rparr> \<and>
     (\<forall>k < length log. its (QEMU_FWCFG_FIRST_FILE_INDEX + k) =
        \<lparr>it_size = fst (snd (log ! k)), it_data = map_option Buf (snd (snd (log ! k)))\<rparr>) \<and>
     (\<forall>i. QEMU_FWCFG_FIRST_FILE_INDEX + length log \<le> i \<longrightarrow> i < 0x4000 \<longrightarrow> it_data (its i) = None)"

definition item_sized :: "nat \<Rightarrow> nat \<Rightarrow> qemu_fwcfg_item \<Rightarrow> bool" where
  "item_sized a i it \<longleftrightarrow> (case it_data it of None \<Rightarrow> True
     | Some (Buf bs) \<Rightarrow> it_size it \<le> length bs | Some Directory \<Rightarrow> a = 0 \<and> i = QEMU_FWCFG_INDEX_FILE_DIR)"

definition items_sized :: "(nat \<Rightarrow> nat \<Rightarrow> qemu_fwcfg_item) \<Rightarrow> bool" where
  "items_sized its \<longleftrightarrow> (\<forall>a i. item_sized a i (its a i))"

lemma items_sized_update:
  "items_sized its \<Longrightarrow> item_sized a i it \<Longrightarrow> item_sized a j jt \<Longrightarrow> items_sized (its(a := (its a)(i := it, j := jt)))"
  by (simp add: items_sized_def)

definition fw_ok :: "fw_log \<Rightarrow> qemu_fwcfg_softc \<Rightarrow> bool" where
  "fw_ok log sc \<longleftrightarrow> length log + QEMU_FWCFG_FIRST_FILE_INDEX \<le> 0x4000 \<and>
     (\<forall>e \<in> set log. case e of (name, sz, data) \<Rightarrow> fw_args_ok name sz data \<and> length name < QEMU_FWCFG_MAX_NAME) \<and>
     (\<exists>d. directory sc = Some d \<and> directory_ok log d) \<and> items_ok log (items sc 0) \<and> items_sized (items sc)"

lemma fw_ok_cong: "fw_ok log sc \<Longrightarrow> items sc' = items sc \<Longrightarrow> directory sc' = directory sc \<Longrightarrow> fw_ok log sc'"
  by (simp add: fw_ok_def)

lemma mmio_frame:
  "items (fst (mmio_fwcfg_mem_handler sc w addr bytes val)) = items sc \<and>
   directory (fst (mmio_fwcfg_mem_handler sc w addr bytes val)) = directory sc"
  by (simp add: mmio_fwcfg_mem_handler_def fwcfg_data_handler_def fwcfg_selector_handler_def split: option.splits)

lemma port_frame:
  "items (fst (qemu_fwcfg_selector_port_handler sc i bytes eax)) = items sc"
  "directory (fst (qemu_fwcfg_selector_port_handler sc i bytes eax)) = directory sc"
  "items (fst (qemu_fwcfg_data_port_handler sc i bytes)) = items sc"
  "directory (fst (qemu_fwcfg_data_port_handler sc i bytes)) = directory sc"
  by (simp_all add: qemu_fwcfg_selector_port_handler_def qemu_fwcfg_data_port_handler_def split: option.splits)

lemma fw_ok_init: "fw_ok [] (fst (qemu_fwcfg_common_items guest_ncpus (fwcfg_sc0 base ufs)))"
  by (simp add: qemu_fwcfg_common_items_def qemu_fwcfg_add_item_signature_def qemu_fwcfg_add_item_id_def
      qemu_fwcfg_add_item_nb_cpus_def qemu_fwcfg_add_item_max_cpus_def qemu_fwcfg_add_item_file_dir_def
      qemu_fwcfg_add_item_def fwcfg_sc0_def set_item_def and_then_def Let_def fw_ok_def directory_ok_def items_ok_def
      names_sorted_def zero_file_def items_sized_def item_sized_def)

lemma c_str_overwrite:
  "0 \<notin> set name \<Longrightarrow> length name < length buf \<Longrightarrow>
     c_str (overwrite 0 (name @ [0]) buf) = name \<and> length (overwrite 0 (name @ [0]) buf) = length buf"
proof -
  assume a: "0 \<notin> set name" "length name < length buf"
  have "overwrite 0 (name @ [0]) buf = name @ 0 # drop (length name + 1) buf" by (simp add: overwrite_def)
  moreover have "takeWhile (\<lambda>c. c \<noteq> 0) (name @ 0 # xs) = name" for xs
    using a(1) by (subst takeWhile_append2) auto
  ultimately show ?thesis using a(2) by (simp add: c_str_def)
qed

text \<open>What adding a file does when it succeeds; the index ends up free because it is new.\<close>

lemma set_item_simps [simp]:
  "items (set_item sc a i it) = (items sc)(a := (items sc a)(i := it))" "directory (set_item sc a i it) = directory sc"
  by (simp_all add: set_item_def)

lemma add_file_cases:
  assumes "fw_ok log sc" "fw_args_ok name sz data" "qemu_fwcfg_add_file sc name sz data = Some (sc', r)"
  obtains "\<not> is_ok r" "sc' = sc"
  | d p fs f where "is_ok r" "directory sc = Some d" "directory_ok log d" "length name < QEMU_FWCFG_MAX_NAME"
    "length log + 1 + QEMU_FWCFG_FIRST_FILE_INDEX \<le> 0x4000"
    "p = file_position name (take (length log) (dfiles d))" "fs = make_room (length log + 1) p (dfiles d)"
    "f = \<lparr>be_size = sz, be_selector = QEMU_FWCFG_FIRST_FILE_INDEX + length log,
          ff_name = overwrite 0 (name @ [0]) (ff_name (fs ! p))\<rparr>"
    "directory sc' = Some \<lparr>be_count = length log + 1, dfiles = fs[p := f]\<rparr>"
    "items sc' = (items sc)(0 := (items sc 0)(QEMU_FWCFG_FIRST_FILE_INDEX + length log :=
         \<lparr>it_size = sz, it_data = map_option Buf data\<rparr>,
       QEMU_FWCFG_INDEX_FILE_DIR := \<lparr>it_size = 4 + (length log + 1) * 64, it_data = Some Directory\<rparr>))"
proof -
  obtain d where d: "directory sc = Some d" "directory_ok log d" "items_ok log (items sc 0)"
    and n: "length log + 0x20 \<le> 0x4000"
    using assms(1) by (auto simp: fw_ok_def)
  have c: "be_count d = length log" using d(2) by (simp add: directory_ok_def)
  show thesis
  proof (cases "length name < 56 \<and> length log + 0x20 < 0x4000")
    case True
    have "it_data (items sc 0 (0x20 + length log)) = None" using d(3) True by (simp add: items_ok_def)
    with True d c assms(3) show thesis
      by (intro that(2) [of d "file_position name (take (length log) (dfiles d))" _ _])
        (auto simp: qemu_fwcfg_add_file_def qemu_fwcfg_add_item_def Let_def items_ok_def is_ok_def)
  next
    case False
    show thesis
    proof (cases "length name < 56")
      case True
      then have "length log = 16352" using False n by simp
      with True d c assms(3) have "\<not> is_ok r \<and> sc' = sc"
        by (auto simp: qemu_fwcfg_add_file_def qemu_fwcfg_add_item_def Let_def items_ok_def is_ok_def)
      then show thesis using that(1) by blast
    next
      case False
      with d c assms(3) have "\<not> is_ok r \<and> sc' = sc" by (auto simp: qemu_fwcfg_add_file_def is_ok_def)
      then show thesis using that(1) by blast
    qed
  qed
qed

lemma log_entry_append: "k < length log \<Longrightarrow> log_entry (log @ xs) k = log_entry log k"
  by (simp add: log_entry_def nth_append)

lemma directory_ok_add:
  assumes "directory_ok log d" "fw_args_ok name sz data" "length name < QEMU_FWCFG_MAX_NAME"
    and "p = file_position name (take (length log) (dfiles d))" "fs = make_room (length log + 1) p (dfiles d)"
    and "f = \<lparr>be_size = sz, be_selector = QEMU_FWCFG_FIRST_FILE_INDEX + length log,
          ff_name = overwrite 0 (name @ [0]) (ff_name (fs ! p))\<rparr>"
  shows "directory_ok (log @ [(name, sz, data)]) \<lparr>be_count = length log + 1, dfiles = fs[p := f]\<rparr>"
proof -
  let ?n = "length log" and ?F = "take (length log) (dfiles d)"
  have l: "length (dfiles d) = max 10 ?n" using assms(1) by (simp add: directory_ok_def)
  have p: "p \<le> ?n" using file_position_le [of name ?F] l assms(4) by simp
  note m = make_room_result [OF l p, of f, folded assms(5)]
  have t: "take (?n + 1) (fs[p := f]) = take p ?F @ f # drop p ?F" using m by blast
  have nm: "\<forall>g \<in> set fs. length (ff_name g) = 56"
    using m assms(1) by (auto simp: directory_ok_def zero_file_def)
  have lp: "p < length fs" using m p by simp
  have cf: "c_str (ff_name f) = name" "length (ff_name f) = 56"
    using c_str_overwrite [of name "ff_name (fs ! p)"] nm lp assms(2,3,6) by (auto simp: fw_args_ok_def)
  have "names_sorted (take (?n + 1) (fs[p := f]))"
    using names_sorted_insert [of ?F f name] assms(1,4) cf(1) t by (simp add: directory_ok_def)
  moreover have "mset (map file_entry (take (?n + 1) (fs[p := f]))) =
      mset (map (log_entry (log @ [(name, sz, data)])) [0..<?n + 1])"
  proof -
    have "mset (map file_entry (take (?n + 1) (fs[p := f]))) = add_mset (file_entry f) (mset (map file_entry (take p ?F @ drop p ?F)))"
      unfolding t by (simp only: map_append list.map mset_append mset.simps union_mset_add_mset_right)
    also have "\<dots> = add_mset (file_entry f) (mset (map (log_entry log) [0..<?n]))"
      unfolding append_take_drop_id using assms(1) by (simp add: directory_ok_def)
    also have "map (log_entry log) [0..<?n] = map (log_entry (log @ [(name, sz, data)])) [0..<?n]"
      by (simp add: log_entry_append)
    also have "file_entry f = log_entry (log @ [(name, sz, data)]) ?n"
      using cf(1) assms(6) by (simp add: file_entry_def log_entry_def)
    finally show ?thesis by simp
  qed
  moreover have "\<forall>g \<in> set (fs[p := f]). length (ff_name g) = 56"
    using nm cf(2) set_update_subset_insert [of fs p f] by auto
  ultimately show ?thesis using m by (simp add: directory_ok_def)
qed

lemma items_ok_add:
  assumes "items_ok log its" "length log + 1 + QEMU_FWCFG_FIRST_FILE_INDEX \<le> 0x4000"
  shows "items_ok (log @ [(name, sz, data)])
    (its(QEMU_FWCFG_FIRST_FILE_INDEX + length log := \<lparr>it_size = sz, it_data = map_option Buf data\<rparr>,
         QEMU_FWCFG_INDEX_FILE_DIR := \<lparr>it_size = 4 + (length log + 1) * 64, it_data = Some Directory\<rparr>))"
  using assms by (auto simp: items_ok_def nth_append less_Suc_eq)

lemma fw_reachable_ok: "fwcfg_reachable log sc \<Longrightarrow> fw_ok log sc"
proof (induction rule: fwcfg_reachable.induct)
  case (init guest_ncpus base ufs)
  show ?case by (rule fw_ok_init)
next
  case (add log sc name sz data sc' r)
  show ?case
  proof (rule add_file_cases [OF add.IH add.hyps(2,3)], goal_cases)
    case 1
    then show ?case using add.IH by simp
  next
    case (2 d p fs f)
    note i = items_ok_add [OF _ 2(5), of "items sc 0" name sz data]
    have "items_sized (items sc')"
      using add.IH add.hyps(2) unfolding 2(10)
      by (intro items_sized_update) (auto simp: fw_ok_def item_sized_def fw_args_ok_def split: option.splits)
    moreover have "directory_ok (log @ [(name, sz, data)]) \<lparr>be_count = length log + 1, dfiles = fs[p := f]\<rparr>"
      by (rule directory_ok_add [OF 2(3) add.hyps(2) 2(4,6,7,8)])
    ultimately show ?case using i add.IH add.hyps(2) 2(1,4,5,9,10) by (auto simp: fw_ok_def)
  qed
qed (simp_all add: mmio_frame port_frame fw_ok_cong)

section \<open>A guest that looks for a file\<close>

definition guest_select :: "qemu_fwcfg_softc \<Rightarrow> nat \<Rightarrow> qemu_fwcfg_softc" where
  "guest_select sc sel = fst (fwcfg_selector_handler sc True (SwapBytes16 sel) 2)"

fun guest_read :: "qemu_fwcfg_softc \<Rightarrow> nat \<Rightarrow> qemu_fwcfg_softc \<times> byte list option" where
  "guest_read sc 0 = (sc, Some [])"
| "guest_read sc (Suc n) =
     (case fwcfg_data_handler sc False 0 1 of
        (sc, Fw_Ok v) \<Rightarrow> (case guest_read sc n of (sc, r) \<Rightarrow> (sc, map_option (\<lambda>vs. of_nat v # vs) r))
      | (sc, _) \<Rightarrow> (sc, None))"

definition guest_entry :: "byte list \<Rightarrow> byte list \<times> u32 \<times> nat" where
  "guest_entry blk = (c_str (drop 8 blk), be32dec blk 0, be16dec blk 4)"

definition guest_lookup :: "qemu_fwcfg_softc \<Rightarrow> byte list \<Rightarrow> byte list option" where
  "guest_lookup sc name =
     (case guest_read (guest_select sc QEMU_FWCFG_INDEX_FILE_DIR) 4 of
        (sc, None) \<Rightarrow> None
      | (sc, Some cb) \<Rightarrow>
          let n = be32dec cb 0 in
          (case guest_read sc (64 * n) of
             (sc, None) \<Rightarrow> None
           | (sc, Some bs) \<Rightarrow>
               (case find (\<lambda>e. fst e = name) (map (\<lambda>i. guest_entry (buf_slice (64 * i) 64 bs)) [0..<n]) of
                  None \<Rightarrow> None
                | Some (_, sz, sel) \<Rightarrow> snd (guest_read (guest_select sc sel) sz))))"

lemma SwapBytes16_twice: "v < 65536 \<Longrightarrow> SwapBytes16 (SwapBytes16 v) = v"
  by (simp add: SwapBytes16_def)

lemma guest_select_simps:
  "sel < 65536 \<Longrightarrow> guest_select sc sel = sc\<lparr>data_offset := 0, selector := sel\<rparr>"
  by (simp add: guest_select_def fwcfg_selector_handler_def SwapBytes16_twice)

lemma le64dec_one: "le64dec (overwrite 0 [b] (le64enc 0)) 0 = unat b"
  by (simp add: le64dec_def le32dec_def le64enc_def le32enc_def overwrite_def nth_append)

lemma item_bytes_offset [simp]: "item_bytes (sc\<lparr>data_offset := o'\<rparr>) x = item_bytes sc x"
  by (cases x) (simp_all add: item_bytes_def)

lemma selected_offset [simp]: "selected (sc\<lparr>data_offset := o'\<rparr>) = selected sc"
  by (simp add: selected_def)

lemma guest_read_buffer:
  "it_data (selected sc) = Some x \<Longrightarrow> it_size (selected sc) \<le> length (item_bytes sc x) \<Longrightarrow>
   it_size (selected sc) \<le> UINT32_MAX \<Longrightarrow> data_offset sc + n \<le> it_size (selected sc) \<Longrightarrow>
     guest_read sc n = (sc\<lparr>data_offset := data_offset sc + n\<rparr>, Some (buf_slice (data_offset sc) n (item_bytes sc x)))"
proof (induction n arbitrary: sc)
  case 0
  then show ?case by (simp add: buf_slice_def)
next
  case (Suc n)
  let ?o = "data_offset sc" and ?bs = "item_bytes sc x"
  have o: "?o < length ?bs" using Suc.prems by simp
  have s1: "buf_slice ?o 1 ?bs = [?bs ! ?o]" using o by (simp add: buf_slice_def take_Suc hd_drop_conv_nth)
  have "fwcfg_data_handler sc False 0 1 = (sc\<lparr>data_offset := ?o + 1\<rparr>, Fw_Ok (unat (?bs ! ?o)))"
    using Suc.prems o s1 by (simp add: fwcfg_data_handler_def le64dec_one)
  moreover have "guest_read (sc\<lparr>data_offset := ?o + 1\<rparr>) n =
      (sc\<lparr>data_offset := ?o + 1 + n\<rparr>, Some (buf_slice (?o + 1) n ?bs))"
    using Suc.IH [of "sc\<lparr>data_offset := ?o + 1\<rparr>"] Suc.prems by simp
  moreover have "buf_slice ?o (Suc n) ?bs = ?bs ! ?o # buf_slice (?o + 1) n ?bs"
    using o by (simp add: buf_slice_def Cons_nth_drop_Suc [symmetric])
  ultimately show ?case by simp
qed

lemma guest_read_nothing: "it_data (selected sc) = None \<Longrightarrow> guest_read sc n = (sc, Some (replicate n 0))"
  by (induction n) (simp_all add: fwcfg_data_handler_def)

lemma concat_blocks:
  "(\<forall>b \<in> set bs. length b = m) \<Longrightarrow> i < length bs \<Longrightarrow> buf_slice (m * i) m (concat bs) = bs ! i"
proof (induction bs arbitrary: i)
  case (Cons b bs)
  then show ?case by (cases i) (auto simp: buf_slice_def)
qed simp

lemma length_concat_blocks: "(\<forall>b \<in> set bs. length b = m) \<Longrightarrow> length (concat bs) = m * length bs"
  by (induction bs) auto

lemma length_file_bytes: "length (ff_name f) = 56 \<Longrightarrow> length (file_bytes f) = 64"
  by (simp add: file_bytes_def)

lemma guest_entry_file:
  "be_size f \<le> UINT32_MAX \<Longrightarrow> be_selector f < 65536 \<Longrightarrow> guest_entry (file_bytes f) = file_entry f"
proof -
  assume a: "be_size f \<le> UINT32_MAX" "be_selector f < 65536"
  have "be16dec (file_bytes f) 4 = be_selector f"
    using a(2) by (simp add: file_bytes_def be16dec_def be16enc_def be32enc_def nth_append unat_of_nat_byte)
  moreover have "be32dec (file_bytes f) 0 = be_size f"
    using a(1) by (simp add: file_bytes_def be32dec_append1)
  moreover have "drop 8 (file_bytes f) = ff_name f"
    by (simp add: file_bytes_def be32enc_def be16enc_def)
  ultimately show ?thesis by (simp add: guest_entry_def file_entry_def)
qed

lemma fw_okD:
  assumes "fw_ok log sc"
  obtains d where "directory sc = Some d" "directory_ok log d" "items_ok log (items sc 0)" "items_sized (items sc)"
    "length log + QEMU_FWCFG_FIRST_FILE_INDEX \<le> 0x4000"
    "\<And>e. e \<in> set log \<Longrightarrow> fw_args_ok (fst e) (fst (snd e)) (snd (snd e))"
  using assms by (fastforce simp: fw_ok_def)

text \<open>The bytes of the directory item decode to its entries.\<close>

lemma dir_entries:
  assumes "directory_ok log d" "\<And>e. e \<in> set log \<Longrightarrow> fst (snd e) \<le> UINT32_MAX" "length log + QEMU_FWCFG_FIRST_FILE_INDEX \<le> 0x4000"
  defines "bs \<equiv> dir_bytes d" and "n \<equiv> length log"
  shows "4 + 64 * n \<le> length bs" "be32dec (buf_slice 0 4 bs) 0 = n"
    "map (\<lambda>i. guest_entry (buf_slice (64 * i) 64 (buf_slice 4 (64 * n) bs))) [0..<n] = map file_entry (take n (dfiles d))"
proof -
  let ?B = "map file_bytes (dfiles d)"
  have l: "\<forall>b \<in> set ?B. length b = 64" "length (dfiles d) = max 10 n" "be_count d = n"
    using assms(1) by (auto simp: directory_ok_def length_file_bytes n_def)
  have c: "bs = be32enc n @ concat ?B" using l(3) by (simp add: bs_def dir_bytes_def)
  then show "4 + 64 * n \<le> length bs" using length_concat_blocks [OF l(1)] l(2) by simp
  show "be32dec (buf_slice 0 4 bs) 0 = n" using c assms(3) by (simp add: buf_slice_def n_def)
  have e: "set (map file_entry (take n (dfiles d))) = log_entry log ` {0..<n}"
    using assms(1) by (metis directory_ok_def n_def set_map set_mset_mset set_upt)
  have f: "guest_entry (file_bytes (dfiles d ! i)) = file_entry (dfiles d ! i)" if i: "i < n" for i
  proof -
    have "dfiles d ! i \<in> set (take n (dfiles d))" using i l(2) by (auto simp: in_set_conv_nth intro!: exI [of _ i])
    then obtain k where "k < n" "file_entry (dfiles d ! i) = log_entry log k"
      using e by (metis atLeastLessThan_iff imageE imageI set_map)
    then have "be_size (dfiles d ! i) \<le> UINT32_MAX" "be_selector (dfiles d ! i) < 65536"
      using assms(2) [of "log ! k"] assms(3) by (auto simp: file_entry_def log_entry_def n_def)
    then show ?thesis by (rule guest_entry_file)
  qed
  have b: "buf_slice (64 * i) 64 (buf_slice 4 (64 * n) bs) = file_bytes (dfiles d ! i)" if i: "i < n" for i
  proof -
    have "buf_slice (64 * i) 64 (buf_slice 4 (64 * n) bs) = buf_slice (64 * i) 64 (concat ?B)"
      using i c by (simp add: buf_slice_def drop_take min_def)
    also have "\<dots> = ?B ! i" using i l by (intro concat_blocks) auto
    finally show ?thesis using i l(2) by simp
  qed
  show "map (\<lambda>i. guest_entry (buf_slice (64 * i) 64 (buf_slice 4 (64 * n) bs))) [0..<n] = map file_entry (take n (dfiles d))"
    using b f l(2) by (intro nth_equalityI) auto
qed

lemma guest_reads_file:
  assumes "fw_ok log sc" "k < length log"
  shows "snd (guest_read (guest_select sc (QEMU_FWCFG_FIRST_FILE_INDEX + k)) (fst (snd (log ! k)))) = Some (fw_content (log ! k))"
proof (rule fw_okD [OF assms(1)], goal_cases)
  case (1 d)
  let ?s = "guest_select sc (0x20 + k)"
  have s: "?s = sc\<lparr>data_offset := 0, selector := 0x20 + k\<rparr>" using 1(5) assms(2) by (simp add: guest_select_simps)
  then have it: "selected ?s = \<lparr>it_size = fst (snd (log ! k)), it_data = map_option Buf (snd (snd (log ! k)))\<rparr>"
    using 1(3,5) assms(2) by (simp add: selected_def sel_index_def sel_architecture_def items_ok_def)
  obtain name sz data where e: "log ! k = (name, sz, data)" by (cases "log ! k")
  have a: "fw_args_ok name sz data" using 1(6) [OF nth_mem [OF assms(2)]] e by simp
  show ?case
  proof (cases data)
    case None
    then show ?thesis using it e guest_read_nothing [of ?s] by (simp add: fw_content_def)
  next
    case (Some bs)
    then show ?thesis
      using guest_read_buffer [of ?s "Buf bs" sz] it e a s by (simp add: fw_args_ok_def item_bytes_def fw_content_def buf_slice_def)
  qed
qed

lemma find_entry: "find P xs = Some x \<Longrightarrow> x \<in> set xs \<and> P x"
  by (auto simp: find_Some_iff)

lemma guest_lookup_result:
  assumes "fwcfg_reachable log sc"
  shows "if name \<in> fst ` set log then \<exists>e \<in> set log. fst e = name \<and> guest_lookup sc name = Some (fw_content e)
    else guest_lookup sc name = None"
proof (rule fw_okD [OF fw_reachable_ok [OF assms]], goal_cases)
  case (1 d)
  let ?n = "length log" and ?bs = "dir_bytes d" and ?s = "guest_select sc 0x19"
  let ?r = "sc\<lparr>data_offset := 4 + 64 * ?n, selector := 0x19\<rparr>"
  have "\<And>e. e \<in> set log \<Longrightarrow> fst (snd e) \<le> UINT32_MAX" using 1(6) by (simp add: fw_args_ok_def)
  note de = dir_entries [OF 1(2) this 1(5)]
  have s: "?s = sc\<lparr>data_offset := 0, selector := 0x19\<rparr>" by (simp add: guest_select_simps)
  have it: "selected (sc\<lparr>data_offset := x, selector := 0x19\<rparr>) = \<lparr>it_size = 4 + 64 * ?n, it_data = Some Directory\<rparr>" for x
    using 1(3) by (simp add: selected_def sel_index_def sel_architecture_def items_ok_def)
  have ib: "item_bytes (sc\<lparr>data_offset := x, selector := 0x19\<rparr>) Directory = ?bs" for x using 1(1) by (simp add: item_bytes_def)
  have r1: "guest_read ?s 4 = (sc\<lparr>data_offset := 4, selector := 0x19\<rparr>, Some (buf_slice 0 4 ?bs))"
    using guest_read_buffer [of ?s Directory 4] it ib de(1) 1(5) s by simp
  have r2: "guest_read (sc\<lparr>data_offset := 4, selector := 0x19\<rparr>) (64 * ?n) = (?r, Some (buf_slice 4 (64 * ?n) ?bs))"
    using guest_read_buffer [of "sc\<lparr>data_offset := 4, selector := 0x19\<rparr>" Directory "64 * ?n"] it ib de(1) 1(5) by simp
  have q: "be32dec (buf_slice 0 4 ?bs) 0 = ?n" by (rule de(2))
  let ?F = "map file_entry (take ?n (dfiles d))"
  have l: "guest_lookup sc name =
      (case find (\<lambda>e. fst e = name) ?F of None \<Rightarrow> None | Some (_, sz, sel) \<Rightarrow> snd (guest_read (guest_select ?r sel) sz))"
  proof -
    have "guest_lookup sc name = (let n = be32dec (buf_slice 0 4 ?bs) 0 in
        (case guest_read (sc\<lparr>data_offset := 4, selector := 0x19\<rparr>) (64 * n) of
           (sc, None) \<Rightarrow> None
         | (sc, Some bs) \<Rightarrow>
             (case find (\<lambda>e. fst e = name) (map (\<lambda>i. guest_entry (buf_slice (64 * i) 64 bs)) [0..<n]) of
                None \<Rightarrow> None
              | Some (_, sz, sel) \<Rightarrow> snd (guest_read (guest_select sc sel) sz))))"
      unfolding guest_lookup_def r1 by simp
    then show ?thesis unfolding q Let_def r2 by (simp add: de(3))
  qed
  have "mset ?F = mset (map (log_entry log) [0..<?n])" using 1(2) by (simp add: directory_ok_def)
  then have sF: "set ?F = set (map (log_entry log) [0..<?n])" by (rule mset_eq_setD)
  then have e: "set ?F = log_entry log ` {0..<?n}" by simp
  have "map fst (map (log_entry log) [0..<?n]) = map fst log" by (rule nth_equalityI) (simp_all add: log_entry_def)
  then have nm: "fst ` set ?F = fst ` set log" unfolding sF by (metis list.set_map)
  show ?case
  proof (cases "find (\<lambda>e. fst e = name) ?F")
    case None
    then have "name \<notin> fst ` set ?F" by (auto simp: find_None_iff)
    then show ?thesis using None l nm by simp
  next
    case (Some x)
    then obtain k where k: "k < ?n" "x = log_entry log k" "fst x = name" using find_entry [OF Some] e by auto
    have "snd (guest_read (guest_select ?r (0x20 + k)) (fst (snd (log ! k)))) = Some (fw_content (log ! k))"
      using guest_reads_file [OF fw_ok_cong [OF fw_reachable_ok [OF assms]], of ?r k] k(1) by simp
    then have "guest_lookup sc name = Some (fw_content (log ! k))" using l Some k by (simp add: log_entry_def)
    moreover have "fst (log ! k) = name" "log ! k \<in> set log" using k by (simp_all add: log_entry_def)
    ultimately show ?thesis by auto
  qed
qed

section \<open>Properties\<close>

text \<open>
  Property C27: a guest finds the files.  After any sequence of added files and guest accesses, a
  guest that reads the directory byte by byte, takes the first entry with a name and reads the item
  it names gets the content of a file that was added under that name; a name that was never added is
  not found.  Files without data read as zeros.
\<close>

theorem fwcfg_guest_finds_file:
  assumes "fwcfg_reachable log sc"
  shows "if name \<in> fst ` set log then \<exists>e \<in> set log. fst e = name \<and> guest_lookup sc name = Some (fw_content e)
    else guest_lookup sc name = None"
  using guest_lookup_result [OF assms] .

definition demo_fwcfg :: qemu_fwcfg_softc where
  "demo_fwcfg = fst (qemu_fwcfg_common_items 1 (fwcfg_sc0 0 []))"

theorem fwcfg_guest_finds_file_witness:
  "\<exists>sc. qemu_fwcfg_add_file demo_fwcfg [97] 2 (Some [7, 8]) = Some (sc, Inr ()) \<and>
     guest_lookup sc [97] = Some [7, 8] \<and> guest_lookup sc [98] = None"
proof -
  obtain sc where a: "qemu_fwcfg_add_file demo_fwcfg [97] 2 (Some [7, 8]) = Some (sc, Inr ())"
    by (simp add: demo_fwcfg_def qemu_fwcfg_common_items_def qemu_fwcfg_add_item_signature_def qemu_fwcfg_add_item_id_def
        qemu_fwcfg_add_item_nb_cpus_def qemu_fwcfg_add_item_max_cpus_def qemu_fwcfg_add_item_file_dir_def
        qemu_fwcfg_add_item_def fwcfg_sc0_def and_then_def Let_def qemu_fwcfg_add_file_def)
  have "fwcfg_reachable [([97], 2, Some [7, 8])] sc"
    using fwcfg_reachable.add [OF fwcfg_reachable.init _ a [unfolded demo_fwcfg_def]] by (simp add: fw_args_ok_def is_ok_def)
  note f = fwcfg_guest_finds_file [OF this]
  show ?thesis using a f [of "[97]"] f [of "[98]"] by (simp add: fw_content_def)
qed

text \<open>
  Property C35: the bound of a read is checked for its first byte only.  Reads of one byte, by
  register or by port, never leave the buffer of an item.  A read of eight bytes at the start of the
  signature, which has four, copies four bytes of host memory behind it to the guest, in every state
  of the device.
\<close>

theorem fwcfg_wide_read_overruns:
  assumes "fwcfg_reachable log sc"
  shows "snd (fwcfg_data_handler sc False v 1) \<noteq> Fw_Overrun \<and> snd (qemu_fwcfg_data_port_handler sc True 1) \<noteq> Fw_Overrun \<and>
    snd (fwcfg_data_handler (guest_select sc 0) False v 8) = Fw_Overrun"
proof (rule fw_okD [OF fw_reachable_ok [OF assms]], goal_cases)
  case (1 d)
  have "it_size (selected sc) \<le> length (item_bytes sc x)" if x: "it_data (selected sc) = Some x" for x
  proof -
    have "\<And>e. e \<in> set log \<Longrightarrow> fst (snd e) \<le> UINT32_MAX" using 1(6) by (simp add: fw_args_ok_def)
    note de = dir_entries(1) [OF 1(2) this 1(5)]
    have "item_sized (sel_architecture (selector sc)) (sel_index (selector sc)) (selected sc)"
      using 1(4) by (simp add: items_sized_def selected_def)
    then show ?thesis
      using x 1(1,3) de by (cases x) (auto simp: item_sized_def item_bytes_def selected_def items_ok_def)
  qed
  moreover have "selected (guest_select sc 0) = \<lparr>it_size = 4, it_data = Some (Buf [81, 69, 77, 85])\<rparr>"
    using 1(3) by (simp add: guest_select_simps selected_def sel_index_def sel_architecture_def items_ok_def)
  ultimately show ?case
    by (auto simp: fwcfg_data_handler_def qemu_fwcfg_data_port_handler_def guest_select_simps item_bytes_def
        split: option.splits)
qed

theorem fwcfg_wide_read_overruns_witness:
  "snd (fwcfg_data_handler demo_fwcfg False 0 1) \<noteq> Fw_Overrun \<and>
   snd (fwcfg_data_handler (guest_select demo_fwcfg 0) False 0 8) = Fw_Overrun"
  using fwcfg_wide_read_overruns [OF fwcfg_reachable.init, of 1 0 "[]" 0] unfolding demo_fwcfg_def by blast

end
