(* ===== verification/Qemu_Loader.thy ===== *)
theory Qemu_Loader
  imports Qemu_Fwcfg
begin

text \<open>
  The table loader, \<^verbatim>\<open>src/qemu_loader.c\<close>: commands for the firmware of the guest, collected in a list
  and handed over as one file of the firmware configuration device.
\<close>

section \<open>Commands\<close>

datatype qemu_loader_zone = QEMU_LOADER_ALLOC_HIGH | QEMU_LOADER_ALLOC_FSEG

datatype qemu_loader_entry =
    Cmd_Alloc "byte list" u32 qemu_loader_zone
  | Cmd_Add_Pointer "byte list" "byte list" u32 byte
  | Cmd_Add_Checksum "byte list" u32 u32 u32

record qemu_loader =
  fwcfg_name :: "byte list"
  commands :: "qemu_loader_entry list"

text \<open>An entry in memory: 128 bytes, padded with the zeros of \<open>calloc\<close>.\<close>

definition name_field :: "byte list \<Rightarrow> byte list" where
  "name_field name = name @ replicate (QEMU_FWCFG_MAX_NAME - length name) 0"

definition pad_entry :: "byte list \<Rightarrow> byte list" where
  "pad_entry bs = bs @ replicate (128 - length bs) 0"

definition zone_byte :: "qemu_loader_zone \<Rightarrow> byte" where
  "zone_byte z = (case z of QEMU_LOADER_ALLOC_HIGH \<Rightarrow> 1 | QEMU_LOADER_ALLOC_FSEG \<Rightarrow> 2)"

fun entry_bytes :: "qemu_loader_entry \<Rightarrow> byte list" where
  "entry_bytes (Cmd_Alloc name alignment zone) =
     pad_entry (le32enc 1 @ name_field name @ le32enc alignment @ [zone_byte zone])"
| "entry_bytes (Cmd_Add_Pointer dest_name src_name off sz) =
     pad_entry (le32enc 2 @ name_field dest_name @ name_field src_name @ le32enc off @ [sz])"
| "entry_bytes (Cmd_Add_Checksum name off start len) =
     pad_entry (le32enc 3 @ name_field name @ le32enc off @ le32enc start @ le32enc len)"

section \<open>Operations\<close>

definition qemu_loader_create :: "byte list \<Rightarrow> qemu_loader res" where
  "qemu_loader_create name =
     (if QEMU_FWCFG_MAX_NAME \<le> length name then Inl EINVAL else Inr \<lparr>fwcfg_name = name, commands = []\<rparr>)"

definition qemu_loader_alloc :: "qemu_loader \<Rightarrow> byte list \<Rightarrow> u32 \<Rightarrow> qemu_loader_zone \<Rightarrow> qemu_loader res" where
  "qemu_loader_alloc loader name alignment zone =
     (if QEMU_FWCFG_MAX_NAME \<le> length name then Inl EINVAL
      else Inr (loader\<lparr>commands := Cmd_Alloc name alignment zone # commands loader\<rparr>))"

definition qemu_loader_add_checksum :: "qemu_loader \<Rightarrow> byte list \<Rightarrow> u32 \<Rightarrow> u32 \<Rightarrow> u32 \<Rightarrow> qemu_loader res" where
  "qemu_loader_add_checksum loader name off start len =
     (if QEMU_FWCFG_MAX_NAME \<le> length name then Inl EINVAL
      else Inr (loader\<lparr>commands := commands loader @ [Cmd_Add_Checksum name off start len]\<rparr>))"

definition qemu_loader_add_pointer :: "qemu_loader \<Rightarrow> byte list \<Rightarrow> byte list \<Rightarrow> u32 \<Rightarrow> byte \<Rightarrow> qemu_loader res" where
  "qemu_loader_add_pointer loader dest_name src_name off sz =
     (if QEMU_FWCFG_MAX_NAME \<le> length dest_name \<or> QEMU_FWCFG_MAX_NAME \<le> length src_name then Inl EINVAL
      else Inr (loader\<lparr>commands := commands loader @ [Cmd_Add_Pointer dest_name src_name off sz]\<rparr>))"

text \<open>\<open>EFAULT\<close> has no name of its own among the error numbers.\<close>

definition qemu_loader_finish :: "qemu_loader \<Rightarrow> qemu_fwcfg_softc \<Rightarrow> (qemu_fwcfg_softc \<times> unit res) option" where
  "qemu_loader_finish loader sc =
     (let len = 128 * length (commands loader) in
      if len = 0 then Some (sc, Inl (EOTHER 14))
      else qemu_fwcfg_add_file sc (fwcfg_name loader) (len mod 4294967296) (Some (concat (map entry_bytes (commands loader)))))"

section \<open>The order of the commands\<close>

definition is_alloc :: "qemu_loader_entry \<Rightarrow> bool" where
  "is_alloc e = (case e of Cmd_Alloc _ _ _ \<Rightarrow> True | _ \<Rightarrow> False)"

definition names_fit :: "qemu_loader_entry \<Rightarrow> bool" where
  "names_fit e = (case e of Cmd_Alloc a _ _ \<Rightarrow> length a < 56 | Cmd_Add_Pointer a b _ _ \<Rightarrow> length a < 56 \<and> length b < 56
     | Cmd_Add_Checksum a _ _ _ \<Rightarrow> length a < 56)"

inductive loader_reachable :: "qemu_loader \<Rightarrow> bool" where
  create: "qemu_loader_create name = Inr l \<Longrightarrow> 0 \<notin> set name \<Longrightarrow> loader_reachable l"
| alloc: "loader_reachable l \<Longrightarrow> qemu_loader_alloc l name al z = Inr l' \<Longrightarrow> loader_reachable l'"
| checksum: "loader_reachable l \<Longrightarrow> qemu_loader_add_checksum l name off st len = Inr l' \<Longrightarrow> loader_reachable l'"
| pointer: "loader_reachable l \<Longrightarrow> qemu_loader_add_pointer l dn sn off sz = Inr l' \<Longrightarrow> loader_reachable l'"

text \<open>Every command that needs a loaded file comes after all commands that load one.\<close>

definition allocs_first :: "qemu_loader_entry list \<Rightarrow> bool" where
  "allocs_first cs \<longleftrightarrow> (\<exists>as bs. cs = as @ bs \<and> list_all is_alloc as \<and> list_all (\<lambda>c. \<not> is_alloc c) bs)"

lemma allocs_first_Nil: "allocs_first []"
  by (simp add: allocs_first_def)

lemma allocs_first_Cons: "allocs_first cs \<Longrightarrow> is_alloc a \<Longrightarrow> allocs_first (a # cs)"
  unfolding allocs_first_def by (metis append_Cons list.pred_inject(2))

lemma allocs_first_snoc: "allocs_first cs \<Longrightarrow> \<not> is_alloc a \<Longrightarrow> allocs_first (cs @ [a])"
proof -
  assume a: "allocs_first cs" "\<not> is_alloc a"
  then obtain as bs where "cs = as @ bs" "list_all is_alloc as" "list_all (\<lambda>c. \<not> is_alloc c) bs"
    by (auto simp: allocs_first_def)
  then have "cs @ [a] = as @ (bs @ [a])" "list_all is_alloc as" "list_all (\<lambda>c. \<not> is_alloc c) (bs @ [a])" using a(2) by simp_all
  then show ?thesis unfolding allocs_first_def by blast
qed

lemma loader_ok:
  "loader_reachable l \<Longrightarrow> allocs_first (commands l) \<and> list_all names_fit (commands l) \<and>
     length (fwcfg_name l) < 56 \<and> 0 \<notin> set (fwcfg_name l)"
  by (induction rule: loader_reachable.induct)
    (auto simp: qemu_loader_create_def qemu_loader_alloc_def qemu_loader_add_checksum_def qemu_loader_add_pointer_def
      allocs_first_Nil names_fit_def is_alloc_def intro!: allocs_first_Cons allocs_first_snoc split: if_splits)

lemma length_entry_bytes: "names_fit e \<Longrightarrow> length (entry_bytes e) = 128"
  by (cases e) (simp_all add: names_fit_def pad_entry_def name_field_def)

section \<open>Properties\<close>

text \<open>
  Property C28: the firmware gets a runnable script.  The commands of a loader that was built with
  its operations are in an order in which every file is loaded before it is patched.  When the script
  is handed over under a name that was not used before, a guest that looks up the name finds exactly
  these commands in this order, 128 bytes each.
\<close>

theorem loader_script_ordered:
  assumes "loader_reachable l" "fwcfg_reachable log sc" "128 * length (commands l) \<le> UINT32_MAX"
    and "qemu_loader_finish l sc = Some (sc', Inr ())" "fwcfg_name l \<notin> fst ` set log"
  shows "allocs_first (commands l) \<and>
    guest_lookup sc' (fwcfg_name l) = Some (concat (map entry_bytes (commands l))) \<and>
    (\<forall>i < length (commands l). buf_slice (128 * i) 128 (concat (map entry_bytes (commands l))) = entry_bytes (commands l ! i))"
proof -
  let ?bs = "concat (map entry_bytes (commands l))" and ?m = "128 * length (commands l)"
  note ok = loader_ok [OF assms(1)]
  have b: "\<forall>x \<in> set (map entry_bytes (commands l)). length x = 128"
    using ok length_entry_bytes by (auto simp: list_all_iff)
  have len: "length ?bs = ?m" using length_concat_blocks [OF b] by simp
  have add: "qemu_fwcfg_add_file sc (fwcfg_name l) ?m (Some ?bs) = Some (sc', Inr ())"
    using assms(3,4) by (simp add: qemu_loader_finish_def Let_def split: if_splits)
  have "fw_args_ok (fwcfg_name l) ?m (Some ?bs)" using ok assms(3) len by (simp add: fw_args_ok_def)
  from fwcfg_reachable.add [OF assms(2) this add]
  have "fwcfg_reachable (log @ [(fwcfg_name l, ?m, Some ?bs)]) sc'" by (simp add: is_ok_def)
  note r = guest_lookup_result [OF this, of "fwcfg_name l"]
  have "fwcfg_name l \<in> fst ` set (log @ [(fwcfg_name l, ?m, Some ?bs)])" by simp
  with r obtain e where "e \<in> set (log @ [(fwcfg_name l, ?m, Some ?bs)])" "fst e = fwcfg_name l"
    "guest_lookup sc' (fwcfg_name l) = Some (fw_content e)"
    by (simp only: if_True) blast
  moreover from this have "e = (fwcfg_name l, ?m, Some ?bs)" using assms(5) by force
  ultimately have "guest_lookup sc' (fwcfg_name l) = Some ?bs" using len by (simp add: fw_content_def)
  then show ?thesis using ok concat_blocks [OF b] by auto
qed

definition demo_loader :: qemu_loader where
  "demo_loader = \<lparr>fwcfg_name = [116], commands = [Cmd_Alloc [97] 64 QEMU_LOADER_ALLOC_HIGH, Cmd_Add_Checksum [97] 9 0 36]\<rparr>"

theorem loader_script_ordered_witness:
  "\<exists>sc. qemu_loader_finish demo_loader demo_fwcfg = Some (sc, Inr ()) \<and> allocs_first (commands demo_loader) \<and>
     guest_lookup sc [116] = Some (concat (map entry_bytes (commands demo_loader)))"
proof -
  have c: "qemu_loader_create [116] = Inr \<lparr>fwcfg_name = [116], commands = []\<rparr>" by (simp add: qemu_loader_create_def)
  have k: "qemu_loader_add_checksum \<lparr>fwcfg_name = [116], commands = []\<rparr> [97] 9 0 36 =
      Inr \<lparr>fwcfg_name = [116], commands = [Cmd_Add_Checksum [97] 9 0 36]\<rparr>"
    by (simp add: qemu_loader_add_checksum_def)
  have a: "qemu_loader_alloc \<lparr>fwcfg_name = [116], commands = [Cmd_Add_Checksum [97] 9 0 36]\<rparr> [97] 64 QEMU_LOADER_ALLOC_HIGH =
      Inr demo_loader"
    by (simp add: qemu_loader_alloc_def demo_loader_def)
  have r: "loader_reachable demo_loader"
    by (rule loader_reachable.alloc [OF loader_reachable.checksum [OF loader_reachable.create [OF c] k] a]) simp
  obtain sc where f: "qemu_loader_finish demo_loader demo_fwcfg = Some (sc, Inr ())"
    by (simp add: qemu_loader_finish_def demo_loader_def demo_fwcfg_def qemu_fwcfg_common_items_def
        qemu_fwcfg_add_item_signature_def qemu_fwcfg_add_item_id_def
        qemu_fwcfg_add_item_nb_cpus_def qemu_fwcfg_add_item_max_cpus_def qemu_fwcfg_add_item_file_dir_def
        qemu_fwcfg_add_item_def fwcfg_sc0_def and_then_def Let_def qemu_fwcfg_add_file_def)
  have n: "fwcfg_name demo_loader = [116]" "128 * length (commands demo_loader) \<le> UINT32_MAX" by (simp_all add: demo_loader_def)
  from loader_script_ordered [OF r fwcfg_reachable.init n(2) f [unfolded demo_fwcfg_def]] f n(1) show ?thesis by auto
qed

end
