(* ===== verification/Config_Tree.thy ===== *)
theory Config_Tree
  imports Prelude "HOL-Library.AList"
begin

text \<open>
  The configuration tree, \<^verbatim>\<open>src/config.c\<close>, over the name-value lists of \<^verbatim>\<open>libnv/libnv.c\<close>.  A list holds
  strings and lists under unique names, in the order they were added; a node is named by the names
  on the way to it.  \<open>None\<close> as the result of an operation is the end of the process, by \<open>errx\<close> or by a
  failed assertion of the library.
\<close>

section \<open>Name-value lists\<close>

datatype nv = Nstr string | Nlist "(string \<times> nv) list"

type_synonym nvlist = "(string \<times> nv) list"

definition nvlist_exists_string :: "nvlist \<Rightarrow> string \<Rightarrow> bool" where
  "nvlist_exists_string nvl name = (case map_of nvl name of Some (Nstr _) \<Rightarrow> True | _ \<Rightarrow> False)"

definition nvlist_exists :: "nvlist \<Rightarrow> string \<Rightarrow> bool" where
  "nvlist_exists nvl name = (map_of nvl name \<noteq> None)"

text \<open>Removing a name and adding it again moves it to the end.\<close>

definition nvlist_replace :: "nvlist \<Rightarrow> string \<Rightarrow> nv \<Rightarrow> nvlist" where
  "nvlist_replace nvl name x = AList.delete name nvl @ [(name, x)]"

lemma map_of_replace [simp]: "map_of (nvlist_replace nvl name x) = (map_of nvl)(name \<mapsto> x)"
  by (auto simp: nvlist_replace_def map_add_def delete_conv' fun_eq_iff split: option.splits)

section \<open>Nodes\<close>

text \<open>The components of a path, as \<open>strsep\<close> gives them.\<close>

fun split_path :: "string \<Rightarrow> string list" where
  "split_path [] = [[]]"
| "split_path (c # cs) = (if c = CHR ''.'' then [] # split_path cs else case split_path cs of p # ps \<Rightarrow> (c # p) # ps)"

fun lookup_config_node :: "bool \<Rightarrow> nvlist \<Rightarrow> string list \<Rightarrow> nvlist \<times> bool" where
  "lookup_config_node create nvl [] = (nvl, True)"
| "lookup_config_node create nvl (name # rest) =
     (if name = [] then (nvl, False)
      else case map_of nvl name of
          Some (Nlist sub) \<Rightarrow>
            (case lookup_config_node create sub rest of (sub, ok) \<Rightarrow> (AList.update name (Nlist sub) nvl, ok))
        | Some (Nstr _) \<Rightarrow> (nvl, False)
        | None \<Rightarrow>
            if create then (case lookup_config_node create [] rest of (sub, ok) \<Rightarrow> (nvl @ [(name, Nlist sub)], ok))
            else (nvl, False))"

text \<open>The list a node stands for, and a change of it in place.\<close>

fun node_at :: "nvlist \<Rightarrow> string list \<Rightarrow> nvlist option" where
  "node_at nvl [] = Some nvl"
| "node_at nvl (name # rest) = (case map_of nvl name of Some (Nlist sub) \<Rightarrow> node_at sub rest | _ \<Rightarrow> None)"

fun update_at :: "nvlist \<Rightarrow> string list \<Rightarrow> nvlist \<Rightarrow> nvlist" where
  "update_at nvl [] new = new"
| "update_at nvl (name # rest) new =
     (case map_of nvl name of Some (Nlist sub) \<Rightarrow> AList.update name (Nlist (update_at sub rest new)) nvl | _ \<Rightarrow> nvl)"

section \<open>Values\<close>

definition set_config_value_node :: "nvlist \<Rightarrow> string \<Rightarrow> string \<Rightarrow> nvlist option" where
  "set_config_value_node parent name v =
     (if CHR ''.'' \<in> set name then None
      else if nvlist_exists_string parent name then Some (nvlist_replace parent name (Nstr v))
      else if nvlist_exists parent name then None
      else Some (parent @ [(name, Nstr v)]))"

definition set_config_value :: "nvlist \<Rightarrow> string \<Rightarrow> string \<Rightarrow> nvlist option" where
  "set_config_value root path v =
     (let node = butlast (split_path path); name = last (split_path path) in
      case (if node = [] then (root, True) else lookup_config_node True root node) of
        (root, ok) \<Rightarrow>
          if \<not> ok then None
          else case node_at root node of
              None \<Rightarrow> None
            | Some nvl \<Rightarrow> (case set_config_value_node nvl name v of None \<Rightarrow> None | Some nvl \<Rightarrow> Some (update_at root node nvl)))"

definition get_string :: "nvlist \<Rightarrow> string \<Rightarrow> string option" where
  "get_string nvl name = (case map_of nvl name of Some (Nstr v) \<Rightarrow> Some v | _ \<Rightarrow> None)"

definition get_raw_config_value :: "nvlist \<Rightarrow> string \<Rightarrow> string option" where
  "get_raw_config_value root path =
     (let node = butlast (split_path path); name = last (split_path path) in
      if node = [] then get_string root name
      else case lookup_config_node False root node of
          (root, ok) \<Rightarrow>
            if \<not> ok then None
            else case node_at root node of None \<Rightarrow> None | Some nvl \<Rightarrow> get_string nvl name)"

text \<open>A reference: the path between the parentheses and what follows them.\<close>

definition config_reference :: "string \<Rightarrow> (string \<times> string) option" where
  "config_reference vs =
     (case vs of
        c # r \<Rightarrow>
          if c = CHR ''('' \<and> CHR '')'' \<in> set r
          then Some (takeWhile (\<lambda>x. x \<noteq> CHR '')'') r, tl (dropWhile (\<lambda>x. x \<noteq> CHR '')'') r)) else None
      | [] \<Rightarrow> None)"

lemma reference_shorter: "config_reference vs = Some (p, rest) \<Longrightarrow> length rest < length vs"
proof -
  assume a: "config_reference vs = Some (p, rest)"
  then obtain c r where r: "vs = c # r" "rest = tl (dropWhile (\<lambda>x. x \<noteq> CHR '')'') r)"
    by (auto simp: config_reference_def split: list.splits if_splits)
  have "length (dropWhile (\<lambda>x. x \<noteq> CHR '')'') r) \<le> length r" by (rule length_dropWhile_le)
  then show "length rest < length vs" using r by simp
qed

function expand_config_value_at :: "nvlist \<Rightarrow> nat \<Rightarrow> string \<Rightarrow> string" where
  "expand_config_value_at root depth vp =
     (case vp of
        [] \<Rightarrow> []
      | c # vs \<Rightarrow>
          if c = CHR ''%'' then
            if 15 < depth then c # expand_config_value_at root depth vs
            else case config_reference vs of
                None \<Rightarrow> c # expand_config_value_at root depth vs
              | Some (p, rest) \<Rightarrow>
                  if p = [] then expand_config_value_at root depth rest
                  else (case get_raw_config_value root p of None \<Rightarrow> [] | Some v \<Rightarrow> expand_config_value_at root (depth + 1) v) @
                       expand_config_value_at root depth rest
          else if c = CHR 0x5C then (case vs of [] \<Rightarrow> [] | d # ds \<Rightarrow> d # expand_config_value_at root depth ds)
          else c # expand_config_value_at root depth vs)"
  by pat_completeness auto
termination
  by (relation "measures [\<lambda>(root, depth, vp). 16 - depth, \<lambda>(root, depth, vp). length vp]")
    (auto dest!: reference_shorter)

declare expand_config_value_at.simps [simp del]

definition expand_config_value :: "nvlist \<Rightarrow> string \<Rightarrow> string" where
  "expand_config_value root v = (if CHR ''%'' \<notin> set v then v else expand_config_value_at root 0 v)"

definition get_config_value :: "nvlist \<Rightarrow> string \<Rightarrow> string option" where
  "get_config_value root path =
     (case get_raw_config_value root path of None \<Rightarrow> None | Some v \<Rightarrow> Some (expand_config_value root v))"

definition set_config_value_if_unset :: "nvlist \<Rightarrow> string \<Rightarrow> string \<Rightarrow> nvlist option" where
  "set_config_value_if_unset root path v =
     (if get_config_value root path \<noteq> None then Some root else set_config_value root path v)"

section \<open>Booleans\<close>

definition to_lower :: "char \<Rightarrow> char" where
  "to_lower c = (let n = of_char c :: nat in if 65 \<le> n \<and> n \<le> 90 then char_of (n + 32) else c)"

definition strcasecmp_eq :: "string \<Rightarrow> string \<Rightarrow> bool" where
  "strcasecmp_eq a b = (map to_lower a = map to_lower b)"

definition bool_value :: "string \<Rightarrow> bool option" where
  "bool_value v =
     (if strcasecmp_eq v ''true'' \<or> strcasecmp_eq v ''on'' \<or> strcasecmp_eq v ''yes'' \<or> v = ''1'' then Some True
      else if strcasecmp_eq v ''false'' \<or> strcasecmp_eq v ''off'' \<or> strcasecmp_eq v ''no'' \<or> v = ''0'' then Some False
      else None)"

definition get_config_bool :: "nvlist \<Rightarrow> string \<Rightarrow> bool option" where
  "get_config_bool root path = (case get_config_value root path of None \<Rightarrow> None | Some v \<Rightarrow> bool_value v)"

definition get_config_bool_default :: "nvlist \<Rightarrow> string \<Rightarrow> bool \<Rightarrow> bool option" where
  "get_config_bool_default root path def =
     (case get_config_value root path of None \<Rightarrow> Some def | Some v \<Rightarrow> bool_value v)"

definition set_config_bool :: "nvlist \<Rightarrow> string \<Rightarrow> bool \<Rightarrow> nvlist option" where
  "set_config_bool root path b = set_config_value root path (if b then ''true'' else ''false'')"

section \<open>Merging\<close>

text \<open>
  A list that meets a string of the same name cannot be added; the library frees the new list, marks
  the parent as failed, and the next access to either ends the process.
\<close>

fun merge_config_tree_into_node :: "nvlist \<Rightarrow> nvlist \<Rightarrow> nvlist option" where
  "merge_config_tree_into_node dst [] = Some dst"
| "merge_config_tree_into_node dst ((name, Nlist sub) # src) =
     (case map_of dst name of
        Some (Nlist d) \<Rightarrow>
          (case merge_config_tree_into_node d sub of
             None \<Rightarrow> None
           | Some d \<Rightarrow> merge_config_tree_into_node (AList.update name (Nlist d) dst) src)
      | Some (Nstr _) \<Rightarrow> None
      | None \<Rightarrow>
          (case merge_config_tree_into_node [] sub of
             None \<Rightarrow> None
           | Some d \<Rightarrow> merge_config_tree_into_node (dst @ [(name, Nlist d)]) src))"
| "merge_config_tree_into_node dst ((name, Nstr v) # src) =
     merge_config_tree_into_node
       (if nvlist_exists dst name then nvlist_replace dst name (Nstr v) else dst @ [(name, Nstr v)]) src"

section \<open>The tree as a map from paths to values\<close>

fun value_at :: "nvlist \<Rightarrow> string list \<Rightarrow> string option" where
  "value_at nvl [] = None"
| "value_at nvl [name] = get_string nvl name"
| "value_at nvl (name # m # rest) =
     (if name = [] then None
      else case map_of nvl name of Some (Nlist sub) \<Rightarrow> value_at sub (m # rest) | _ \<Rightarrow> None)"

fun set_at :: "nvlist \<Rightarrow> string list \<Rightarrow> string \<Rightarrow> nvlist option" where
  "set_at nvl [] v = None"
| "set_at nvl [name] v = set_config_value_node nvl name v"
| "set_at nvl (name # m # rest) v =
     (if name = [] then None
      else case map_of nvl name of
          Some (Nlist sub) \<Rightarrow> map_option (\<lambda>s. AList.update name (Nlist s) nvl) (set_at sub (m # rest) v)
        | Some (Nstr _) \<Rightarrow> None
        | None \<Rightarrow> map_option (\<lambda>s. nvl @ [(name, Nlist s)]) (set_at [] (m # rest) v))"

lemma split_path_not_Nil [simp]: "split_path s \<noteq> []"
  by (induction s) (auto split: list.splits)

lemma split_path_inj: "split_path p = split_path q \<Longrightarrow> p = q"
proof (induction p arbitrary: q)
  case Nil
  then show ?case by (cases q) (auto split: list.splits if_splits)
next
  case (Cons c cs)
  obtain p ps where s: "split_path cs = p # ps" by (cases "split_path cs") auto
  obtain d ds where q: "q = d # ds" using Cons.prems s by (cases q) (auto split: if_splits)
  obtain r rs where t: "split_path ds = r # rs" by (cases "split_path ds") auto
  have "c = d \<and> split_path cs = split_path ds" using Cons.prems s t q by (auto split: if_splits)
  then show ?case using Cons.IH q by blast
qed

lemma map_of_snoc: "map_of nvl k = None \<Longrightarrow> map_of (nvl @ [(k, x)]) = (map_of nvl)(k \<mapsto> x)"
  by (auto simp: map_add_def fun_eq_iff split: option.splits)

lemma update_snoc: "map_of nvl k = None \<Longrightarrow> AList.update k x (nvl @ [(k, y)]) = nvl @ [(k, x)]"
  by (induction nvl) (auto split: if_splits)

lemma lookup_find: "lookup_config_node False nvl p = (nvl, node_at nvl p \<noteq> None \<and> [] \<notin> set p)"
proof (induction p arbitrary: nvl)
  case (Cons name rest)
  show ?case
  proof (cases "map_of nvl name")
    case (Some x)
    then show ?thesis using Cons.IH by (cases x) (auto simp: update_triv)
  qed auto
qed simp

lemma raw_value_at: "get_raw_config_value root path = value_at root (split_path path)"
proof -
  have g: "p \<noteq> [] \<Longrightarrow> (if butlast p = [] then get_string nvl (last p)
      else if node_at nvl (butlast p) \<noteq> None \<and> [] \<notin> set (butlast p)
        then (case node_at nvl (butlast p) of None \<Rightarrow> None | Some n \<Rightarrow> get_string n (last p)) else None) = value_at nvl p" for p nvl
  proof (induction nvl p rule: value_at.induct)
    case (3 nvl name m rest)
    show ?case
    proof (cases "map_of nvl name")
      case (Some x)
      then show ?thesis using "3.IH" by (cases x) (auto split: if_splits)
    qed auto
  qed auto
  show ?thesis
    using g [of "split_path path" root] by (auto simp: get_raw_config_value_def lookup_find Let_def split: if_splits)
qed

lemma set_value_at: "set_config_value root path v = set_at root (split_path path) v"
proof -
  have g: "p \<noteq> [] \<Longrightarrow>
      (case lookup_config_node True nvl (butlast p) of
        (root, ok) \<Rightarrow>
          if \<not> ok then None
          else case node_at root (butlast p) of
              None \<Rightarrow> None
            | Some n \<Rightarrow> (case set_config_value_node n (last p) v of None \<Rightarrow> None
                | Some n \<Rightarrow> Some (update_at root (butlast p) n))) = set_at nvl p v" for p nvl
  proof (induction nvl p v rule: set_at.induct)
    case (3 nvl name m rest v)
    define p where "p = m # rest"
    have b: "butlast (name # m # rest) = name # butlast p" "last (name # m # rest) = last p" "p \<noteq> []" by (simp_all add: p_def)
    have st: "set_at nvl (name # m # rest) v =
       (if name = [] then None
        else case map_of nvl name of
            Some (Nlist sub) \<Rightarrow> map_option (\<lambda>s. AList.update name (Nlist s) nvl) (set_at sub p v)
          | Some (Nstr _) \<Rightarrow> None
          | None \<Rightarrow> map_option (\<lambda>s. nvl @ [(name, Nlist s)]) (set_at [] p v))"
      unfolding p_def by (rule set_at.simps(3))
    show ?case
    proof (cases "map_of nvl name")
      case None
      obtain r ok where r: "lookup_config_node True [] (butlast p) = (r, ok)" by fastforce
      have ih: "name \<noteq> [] \<Longrightarrow> (if \<not> ok then None else case node_at r (butlast p) of None \<Rightarrow> None
          | Some n \<Rightarrow> (case set_config_value_node n (last p) v of None \<Rightarrow> None
              | Some n \<Rightarrow> Some (update_at r (butlast p) n))) = set_at [] p v"
        using "3.IH"(1) [OF _ None] r b(3) unfolding p_def [symmetric] by simp
      show ?thesis
        unfolding b st using ih [symmetric] None r map_of_snoc [OF None] update_snoc [OF None] by (auto split: option.splits)
    next
      case (Some x)
      show ?thesis
      proof (cases x)
        case (Nlist sub)
        obtain r ok where r: "lookup_config_node True sub (butlast p) = (r, ok)" by fastforce
        have ih: "name \<noteq> [] \<Longrightarrow> (if \<not> ok then None else case node_at r (butlast p) of None \<Rightarrow> None
            | Some n \<Rightarrow> (case set_config_value_node n (last p) v of None \<Rightarrow> None
                | Some n \<Rightarrow> Some (update_at r (butlast p) n))) = set_at sub p v"
          using "3.IH"(2) [OF _ Some Nlist] r b(3) unfolding p_def [symmetric] by simp
        show ?thesis
          unfolding b st using ih [symmetric] Some Nlist r by (auto simp: update_conv' split: option.splits)
      qed (use Some in \<open>simp add: b st\<close>)
    qed
  qed (auto split: option.splits)
  have "(if butlast p = [] then (root, True) else lookup_config_node True root (butlast p)) =
      lookup_config_node True root (butlast p)" for p by simp
  then show ?thesis using g [of "split_path path" root] by (simp add: set_config_value_def Let_def)
qed

lemma set_at_value:
  "set_at nvl p v = Some nvl' \<Longrightarrow> value_at nvl' p = Some v \<and> (q \<noteq> p \<longrightarrow> value_at nvl' q = value_at nvl q)"
proof (induction nvl p v arbitrary: nvl' q rule: set_at.induct)
  case (2 nvl name v)
  then have m: "map_of nvl' = (map_of nvl)(name \<mapsto> Nstr v)" "\<And>s. map_of nvl name \<noteq> Some (Nlist s)"
    by (auto simp: set_config_value_node_def nvlist_exists_string_def nvlist_exists_def map_add_def fun_eq_iff
        split: if_splits option.splits nv.splits)
  have "q \<noteq> [name] \<Longrightarrow> value_at nvl' q = value_at nvl q"
    by (cases "(nvl, q)" rule: value_at.cases) (use m in \<open>auto simp: get_string_def split: option.splits nv.splits\<close>)
  then show ?case using m by (simp add: get_string_def)
next
  case (3 nvl name m rest v)
  obtain sub s where s: "set_at sub (m # rest) v = Some s" "name \<noteq> []" "map_of nvl' = (map_of nvl)(name \<mapsto> Nlist s)"
    and n: "map_of nvl name = Some (Nlist sub) \<or> map_of nvl name = None \<and> sub = []"
    and ih: "\<And>q. value_at s (m # rest) = Some v \<and> (q \<noteq> m # rest \<longrightarrow> value_at s q = value_at sub q)"
  proof (cases "map_of nvl name")
    case None
    then show thesis
      using "3.prems" "3.IH"(1) [OF _ None] that [of "[]"] map_of_snoc [OF None] by (auto split: if_splits)
  next
    case (Some x)
    then show thesis
      using "3.prems" "3.IH"(2) that by (cases x) (auto simp: update_conv' split: if_splits)
  qed
  have empty: "value_at [] r = None" for r by (cases "([]::nvlist, r)" rule: value_at.cases) (auto simp: get_string_def)
  have "q \<noteq> name # m # rest \<Longrightarrow> value_at nvl' q = value_at nvl q"
    by (cases "(nvl, q)" rule: value_at.cases) (use s n ih empty in \<open>auto simp: get_string_def split: option.splits nv.splits\<close>)
  then show ?case using s ih by simp
qed simp

section \<open>Merging trees\<close>

fun nv_unique :: "nvlist \<Rightarrow> bool" where
  "nv_unique [] = True"
| "nv_unique ((name, Nlist sub) # nvl) = (name \<notin> fst ` set nvl \<and> nv_unique sub \<and> nv_unique nvl)"
| "nv_unique ((name, Nstr v) # nvl) = (name \<notin> fst ` set nvl \<and> nv_unique nvl)"

text \<open>A string of the second tree takes the place of everything below its name.\<close>

fun hidden_by :: "nvlist \<Rightarrow> string list \<Rightarrow> bool" where
  "hidden_by src (name # m # rest) =
     (case map_of src name of None \<Rightarrow> False | Some (Nstr _) \<Rightarrow> True | Some (Nlist sub) \<Rightarrow> hidden_by sub (m # rest))"
| "hidden_by src p = False"

definition overlaid :: "nvlist \<Rightarrow> nvlist \<Rightarrow> string list \<Rightarrow> string option" where
  "overlaid dst src p =
     (case value_at src p of Some v \<Rightarrow> Some v | None \<Rightarrow> if hidden_by src p then None else value_at dst p)"

lemma value_at_nil [simp]: "value_at [] p = None"
  by (cases "([]::nvlist, p)" rule: value_at.cases) (auto simp: get_string_def)

lemma hidden_by_nil [simp]: "\<not> hidden_by [] p"
  by (cases "([]::nvlist, p)" rule: hidden_by.cases) auto

lemma overlaid_Cons_other:
  "hd p \<noteq> name \<Longrightarrow> overlaid dst ((name, x) # src) p = overlaid dst src p"
  unfolding overlaid_def
  by (cases "(src, p)" rule: value_at.cases) (auto simp: get_string_def)

lemma overlaid_unmentioned:
  "map_of src (hd p) = None \<Longrightarrow> overlaid dst src p = value_at dst p"
  unfolding overlaid_def
  by (cases "(src, p)" rule: value_at.cases) (auto simp: get_string_def)

lemma value_at_cong: "map_of a (hd p) = map_of b (hd p) \<Longrightarrow> value_at a p = value_at b p"
  by (cases "(a, p)" rule: value_at.cases) (auto simp: get_string_def)

lemma overlaid_cong: "map_of a (hd p) = map_of b (hd p) \<Longrightarrow> overlaid a src p = overlaid b src p"
  unfolding overlaid_def using value_at_cong [of a p b] by (simp split: option.splits)

lemma merge_values:
  "merge_config_tree_into_node dst src = Some dst' \<Longrightarrow> nv_unique src \<Longrightarrow> value_at dst' p = overlaid dst src p"
proof (induction dst src arbitrary: dst' p rule: merge_config_tree_into_node.induct)
  case (1 dst)
  then show ?case by (simp add: overlaid_def)
next
  case (2 dst name sub src)
  have u: "map_of src name = None" "nv_unique src" "nv_unique sub" using "2.prems"(2) by (auto simp: map_of_eq_None_iff)
  obtain d d' t where d: "merge_config_tree_into_node d sub = Some d'" "merge_config_tree_into_node t src = Some dst'"
    "map_of t = (map_of dst)(name \<mapsto> Nlist d')" "map_of dst name = Some (Nlist d) \<or> map_of dst name = None \<and> d = []"
    and sub: "\<And>p. value_at d' p = overlaid d sub p" and rest: "\<And>p. value_at dst' p = overlaid t src p"
  proof (cases "map_of dst name")
    case None
    with "2.prems"(1) obtain d' where m: "merge_config_tree_into_node [] sub = Some d'"
      "merge_config_tree_into_node (dst @ [(name, Nlist d')]) src = Some dst'" by (auto split: option.splits)
    from that [OF m map_of_snoc [OF None]] "2.IH"(2) [OF None m(1) m(2) u(2)] "2.IH"(1) [OF None m(1) u(3)] None
    show thesis by blast
  next
    case (Some x)
    with "2.prems"(1) obtain d d' where m: "x = Nlist d" "merge_config_tree_into_node d sub = Some d'"
      "merge_config_tree_into_node (AList.update name (Nlist d') dst) src = Some dst'"
      by (auto split: option.splits nv.splits)
    from that [OF m(2,3) update_conv'] "2.IH"(4) [OF Some m(1,2) m(3) u(2)] "2.IH"(3) [OF Some m(1,2) u(3)] Some m(1)
    show thesis by blast
  qed
  show ?case
  proof (cases "hd p = name")
    case False
    then show ?thesis
      using rest [of p] overlaid_cong [of t p dst src] overlaid_Cons_other [OF False] d(3) by simp
  next
    case True
    then have "value_at dst' p = value_at t p" using rest [of p] overlaid_unmentioned [of src p t] u(1) by simp
    also have "\<dots> = overlaid dst ((name, Nlist sub) # src) p"
      unfolding overlaid_def
      by (cases "(t, p)" rule: value_at.cases) (use d(3,4) True sub in \<open>auto simp: overlaid_def get_string_def split: option.splits\<close>)
    finally show ?thesis .
  qed
next
  case (3 dst name v src)
  let ?t = "if nvlist_exists dst name then nvlist_replace dst name (Nstr v) else dst @ [(name, Nstr v)]"
  have u: "map_of src name = None" "nv_unique src" using "3.prems"(2) by (auto simp: map_of_eq_None_iff)
  have t: "map_of ?t = (map_of dst)(name \<mapsto> Nstr v)" using map_of_snoc [of dst name] by (auto simp: nvlist_exists_def)
  have rest: "value_at dst' p = overlaid ?t src p" using "3.IH" "3.prems"(1) u(2) by simp
  show ?case
  proof (cases "hd p = name")
    case False
    then show ?thesis using rest overlaid_cong [of ?t p dst src] overlaid_Cons_other [OF False] t by simp
  next
    case True
    then have "value_at dst' p = value_at ?t p" using rest overlaid_unmentioned [of src p ?t] u(1) by simp
    also have "\<dots> = overlaid dst ((name, Nstr v) # src) p"
      unfolding overlaid_def
      by (cases "(?t, p)" rule: value_at.cases) (use t True in \<open>auto simp: get_string_def split: option.splits\<close>)
    finally show ?thesis .
  qed
qed

section \<open>Properties\<close>

text \<open>
  Property C29: a value that is set is the value that is read, and no other path is affected.  When
  setting a value succeeds, reading the path gives the value, every other path reads as before
  although nodes were created on the way, and a value without references is read unchanged.
\<close>

theorem config_set_get:
  assumes "set_config_value root path v = Some root'"
  shows "get_raw_config_value root' path = Some v \<and>
    (\<forall>q. q \<noteq> path \<longrightarrow> get_raw_config_value root' q = get_raw_config_value root q) \<and>
    (CHR ''%'' \<notin> set v \<longrightarrow> get_config_value root' path = Some v)"
proof -
  have s: "set_at root (split_path path) v = Some root'" using assms by (simp add: set_value_at)
  have "q \<noteq> path \<Longrightarrow> split_path q \<noteq> split_path path" for q using split_path_inj by blast
  with set_at_value [OF s] show ?thesis by (simp add: raw_value_at get_config_value_def expand_config_value_def)
qed

theorem config_set_get_witness:
  "get_raw_config_value (the (set_config_value [(''a'', Nlist [(''x'', Nstr ''1'')])] ''a.b.c'' ''2'')) ''a.b.c'' = Some ''2'' \<and>
   get_raw_config_value (the (set_config_value [(''a'', Nlist [(''x'', Nstr ''1'')])] ''a.b.c'' ''2'')) ''a.x'' = Some ''1''"
proof -
  let ?r = "[(''a'', Nlist [(''x'', Nstr ''1'')])]"
  have s: "set_config_value ?r ''a.b.c'' ''2'' =
      Some [(''a'', Nlist [(''x'', Nstr ''1''), (''b'', Nlist [(''c'', Nstr ''2'')])])]" by code_simp
  have "get_raw_config_value ?r ''a.x'' = Some ''1''" by code_simp
  with config_set_get [OF s] show ?thesis by (simp add: s)
qed

text \<open>
  Property C30: merging overlays one tree on another.  When the merge succeeds, every path reads as
  in the second tree if it has a value there, as nothing if the second tree has a string above it,
  and as in the first tree otherwise.  It does not succeed when a node of the second tree meets a
  string of the first.
\<close>

theorem merge_overlays:
  assumes "merge_config_tree_into_node dst src = Some dst'" "nv_unique src"
  shows "get_raw_config_value dst' q =
    (case get_raw_config_value src q of Some v \<Rightarrow> Some v
     | None \<Rightarrow> if hidden_by src (split_path q) then None else get_raw_config_value dst q)"
  unfolding raw_value_at using merge_values [OF assms] unfolding overlaid_def .

theorem merge_overlays_witness:
  "get_raw_config_value (the (merge_config_tree_into_node [(''a'', Nlist [(''x'', Nstr ''1''), (''y'', Nstr ''2'')])]
     [(''a'', Nlist [(''y'', Nstr ''3'')])])) ''a.x'' = Some ''1''"
proof -
  let ?d = "[(''a'', Nlist [(''x'', Nstr ''1''), (''y'', Nstr ''2'')])]" and ?s = "[(''a'', Nlist [(''y'', Nstr ''3'')])]"
  have m: "merge_config_tree_into_node ?d ?s = Some [(''a'', Nlist [(''x'', Nstr ''1''), (''y'', Nstr ''3'')])]" by code_simp
  have u: "nv_unique ?s" by code_simp
  have v: "get_raw_config_value ?s ''a.x'' = None" "\<not> hidden_by ?s (split_path ''a.x'')"
    "get_raw_config_value ?d ''a.x'' = Some ''1''" by code_simp+
  from merge_overlays [OF m u, of "''a.x''"] v show ?thesis by (simp only: m option.sel option.case if_False)
qed

end
