(* ===== verification/Spec2Isabelle.thy ===== *)
theory Spec2Isabelle
  imports Crc32c Tool_Create Mem_Map Virtio_Block Virtio_Legacy Uart_Ns16550 Uart_Pl011 Rtc_Pl031 Qemu_Loader Config_Tree
begin

text \<open>
  A verification library for the Scorpi hypervisor: the storage path, from the virtqueue of a
  guest to the image files on the host, and beside it the serial ports, the clock, the
  firmware configuration device and the configuration tree.

  \<^bold>\<open>The program.\<close>  A guest disk is a \<^emph>\<open>chain\<close> of image files.  The block device calls
  \<^verbatim>\<open>src/scorpi_image_chain.c\<close>, which reads each byte from the first layer that stores it and
  writes only the top layer, completing clusters from the layers below when it must.  A layer
  is reached through an operation table (\<^verbatim>\<open>src/scorpi_image.h\<close>) of a backend that the registry
  (\<^verbatim>\<open>src/scorpi_image.c\<close>) finds by probing: raw files (\<^verbatim>\<open>src/scorpi_image_raw.c\<close>), read-only QCOW2 images
  (\<^verbatim>\<open>src/scorpi_image_qcow2.c\<close>) and SCO images (\<^verbatim>\<open>src/scorpi_image_sco.c\<close>), a sparse format whose two superblocks and two-slot table entries
  are committed by checksummed writes (\<^verbatim>\<open>src/scorpi_crc32c.c\<close>) and flushes.  The location of a
  base image is a \<open>file:\<close> URI that \<^verbatim>\<open>src/scorpi_image_uri.c\<close> resolves under a policy.

  Above the chain, the guest programs a VirtIO device through registers and rings in its own
  memory (\<^verbatim>\<open>src/virtio.c\<close>, \<^verbatim>\<open>include/virtio.h\<close>); an access to a device register reaches its handler
  through the range trees of \<^verbatim>\<open>src/mem.c\<close>.  A chain of descriptors becomes a scatter-gather vector
  (\<^verbatim>\<open>src/iov.c\<close>), a device turns it into a request, and the queues and workers of
  \<^verbatim>\<open>src/block_if.c\<close> carry the request out on the image chain.

  Beside the storage path, the serial ports \<^verbatim>\<open>src/uart_emul.c\<close> and \<^verbatim>\<open>src/uart_pl011.c\<close> share the ring
  and the host side of \<^verbatim>\<open>src/uart_backend.c\<close>, and \<^verbatim>\<open>src/rtc_pl031.c\<close> is the clock of ARM machines; their
  registers are reached through the memory map too.  The firmware of a guest reads named files from
  \<^verbatim>\<open>src/qemu_fwcfg.c\<close>, one of them the script of commands that \<^verbatim>\<open>src/qemu_loader.c\<close> builds.
  All parts take their options from the tree of \<^verbatim>\<open>src/config.c\<close>.

  \<^bold>\<open>The theories.\<close>
  \<^item> \<open>Prelude\<close>: results with error numbers, 64-bit arithmetic with the wrap-around written out
    (\<open>add64\<close>, \<open>sub64\<close>, \<open>mul64\<close>), sequencing of calls that return a state and a result
    (\<open>and_then\<close>), buffers and byte stores.
  \<^item> \<open>Endian\<close>: the codecs of \<^verbatim>\<open>include/scorpi/protocol/endian.h\<close>.
  \<^item> \<open>Host_File\<close>: the host file a descriptor refers to, its bytes, its size and a script of the
    failures and short transfers the host will produce; \<open>pread\<close>, \<open>pwrite\<close>, \<open>fsync\<close>,
    \<open>ftruncate\<close>, hole punching, and the retry loops \<open>read_exact\<close> and \<open>write_exact\<close>.
  \<^item> \<open>Crc32c\<close>: the three implementations of the checksum and their equality.
  \<^item> \<open>Image_Types\<close>: information, extents, operation tables, the registry, and the contract of a
    backend as the locales \<open>image_backend\<close>, \<open>image_backend_safe\<close> and \<open>image_backend_rw\<close>.
  \<^item> \<open>Image_Raw\<close>: the raw backend and its interpretation of the contract.
  \<^item> \<open>Sco_Format\<close>, \<open>Sco_Image\<close>: the on-disk format and every operation of the SCO backend;
    \<open>Sco_Data\<close>: its invariant and the effect of allocation and commit;
    \<open>Sco_Ops\<close>: reads, writes and discards against the content of an image, the interpretation
    of the contract, and progress on a host that does not fail.
  \<^item> \<open>Image_Uri\<close>: normalisation of paths and the location policy.
  \<^item> \<open>Image_Chain\<close>: every operation of the chain; \<open>Chain_Overlay\<close>: the content of a chain, the
    locales \<open>image_layers\<close> and \<open>image_layers_rw\<close> with what the chain relies on of its layers,
    and the refinement proofs; \<open>Image_Layers\<close>: the operation tables of the backends and the
    interpretation of those locales on them.
  \<^item> \<open>Image_Qcow2\<close>: every operation of the QCOW2 backend with its two caches, the content the
    tables of a file define, and the interpretation of \<open>image_backend\<close>.
  \<^item> \<open>Sco_Open\<close>: opening an SCO image establishes its invariant.
  \<^item> \<open>Image_Tool\<close>: the commands of \<^verbatim>\<open>src/scorpi_image_tool.c\<close>, which create, seal, check and
    squash images; \<open>Tool_Create\<close>: the layout a new image gets is valid, its encoders match the
    decoders of the backend, and the new image opens empty.
  \<^item> \<open>Iov\<close>: scatter-gather vectors, as the list of addresses they stand for.
  \<^item> \<open>Mem_Map\<close>: the search trees of \<^verbatim>\<open>include/support/tree.h\<close>, registration and removal of address
    ranges, and the dispatch of guest accesses with its per-CPU hint.
  \<^item> \<open>Virtio_Queue\<close>: translation of guest addresses, the walk over a descriptor chain, the used
    ring and its notification, and the search of the legacy register table;
    \<open>Virtio_Config\<close>: the modern register interface, reset and queue set-up; \<open>Virtio_Legacy\<close>: the legacy
    one, where one page number places all three rings.
  \<^item> \<open>Block_Queue\<close>: the free, pending and busy queues of the block interface, as functions under
    its lock and as a step relation of submitting, cancelling and worker threads, and the disk
    geometry; \<open>Block_IO\<close>: what a worker does with a request on a chain of images.
  \<^item> \<open>Virtio_Block\<close>: the block device between the two, \<^verbatim>\<open>src/pci_virtio_block.c\<close>: chains become
    requests, answers become entries of the used ring.
  \<^item> \<open>Uart_Backend\<close>: the receive ring as a queue of characters, the locale \<open>char_queue\<close> with its
    interpretation, and what the host does to a port; \<open>Uart_Ns16550\<close> and \<open>Uart_Pl011\<close>: the registers
    and interrupts of the two ports, and the states they can reach.
  \<^item> \<open>Rtc_Pl031\<close>: the clock, its alarm and the timer it sets.
  \<^item> \<open>Qemu_Fwcfg\<close>: the items and the sorted directory of the firmware configuration device, its
    registers, and a guest that looks for a file; \<open>Qemu_Loader\<close>: the command script on top of it.
  \<^item> \<open>Config_Tree\<close>: nodes and values of the configuration, references between values, merging; the
    tree as a map from paths to values.

  \<^bold>\<open>State and operations.\<close>  A C structure is a record with the fields of the structure, an
  operation takes the state and returns the new state with its result, also when it fails,
  because the code updates the state in place.  Error numbers are the left summand of a
  result.  64-bit quantities are natural numbers; where the code can wrap, the model uses the
  wrapping operations.  Loops are recursive functions and every one is proved to terminate.
  Two loops have fuel: the tool's search for a cluster size has 32 rounds, after which a 32-bit
  value that is doubled in each round is zero, and the binary search of the register table has
  5, which is proved enough for every offset.  The walk over a descriptor chain needs none:
  the code's own limit of 512 descriptors is its measure.  The chain's write and discard loops test for an empty part, which the code does
  not, to be total; \<open>cluster_part_bounds\<close> shows the test is never met.

  \<^bold>\<open>What is shown.\<close>  The content of a layer maps each offset to the byte it stores or to
  nothing.  For SCO images: reads return the content, writes and discards change exactly the
  requested bytes on success and nothing else on any outcome, allocation never hands out a
  cluster in use, a failed commit changes nothing, opening any file establishes the invariant
  all of this rests on, an image the tool creates opens, encoders and decoders are inverse, a
  validated layout involves no wrap-around, and writes succeed when the host does not fail.
  For chains: a read returns the overlay of the layers with or without the cache; a write or
  discard changes exactly the requested bytes of the overlay and no base layer; squashing a
  chain copies its content; layers are raw, QCOW2 or SCO images.  For QCOW2 images: opening
  establishes the invariant and reads return the content whatever the caches hold; a failed
  decompression is shown to leave a cache that later returns wrong data.  For
  locations: the result is a normal form and lies in the allowed tree.

  For the device side: \<open>vq_getchain\<close> accepts exactly the well-formed chains of at most 512
  descriptors and always returns; used entries appear in order across the wrap-around of the
  index, and an event index is honoured exactly; register writes with 16-bit queue numbers stay
  in the queue array and in guest memory, and a wider one is shown not to; ranges in the memory
  map never overlap and an access reaches the range that owns the address.  In every
  interleaving each block request is in exactly one queue, a pending request never waits for
  nothing, and a request that succeeds moves exactly the bytes between its vector and the
  content of the image chain.  The block device handles every chain once and serves its queue
  until it is empty, and a write of the guest reaches the sectors its header names.

  A serial port is well-formed in every run and its loopback mode returns what was written; a
  poll of a listening port is shown to be able to delete its listener, and a PL011 without its
  FIFO never to report received data.  The alarm of the clock is raised exactly when the counter
  passes the match value, and the timer never expires too late for it.  A guest finds every file
  of the firmware configuration under its name, the script loads files before it patches them, and a
  wide read is shown to return host memory behind an item.  A configuration value that is set is read
  back and changes no other path, references end at a depth of 16, and a merge overlays one tree on
  another.

  \<^bold>\<open>Not modelled.\<close>  Memory allocation always succeeds.  Locks and tracing counters are left
  out: every public operation holds the lock of its object from the first access to the last.
  A descriptor is a value, so the model does not say when it is closed.  zlib is a parameter
  of the QCOW2 backend, the emulator of memory-access instructions one of the memory map, the
  callbacks of a device one of the register interface.  The search trees are modelled without
  the rotations that balance them.  The guest does not change a ring during one call that reads
  it.  Opening and closing of a block device, its threads as such, the MSI-X
  tables, terminal attributes and socket addresses of the serial ports, the other devices, the
  hypervisor bindings, networking, display, USB and firmware tables
  are outside this library.
\<close>

end
